(* ===== verification/Prelude.thy ===== *)
theory Prelude
  imports Complex_Main "HOL-Library.Multiset"
begin

text \<open>
  What every component of the development shares: the result type of fallible Rust code
  (\<open>Ok\<close>, \<open>Err\<close> and a panic as three separate values), the fixed-width unsigned
  arithmetic of a release build written out on \<^typ>\<open>nat\<close> (plain operators wrap, the
  \<open>saturating_*\<close> and \<open>div_ceil\<close> methods behave as documented by the standard library),
  Rust's \<open>Ordering\<close> with the stable \<open>slice::sort_by\<close>, and the generic list lemmas
  the component proofs use.
\<close>

named_theorems wrap_simps \<open>the wrapping operators where no overflow occurs\<close>
named_theorems res_simps \<open>inversion of the result monad\<close>

section \<open>Results and panics\<close>

datatype panic_kind = DivideByZero | ExpectFailed | IndexOutOfRange

datatype ('a, 'e) res = Ok 'a | Err 'e | Panic panic_kind

fun res_bind :: "('a, 'e) res \<Rightarrow> ('a \<Rightarrow> ('b, 'e) res) \<Rightarrow> ('b, 'e) res" where
  "res_bind (Ok x) f = f x"
| "res_bind (Err e) f = Err e"
| "res_bind (Panic k) f = Panic k"

lemma res_bind_Ok_iff [res_simps]:
  "res_bind m f = Ok y \<longleftrightarrow> (\<exists>x. m = Ok x \<and> f x = Ok y)"
  by (cases m) auto

lemma res_bind_Err_iff [res_simps]:
  "res_bind m f = Err e \<longleftrightarrow> m = Err e \<or> (\<exists>x. m = Ok x \<and> f x = Err e)"
  by (cases m) auto

lemma res_bind_Panic_iff [res_simps]:
  "res_bind m f = Panic k \<longleftrightarrow> m = Panic k \<or> (\<exists>x. m = Ok x \<and> f x = Panic k)"
  by (cases m) auto

lemma res_bind_cong [fundef_cong]:
  "m = m' \<Longrightarrow> (\<And>x. m' = Ok x \<Longrightarrow> f x = f' x) \<Longrightarrow> res_bind m f = res_bind m' f'"
  by (cases m') auto

text \<open>For evaluation: simplify the first computation before looking at the continuation.\<close>

lemma res_bind_weak_cong: "m = m' \<Longrightarrow> res_bind m f = res_bind m' f"
  by simp

text \<open>A \<open>for\<close> loop whose body may fail: the state threaded through the items in order.\<close>

fun fold_res :: "('s \<Rightarrow> 'a \<Rightarrow> ('s, 'e) res) \<Rightarrow> 's \<Rightarrow> 'a list \<Rightarrow> ('s, 'e) res" where
  "fold_res f s [] = Ok s"
| "fold_res f s (x # xs) = res_bind (f s x) (\<lambda>s'. fold_res f s' xs)"

lemma fold_res_append:
  "fold_res f s (xs @ ys) = res_bind (fold_res f s xs) (\<lambda>s'. fold_res f s' ys)"
proof (induction xs arbitrary: s)
  case (Cons x xs)
  then show ?case by (cases "f s x") simp_all
qed simp

text \<open>An invariant that mentions the items done so far carries a loop to its end.\<close>

lemma fold_res_invariant:
  assumes "I [] s" "\<And>ps x zs t. xs = ps @ x # zs \<Longrightarrow> I ps t \<Longrightarrow> \<exists>t'. f t x = Ok t' \<and> I (ps @ [x]) t'"
  shows "\<exists>t. fold_res f s xs = Ok t \<and> I xs t"
proof -
  have "\<exists>t. fold_res f s ys = Ok t \<and> I ys t" if "xs = ys @ zs" for ys zs
    using that
  proof (induction ys arbitrary: zs rule: rev_induct)
    case Nil
    then show ?case using assms(1) by simp
  next
    case (snoc y ys)
    then obtain t where t: "fold_res f s ys = Ok t" "I ys t" by fastforce
    have "xs = ys @ y # zs" using snoc.prems by simp
    from assms(2) [OF this t(2)] t(1) show ?case by (auto simp: fold_res_append)
  qed
  then show ?thesis by simp
qed

text \<open>\<open>Option::ok_or\<close>: a missing value becomes the given error.\<close>

definition ok_or :: "'a option \<Rightarrow> 'e \<Rightarrow> ('a, 'e) res" where
  "ok_or v e = (case v of Some x \<Rightarrow> Ok x | None \<Rightarrow> Err e)"

lemma ok_or_iffs [res_simps]:
  "ok_or v e = Ok x \<longleftrightarrow> v = Some x"
  "ok_or v e = Err d \<longleftrightarrow> v = None \<and> d = e"
  "ok_or v e \<noteq> Panic k"
  by (auto simp: ok_or_def split: option.splits)

section \<open>Unsigned machine integers\<close>

type_synonym u8 = nat
type_synonym u16 = nat
type_synonym u32 = nat
type_synonym u64 = nat
type_synonym u128 = nat
type_synonym usize = nat

abbreviation M32 :: nat where "M32 \<equiv> 4294967296"
abbreviation M64 :: nat where "M64 \<equiv> 18446744073709551616"
abbreviation M128 :: nat where "M128 \<equiv> 340282366920938463463374607431768211456"

definition u64_max :: u64 where "u64_max = 18446744073709551615"
definition u32_max :: u32 where "u32_max = 4294967295"

text \<open>The plain operators of a release build, which wrap.\<close>

definition add32 :: "u32 \<Rightarrow> u32 \<Rightarrow> u32" where "add32 a b = (a + b) mod M32"
definition sub32 :: "u32 \<Rightarrow> u32 \<Rightarrow> u32" where "sub32 a b = (a + M32 - b mod M32) mod M32"
definition add64 :: "u64 \<Rightarrow> u64 \<Rightarrow> u64" where "add64 a b = (a + b) mod M64"
definition sub64 :: "u64 \<Rightarrow> u64 \<Rightarrow> u64" where "sub64 a b = (a + M64 - b mod M64) mod M64"
definition mul64 :: "u64 \<Rightarrow> u64 \<Rightarrow> u64" where "mul64 a b = (a * b) mod M64"
definition mul128 :: "u128 \<Rightarrow> u128 \<Rightarrow> u128" where "mul128 a b = (a * b) mod M128"

text \<open>\<open>as u32\<close> and \<open>as u64\<close> on a wider unsigned value truncate.\<close>

definition as_u32 :: "nat \<Rightarrow> u32" where "as_u32 n = n mod M32"
definition as_u64 :: "nat \<Rightarrow> u64" where "as_u64 n = n mod M64"

text \<open>\<open>iter().sum()\<close> over unsigned integers.\<close>

definition sum32 :: "u32 list \<Rightarrow> u32" where "sum32 xs = sum_list xs mod M32"
definition sum64 :: "u64 list \<Rightarrow> u64" where "sum64 xs = sum_list xs mod M64"

text \<open>\<open>saturating_sub\<close>, \<open>saturating_add\<close>, \<open>saturating_mul\<close> and \<open>div_ceil\<close>.\<close>

definition sat_sub :: "nat \<Rightarrow> nat \<Rightarrow> nat" where "sat_sub a b = a - b"
definition sat_add64 :: "u64 \<Rightarrow> u64 \<Rightarrow> u64" where "sat_add64 a b = min (a + b) u64_max"
definition sat_mul64 :: "u64 \<Rightarrow> u64 \<Rightarrow> u64" where "sat_mul64 a b = min (a * b) u64_max"
definition div_ceil :: "nat \<Rightarrow> nat \<Rightarrow> nat" where
  "div_ceil a b = (if a mod b = 0 then a div b else a div b + 1)"

lemma add32_small [wrap_simps]: "a + b < M32 \<Longrightarrow> add32 a b = a + b"
  by (simp add: add32_def)

lemma add64_small [wrap_simps]: "a + b < M64 \<Longrightarrow> add64 a b = a + b"
  by (simp add: add64_def)

lemma sub_wrap_aux:
  fixes a b m :: nat
  assumes "b \<le> a" "a < m"
  shows "(a + m - b mod m) mod m = a - b"
proof -
  have "b mod m = b" using assms by simp
  then have "(a + m - b mod m) mod m = ((a - b) + m) mod m" using assms by simp
  also have "\<dots> = (a - b) mod m" by (rule mod_add_self2)
  also have "\<dots> = a - b" using assms by simp
  finally show ?thesis .
qed

lemma sub32_small [wrap_simps]: "b \<le> a \<Longrightarrow> a < M32 \<Longrightarrow> sub32 a b = a - b"
  unfolding sub32_def by (rule sub_wrap_aux)

lemma sub64_small [wrap_simps]: "b \<le> a \<Longrightarrow> a < M64 \<Longrightarrow> sub64 a b = a - b"
  unfolding sub64_def by (rule sub_wrap_aux)

lemma mul64_small [wrap_simps]: "a * b < M64 \<Longrightarrow> mul64 a b = a * b"
  by (simp add: mul64_def)

lemma mul128_small [wrap_simps]: "a * b < M128 \<Longrightarrow> mul128 a b = a * b"
  by (simp add: mul128_def)

lemma as_u32_small [wrap_simps]: "a < M32 \<Longrightarrow> as_u32 a = a"
  by (simp add: as_u32_def)

lemma as_u64_small [wrap_simps]: "a < M64 \<Longrightarrow> as_u64 a = a"
  by (simp add: as_u64_def)

lemma sum32_small [wrap_simps]: "sum_list xs < M32 \<Longrightarrow> sum32 xs = sum_list xs"
  by (simp add: sum32_def)

lemma sum64_small [wrap_simps]: "sum_list xs < M64 \<Longrightarrow> sum64 xs = sum_list xs"
  by (simp add: sum64_def)

lemma wrap_bounds [simp]:
  "add32 a b < M32" "sub32 a b < M32" "add64 a b < M64" "sub64 a b < M64"
  "mul64 a b < M64" "as_u32 a < M32" "as_u64 a < M64" "sum32 xs < M32" "sum64 xs < M64"
  by (simp_all add: add32_def sub32_def add64_def sub64_def mul64_def as_u32_def as_u64_def
      sum32_def sum64_def)

lemma div_ceil_mult_ge:
  assumes "0 < b"
  shows "a \<le> div_ceil a b * b"
proof -
  have eq: "a div b * b + a mod b = a" by simp
  have lt: "a mod b < b" using assms by simp
  show ?thesis
  proof (cases "a mod b = 0")
    case True
    with eq show ?thesis by (simp add: div_ceil_def)
  next
    case False
    have "(a div b + 1) * b = a div b * b + b" by simp
    with False eq lt have "a \<le> (a div b + 1) * b" by linarith
    with False show ?thesis by (simp add: div_ceil_def)
  qed
qed

lemma div_ceil_mult_less:
  assumes "0 < b"
  shows "div_ceil a b * b < a + b"
proof (cases "a mod b = 0")
  case True
  then have "a div b * b = a" by (metis add.right_neutral div_mult_mod_eq)
  with True assms show ?thesis by (simp add: div_ceil_def)
next
  case False
  have "a div b * b + a mod b = a" by simp
  with False have "a div b * b < a" by linarith
  with False show ?thesis by (simp add: div_ceil_def)
qed

section \<open>Ordering and the stable sort\<close>

datatype ordering = Less | Equal | Greater

fun ord_then :: "ordering \<Rightarrow> ordering \<Rightarrow> ordering" where
  "ord_then Equal o2 = o2"
| "ord_then o1 o2 = o1"

definition cmp :: "'a::linorder \<Rightarrow> 'a \<Rightarrow> ordering" where
  "cmp a b = (if a < b then Less else if a = b then Equal else Greater)"

text \<open>
  \<open>slice::sort_by\<close> is a stable sort: an element moves in front of a later one only when
  the comparison says \<open>Greater\<close>.
\<close>

fun insert_by :: "('a \<Rightarrow> 'a \<Rightarrow> ordering) \<Rightarrow> 'a \<Rightarrow> 'a list \<Rightarrow> 'a list" where
  "insert_by c x [] = [x]"
| "insert_by c x (y # ys) = (if c x y = Greater then y # insert_by c x ys else x # y # ys)"

fun sort_by :: "('a \<Rightarrow> 'a \<Rightarrow> ordering) \<Rightarrow> 'a list \<Rightarrow> 'a list" where
  "sort_by c [] = []"
| "sort_by c (x # xs) = insert_by c x (sort_by c xs)"

lemma mset_insert_by [simp]: "mset (insert_by c x ys) = add_mset x (mset ys)"
  by (induction ys) auto

lemma mset_sort_by [simp]: "mset (sort_by c xs) = mset xs"
  by (induction xs) auto

lemma set_sort_by [simp]: "set (sort_by c xs) = set xs"
  by (metis mset_sort_by set_mset_mset)

lemma length_sort_by [simp]: "length (sort_by c xs) = length xs"
  by (metis mset_sort_by size_mset)

lemma distinct_sort_by [simp]: "distinct (sort_by c xs) = distinct xs"
  by (metis mset_sort_by mset_eq_imp_distinct_iff)

lemma sorted_wrt_insert_by:
  assumes total: "\<And>a b. c a b = Greater \<Longrightarrow> c b a \<noteq> Greater"
    and trans: "\<And>a b d. c a b \<noteq> Greater \<Longrightarrow> c b d \<noteq> Greater \<Longrightarrow> c a d \<noteq> Greater"
    and "sorted_wrt (\<lambda>a b. c a b \<noteq> Greater) ys"
  shows "sorted_wrt (\<lambda>a b. c a b \<noteq> Greater) (insert_by c x ys)"
  using assms(3)
proof (induction ys)
  case Nil
  then show ?case by simp
next
  case (Cons y ys)
  have s: "set (insert_by c x ys) = insert x (set ys)"
    by (metis mset_insert_by set_mset_add_mset_insert set_mset_mset)
  show ?case
  proof (cases "c x y = Greater")
    case True
    then have "c y x \<noteq> Greater" by (rule total)
    with Cons True s show ?thesis by auto
  next
    case False
    with Cons trans [of x y] show ?thesis by auto
  qed
qed

lemma sorted_wrt_sort_by:
  assumes "\<And>a b. c a b = Greater \<Longrightarrow> c b a \<noteq> Greater"
    and "\<And>a b d. c a b \<noteq> Greater \<Longrightarrow> c b d \<noteq> Greater \<Longrightarrow> c a d \<noteq> Greater"
  shows "sorted_wrt (\<lambda>a b. c a b \<noteq> Greater) (sort_by c xs)"
proof (induction xs)
  case Nil
  then show ?case by simp
next
  case (Cons x xs)
  have "sorted_wrt (\<lambda>a b. c a b \<noteq> Greater) (insert_by c x (sort_by c xs))"
    by (rule sorted_wrt_insert_by [OF assms Cons.IH])
  then show ?case by simp
qed

lemma cmp_Greater_iff [simp]: "cmp a b = Greater \<longleftrightarrow> b < a"
  by (auto simp: cmp_def)

lemma cmp_Equal_iff [simp]: "cmp a b = Equal \<longleftrightarrow> a = b"
  by (auto simp: cmp_def)

lemma ord_then_Greater_iff:
  "ord_then a b = Greater \<longleftrightarrow> a = Greater \<or> a = Equal \<and> b = Greater"
  by (cases a) auto

section \<open>Lists\<close>

text \<open>\<open>slice::windows(2)\<close>.\<close>

fun windows2 :: "'a list \<Rightarrow> ('a \<times> 'a) list" where
  "windows2 (x # y # zs) = (x, y) # windows2 (y # zs)"
| "windows2 _ = []"

lemma length_windows2 [simp]: "length (windows2 xs) = length xs - 1"
  by (induction xs rule: windows2.induct) auto

lemma sum_list_update_nat:
  fixes xs :: "nat list"
  assumes "i < length xs"
  shows "sum_list (xs[i := v]) = sum_list xs - xs ! i + v"
  using assms member_le_sum_list [of "xs ! i" xs]
  by (simp add: sum_list_update)

lemma sum_list_inc:
  fixes xs :: "nat list"
  assumes "i < length xs"
  shows "sum_list (xs[i := Suc (xs ! i)]) = Suc (sum_list xs)"
  using assms member_le_sum_list [of "xs ! i" xs] by (simp add: sum_list_update)

lemma sum_list_pointwise_le:
  fixes xs ys :: "nat list"
  assumes "list_all2 (\<le>) xs ys"
  shows "sum_list xs \<le> sum_list ys"
  using assms by (induction rule: list_all2_induct) auto

lemma sum_list_pos_ex:
  fixes xs ys :: "nat list"
  assumes "length xs = length ys" "sum_list xs < sum_list ys"
  shows "\<exists>i<length xs. xs ! i < ys ! i"
proof (rule ccontr)
  assume "\<not> ?thesis"
  then have "ys ! i \<le> xs ! i" if "i < length ys" for i
    using assms(1) that by (metis not_le)
  then have "list_all2 (\<le>) ys xs"
    using assms(1) by (simp add: list_all2_conv_all_nth)
  from sum_list_pointwise_le [OF this] assms(2) show False by simp
qed

lemma elem_le_sum_list_nat:
  fixes xs :: "nat list"
  shows "i < length xs \<Longrightarrow> xs ! i \<le> sum_list xs"
  by (simp add: elem_le_sum_list)

text \<open>Picking distinct positions of a list picks a sub-multiset of it.\<close>

lemma mset_nth_subset:
  assumes "distinct is" "set is \<subseteq> {..<length xs}"
  shows "mset (map ((!) xs) is) \<subseteq># mset xs"
proof -
  have "mset_set (set is) \<subseteq># mset_set (set [0..<length xs])"
    using assms(2) by (intro subset_imp_msubset_mset_set) auto
  then have "mset is \<subseteq># mset [0..<length xs]"
    using assms(1) by (simp only: mset_set_set distinct_upt)
  then have "image_mset ((!) xs) (mset is) \<subseteq># image_mset ((!) xs) (mset [0..<length xs])"
    by (rule image_mset_subseteq_mono)
  then show ?thesis by (metis map_nth mset_map)
qed

lemma mset_filter_map_subset: "mset (map f (filter P xs)) \<subseteq># mset (map f xs)"
  by (simp add: image_mset_subseteq_mono multiset_filter_subset)

lemma sum_list_submset_le:
  fixes f :: "'a \<Rightarrow> nat"
  assumes "mset xs \<subseteq># mset ys"
  shows "sum_list (map f xs) \<le> sum_list (map f ys)"
proof -
  obtain C where "mset ys = mset xs + C" using assms by (metis mset_subset_eq_exists_conv)
  then have "sum_mset (image_mset f (mset ys)) = sum_mset (image_mset f (mset xs)) + sum_mset (image_mset f C)"
    by simp
  then show ?thesis by (simp flip: sum_mset_sum_list mset_map)
qed

lemma sum_list_map_mset_cong:
  fixes f :: "'a \<Rightarrow> nat"
  assumes "mset xs = mset ys"
  shows "sum_list (map f xs) = sum_list (map f ys)"
proof -
  have "sum_mset (image_mset f (mset xs)) = sum_mset (image_mset f (mset ys))" using assms by simp
  then show ?thesis by (simp only: sum_mset_sum_list flip: mset_map)
qed

lemma sum_list_filter_nonzero:
  fixes f :: "'a \<Rightarrow> nat"
  shows "sum_list (map f (filter (\<lambda>x. f x \<noteq> 0) xs)) = sum_list (map f xs)"
  by (induction xs) auto

section \<open>The first best element of a scan\<close>

text \<open>A scan that replaces its incumbent only by a strictly better element.\<close>

definition keep_best :: "('b \<Rightarrow> 'b \<Rightarrow> bool) \<Rightarrow> ('a \<Rightarrow> 'b) \<Rightarrow> 'b option \<Rightarrow> 'a \<Rightarrow> 'b option" where
  "keep_best better f best x = (case best of
     None \<Rightarrow> Some (f x)
   | Some b \<Rightarrow> if better (f x) b then Some (f x) else Some b)"

lemma keep_best_simps [simp]:
  "keep_best better f None x = Some (f x)"
  "keep_best better f (Some b) x = (if better (f x) b then Some (f x) else Some b)"
  by (simp_all add: keep_best_def)

lemma foldl_keep_best:
  assumes "\<And>a. \<not> better a a" "\<And>a b c. better a b \<Longrightarrow> better b c \<Longrightarrow> better a c" "xs \<noteq> []"
  shows "\<exists>x \<in> set xs. foldl (keep_best better f) None xs = Some (f x) \<and> (\<forall>y \<in> set xs. \<not> better (f y) (f x))"
  using assms(3)
proof (induction xs rule: rev_nonempty_induct)
  case (single x)
  then show ?case using assms(1) by simp
next
  case (snoc x xs)
  then obtain b where b: "b \<in> set xs" "foldl (keep_best better f) None xs = Some (f b)"
      "\<forall>y \<in> set xs. \<not> better (f y) (f b)" by blast
  show ?case
  proof (cases "better (f x) (f b)")
    case True
    with b assms(1,2) show ?thesis by (intro bexI [of _ x]) auto
  next
    case False
    with b show ?thesis by (intro bexI [of _ b]) auto
  qed
qed

end
