(* ===== verification/Proto.thy ===== *)
theory Proto
  imports Prelude
begin

unbundle bit_operations_syntax

text \<open>
  The wire types of \<open>onebrain-proto\<close> the rest of the development needs: placement plans
  (\<open>plan.rs\<close>), capability bits (\<open>capabilities.rs\<close>) and the handshake verdict
  (\<open>handshake.rs\<close>), with the tiling predicate that says what a well-formed plan is.
\<close>

section \<open>Plans\<close>

type_synonym NodeId = string

datatype Epoch = Epoch u64

fun epoch_no :: "Epoch \<Rightarrow> u64" where
  "epoch_no (Epoch n) = n"

record LayerRange =
  lr_start :: u32
  lr_end :: u32

definition LayerRange_len :: "LayerRange \<Rightarrow> u32" where
  "LayerRange_len r = sat_sub (lr_end r) (lr_start r)"

definition LayerRange_is_empty :: "LayerRange \<Rightarrow> bool" where
  "LayerRange_is_empty r = (lr_end r \<le> lr_start r)"

datatype Strategy = Solo | PipelineParallel

record Assignment =
  as_node :: NodeId
  as_layers :: LayerRange
  as_stage :: u32

record Plan =
  pl_epoch :: Epoch
  pl_model :: string
  pl_strategy :: Strategy
  pl_assignments :: "Assignment list"
  pl_ctx_len :: u32

section \<open>Capabilities\<close>

type_synonym Capabilities = u64

definition PIPELINE_PARALLEL :: u64 where "PIPELINE_PARALLEL = push_bit 0 1"
definition BLOB_SHARING :: u64 where "BLOB_SHARING = push_bit 1 1"
definition TENSOR_PARALLEL :: u64 where "TENSOR_PARALLEL = push_bit 2 1"
definition SPECULATIVE :: u64 where "SPECULATIVE = push_bit 3 1"
definition ACT_COMPRESSION :: u64 where "ACT_COMPRESSION = push_bit 4 1"
definition CLUSTER_BENCH :: u64 where "CLUSTER_BENCH = push_bit 5 1"

definition capabilities_current :: Capabilities where
  "capabilities_current = PIPELINE_PARALLEL OR BLOB_SHARING OR CLUSTER_BENCH"

definition supports :: "Capabilities \<Rightarrow> u64 \<Rightarrow> bool" where
  "supports c b = (c AND b \<noteq> 0)"

definition intersect :: "Capabilities \<Rightarrow> Capabilities \<Rightarrow> Capabilities" where
  "intersect a b = a AND b"

lemma supports_push_bit: "supports c (push_bit k 1) \<longleftrightarrow> bit c k"
  by (simp add: supports_def push_bit_eq_mult and_exp_eq_0_iff_not_bit)

section \<open>Handshake\<close>

record Hello =
  h_proto_version :: u16
  h_capabilities :: Capabilities
  h_engine_build :: string
  h_node_name :: string
  h_product_version :: string

datatype HandshakeVerdict =
    Compatible
  | ProtoMismatch u16 u16
  | EngineMismatch string string

definition judge :: "Hello \<Rightarrow> Hello \<Rightarrow> HandshakeVerdict" where
  "judge ours theirs =
     (if h_proto_version ours \<noteq> h_proto_version theirs
      then ProtoMismatch (h_proto_version ours) (h_proto_version theirs)
      else if h_engine_build ours \<noteq> h_engine_build theirs
      then EngineMismatch (h_engine_build ours) (h_engine_build theirs)
      else Compatible)"

section \<open>What a well-formed plan is\<close>

text \<open>
  The assignments of a plan tile the layers \<open>c ..< n\<close>: each range starts where the one
  before it ends, none is empty, and the stages are numbered from \<open>s\<close> on.
\<close>

fun tiles :: "nat \<Rightarrow> nat \<Rightarrow> nat \<Rightarrow> Assignment list \<Rightarrow> bool" where
  "tiles c s n [] = (c = n)"
| "tiles c s n (a # as) =
     (lr_start (as_layers a) = c \<and> c < lr_end (as_layers a) \<and> as_stage a = s
      \<and> tiles (lr_end (as_layers a)) (Suc s) n as)"

definition owns :: "Assignment \<Rightarrow> nat \<Rightarrow> bool" where
  "owns a l = (lr_start (as_layers a) \<le> l \<and> l < lr_end (as_layers a))"

lemma tiles_le: "tiles c s n as \<Longrightarrow> c \<le> n"
  by (induction as arbitrary: c s) fastforce+

lemma tiles_start_ge: "tiles c s n as \<Longrightarrow> a \<in> set as \<Longrightarrow> c \<le> lr_start (as_layers a)"
  by (induction as arbitrary: c s) fastforce+

lemma tiles_end_le: "tiles c s n as \<Longrightarrow> a \<in> set as \<Longrightarrow> lr_end (as_layers a) \<le> n"
  by (induction as arbitrary: c s) (auto dest: tiles_le)

lemma tiles_stage: "tiles c s n as \<Longrightarrow> i < length as \<Longrightarrow> as_stage (as ! i) = s + i"
proof (induction as arbitrary: c s i)
  case (Cons a as)
  then show ?case by (cases i) auto
qed simp

lemma tiles_snoc:
  "tiles c s n (as @ [a]) \<longleftrightarrow>
     tiles c s (lr_start (as_layers a)) as \<and> lr_start (as_layers a) < lr_end (as_layers a)
     \<and> as_stage a = s + length as \<and> lr_end (as_layers a) = n"
  by (induction as arbitrary: c s) auto

lemma tiles_sum_len:
  "tiles c s n as \<Longrightarrow> sum_list (map (LayerRange_len \<circ> as_layers) as) = n - c"
proof (induction as arbitrary: c s)
  case (Cons a as)
  from Cons.prems have t: "tiles (lr_end (as_layers a)) (Suc s) n as" by simp
  with tiles_le [OF t] Cons.IH [OF t] Cons.prems show ?case
    by (auto simp: LayerRange_len_def sat_sub_def)
qed simp

lemma tiles_unique_owner:
  assumes "tiles c s n as" "c \<le> l" "l < n"
  shows "\<exists>!i. i < length as \<and> owns (as ! i) l"
  using assms
proof (induction as arbitrary: c s)
  case Nil
  then show ?case by simp
next
  case (Cons a as)
  let ?e = "lr_end (as_layers a)"
  from Cons.prems have t: "tiles ?e (Suc s) n as" and a: "lr_start (as_layers a) = c" "c < ?e"
    by auto
  show ?case
  proof (cases "l < ?e")
    case True
    have later: "\<not> owns (as ! j) l" if "j < length as" for j
      using tiles_start_ge [OF t nth_mem [OF that]] True by (simp add: owns_def)
    show ?thesis
    proof (rule ex1I [of _ 0])
      show "0 < length (a # as) \<and> owns ((a # as) ! 0) l"
        using a True Cons.prems by (simp add: owns_def)
    next
      fix i
      assume "i < length (a # as) \<and> owns ((a # as) ! i) l"
      then show "i = 0" using later by (cases i) auto
    qed
  next
    case False
    then obtain j where j: "j < length as" "owns (as ! j) l"
        and u: "\<And>k. k < length as \<Longrightarrow> owns (as ! k) l \<Longrightarrow> k = j"
      using Cons.IH [OF t] Cons.prems by (auto simp: not_less)
    show ?thesis
    proof (rule ex1I [of _ "Suc j"])
      show "Suc j < length (a # as) \<and> owns ((a # as) ! Suc j) l" using j by simp
    next
      fix i
      assume "i < length (a # as) \<and> owns ((a # as) ! i) l"
      then show "i = Suc j" using False u by (cases i) (auto simp: owns_def)
    qed
  qed
qed

end
