(* ===== verification/Gguf.thy ===== *)
theory Gguf
  imports Prelude
begin

text \<open>
  The GGUF header parser of \<open>onebrain-models/src/gguf.rs\<close>. The input is a byte list and
  the \<open>Cursor\<close> is its position; every reader takes the bytes and a position and returns
  the value with the next position, or the \<open>GgufError\<close> of the source. A string is kept as
  its UTF-8 bytes, a float as its bit pattern, since nothing interprets either.

  The lemmas show that every reader stays inside the input, that a parse which does not ask
  for more data gives the same result on any longer input (so a header may be parsed from a
  prefix of the file), that the data section is aligned, and that the tensor ranges of a
  header tile the data section up to the end of the file.
\<close>

named_theorems reader_intros \<open>closure of well-behaved readers under the combinators\<close>

section \<open>Types\<close>

datatype malformed =
    LengthOverflow
  | TooManyDims
  | LongString
  | NotUtf8
  | NestedArrays
  | UnknownValueType
  | BadTensorOffsets
  | HeaderPastEnd

datatype GgufError =
    BadMagic
  | UnsupportedVersion u32
  | NeedMoreData u64
  | Malformed malformed

datatype MetaValue =
    MU8 nat | MI8 int | MU16 nat | MI16 int | MU32 nat | MI32 int | MF32 nat
  | MBool bool | MStr string | MU64 nat | MI64 int | MF64 nat
  | MArray "MetaValue list"

fun as_u64_value :: "MetaValue \<Rightarrow> u64 option" where
  "as_u64_value (MU8 v) = Some v"
| "as_u64_value (MU16 v) = Some v"
| "as_u64_value (MU32 v) = Some v"
| "as_u64_value (MU64 v) = Some v"
| "as_u64_value (MI8 v) = (if 0 \<le> v then Some (nat v) else None)"
| "as_u64_value (MI16 v) = (if 0 \<le> v then Some (nat v) else None)"
| "as_u64_value (MI32 v) = (if 0 \<le> v then Some (nat v) else None)"
| "as_u64_value (MI64 v) = (if 0 \<le> v then Some (nat v) else None)"
| "as_u64_value _ = None"

fun as_str :: "MetaValue \<Rightarrow> string option" where
  "as_str (MStr s) = Some s"
| "as_str _ = None"

record TensorInfo =
  ti_name :: string
  ti_dims :: "u64 list"
  ti_ggml_type :: u32
  ti_offset :: u64

record GgufHeader =
  g_version :: u32
  g_metadata :: "string \<rightharpoonup> MetaValue"
  g_tensors :: "TensorInfo list"
  g_header_len :: u64
  g_alignment :: u64
  g_data_offset :: u64

record TensorRange =
  tr_name :: string
  tr_start :: u64
  tr_end :: u64

definition GGUF_MAGIC :: u32 where "GGUF_MAGIC = 0x46554747"
definition GGUF_DEFAULT_ALIGNMENT :: u64 where "GGUF_DEFAULT_ALIGNMENT = 32"

definition T_U8 :: u32 where "T_U8 = 0"
definition T_I8 :: u32 where "T_I8 = 1"
definition T_U16 :: u32 where "T_U16 = 2"
definition T_I16 :: u32 where "T_I16 = 3"
definition T_U32 :: u32 where "T_U32 = 4"
definition T_I32 :: u32 where "T_I32 = 5"
definition T_F32 :: u32 where "T_F32 = 6"
definition T_BOOL :: u32 where "T_BOOL = 7"
definition T_STRING :: u32 where "T_STRING = 8"
definition T_ARRAY :: u32 where "T_ARRAY = 9"
definition T_U64 :: u32 where "T_U64 = 10"
definition T_I64 :: u32 where "T_I64 = 11"
definition T_F64 :: u32 where "T_F64 = 12"

lemmas type_ids = T_U8_def T_I8_def T_U16_def T_I16_def T_U32_def T_I32_def T_F32_def
  T_BOOL_def T_STRING_def T_ARRAY_def T_U64_def T_I64_def T_F64_def

section \<open>Readers\<close>

type_synonym 'a reader = "u8 list \<Rightarrow> usize \<Rightarrow> ('a \<times> usize, GgufError) res"

definition r_ret :: "'a \<Rightarrow> 'a reader" where
  "r_ret x bs pos = Ok (x, pos)"

definition r_fail :: "GgufError \<Rightarrow> 'a reader" where
  "r_fail e bs pos = Err e"

definition r_bind :: "'a reader \<Rightarrow> ('a \<Rightarrow> 'b reader) \<Rightarrow> 'b reader" where
  "r_bind p f bs pos = res_bind (p bs pos) (\<lambda>(x, pos'). f x bs pos')"

text \<open>\<open>for _ in 0..n\<close> pushing one item per round.\<close>

fun r_repeat :: "nat \<Rightarrow> 'a reader \<Rightarrow> 'a list reader" where
  "r_repeat 0 p = r_ret []"
| "r_repeat (Suc n) p = r_bind p (\<lambda>x. r_bind (r_repeat n p) (\<lambda>xs. r_ret (x # xs)))"

text \<open>\<open>from_le_bytes\<close>, unsigned and two's complement.\<close>

fun le_value :: "u8 list \<Rightarrow> nat" where
  "le_value [] = 0"
| "le_value (b # bs) = b + 256 * le_value bs"

definition signed_of :: "nat \<Rightarrow> nat \<Rightarrow> int" where
  "signed_of w v = (if v < 2 ^ (w - 1) then int v else int v - 2 ^ w)"

text \<open>\<open>String::from_utf8\<close>: well-formed UTF-8 byte sequences.\<close>

definition cont :: "u8 \<Rightarrow> bool" where "cont b = (128 \<le> b \<and> b \<le> 191)"

fun utf8_valid :: "u8 list \<Rightarrow> bool" where
  "utf8_valid [] = True"
| "utf8_valid (a # r) =
     (if a < 128 then utf8_valid r
      else if 194 \<le> a \<and> a \<le> 223 then
        (case r of b # r1 \<Rightarrow> cont b \<and> utf8_valid r1 | _ \<Rightarrow> False)
      else if 224 \<le> a \<and> a \<le> 239 then
        (case r of b # c # r2 \<Rightarrow>
           cont b \<and> cont c \<and> (a = 224 \<longrightarrow> 160 \<le> b) \<and> (a = 237 \<longrightarrow> b \<le> 159) \<and> utf8_valid r2
         | _ \<Rightarrow> False)
      else if 240 \<le> a \<and> a \<le> 244 then
        (case r of b # c # d # r3 \<Rightarrow>
           cont b \<and> cont c \<and> cont d \<and> (a = 240 \<longrightarrow> 144 \<le> b) \<and> (a = 244 \<longrightarrow> b \<le> 143)
           \<and> utf8_valid r3
         | _ \<Rightarrow> False)
      else False)"

definition take_bytes :: "nat \<Rightarrow> u8 list reader" where
  "take_bytes n bs pos =
     (if M64 \<le> pos + n then Err (Malformed LengthOverflow)
      else if length bs < pos + n
      then Err (NeedMoreData (max (pos + n) (mul64 (length bs) 2)))
      else Ok (take n (drop pos bs), pos + n))"

definition read_u32 :: "u32 reader" where
  "read_u32 = r_bind (take_bytes 4) (\<lambda>s. r_ret (le_value s))"

definition read_u64 :: "u64 reader" where
  "read_u64 = r_bind (take_bytes 8) (\<lambda>s. r_ret (le_value s))"

definition read_string :: "string reader" where
  "read_string = r_bind read_u64 (\<lambda>len.
     if 16777216 < len then r_fail (Malformed LongString)
     else r_bind (take_bytes len) (\<lambda>raw.
       if utf8_valid raw then r_ret (map char_of raw) else r_fail (Malformed NotUtf8)))"

text \<open>\<open>typed_value\<close> on every type id but \<open>T_ARRAY\<close>.\<close>

definition scalar_value :: "u32 \<Rightarrow> MetaValue reader" where
  "scalar_value ty =
     (if ty = T_U8 then r_bind (take_bytes 1) (\<lambda>s. r_ret (MU8 (le_value s)))
      else if ty = T_I8 then r_bind (take_bytes 1) (\<lambda>s. r_ret (MI8 (signed_of 8 (le_value s))))
      else if ty = T_U16 then r_bind (take_bytes 2) (\<lambda>s. r_ret (MU16 (le_value s)))
      else if ty = T_I16 then r_bind (take_bytes 2) (\<lambda>s. r_ret (MI16 (signed_of 16 (le_value s))))
      else if ty = T_U32 then r_bind read_u32 (\<lambda>v. r_ret (MU32 v))
      else if ty = T_I32 then r_bind read_u32 (\<lambda>v. r_ret (MI32 (signed_of 32 v)))
      else if ty = T_F32 then r_bind (take_bytes 4) (\<lambda>s. r_ret (MF32 (le_value s)))
      else if ty = T_BOOL then r_bind (take_bytes 1) (\<lambda>s. r_ret (MBool (le_value s \<noteq> 0)))
      else if ty = T_STRING then r_bind read_string (\<lambda>v. r_ret (MStr v))
      else if ty = T_U64 then r_bind read_u64 (\<lambda>v. r_ret (MU64 v))
      else if ty = T_I64 then r_bind read_u64 (\<lambda>v. r_ret (MI64 (signed_of 64 v)))
      else if ty = T_F64 then r_bind (take_bytes 8) (\<lambda>s. r_ret (MF64 (le_value s)))
      else r_fail (Malformed UnknownValueType))"

text \<open>
  The count guard of the array branch: it compares with the bytes left and reports
  \<open>pos + count\<close> in \<open>u64\<close>.
\<close>

definition array_guard :: "u64 \<Rightarrow> unit reader" where
  "array_guard cnt bs pos =
     (if length bs - pos < cnt then Err (NeedMoreData (add64 pos cnt)) else Ok ((), pos))"

text \<open>
  The recursive call of the array branch is never itself an array: a nested element type is
  refused first.
\<close>

definition typed_value :: "u32 \<Rightarrow> MetaValue reader" where
  "typed_value ty =
     (if ty = T_ARRAY then
        r_bind read_u32 (\<lambda>elem_ty.
          if elem_ty = T_ARRAY then r_fail (Malformed NestedArrays)
          else r_bind read_u64 (\<lambda>cnt.
            r_bind (array_guard cnt) (\<lambda>_.
              r_bind (r_repeat cnt (scalar_value elem_ty)) (\<lambda>items. r_ret (MArray items)))))
      else scalar_value ty)"

definition read_value :: "MetaValue reader" where
  "read_value = r_bind read_u32 typed_value"

definition read_kv :: "(string \<times> MetaValue) reader" where
  "read_kv = r_bind read_string (\<lambda>key. r_bind read_value (\<lambda>v. r_ret (key, v)))"

definition read_tensor :: "TensorInfo reader" where
  "read_tensor = r_bind read_string (\<lambda>name.
     r_bind read_u32 (\<lambda>n_dims.
       if 8 < n_dims then r_fail (Malformed TooManyDims)
       else r_bind (r_repeat n_dims read_u64) (\<lambda>dims.
         r_bind read_u32 (\<lambda>ggml_type.
           r_bind read_u64 (\<lambda>offset.
             r_ret \<lparr>ti_name = name, ti_dims = dims, ti_ggml_type = ggml_type,
               ti_offset = offset\<rparr>)))))"

section \<open>The header\<close>

definition is_power_of_two :: "nat \<Rightarrow> bool" where
  "is_power_of_two a = (0 < a \<and> (\<exists>k \<in> set [0..<64]. a = 2 ^ k))"

definition header_alignment :: "(string \<rightharpoonup> MetaValue) \<Rightarrow> u64" where
  "header_alignment m = (case m ''general.alignment'' of
     None \<Rightarrow> GGUF_DEFAULT_ALIGNMENT
   | Some v \<Rightarrow> (case as_u64_value v of
       None \<Rightarrow> GGUF_DEFAULT_ALIGNMENT
     | Some a \<Rightarrow> if 0 < a \<and> is_power_of_two a then a else GGUF_DEFAULT_ALIGNMENT))"

definition insert_all :: "(string \<times> MetaValue) list \<Rightarrow> (string \<rightharpoonup> MetaValue)" where
  "insert_all kvs = foldl (\<lambda>m (k, v). m(k \<mapsto> v)) Map.empty kvs"

definition finish_header ::
    "u32 \<Rightarrow> (string \<times> MetaValue) list \<Rightarrow> TensorInfo list \<Rightarrow> GgufHeader reader" where
  "finish_header version kvs ts bs pos =
     (let metadata = insert_all kvs; alignment = header_alignment metadata in
      Ok (\<lparr>g_version = version, g_metadata = metadata, g_tensors = ts, g_header_len = pos,
           g_alignment = alignment,
           g_data_offset = mul64 (div_ceil pos alignment) alignment\<rparr>, pos))"

definition parse_reader :: "GgufHeader reader" where
  "parse_reader = r_bind read_u32 (\<lambda>magic.
     if magic \<noteq> GGUF_MAGIC then r_fail BadMagic
     else r_bind read_u32 (\<lambda>version.
       if version \<noteq> 2 \<and> version \<noteq> 3 then r_fail (UnsupportedVersion version)
       else r_bind read_u64 (\<lambda>tensor_count.
         r_bind read_u64 (\<lambda>kv_count.
           r_bind (r_repeat kv_count read_kv) (\<lambda>kvs.
             r_bind (r_repeat tensor_count read_tensor) (\<lambda>ts.
               finish_header version kvs ts))))))"

definition parse :: "u8 list \<Rightarrow> (GgufHeader, GgufError) res" where
  "parse bytes = res_bind (parse_reader bytes 0) (\<lambda>(h, _). Ok h)"

definition architecture :: "GgufHeader \<Rightarrow> string option" where
  "architecture h = Option.bind (g_metadata h ''general.architecture'') as_str"

definition block_count :: "GgufHeader \<Rightarrow> u64 option" where
  "block_count h = Option.bind (architecture h) (\<lambda>arch.
     Option.bind (g_metadata h (arch @ ''.block_count'')) as_u64_value)"

text \<open>
  \<open>tensor_ranges\<close>: the loop over the tensors sorted by offset, each ending where the next
  one starts or at the end of the file.
\<close>

fun range_loop :: "u64 \<Rightarrow> u64 \<Rightarrow> TensorInfo list \<Rightarrow> (TensorRange list, GgufError) res" where
  "range_loop data file_size [] = Ok []"
| "range_loop data file_size (t # ts) =
     (let start = add64 data (ti_offset t);
          end = (case ts of next # _ \<Rightarrow> add64 data (ti_offset next) | [] \<Rightarrow> file_size) in
      if end < start \<or> file_size < end then Err (Malformed BadTensorOffsets)
      else res_bind (range_loop data file_size ts) (\<lambda>rs.
        Ok (\<lparr>tr_name = ti_name t, tr_start = start, tr_end = end\<rparr> # rs)))"

definition tensor_ranges :: "GgufHeader \<Rightarrow> u64 \<Rightarrow> (TensorRange list, GgufError) res" where
  "tensor_ranges h file_size =
     range_loop (g_data_offset h) file_size (sort_key ti_offset (g_tensors h))"

section \<open>Well-behaved readers\<close>

text \<open>
  The contract of a reader of the cursor: it never panics, moves forward and stays inside
  the input; a result that does not ask for more data is the same on every longer input; a
  request for more data asks for more than there is, unless the \<open>u64\<close> sum in the request
  wrapped around.
\<close>

locale reader =
  fixes p :: "'a reader"
  assumes no_panic: "p bs pos \<noteq> Panic k"
    and bounded: "p bs pos = Ok (x, pos') \<Longrightarrow> pos \<le> length bs \<Longrightarrow> pos \<le> pos' \<and> pos' \<le> length bs"
    and stable: "pos \<le> length bs \<Longrightarrow> \<forall>h. p bs pos \<noteq> Err (NeedMoreData h) \<Longrightarrow>
      p (bs @ rest) pos = p bs pos"
    and hint: "pos \<le> length bs \<Longrightarrow> p bs pos = Err (NeedMoreData h) \<Longrightarrow>
      length bs < h \<or> (\<exists>q c. q \<le> length bs \<and> M64 \<le> q + c \<and> h = add64 q c)"
begin

text \<open>Run from the front of the input, the value read is within it.\<close>

lemma consumed: "p bs 0 = Ok (x, n) \<Longrightarrow> n \<le> length bs"
  using bounded by fastforce

text \<open>A prefix that suffices decides the outcome.\<close>

lemma prefix_decides:
  assumes "p bs 0 = Ok r"
  shows "p (bs @ rest) 0 = Ok r"
  using stable [of 0 bs rest] assms by simp

end

lemma reader_ret [reader_intros]: "reader (r_ret x)"
  by unfold_locales (auto simp: r_ret_def)

lemma reader_fail [reader_intros]: "(\<And>h. e \<noteq> NeedMoreData h) \<Longrightarrow> reader (r_fail e)"
  by unfold_locales (auto simp: r_fail_def)

lemma reader_bind [reader_intros]:
  assumes "reader p" and f: "\<And>x. reader (f x)"
  shows "reader (r_bind p f)"
proof -
  note p = reader.no_panic [OF assms(1)] reader.bounded [OF assms(1)]
    reader.stable [OF assms(1)] reader.hint [OF assms(1)]
  show ?thesis
  proof
    fix bs :: "u8 list" and pos k
    show "r_bind p f bs pos \<noteq> Panic k"
      using p(1) reader.no_panic [OF f] by (cases "p bs pos") (auto simp: r_bind_def)
  next
    fix bs :: "u8 list" and pos x pos'
    assume a: "r_bind p f bs pos = Ok (x, pos')" "pos \<le> length bs"
    then obtain y q where y: "p bs pos = Ok (y, q)" "f y bs q = Ok (x, pos')"
      by (auto simp: r_bind_def res_simps)
    show "pos \<le> pos' \<and> pos' \<le> length bs"
      using p(2) [OF y(1) a(2)] reader.bounded [OF f y(2)] by auto
  next
    fix bs rest :: "u8 list" and pos
    assume a: "pos \<le> length bs" and n: "\<forall>h. r_bind p f bs pos \<noteq> Err (NeedMoreData h)"
    have "\<forall>h. p bs pos \<noteq> Err (NeedMoreData h)" using n by (auto simp: r_bind_def)
    then have e: "p (bs @ rest) pos = p bs pos" by (rule p(3) [OF a])
    show "r_bind p f (bs @ rest) pos = r_bind p f bs pos"
    proof (cases "p bs pos")
      case (Ok r)
      obtain y q where r: "r = (y, q)" by (cases r)
      have q: "q \<le> length bs" using p(2) a Ok r by auto
      have "f y (bs @ rest) q = f y bs q"
        by (rule reader.stable [OF f q]) (use n Ok r in \<open>auto simp: r_bind_def\<close>)
      then show ?thesis by (simp add: r_bind_def e Ok r)
    qed (simp_all add: r_bind_def e)
  next
    fix bs :: "u8 list" and pos h
    assume a: "pos \<le> length bs" and h: "r_bind p f bs pos = Err (NeedMoreData h)"
    show "length bs < h \<or> (\<exists>q c. q \<le> length bs \<and> M64 \<le> q + c \<and> h = add64 q c)"
    proof (cases "p bs pos")
      case (Ok r)
      obtain y q where r: "r = (y, q)" by (cases r)
      have q: "q \<le> length bs" using p(2) a Ok r by auto
      have "f y bs q = Err (NeedMoreData h)" using h Ok r by (simp add: r_bind_def)
      then show ?thesis by (rule reader.hint [OF f q])
    next
      case (Err e)
      then have "p bs pos = Err (NeedMoreData h)" using h by (simp add: r_bind_def)
      then show ?thesis by (rule p(4) [OF a])
    next
      case (Panic k)
      then show ?thesis using h by (simp add: r_bind_def)
    qed
  qed
qed

lemma reader_repeat [reader_intros]: "reader p \<Longrightarrow> reader (r_repeat n p)"
  by (induction n) (auto intro!: reader_intros)

lemma reader_if [reader_intros]: "reader p \<Longrightarrow> reader q \<Longrightarrow> reader (if b then p else q)"
  by simp

lemma reader_take_bytes [reader_intros]: "reader (take_bytes n)"
  by unfold_locales (auto simp: take_bytes_def split: if_splits)

lemma reader_array_guard [reader_intros]: "reader (array_guard c)"
proof
  fix bs :: "u8 list" and pos h
  assume a: "pos \<le> length bs" "array_guard c bs pos = Err (NeedMoreData h)"
  then have h: "length bs - pos < c" "h = add64 pos c" by (auto simp: array_guard_def split: if_splits)
  show "length bs < h \<or> (\<exists>q c. q \<le> length bs \<and> M64 \<le> q + c \<and> h = add64 q c)"
  proof (cases "M64 \<le> pos + c")
    case True
    with a h show ?thesis by blast
  next
    case False
    with h have "length bs < h" by (simp add: wrap_simps)
    then show ?thesis ..
  qed
qed (auto simp: array_guard_def split: if_splits)

lemma reader_u32 [reader_intros]: "reader read_u32"
  unfolding read_u32_def by (intro reader_intros)

lemma reader_u64 [reader_intros]: "reader read_u64"
  unfolding read_u64_def by (intro reader_intros)

lemma reader_string [reader_intros]: "reader read_string"
  unfolding read_string_def by (intro reader_intros) simp_all

lemma reader_scalar [reader_intros]: "reader (scalar_value ty)"
  unfolding scalar_value_def by (intro reader_intros) simp_all

lemma reader_typed [reader_intros]: "reader (typed_value ty)"
  unfolding typed_value_def by (intro reader_intros) simp_all

lemma reader_kv [reader_intros]: "reader read_kv"
  unfolding read_kv_def read_value_def by (intro reader_intros)

lemma reader_tensor [reader_intros]: "reader read_tensor"
  unfolding read_tensor_def by (intro reader_intros) simp_all

lemma reader_finish [reader_intros]: "reader (finish_header v kvs ts)"
  by unfold_locales (auto simp: finish_header_def Let_def)

interpretation gguf_header: reader parse_reader
  unfolding parse_reader_def by (intro reader_intros) simp_all

section \<open>Tensor ranges\<close>

definition range_size :: "TensorRange \<Rightarrow> nat" where
  "range_size r = tr_end r - tr_start r"

text \<open>Consecutive ranges that end at \<open>e\<close>.\<close>

fun chained :: "TensorRange list \<Rightarrow> u64 \<Rightarrow> bool" where
  "chained [] e = True"
| "chained [r] e = (tr_start r \<le> tr_end r \<and> tr_end r = e)"
| "chained (r # r' # rs) e =
     (tr_start r \<le> tr_end r \<and> tr_end r = tr_start r' \<and> chained (r' # rs) e)"

lemma range_loop_names:
  "range_loop d fs ts = Ok rs \<Longrightarrow> map tr_name rs = map ti_name ts"
  by (induction ts arbitrary: rs) (auto simp: Let_def res_simps split: if_splits)

lemma range_loop_starts:
  "range_loop d fs ts = Ok rs \<Longrightarrow> map tr_start rs = map (\<lambda>t. add64 d (ti_offset t)) ts"
  by (induction ts arbitrary: rs) (auto simp: Let_def res_simps split: if_splits)

lemma range_loop_ends: "range_loop d fs ts = Ok rs \<Longrightarrow> r \<in> set rs \<Longrightarrow> tr_end r \<le> fs"
  by (induction ts arbitrary: rs) (auto simp: Let_def res_simps split: if_splits)

lemma range_loop_chained: "range_loop d fs ts = Ok rs \<Longrightarrow> chained rs fs"
proof (induction ts arbitrary: rs)
  case (Cons t ts)
  from Cons.prems obtain rs' r where rs: "rs = r # rs'" "range_loop d fs ts = Ok rs'"
      and r: "tr_start r \<le> tr_end r"
        "tr_end r = (case ts of next # _ \<Rightarrow> add64 d (ti_offset next) | [] \<Rightarrow> fs)"
    by (auto simp: Let_def res_simps split: if_splits)
  have c: "chained rs' fs" by (rule Cons.IH [OF rs(2)])
  show ?case
  proof (cases ts)
    case Nil
    with rs r show ?thesis by simp
  next
    case (Cons t' ts')
    with range_loop_starts [OF rs(2)] obtain r' rs'' where "rs' = r' # rs''"
        "tr_start r' = add64 d (ti_offset t')"
      by (cases rs') auto
    with Cons c r rs show ?thesis by simp
  qed
qed simp

lemma range_loop_no_panic: "range_loop d fs ts \<noteq> Panic k"
  by (induction ts) (auto simp: Let_def res_simps)

lemma chained_sum: "chained rs e \<Longrightarrow> rs \<noteq> [] \<Longrightarrow>
    tr_start (hd rs) \<le> e \<and> sum_list (map range_size rs) = e - tr_start (hd rs)"
  by (induction rs e rule: chained.induct) (auto simp: range_size_def)

lemma chained_start_le: "chained rs e \<Longrightarrow> r \<in> set rs \<Longrightarrow> tr_start r \<le> tr_end r"
  by (induction rs e rule: chained.induct) auto

text \<open>C14: the byte ranges of a header's tensors name every tensor once, follow one another
  without gap or overlap up to the end of the file, and (when no offset overflows \<open>u64\<close>)
  lie in the data section; together they hold exactly the bytes from the first tensor to the
  end of the file.\<close>

theorem tensor_ranges_tile:
  assumes "tensor_ranges h fs = Ok rs"
    and "\<forall>t \<in> set (g_tensors h). g_data_offset h + ti_offset t < M64"
  shows "mset (map tr_name rs) = mset (map ti_name (g_tensors h)) \<and> chained rs fs
    \<and> (\<forall>r \<in> set rs. g_data_offset h \<le> tr_start r \<and> tr_start r \<le> tr_end r \<and> tr_end r \<le> fs)
    \<and> (rs \<noteq> [] \<longrightarrow> sum_list (map range_size rs) = fs - tr_start (hd rs))"
proof -
  let ?ts = "sort_key ti_offset (g_tensors h)"
  have l: "range_loop (g_data_offset h) fs ?ts = Ok rs" using assms(1) by (simp add: tensor_ranges_def)
  have c: "chained rs fs" by (rule range_loop_chained [OF l])
  have "mset (map tr_name rs) = mset (map ti_name (g_tensors h))"
    by (simp add: range_loop_names [OF l])
  moreover have "g_data_offset h \<le> tr_start r" if "r \<in> set rs" for r
  proof -
    have "tr_start r \<in> set (map tr_start rs)" using that by simp
    then show ?thesis
      unfolding range_loop_starts [OF l] using assms(2) by (auto simp: wrap_simps)
  qed
  ultimately show ?thesis
    using c chained_sum [OF c] chained_start_le [OF c] range_loop_ends [OF l] by auto
qed

theorem tensor_ranges_tile_witness:
  "\<exists>rs. tensor_ranges \<lparr>g_version = 3, g_metadata = Map.empty,
       g_tensors = [\<lparr>ti_name = ''b'', ti_dims = [], ti_ggml_type = 0, ti_offset = 64\<rparr>,
         \<lparr>ti_name = ''a'', ti_dims = [], ti_ggml_type = 0, ti_offset = 0\<rparr>],
       g_header_len = 90, g_alignment = 32, g_data_offset = 96\<rparr> 200 = Ok rs
     \<and> map tr_start rs = [96, 160] \<and> chained rs 200"
  using tensor_ranges_tile [of "\<lparr>g_version = 3, g_metadata = Map.empty,
       g_tensors = [\<lparr>ti_name = ''b'', ti_dims = [], ti_ggml_type = 0, ti_offset = 64\<rparr>,
         \<lparr>ti_name = ''a'', ti_dims = [], ti_ggml_type = 0, ti_offset = 0\<rparr>],
       g_header_len = 90, g_alignment = 32, g_data_offset = 96\<rparr>" 200
      "[\<lparr>tr_name = ''a'', tr_start = 96, tr_end = 160\<rparr>,
        \<lparr>tr_name = ''b'', tr_start = 160, tr_end = 200\<rparr>]"]
  by (simp add: tensor_ranges_def add64_def)

text \<open>
  Without that bound the sum \<open>data_offset + offset\<close> wraps: a header whose only tensor has an
  offset near \<open>2 ^ 64\<close> is accepted and its range starts before the data section.
\<close>

lemma tensor_ranges_wrap_accepted:
  "tensor_ranges \<lparr>g_version = 3, g_metadata = Map.empty,
       g_tensors = [\<lparr>ti_name = ''t'', ti_dims = [], ti_ggml_type = 0,
         ti_offset = 18446744073709551584\<rparr>],
       g_header_len = 30, g_alignment = 32, g_data_offset = 32\<rparr> 100
     = Ok [\<lparr>tr_name = ''t'', tr_start = 0, tr_end = 100\<rparr>]"
  by (simp add: tensor_ranges_def add64_def)

section \<open>The parsed header\<close>

lemma parse_stable:
  assumes "\<forall>n. parse bs \<noteq> Err (NeedMoreData n)"
  shows "parse (bs @ rest) = parse bs"
proof -
  have "\<forall>n. parse_reader bs 0 \<noteq> Err (NeedMoreData n)"
    using assms by (auto simp: parse_def)
  then have "parse_reader (bs @ rest) 0 = parse_reader bs 0"
    by (rule gguf_header.stable [rotated]) simp
  then show ?thesis by (simp add: parse_def)
qed

text \<open>C25: parsing a prefix of a file decides: a parse that does not ask for more data gives the
  same header, or the same error, on every longer input.\<close>

theorem parse_prefix_decides:
  assumes "\<forall>n. parse bs \<noteq> Err (NeedMoreData n)"
  shows "parse (bs @ rest) = parse bs"
  using assms by (rule parse_stable)

definition empty_header_bytes :: "u8 list" where
  "empty_header_bytes = [71, 71, 85, 70, 3, 0, 0, 0, 0, 0, 0, 0, 0, 0, 0, 0, 0, 0, 0, 0, 0, 0, 0, 0]"

lemma parse_empty_header:
  "parse empty_header_bytes = Ok \<lparr>g_version = 3, g_metadata = Map.empty, g_tensors = [],
     g_header_len = 24, g_alignment = 32, g_data_offset = 32\<rparr>"
  by (simp add: empty_header_bytes_def parse_def parse_reader_def r_bind_def read_u32_def
      read_u64_def take_bytes_def r_ret_def GGUF_MAGIC_def finish_header_def insert_all_def
      header_alignment_def GGUF_DEFAULT_ALIGNMENT_def Let_def div_ceil_def mul64_def)

theorem parse_prefix_decides_witness:
  "parse (empty_header_bytes @ [1, 2, 3]) = parse empty_header_bytes
   \<and> (\<forall>n. parse empty_header_bytes \<noteq> Err (NeedMoreData n))"
  using parse_prefix_decides [of empty_header_bytes "[1, 2, 3]"] by (simp add: parse_empty_header)

lemma parse_reader_Ok:
  assumes "parse bs = Ok h"
  obtains v kvs ts n where "v = 2 \<or> v = 3" "n \<le> length bs"
    "finish_header v kvs ts bs n = Ok (h, n)"
proof -
  from assms obtain n where n: "parse_reader bs 0 = Ok (h, n)"
    by (auto simp: parse_def res_simps)
  then obtain v kvs ts q where "v = 2 \<or> v = 3" and f: "finish_header v kvs ts bs q = Ok (h, n)"
    by (auto simp: parse_reader_def r_bind_def r_fail_def res_simps split: if_splits prod.splits)
  moreover have "q = n" using f by (auto simp: finish_header_def Let_def)
  moreover have "n \<le> length bs" by (rule gguf_header.consumed [OF n])
  ultimately show thesis using that by blast
qed

lemma is_power_of_two_header_alignment: "is_power_of_two (header_alignment m)"
proof -
  have "is_power_of_two GGUF_DEFAULT_ALIGNMENT"
    unfolding is_power_of_two_def GGUF_DEFAULT_ALIGNMENT_def
    by (intro conjI bexI [of _ 5]) simp_all
  then show ?thesis by (auto simp: header_alignment_def split: option.splits)
qed

lemma is_power_of_two_bounds: "is_power_of_two a \<Longrightarrow> 0 < a \<and> a \<le> 2 ^ 63"
proof -
  assume "is_power_of_two a"
  then obtain k where k: "k < 64" "a = 2 ^ k" by (auto simp: is_power_of_two_def)
  then have "(2::nat) ^ k \<le> 2 ^ 63" by (intro power_increasing) simp_all
  with k show ?thesis by simp
qed

text \<open>A parsed header has a supported version, lies within the bytes it was parsed from, and
  its data section starts at the first multiple of the (power of two) alignment at or after
  the end of the header.\<close>

theorem parse_layout:
  assumes "parse bs = Ok h" "length bs < 2 ^ 63"
  shows "(g_version h = 2 \<or> g_version h = 3) \<and> g_header_len h \<le> length bs
    \<and> is_power_of_two (g_alignment h) \<and> g_alignment h dvd g_data_offset h
    \<and> g_header_len h \<le> g_data_offset h \<and> g_data_offset h < g_header_len h + g_alignment h"
proof -
  obtain v kvs ts n where v: "v = 2 \<or> v = 3" "n \<le> length bs"
      and f: "finish_header v kvs ts bs n = Ok (h, n)"
    using assms(1) by (rule parse_reader_Ok)
  let ?a = "header_alignment (insert_all kvs)"
  have a: "0 < ?a" "?a \<le> 2 ^ 63"
    using is_power_of_two_bounds [OF is_power_of_two_header_alignment] by auto
  have h: "g_version h = v" "g_header_len h = n" "g_alignment h = ?a"
      "g_data_offset h = mul64 (div_ceil n ?a) ?a"
    using f by (auto simp: finish_header_def Let_def)
  have lt: "div_ceil n ?a * ?a < n + ?a" by (rule div_ceil_mult_less [OF a(1)])
  moreover have "n + ?a < M64" using a v(2) assms(2) by simp
  ultimately have "mul64 (div_ceil n ?a) ?a = div_ceil n ?a * ?a" by (simp add: wrap_simps)
  with h v lt div_ceil_mult_ge [OF a(1), of n] is_power_of_two_header_alignment show ?thesis by simp
qed

theorem parse_layout_witness:
  "\<exists>h. parse empty_header_bytes = Ok h \<and> g_header_len h = 24 \<and> g_alignment h dvd g_data_offset h"
proof -
  have "length empty_header_bytes < 2 ^ 63" by (simp add: empty_header_bytes_def)
  from parse_layout [OF parse_empty_header this] parse_empty_header show ?thesis by auto
qed

text \<open>The parser never panics, and its fetch hint makes progress: it asks for more bytes than
  it was given, unless an array count drives the \<open>u64\<close> sum \<open>pos + count\<close> past
  \<open>2 ^ 64\<close>.\<close>

theorem parse_hint_progress:
  "(\<forall>k. parse bs \<noteq> Panic k) \<and>
   (\<forall>n. parse bs = Err (NeedMoreData n) \<longrightarrow>
      length bs < n \<or> (\<exists>q c. q \<le> length bs \<and> M64 \<le> q + c \<and> n = add64 q c))"
proof -
  have "parse_reader bs 0 = Err (NeedMoreData n)" if "parse bs = Err (NeedMoreData n)" for n
    using that by (auto simp: parse_def res_simps)
  moreover have "parse bs \<noteq> Panic k" for k
    using gguf_header.no_panic [of bs 0] by (auto simp: parse_def res_simps)
  ultimately show ?thesis using gguf_header.hint [of 0 bs] by blast
qed

theorem parse_hint_progress_witness:
  "parse [71, 71] = Err (NeedMoreData 4) \<and> (\<forall>k. parse [71, 71] \<noteq> Panic k)
   \<and> length [71, 71 :: nat] < 4"
proof -
  have "parse [71, 71] = Err (NeedMoreData 4)"
    by (simp add: parse_def parse_reader_def r_bind_def read_u32_def take_bytes_def mul64_def)
  then show ?thesis using parse_hint_progress [of "[71, 71]"] by simp
qed

text \<open>
  The exception is reachable: 49 bytes that declare an array of \<open>2 ^ 64 - 1\<close> elements are
  answered with a hint of 48 bytes.
\<close>

lemma parse_hint_wraps:
  "parse [71, 71, 85, 70, 3, 0, 0, 0, 0, 0, 0, 0, 0, 0, 0, 0, 1, 0, 0, 0, 0, 0, 0, 0,
      1, 0, 0, 0, 0, 0, 0, 0, 107, 9, 0, 0, 0, 0, 0, 0, 0, 255, 255, 255, 255, 255, 255, 255, 255]
     = Err (NeedMoreData 48)"
  by (simp add: parse_def parse_reader_def r_bind_def read_u32_def read_u64_def take_bytes_def
      r_ret_def GGUF_MAGIC_def read_kv_def read_string_def read_value_def typed_value_def
      array_guard_def type_ids add64_def)

end
