(* ===== verification/Float64.thy ===== *)
theory Float64
  imports Prelude "HOL-Library.Log_Nat"
begin

text \<open>
  The IEEE 754 arithmetic the planners compute with. A float is a rational that the format
  can represent, an infinity or a NaN; every operation rounds the exact result to nearest,
  ties to even, in the format's precision (53 bits for \<open>f64\<close>, 24 bits for \<open>f32\<close>),
  with gradual underflow and overflow to an infinity. Zero has no sign here: the only
  operations that tell the two zeros apart are a division by zero and \<open>{:?}\<close> printing,
  and the sources divide by positive values only.

  The lemmas are the facts rounding proofs need: rounding is monotone, exact on the
  numbers of the format (so on all integers up to \<open>2 ^ 53\<close>) and has a relative error of
  at most \<open>2 ^ - 53\<close> in the normal range.
\<close>

section \<open>Rounding a rational\<close>

text \<open>The exponent of the leading bit of a positive rational.\<close>

definition ilog2 :: "rat \<Rightarrow> int" where
  "ilog2 x = (case quotient_of x of (p, q) \<Rightarrow>
     let k = bitlen p - bitlen q in if 2 powi k \<le> x then k else k - 1)"

text \<open>Round to the nearest integer, ties to even.\<close>

definition round_even :: "rat \<Rightarrow> int" where
  "round_even y = (let f = \<lfloor>y\<rfloor>; d = y - of_int f in
     if d < 1 / 2 then f else if 1 / 2 < d then f + 1 else if even f then f else f + 1)"

text \<open>
  The quantum of \<open>x\<close> in a format with \<open>p\<close> bits of precision whose smallest positive
  number is \<open>2 powi qmin\<close>, and \<open>x\<close> rounded to a multiple of it.
\<close>

definition quantum :: "int \<Rightarrow> int \<Rightarrow> rat \<Rightarrow> int" where
  "quantum p qmin x = (if x = 0 then qmin else max (ilog2 \<bar>x\<bar> - (p - 1)) qmin)"

definition rnd :: "int \<Rightarrow> int \<Rightarrow> rat \<Rightarrow> rat" where
  "rnd p qmin x = (let q = quantum p qmin x in of_int (round_even (x / 2 powi q)) * 2 powi q)"

lemma powi_pos [simp]: "0 < (2::rat) powi k"
  by simp

lemma bitlen_powi:
  assumes "0 < (p::int)"
  shows "(2::rat) powi (bitlen p - 1) \<le> of_int p" "of_int p < (2::rat) powi bitlen p"
proof -
  have b: "0 < bitlen p" using assms bitlen_nonneg [of p] bitlen_eq_zero_iff [of p] by linarith
  have bnd: "2 ^ nat (bitlen p - 1) \<le> p" "p < 2 ^ nat (bitlen p)"
    using bitlen_bounds [OF assms] by auto
  have "(of_int (2 ^ nat (bitlen p - 1)) :: rat) \<le> of_int p"
    using bnd(1) by (simp only: of_int_le_iff)
  then show "(2::rat) powi (bitlen p - 1) \<le> of_int p"
    using b by (simp add: power_int_def)
  have "(of_int p :: rat) < of_int (2 ^ nat (bitlen p))"
    using bnd(2) by (simp only: of_int_less_iff)
  then show "of_int p < (2::rat) powi bitlen p"
    using b by (simp add: power_int_def)
qed

lemma ilog2_bounds:
  assumes "0 < x"
  shows "2 powi ilog2 x \<le> x" "x < 2 powi (ilog2 x + 1)"
proof -
  obtain p q where pq: "quotient_of x = (p, q)" by (cases "quotient_of x")
  have q0: "0 < q" using pq by (rule quotient_of_denom_pos)
  have x: "x = of_int p / of_int q" using pq by (rule quotient_of_div)
  have "0 < (of_int p :: rat)"
    using assms q0 x by (simp add: zero_less_divide_iff)
  then have p0: "0 < p" by simp
  define k where "k = bitlen p - bitlen q"
  have "of_int p < (2::rat) powi bitlen p" by (rule bitlen_powi(2) [OF p0])
  also have "\<dots> = 2 powi (k + 1) * 2 powi (bitlen q - 1)"
    by (simp add: k_def power_int_add [symmetric])
  also have "\<dots> \<le> 2 powi (k + 1) * of_int q"
    by (intro mult_left_mono bitlen_powi(1) q0) simp
  finally have up: "x < 2 powi (k + 1)"
    using q0 by (simp add: x pos_divide_less_eq)
  have "2 powi (k - 1) * of_int q \<le> (2::rat) powi (k - 1) * 2 powi bitlen q"
    by (intro mult_left_mono less_imp_le [OF bitlen_powi(2)] q0) simp
  also have "\<dots> = 2 powi (bitlen p - 1)"
    by (simp add: k_def power_int_add [symmetric])
  also have "\<dots> \<le> of_int p" by (rule bitlen_powi(1) [OF p0])
  finally have lo: "2 powi (k - 1) \<le> x"
    using q0 by (simp add: x pos_le_divide_eq)
  have e: "ilog2 x = (if 2 powi k \<le> x then k else k - 1)"
    by (simp add: ilog2_def pq k_def Let_def)
  show "2 powi ilog2 x \<le> x" using lo by (simp add: e)
  show "x < 2 powi (ilog2 x + 1)" using up by (simp add: e not_le)
qed

lemma powi_mono: "a \<le> b \<Longrightarrow> (2::rat) powi a \<le> 2 powi b"
  by (simp add: power_int_increasing)

lemma powi_less_cancel: "(2::rat) powi a < 2 powi b \<Longrightarrow> a < b"
  by (meson not_le powi_mono)

lemma ilog2_mono:
  assumes "0 < x" "x \<le> y"
  shows "ilog2 x \<le> ilog2 y"
proof -
  have "2 powi ilog2 x \<le> x" by (rule ilog2_bounds(1) [OF assms(1)])
  also have "x \<le> y" by (rule assms(2))
  also have "y < 2 powi (ilog2 y + 1)" using assms by (intro ilog2_bounds(2)) linarith
  finally show ?thesis using powi_less_cancel by force
qed

lemma ilog2_unique:
  assumes "2 powi k \<le> x" "x < 2 powi (k + 1)"
  shows "ilog2 x = k"
proof -
  have x: "0 < x" using assms(1) powi_pos [of k] by linarith
  have "(2::rat) powi k < 2 powi (ilog2 x + 1)"
    using assms(1) ilog2_bounds(2) [OF x] by linarith
  moreover have "(2::rat) powi ilog2 x < 2 powi (k + 1)"
    using assms(2) ilog2_bounds(1) [OF x] by linarith
  ultimately have "k < ilog2 x + 1" "ilog2 x < k + 1"
    by (blast intro: powi_less_cancel)+
  then show ?thesis by simp
qed

lemma round_even_cases:
  obtains "round_even y = \<lfloor>y\<rfloor>" "y - of_int \<lfloor>y\<rfloor> \<le> 1 / 2"
  | "round_even y = \<lfloor>y\<rfloor> + 1" "1 / 2 \<le> y - of_int \<lfloor>y\<rfloor>"
  by (cases "y - of_int \<lfloor>y\<rfloor> < 1 / 2"; cases "1 / 2 < y - of_int \<lfloor>y\<rfloor>"; cases "even \<lfloor>y\<rfloor>")
    (auto simp: round_even_def Let_def)

lemma round_even_error: "\<bar>of_int (round_even y) - y\<bar> \<le> 1 / 2"
proof -
  have f: "of_int \<lfloor>y\<rfloor> \<le> y" "y < of_int \<lfloor>y\<rfloor> + 1" by linarith+
  show ?thesis
    by (cases y rule: round_even_cases) (use f in \<open>auto simp: abs_le_iff\<close>)
qed

lemma round_even_of_int [simp]: "round_even (of_int z) = z"
  by (simp add: round_even_def)

lemma round_even_0 [simp]: "round_even 0 = 0"
  by (simp add: round_even_def)

lemma round_even_mono:
  assumes "y \<le> z"
  shows "round_even y \<le> round_even z"
proof (cases "\<lfloor>y\<rfloor> = \<lfloor>z\<rfloor>")
  case True
  then show ?thesis
    using assms by (auto simp: round_even_def Let_def)
next
  case False
  with assms have "\<lfloor>y\<rfloor> + 1 \<le> \<lfloor>z\<rfloor>" using floor_mono [OF assms] by linarith
  moreover have "round_even y \<le> \<lfloor>y\<rfloor> + 1" "\<lfloor>z\<rfloor> \<le> round_even z"
    by (cases y rule: round_even_cases; simp) (cases z rule: round_even_cases; simp)
  ultimately show ?thesis by linarith
qed

lemma rnd_0 [simp]: "rnd p qmin 0 = 0"
  by (simp add: rnd_def Let_def)

lemma powi_diff: "(2::rat) powi a / 2 powi b = 2 powi (a - b)"
  by (simp add: power_int_diff)

lemma powi_of_int:
  assumes "0 \<le> k"
  shows "(2::rat) powi k = of_int (2 ^ nat k)"
  using assms by (simp add: power_int_def)

lemma rnd_exact:
  assumes "x = of_int m * 2 powi e" "quantum p qmin x \<le> e"
  shows "rnd p qmin x = x"
proof -
  define q where "q = quantum p qmin x"
  have "x / 2 powi q = of_int m * (2 powi e / 2 powi q)"
    by (simp add: assms(1))
  also have "\<dots> = of_int (m * 2 ^ nat (e - q))"
    using assms(2) by (simp add: powi_diff powi_of_int q_def)
  finally have *: "x / 2 powi q = of_int (m * 2 ^ nat (e - q))" .
  have "rnd p qmin x = x / 2 powi q * 2 powi q"
    unfolding rnd_def Let_def q_def [symmetric] * by (simp only: round_even_of_int)
  then show ?thesis by simp
qed

text \<open>Rounding is the identity on the numbers of the format.\<close>

lemma rnd_representable:
  assumes x: "x = of_int m * 2 powi e" and m: "\<bar>m\<bar> \<le> 2 ^ nat p" and e: "qmin \<le> e" and p: "1 \<le> p"
  shows "rnd p qmin x = x"
proof (cases "quantum p qmin x \<le> e")
  case True
  with x show ?thesis by (rule rnd_exact)
next
  case False
  with e have x0: "x \<noteq> 0" and q: "quantum p qmin x = ilog2 \<bar>x\<bar> - (p - 1)"
    by (auto simp: quantum_def split: if_splits)
  have ax: "\<bar>x\<bar> = of_int \<bar>m\<bar> * 2 powi e" by (simp add: x abs_mult)
  have "of_int \<bar>m\<bar> \<le> (of_int (2 ^ nat p) :: rat)" using m by (simp only: of_int_le_iff)
  also have "\<dots> = 2 powi p" using p by (simp add: powi_of_int)
  finally have "\<bar>x\<bar> \<le> 2 powi p * 2 powi e" unfolding ax by (rule mult_right_mono) simp
  then have up: "\<bar>x\<bar> \<le> 2 powi (p + e)" by (simp add: power_int_add)
  have lo: "2 powi ilog2 \<bar>x\<bar> \<le> \<bar>x\<bar>" using x0 by (intro ilog2_bounds) simp
  have "p + e \<le> ilog2 \<bar>x\<bar>" using False q by linarith
  then have "2 powi (p + e) \<le> \<bar>x\<bar>" using lo powi_mono [of "p + e" "ilog2 \<bar>x\<bar>"] by linarith
  with up have eq: "\<bar>x\<bar> = 2 powi (p + e)" by simp
  have "ilog2 \<bar>x\<bar> = p + e"
    by (rule ilog2_unique) (simp_all add: eq power_int_strict_increasing)
  then have qe: "quantum p qmin x = e + 1" using q by simp
  have "of_int m = (of_int (sgn m) * of_int \<bar>m\<bar> :: rat)" by (metis of_int_mult sgn_mult_abs)
  then have "x = of_int (sgn m) * \<bar>x\<bar>" unfolding ax by (simp add: x)
  also have "\<dots> = of_int (sgn m * 2 ^ nat (p - 1)) * 2 powi (e + 1)"
    using p by (simp add: eq power_int_add powi_of_int [symmetric] algebra_simps power_int_diff
        flip: of_int_power)
  finally show ?thesis by (rule rnd_exact) (simp add: qe)
qed

lemma quantum_mono:
  assumes "0 < x" "x \<le> y"
  shows "quantum p qmin x \<le> quantum p qmin y"
  using ilog2_mono [OF assms] assms by (auto simp: quantum_def)

lemma quantum_upper:
  assumes "0 < x"
  shows "x < 2 powi (quantum p qmin x + p)"
proof -
  have "x < 2 powi (ilog2 x + 1)" by (rule ilog2_bounds(2) [OF assms])
  also have "\<dots> \<le> 2 powi (quantum p qmin x + p)"
    using assms by (intro powi_mono) (simp add: quantum_def)
  finally show ?thesis .
qed

lemma rnd_ge_powi:
  assumes "quantum p qmin x \<le> k" "2 powi k \<le> x"
  shows "2 powi k \<le> rnd p qmin x"
proof -
  define q where "q = quantum p qmin x"
  have "2 powi (k - q) \<le> x / 2 powi q"
    using assms(2) by (simp add: pos_le_divide_eq flip: power_int_add)
  moreover have i: "(2::rat) powi (k - q) = of_int (2 ^ nat (k - q))"
    using assms(1) by (simp add: powi_of_int q_def)
  ultimately have "round_even (of_int (2 ^ nat (k - q))) \<le> round_even (x / 2 powi q)"
    by (metis round_even_mono)
  then have "2 ^ nat (k - q) \<le> round_even (x / 2 powi q)" by (simp only: round_even_of_int)
  then have "(2::rat) powi (k - q) \<le> of_int (round_even (x / 2 powi q))"
    unfolding i by (simp only: of_int_le_iff)
  then have "2 powi (k - q) * 2 powi q \<le> rnd p qmin x"
    unfolding rnd_def Let_def q_def [symmetric] by (rule mult_right_mono) simp
  then show ?thesis by (simp flip: power_int_add)
qed

lemma rnd_le_powi:
  assumes "quantum p qmin x \<le> k" "x \<le> 2 powi k"
  shows "rnd p qmin x \<le> 2 powi k"
proof -
  define q where "q = quantum p qmin x"
  have "x / 2 powi q \<le> 2 powi (k - q)"
    using assms(2) by (simp add: pos_divide_le_eq flip: power_int_add)
  moreover have i: "(2::rat) powi (k - q) = of_int (2 ^ nat (k - q))"
    using assms(1) by (simp add: powi_of_int q_def)
  ultimately have "round_even (x / 2 powi q) \<le> round_even (of_int (2 ^ nat (k - q)))"
    by (metis round_even_mono)
  then have "round_even (x / 2 powi q) \<le> 2 ^ nat (k - q)" by (simp only: round_even_of_int)
  then have "of_int (round_even (x / 2 powi q)) \<le> (2::rat) powi (k - q)"
    unfolding i by (simp only: of_int_le_iff)
  then have "rnd p qmin x \<le> 2 powi (k - q) * 2 powi q"
    unfolding rnd_def Let_def q_def [symmetric] by (rule mult_right_mono) simp
  then show ?thesis by (simp flip: power_int_add)
qed

lemma rnd_nonneg:
  assumes "0 \<le> x"
  shows "0 \<le> rnd p qmin x"
proof -
  have "0 \<le> round_even (x / 2 powi quantum p qmin x)"
    using round_even_mono [of 0] assms by simp
  then show ?thesis by (simp add: rnd_def Let_def)
qed

text \<open>Rounding is monotone on the non-negative numbers.\<close>

lemma rnd_mono:
  assumes "0 \<le> x" "x \<le> y" "1 \<le> p"
  shows "rnd p qmin x \<le> rnd p qmin y"
proof (cases "x = 0")
  case True
  then show ?thesis using assms by (simp add: rnd_nonneg)
next
  case False
  with assms(1) have x: "0 < x" by simp
  let ?qx = "quantum p qmin x" and ?qy = "quantum p qmin y"
  have qq: "?qx \<le> ?qy" by (rule quantum_mono [OF x assms(2)])
  show ?thesis
  proof (cases "?qx = ?qy")
    case True
    have "round_even (x / 2 powi ?qx) \<le> round_even (y / 2 powi ?qy)"
      using assms(2) by (intro round_even_mono) (simp add: True divide_right_mono)
    then show ?thesis by (simp add: rnd_def Let_def True mult_right_mono)
  next
    case False
    with qq have lt: "?qx < ?qy" by simp
    then have "?qy = ilog2 y - (p - 1)"
      using x assms(2) by (auto simp: quantum_def split: if_splits)
    then have "2 powi (?qy + p - 1) \<le> y"
      using ilog2_bounds(1) [of y] x assms(2) by simp
    then have up: "2 powi (?qy + p - 1) \<le> rnd p qmin y"
      using assms(3) by (intro rnd_ge_powi) simp_all
    have "x \<le> 2 powi (?qx + p)" using quantum_upper [OF x] by (rule less_imp_le)
    also have "\<dots> \<le> 2 powi (?qy + p - 1)" using lt by (intro powi_mono) simp
    finally have "rnd p qmin x \<le> 2 powi (?qy + p - 1)"
      using lt assms(3) by (intro rnd_le_powi) simp_all
    with up show ?thesis by linarith
  qed
qed

text \<open>The rounding error: half a quantum, so a relative \<open>2 ^ - p\<close> in the normal range.\<close>

lemma rnd_error: "\<bar>rnd p qmin x - x\<bar> \<le> 2 powi (quantum p qmin x - 1)"
proof -
  define q where "q = quantum p qmin x"
  have "rnd p qmin x - x = (of_int (round_even (x / 2 powi q)) - x / 2 powi q) * 2 powi q"
    unfolding rnd_def Let_def q_def [symmetric] by (simp add: left_diff_distrib)
  then have "\<bar>rnd p qmin x - x\<bar> = \<bar>of_int (round_even (x / 2 powi q)) - x / 2 powi q\<bar> * 2 powi q"
    by (simp add: abs_mult)
  also have "\<dots> \<le> 1 / 2 * 2 powi q"
    by (intro mult_right_mono round_even_error) simp
  also have "\<dots> = 2 powi (q - 1)" by (simp add: power_int_diff)
  finally show ?thesis by (simp add: q_def)
qed

lemma rnd_relative_error:
  assumes "2 powi (qmin + p - 1) \<le> x"
  shows "\<bar>rnd p qmin x - x\<bar> \<le> x * 2 powi (- p)"
proof -
  have x: "0 < x" using assms powi_pos [of "qmin + p - 1"] by linarith
  have "(2::rat) powi (qmin + p - 1) < 2 powi (ilog2 x + 1)"
    using assms ilog2_bounds(2) [OF x] by linarith
  then have "qmin + p - 1 < ilog2 x + 1" by (rule powi_less_cancel)
  then have q: "quantum p qmin x = ilog2 x - (p - 1)" using x by (simp add: quantum_def)
  have "\<bar>rnd p qmin x - x\<bar> \<le> 2 powi (ilog2 x - (p - 1) - 1)" using rnd_error q by metis
  also have "\<dots> = 2 powi ilog2 x * 2 powi (- p)" by (simp flip: power_int_add)
  also have "\<dots> \<le> x * 2 powi (- p)" by (intro mult_right_mono ilog2_bounds(1) x) simp
  finally show ?thesis .
qed

section \<open>Floats and their operations\<close>

datatype flt = Fin rat | PosInf | NegInf | NaN

type_synonym f64 = flt
type_synonym f32 = flt

abbreviation rnd64 :: "rat \<Rightarrow> rat" where "rnd64 \<equiv> rnd 53 (- 1074)"

definition fl64 :: "rat \<Rightarrow> f64" where
  "fl64 x = (let r = rnd 53 (- 1074) x in
     if 2 ^ 1024 \<le> r then PosInf else if r \<le> - (2 ^ 1024) then NegInf else Fin r)"

definition fl32 :: "rat \<Rightarrow> f32" where
  "fl32 x = (let r = rnd 24 (- 149) x in
     if 2 ^ 128 \<le> r then PosInf else if r \<le> - (2 ^ 128) then NegInf else Fin r)"

text \<open>\<open>n as f64\<close> and \<open>n as f32\<close> for an unsigned \<open>n\<close>.\<close>

definition f64_of_u :: "nat \<Rightarrow> f64" where "f64_of_u n = fl64 (of_nat n)"
definition f32_of_u :: "nat \<Rightarrow> f32" where "f32_of_u n = fl32 (of_nat n)"

fun fneg :: "f64 \<Rightarrow> f64" where
  "fneg (Fin x) = Fin (- x)"
| "fneg PosInf = NegInf"
| "fneg NegInf = PosInf"
| "fneg NaN = NaN"

fun fadd :: "f64 \<Rightarrow> f64 \<Rightarrow> f64" where
  "fadd NaN _ = NaN"
| "fadd _ NaN = NaN"
| "fadd (Fin a) (Fin b) = fl64 (a + b)"
| "fadd PosInf NegInf = NaN"
| "fadd NegInf PosInf = NaN"
| "fadd PosInf _ = PosInf"
| "fadd _ PosInf = PosInf"
| "fadd NegInf _ = NegInf"
| "fadd _ NegInf = NegInf"

definition fsub :: "f64 \<Rightarrow> f64 \<Rightarrow> f64" where "fsub a b = fadd a (fneg b)"

definition inf_of_sign :: "rat \<Rightarrow> flt" where
  "inf_of_sign s = (if s = 0 then NaN else if 0 < s then PosInf else NegInf)"

fun fsign :: "flt \<Rightarrow> rat" where
  "fsign (Fin x) = sgn x"
| "fsign PosInf = 1"
| "fsign NegInf = - 1"
| "fsign NaN = 0"

fun fmul :: "f64 \<Rightarrow> f64 \<Rightarrow> f64" where
  "fmul NaN _ = NaN"
| "fmul _ NaN = NaN"
| "fmul (Fin a) (Fin b) = fl64 (a * b)"
| "fmul a b = inf_of_sign (fsign a * fsign b)"

fun div_in :: "(rat \<Rightarrow> flt) \<Rightarrow> flt \<Rightarrow> flt \<Rightarrow> flt" where
  "div_in fl NaN _ = NaN"
| "div_in fl _ NaN = NaN"
| "div_in fl (Fin a) (Fin b) = (if b = 0 then inf_of_sign (sgn a) else fl (a / b))"
| "div_in fl (Fin a) _ = Fin 0"
| "div_in fl a (Fin b) = inf_of_sign (fsign a * (if b < 0 then - 1 else 1))"
| "div_in fl _ _ = NaN"

definition fdiv :: "f64 \<Rightarrow> f64 \<Rightarrow> f64" where "fdiv = div_in fl64"
definition fdiv32 :: "f32 \<Rightarrow> f32 \<Rightarrow> f32" where "fdiv32 = div_in fl32"

fun flt_lt :: "flt \<Rightarrow> flt \<Rightarrow> bool" where
  "flt_lt NaN _ = False"
| "flt_lt _ NaN = False"
| "flt_lt (Fin a) (Fin b) = (a < b)"
| "flt_lt NegInf b = (b \<noteq> NegInf)"
| "flt_lt a PosInf = (a \<noteq> PosInf)"
| "flt_lt _ _ = False"

definition flt_eq :: "flt \<Rightarrow> flt \<Rightarrow> bool" where "flt_eq a b = (a \<noteq> NaN \<and> a = b)"
definition flt_le :: "flt \<Rightarrow> flt \<Rightarrow> bool" where "flt_le a b = (flt_lt a b \<or> flt_eq a b)"

text \<open>\<open>f64::max\<close> and \<open>f64::min\<close> return the other operand when one is a NaN.\<close>

definition fmax :: "f64 \<Rightarrow> f64 \<Rightarrow> f64" where
  "fmax a b = (if a = NaN then b else if b = NaN then a else if flt_lt a b then b else a)"
definition fmin :: "f64 \<Rightarrow> f64 \<Rightarrow> f64" where
  "fmin a b = (if a = NaN then b else if b = NaN then a else if flt_lt b a then b else a)"

text \<open>\<open>partial_cmp\<close>: \<open>None\<close> when an operand is a NaN.\<close>

definition partial_cmp :: "f64 \<Rightarrow> f64 \<Rightarrow> ordering option" where
  "partial_cmp a b = (if a = NaN \<or> b = NaN then None
     else Some (if flt_lt a b then Less else if a = b then Equal else Greater))"

fun ffloor :: "f64 \<Rightarrow> f64" where
  "ffloor (Fin x) = Fin (of_int \<lfloor>x\<rfloor>)"
| "ffloor a = a"

text \<open>\<open>as u64\<close> on a float truncates and saturates; a NaN becomes 0.\<close>

fun f64_as_u64 :: "f64 \<Rightarrow> u64" where
  "f64_as_u64 (Fin x) = (if x < 0 then 0 else min (nat \<lfloor>x\<rfloor>) u64_max)"
| "f64_as_u64 PosInf = u64_max"
| "f64_as_u64 NegInf = 0"
| "f64_as_u64 NaN = 0"

fun is_finite :: "f64 \<Rightarrow> bool" where
  "is_finite (Fin x) = True"
| "is_finite _ = False"

text \<open>\<open>iter().sum::<f64>()\<close>.\<close>

definition fsum :: "f64 list \<Rightarrow> f64" where "fsum xs = foldl fadd (Fin 0) xs"

section \<open>Facts about the operations\<close>

lemma flt_lt_irrefl [simp]: "\<not> flt_lt a a"
  by (cases a) auto

lemma flt_lt_trans: "flt_lt a b \<Longrightarrow> flt_lt b c \<Longrightarrow> flt_lt a c"
  by (cases a; cases b; cases c) auto

lemma flt_lt_total: "a \<noteq> NaN \<Longrightarrow> b \<noteq> NaN \<Longrightarrow> flt_lt a b \<or> a = b \<or> flt_lt b a"
  by (cases a; cases b) auto

lemma flt_lt_not_NaN: "flt_lt a b \<Longrightarrow> a \<noteq> NaN \<and> b \<noteq> NaN"
  by (cases a; cases b) auto

lemma not_flt_lt_trans:
  "a \<noteq> NaN \<Longrightarrow> b \<noteq> NaN \<Longrightarrow> c \<noteq> NaN \<Longrightarrow> \<not> flt_lt b a \<Longrightarrow> \<not> flt_lt c b \<Longrightarrow> \<not> flt_lt c a"
  by (cases a; cases b; cases c) auto

lemma rnd64_powi: "- 1074 \<le> k \<Longrightarrow> rnd64 (2 powi k) = 2 powi k"
  by (rule rnd_representable [of _ 1 k]) simp_all

lemma rnd64_int: "n \<le> 2 ^ 53 \<Longrightarrow> rnd64 (of_nat n) = of_nat n"
  by (rule rnd_representable [of _ "int n" 0]) simp_all

lemma rnd64_mono: "0 \<le> x \<Longrightarrow> x \<le> y \<Longrightarrow> rnd64 x \<le> rnd64 y"
  by (rule rnd_mono) simp_all

lemma rnd64_nonneg: "0 \<le> x \<Longrightarrow> 0 \<le> rnd64 x"
  by (rule rnd_nonneg)

text \<open>A magnitude far below the overflow threshold and far above every sum the planners form.\<close>

definition huge :: rat where "huge = 2 powi 1000"

lemma huge_ge: "k \<le> 1000 \<Longrightarrow> 2 powi k \<le> huge"
  unfolding huge_def by (rule powi_mono)

lemma rnd64_le_huge:
  assumes "0 \<le> x" "x \<le> huge"
  shows "rnd64 x \<le> huge"
proof -
  have "rnd64 x \<le> rnd64 huge" by (rule rnd64_mono [OF assms])
  also have "\<dots> = huge" unfolding huge_def by (rule rnd64_powi) simp
  finally show ?thesis .
qed

lemma fl64_Fin:
  assumes "0 \<le> x" "x \<le> huge"
  shows "fl64 x = Fin (rnd64 x)"
proof -
  have "rnd64 x \<le> huge" by (rule rnd64_le_huge [OF assms])
  also have "\<dots> < 2 powi 1024" unfolding huge_def by (rule power_int_strict_increasing) simp_all
  also have "\<dots> = 2 ^ 1024" by (simp only: power_int_numeral)
  finally have "\<not> 2 ^ 1024 \<le> rnd64 x" by (simp only: not_le)
  moreover have "\<not> rnd64 x \<le> - (2 ^ 1024)"
  proof -
    have "0 \<le> rnd64 x" using assms(1) by (rule rnd64_nonneg)
    moreover have "(0::rat) < 2 ^ 1024" by (rule zero_less_power) simp
    ultimately show ?thesis by linarith
  qed
  ultimately show ?thesis by (simp only: fl64_def Let_def if_False)
qed

text \<open>The unit roundoff, and numbers that are zero or far from underflow.\<close>

definition uro :: rat where "uro = 1 / 2 ^ 53"

definition tiny :: rat where "tiny = 2 powi (- 900)"

definition nrm :: "rat \<Rightarrow> bool" where "nrm x \<longleftrightarrow> x = 0 \<or> tiny \<le> x"

lemma uro_bounds: "0 < uro" "uro < 1"
  by (simp_all add: uro_def)

lemma tiny_pos: "0 < tiny"
  by (simp add: tiny_def)

lemma nrm_nonneg: "nrm x \<Longrightarrow> 0 \<le> x"
  using tiny_pos by (auto simp: nrm_def)

lemma nrm_add: "nrm x \<Longrightarrow> nrm y \<Longrightarrow> nrm (x + y)"
  using tiny_pos by (auto simp: nrm_def)

lemma nrm_ge1: "1 \<le> x \<Longrightarrow> nrm x"
proof -
  have "tiny \<le> 2 powi 0" unfolding tiny_def by (rule powi_mono) simp
  then show "1 \<le> x \<Longrightarrow> nrm x" by (simp add: nrm_def)
qed

lemma rnd64_relative:
  assumes "nrm x"
  shows "x * (1 - uro) \<le> rnd64 x" "rnd64 x \<le> x * (1 + uro)"
proof -
  have "\<bar>rnd64 x - x\<bar> \<le> x * uro"
  proof (cases "x = 0")
    case False
    with assms have "tiny \<le> x" by (simp add: nrm_def)
    moreover have "(2::rat) powi (- 1074 + 53 - 1) \<le> tiny"
      unfolding tiny_def by (rule powi_mono) simp
    ultimately have "\<bar>rnd64 x - x\<bar> \<le> x * 2 powi (- 53)"
      by (intro rnd_relative_error) linarith
    moreover have "2 powi (- 53) = uro" by (simp add: uro_def power_int_minus field_simps)
    ultimately show ?thesis by (simp only:)
  qed simp
  then show "x * (1 - uro) \<le> rnd64 x" "rnd64 x \<le> x * (1 + uro)"
    by (simp_all add: algebra_simps abs_le_iff)
qed

lemma nrm_rnd64:
  assumes "nrm x"
  shows "nrm (rnd64 x)"
proof (cases "x = 0")
  case False
  with assms have "tiny \<le> x" by (simp add: nrm_def)
  then have "rnd64 tiny \<le> rnd64 x" using tiny_pos by (intro rnd64_mono) simp_all
  moreover have "rnd64 tiny = tiny" unfolding tiny_def by (rule rnd64_powi) simp
  ultimately show ?thesis by (simp add: nrm_def)
qed (simp add: nrm_def)

section \<open>Sums\<close>

lemma Bernoulli_uro: "1 - of_nat m * uro \<le> (1 - uro) ^ m"
  using Bernoulli_inequality [of "- uro" m] uro_bounds by simp

lemma one_plus_uro_power:
  assumes "of_nat m * uro \<le> 1 / 2"
  shows "(1 + uro) ^ m \<le> 2"
proof -
  have "(1 + uro) ^ m * (1 - uro) ^ m = (1 - uro * uro) ^ m"
    by (simp add: power_mult_distrib [symmetric] algebra_simps)
  also have "\<dots> \<le> 1" using uro_bounds
    by (intro power_le_one) (simp_all add: mult_le_one)
  finally have "(1 + uro) ^ m * (1 - uro) ^ m \<le> 1" .
  moreover have "1 / 2 \<le> (1 - uro) ^ m" using Bernoulli_uro [of m] assms by linarith
  moreover have "0 \<le> (1 + uro) ^ m" using uro_bounds by simp
  ultimately have "(1 + uro) ^ m * (1 / 2) \<le> 1"
    using mult_left_mono [of "1 / 2" "(1 - uro) ^ m" "(1 + uro) ^ m"] by linarith
  then show ?thesis by simp
qed

lemma foldl_fadd_bounds:
  assumes "nrm a" "\<forall>r \<in> set rs. nrm r" "(1 + uro) ^ length rs * (a + sum_list rs) \<le> huge"
  shows "\<exists>t. foldl fadd (Fin a) (map Fin rs) = Fin t \<and> nrm t \<and>
    (1 - uro) ^ length rs * (a + sum_list rs) \<le> t \<and> t \<le> (1 + uro) ^ length rs * (a + sum_list rs)"
  using assms
proof (induction rs arbitrary: a)
  case Nil
  then show ?case by simp
next
  case (Cons r rs)
  let ?l = "length rs" and ?S = "sum_list rs" and ?b = "rnd64 (a + r)"
  have n: "nrm (a + r)" using Cons.prems by (simp add: nrm_add)
  have S: "0 \<le> ?S" using Cons.prems(2) by (intro sum_list_nonneg) (auto simp: nrm_nonneg)
  then have uS: "0 \<le> uro * ?S" using uro_bounds by simp
  have ar: "0 \<le> a + r" using n by (rule nrm_nonneg)
  have u1: "1 \<le> 1 + uro" "0 \<le> 1 + uro" "0 \<le> 1 - uro" using uro_bounds by simp_all
  have b: "(a + r) * (1 - uro) \<le> ?b" "?b \<le> (a + r) * (1 + uro)"
    using rnd64_relative [OF n] by auto
  have "?b + ?S \<le> (1 + uro) * (a + r + ?S)"
    using b(2) uS by (simp add: algebra_simps)
  from mult_left_mono [OF this, of "(1 + uro) ^ ?l"] u1
  have up: "(1 + uro) ^ ?l * (?b + ?S) \<le> (1 + uro) ^ length (r # rs) * (a + sum_list (r # rs))"
    by (simp add: algebra_simps)
  have "(1 - uro) * (a + r + ?S) \<le> ?b + ?S"
    using b(1) uS by (simp add: algebra_simps)
  from mult_left_mono [OF this, of "(1 - uro) ^ ?l"] u1
  have lo: "(1 - uro) ^ length (r # rs) * (a + sum_list (r # rs)) \<le> (1 - uro) ^ ?l * (?b + ?S)"
    by (simp add: algebra_simps)
  have "1 \<le> (1 + uro) ^ length (r # rs)" using u1 by (intro one_le_power)
  then have "a + sum_list (r # rs) \<le> (1 + uro) ^ length (r # rs) * (a + sum_list (r # rs))"
    using ar S mult_right_mono [of 1 "(1 + uro) ^ length (r # rs)" "a + sum_list (r # rs)"] by simp
  with Cons.prems(3) S have h: "a + r \<le> huge" by simp
  have step: "fadd (Fin a) (Fin r) = Fin ?b" using ar h by (simp add: fl64_Fin)
  have "\<exists>t. foldl fadd (Fin ?b) (map Fin rs) = Fin t \<and> nrm t \<and>
      (1 - uro) ^ ?l * (?b + ?S) \<le> t \<and> t \<le> (1 + uro) ^ ?l * (?b + ?S)"
    using Cons.prems up by (intro Cons.IH) (auto simp: nrm_rnd64 n)
  then show ?case using step lo up by fastforce
qed

lemma fsum_bounds:
  assumes "\<forall>r \<in> set rs. nrm r" "of_nat (length rs) * uro \<le> 1 / 2" "2 * sum_list rs \<le> huge"
  shows "\<exists>t. fsum (map Fin rs) = Fin t \<and> nrm t \<and>
    (1 - of_nat (length rs) * uro) * sum_list rs \<le> t \<and> t \<le> 2 * sum_list rs"
proof -
  let ?m = "length rs" and ?S = "sum_list rs"
  have S: "0 \<le> ?S" using assms(1) by (intro sum_list_nonneg) (auto simp: nrm_nonneg)
  have up: "(1 + uro) ^ ?m * ?S \<le> 2 * ?S"
    using S one_plus_uro_power [OF assms(2)] by (rule mult_right_mono [rotated])
  with assms(3) have "(1 + uro) ^ ?m * (0 + ?S) \<le> huge" by simp
  from foldl_fadd_bounds [OF _ assms(1) this]
  obtain t where t: "fsum (map Fin rs) = Fin t" "nrm t" "(1 - uro) ^ ?m * ?S \<le> t"
      "t \<le> (1 + uro) ^ ?m * ?S"
    by (auto simp: fsum_def nrm_def)
  have "(1 - of_nat ?m * uro) * ?S \<le> (1 - uro) ^ ?m * ?S"
    using S by (intro mult_right_mono Bernoulli_uro)
  with t up show ?thesis by fastforce
qed

section \<open>Conversions and integer division\<close>

lemma of_nat_le_huge: "n \<le> 2 ^ 128 \<Longrightarrow> (of_nat n :: rat) \<le> huge"
proof -
  assume "n \<le> 2 ^ 128"
  then have "(of_nat n :: rat) \<le> of_nat (2 ^ 128)" by (simp only: of_nat_le_iff)
  also have "\<dots> = 2 powi 128" by (simp add: power_int_numeral)
  also have "\<dots> \<le> huge" by (rule huge_ge) simp
  finally show ?thesis .
qed

lemma f64_of_u_Fin: "n \<le> 2 ^ 128 \<Longrightarrow> f64_of_u n = Fin (rnd64 (of_nat n))"
  unfolding f64_of_u_def by (rule fl64_Fin) (simp_all only: of_nat_0_le_iff of_nat_le_huge)

lemma f64_of_u_exact: "n \<le> 2 ^ 53 \<Longrightarrow> f64_of_u n = Fin (of_nat n)"
  by (subst f64_of_u_Fin) (simp_all add: rnd64_int)

lemma nrm_quotient:
  assumes "a \<noteq> 0" "0 < b" "b \<le> 2 ^ 64"
  shows "nrm (of_nat a / of_nat b)"
proof -
  have "(of_nat b :: rat) \<le> of_nat (2 ^ 64)" using assms(3) by (simp only: of_nat_le_iff)
  also have "\<dots> = 2 powi 64" by (simp add: power_int_numeral)
  finally have "tiny * of_nat b \<le> tiny * 2 powi 64"
    using tiny_pos by (intro mult_left_mono) simp_all
  also have "\<dots> = 2 powi (- 836)" unfolding tiny_def by (simp flip: power_int_add)
  also have "\<dots> \<le> 2 powi 0" by (rule powi_mono) simp
  also have "\<dots> \<le> of_nat a" using assms(1) by simp
  finally show ?thesis using assms(2) by (simp add: nrm_def pos_le_divide_eq)
qed

text \<open>
  Dividing two integers below \<open>2 ^ 53\<close> in \<open>f64\<close> and rounding down is exact integer
  division: the rounding error is too small to reach the next integer.
\<close>

lemma floor_rnd64_quotient:
  assumes b: "0 < b" and bu: "b \<le> 2 ^ 64" and a: "a < 2 ^ 53"
  shows "\<lfloor>rnd64 (of_nat a / of_nat b)\<rfloor> = int (a div b)"
proof (rule floor_unique)
  let ?x = "of_nat a / of_nat b :: rat"
  have b': "0 < (of_nat b :: rat)" using b by simp
  have k: "of_nat (a div b) \<le> ?x"
    using b' by (simp add: pos_le_divide_eq flip: of_nat_mult)
  have "a div b \<le> 2 ^ 53" using a div_le_dividend [of a b] by linarith
  then have "of_nat (a div b) = rnd64 (of_nat (a div b))" by (simp only: rnd64_int)
  also have "\<dots> \<le> rnd64 ?x" by (rule rnd64_mono [OF _ k]) simp
  finally show "of_int (int (a div b)) \<le> rnd64 ?x" by simp
  have "a < (a div b + 1) * b" using b by (metis add.commute dividend_less_times_div mult.commute mult_Suc Suc_eq_plus1)
  then have "of_nat a + 1 \<le> (of_nat ((a div b + 1) * b) :: rat)"
    by (metis Suc_leI of_nat_Suc of_nat_le_iff add.commute)
  then have nxt: "(of_nat a + 1) / of_nat b \<le> (of_nat (a div b + 1) :: rat)"
    using b' by (simp add: pos_divide_le_eq algebra_simps)
  have "rnd64 ?x < (of_nat a + 1) / of_nat b"
  proof (cases "a = 0")
    case True
    then show ?thesis using b' by simp
  next
    case False
    have "(of_nat a :: rat) < of_nat (2 ^ 53)" using a by (simp only: of_nat_less_iff)
    then have au: "of_nat a * uro < 1" by (simp add: uro_def)
    have n: "nrm ?x" using False b bu by (rule nrm_quotient)
    have "rnd64 ?x \<le> ?x * (1 + uro)" by (rule rnd64_relative(2) [OF n])
    also have "\<dots> = (of_nat a + of_nat a * uro) / of_nat b" by (simp add: field_simps)
    also have "\<dots> < (of_nat a + 1) / of_nat b" using au b' by (simp add: divide_strict_right_mono)
    finally show ?thesis .
  qed
  with nxt show "rnd64 ?x < of_int (int (a div b)) + 1" by simp
qed

end
