(* ===== verification/Placement.thy ===== *)
theory Placement
  imports Proto Gguf Float64
begin

text \<open>
  What the three planners of \<open>onebrain-scheduler\<close> share (\<open>lib.rs\<close>): the error type, the
  computed placement, and the prose of \<open>--explain\<close>. The prose is kept as data: one
  constructor per \<open>format!\<close> template, its arguments the interpolated values in the order
  the template names them, so an explanation is a list of notes in the order the source
  appends them.

  The locale \<open>planner\<close> is the contract the daemon relies on when it broadcasts a plan; each
  planner's theory interprets it on its own entry point.
\<close>

section \<open>Errors\<close>

datatype bad_model =
    AbsurdLayerCount u64
  | AbsurdKey string u64
  | TooManyActiveExperts u32 u32
  | BadGguf GgufError
  | MalformedBlockIndex string
  | LayerOutOfRange string usize u32

datatype ScheduleError =
    DoesNotFit u64 u64
  | NoNodes
  | NotEnoughNodes u32 u32
  | MissingMetadata string
  | BadModel bad_model

section \<open>Explanations\<close>

datatype role = Head | Worker

datatype why =
    ForcedSolo
  | AutoSolo
  | ForcedButFits u32
  | ForcedExceeds u32 u64 u64
  | WeightsExceed u64 u64 u64 u64
  | RequiredExceeds u32 u64 u64 u64 u64

datatype remark =
    SoloWeights NodeId u64 u64 u64 u64 u32 why
  | SoloRequired NodeId u64 u64 u32 u64 u64 u64 u64 why
  | PipelineAcross usize why
  | StageWeights usize role NodeId u32 u32 u32 u64 u64 u64
  | StageRequired usize role NodeId u32 u32 u32 u64 u64 u64 u64
  | BindingConstraint NodeId u64
  | DroppedNode NodeId u64
  | KvBudget u64 u32 u64 u64
  | KvBudgetPipeline u64 u32 u64 u64 u64 u64 u32
  | BoundariesMinRtt "(NodeId \<times> NodeId \<times> f64) list" f64
  | BoundariesSearch "(NodeId \<times> NodeId \<times> f64) list" f64
  | TransferTerm u64 "(NodeId \<times> NodeId \<times> f64 \<times> f64) list" f64
  | PredictedDecode f64
  | PredictedDecodePrefill f64 f64
  | CandidateSearch usize usize string bool
  | MoeActive u32 u32
  | MoeDense u32 u32
  | EffectiveUbatch u32
  | ForcedJoined u32 u32
  | ForcedDraining NodeId u32
  | CannotHoldLayer NodeId u32 u64 u64
  | DrainingNeeded NodeId
  | DrainingExcluded NodeId
  | NeededForMemory NodeId u64 u32
  | GainIncluded NodeId f64 f64 f64 f64
  | GainBelow NodeId f64 f64 f64 f64
  | NoGain NodeId f64 f64

section \<open>Placements\<close>

record PlannedPlacement =
  pp_plan :: Plan
  pp_tensor_split :: "f32 list"
  pp_explanation :: "remark list"

abbreviation assignments_of :: "PlannedPlacement \<Rightarrow> Assignment list" where
  "assignments_of p \<equiv> pl_assignments (pp_plan p)"

definition MIB :: u64 where "MIB = 1024 * 1024"

definition mb_ceil :: "u64 \<Rightarrow> u64" where
  "mb_ceil bytes = div_ceil bytes MIB"

definition mb_floor :: "u64 \<Rightarrow> u64" where
  "mb_floor bytes = bytes div MIB"

text \<open>The node whose utilisation is strictly above every earlier one becomes binding.\<close>

definition new_binding :: "(usize \<times> u64) option \<Rightarrow> usize \<Rightarrow> u64 \<Rightarrow> (usize \<times> u64) option" where
  "new_binding binding idx util = (case binding of
     None \<Rightarrow> Some (idx, util)
   | Some (i, best) \<Rightarrow> if best < util then Some (idx, util) else Some (i, best))"

definition binding_notes :: "(usize \<times> u64) option \<Rightarrow> Assignment list \<Rightarrow> remark list" where
  "binding_notes binding as = (case binding of
     None \<Rightarrow> [] | Some (idx, pct) \<Rightarrow> [BindingConstraint (as_node (as ! idx)) pct])"

text \<open>
  The shape all three planners give their assignments: consecutive ranges for the
  participants in stage order.
\<close>

fun lay_out :: "nat \<Rightarrow> nat \<Rightarrow> (NodeId \<times> nat) list \<Rightarrow> Assignment list" where
  "lay_out c s [] = []"
| "lay_out c s ((nd, k) # ps) =
     \<lparr>as_node = nd, as_layers = \<lparr>lr_start = c, lr_end = c + k\<rparr>, as_stage = s\<rparr>
       # lay_out (c + k) (Suc s) ps"

lemma tiles_lay_out:
  "\<forall>k \<in> snd ` set ps. 0 < k \<Longrightarrow> tiles c s (c + sum_list (map snd ps)) (lay_out c s ps)"
  by (induction c s ps rule: lay_out.induct) (auto simp: add.assoc)

lemma map_node_lay_out [simp]: "map as_node (lay_out c s ps) = map fst ps"
  by (induction c s ps rule: lay_out.induct) auto

lemma length_lay_out [simp]: "length (lay_out c s ps) = length ps"
  by (induction c s ps rule: lay_out.induct) auto

lemma lay_out_snoc:
  "lay_out c s (ps @ [(nd, k)]) = lay_out c s ps
     @ [\<lparr>as_node = nd, as_layers = \<lparr>lr_start = c + sum_list (map snd ps),
          lr_end = c + sum_list (map snd ps) + k\<rparr>, as_stage = s + length ps\<rparr>]"
  by (induction c s ps rule: lay_out.induct) (auto simp: add.assoc)

lemma lay_out_len:
  "map (LayerRange_len \<circ> as_layers) (lay_out c s ps) = map snd ps"
  by (induction c s ps rule: lay_out.induct) (auto simp: LayerRange_len_def sat_sub_def)

lemma in_lay_out:
  "a \<in> set (lay_out c s ps) \<Longrightarrow> \<exists>nd k. (nd, k) \<in> set ps \<and> as_node a = nd \<and> LayerRange_len (as_layers a) = k"
  by (induction c s ps rule: lay_out.induct) (auto simp: LayerRange_len_def sat_sub_def)

lemma last_lay_out:
  "ps \<noteq> [] \<Longrightarrow> as_node (last (lay_out c s ps)) = fst (last ps)"
  by (induction c s ps rule: lay_out.induct) (auto simp: neq_Nil_conv split: if_splits)

text \<open>The decision every planner makes before it distributes: refuse a node count that is not
  available, run solo when the model fits the head and solo is allowed, refuse a forced solo
  that does not fit.\<close>

lemma decision_cases:
  assumes "P = (case f of
      None \<Rightarrow> if sf then Ok (solo False) else D
    | Some n \<Rightarrow> if av < n then Err (NotEnoughNodes n av)
        else if n = 1 then (if sf then Ok (solo True) else Err e) else D)"
  obtains (not_enough) n where "f = Some n" "av < n" "P = Err (NotEnoughNodes n av)"
  | (solo) b where "P = Ok (solo b)" sf "f \<in> {None, Some 1}"
      "\<And>n. f = Some n \<Longrightarrow> n \<le> av"
  | (no_solo) "f = Some 1" "\<not> sf" "P = Err e"
  | (distributed) "P = D" "f \<noteq> Some 1" "f = None \<Longrightarrow> \<not> sf" "\<And>n. f = Some n \<Longrightarrow> n \<le> av"
proof (cases f)
  case None
  with assms solo [of False] distributed show thesis by (cases sf) auto
next
  case (Some n)
  consider "av < n" | "\<not> av < n" "n = 1" sf | "\<not> av < n" "n = 1" "\<not> sf" | "\<not> av < n" "n \<noteq> 1" by blast
  then show thesis
  proof cases
    case 1
    with assms Some not_enough show thesis by simp
  next
    case 2
    with assms Some solo [of True] show thesis by simp
  next
    case 3
    with assms Some no_solo show thesis by simp
  next
    case 4
    with assms Some distributed show thesis by simp
  qed
qed

section \<open>The contract of a planner\<close>

locale planner =
  fixes solve :: "'req \<Rightarrow> (PlannedPlacement, ScheduleError) res"
    and layers_of :: "'req \<Rightarrow> u32"
    and head_of :: "'req \<Rightarrow> NodeId"
    and workers_of :: "'req \<Rightarrow> NodeId list"
    and admissible :: "'req \<Rightarrow> bool"
  assumes total: "admissible r \<Longrightarrow> solve r \<noteq> Panic k"
    and tiling: "admissible r \<Longrightarrow> solve r = Ok p \<Longrightarrow> tiles 0 0 (layers_of r) (assignments_of p)"
    and nodes: "admissible r \<Longrightarrow> solve r = Ok p \<Longrightarrow>
      mset (map as_node (assignments_of p)) \<subseteq># mset (head_of r # workers_of r)"
    and split: "admissible r \<Longrightarrow> solve r = Ok p \<Longrightarrow>
      length (pp_tensor_split p) = length (assignments_of p)"
begin

text \<open>An admissible request is answered: by a placement or by a typed error.\<close>

lemma answered: "admissible r \<Longrightarrow> (\<exists>p. solve r = Ok p) \<or> (\<exists>e. solve r = Err e)"
  using total by (cases "solve r") auto

text \<open>Every layer of the model runs on exactly one stage.\<close>

lemma unique_stage:
  assumes "admissible r" "solve r = Ok p" "l < layers_of r"
  shows "\<exists>!i. i < length (assignments_of p) \<and> owns (assignments_of p ! i) l"
  using tiles_unique_owner [OF tiling [OF assms(1,2)]] assms(3) by simp

text \<open>The stages together hold every layer once.\<close>

lemma layers_total:
  assumes "admissible r" "solve r = Ok p"
  shows "sum_list (map (LayerRange_len \<circ> as_layers) (assignments_of p)) = layers_of r"
  using tiles_sum_len [OF tiling [OF assms]] by simp

text \<open>No node is assigned twice, and nobody outside the request takes part.\<close>

lemma one_stage_per_node:
  assumes "admissible r" "solve r = Ok p" "distinct (head_of r # workers_of r)"
  shows "distinct (map as_node (assignments_of p))"
proof -
  obtain B where "mset (head_of r # workers_of r) = mset (map as_node (assignments_of p)) + B"
    using nodes [OF assms(1,2)] by (metis mset_subset_eq_exists_conv)
  moreover obtain ys where "mset ys = B" using ex_mset by blast
  ultimately have "mset (head_of r # workers_of r) = mset (map as_node (assignments_of p) @ ys)"
    by simp
  then have "distinct (map as_node (assignments_of p) @ ys)"
    using assms(3) mset_eq_imp_distinct_iff by blast
  then show ?thesis by simp
qed

lemma participants_known:
  assumes "admissible r" "solve r = Ok p" "a \<in> set (assignments_of p)"
  shows "as_node a \<in> set (head_of r # workers_of r)"
proof -
  have "as_node a \<in># mset (map as_node (assignments_of p))" using assms(3) by simp
  then have "as_node a \<in># mset (head_of r # workers_of r)"
    using nodes [OF assms(1,2)] by (rule mset_subset_eqD [rotated])
  then show ?thesis by simp
qed

lemma stage_count: "admissible r \<Longrightarrow> solve r = Ok p \<Longrightarrow>
    length (assignments_of p) \<le> Suc (length (workers_of r))"
  using size_mset_mono [OF nodes] by fastforce

end

end
