(* ===== verification/PlanM3.thy ===== *)
theory PlanM3
  imports Placement
begin

text \<open>
  The M3 planner of \<open>onebrain-scheduler/src/lib.rs\<close> (\<open>plan\<close>): a flat 85% memory ceiling
  per node, auto-solo when the model fits the head, and otherwise layers apportioned to the
  budgets by largest remainders in exact integer arithmetic.

  The theory shows that the planner meets the \<open>planner\<close> contract, that the apportionment
  is within one layer of each node's exact quota, when each error is returned, and the one
  input on which it panics.
\<close>

section \<open>Inputs\<close>

record DeviceProfile =
  dp_node :: NodeId
  dp_usable :: u64
  dp_prefill_tps :: f64
  dp_decode_tps :: f64
  dp_disk_read_mbps :: f64

definition fits_solo :: "DeviceProfile \<Rightarrow> u64 \<Rightarrow> bool" where
  "fits_solo profile required_bytes = (required_bytes \<le> dp_usable profile)"

record NodeBudget =
  nb_node :: NodeId
  nb_usable :: u64

record PlanInput =
  pi_head :: NodeBudget
  pi_workers :: "NodeBudget list"
  pi_model_bytes :: u64
  pi_n_layers :: u32
  pi_ctx_len :: u32
  pi_forced_nodes :: "u32 option"

definition UTILIZATION_CEILING_PCT :: u64 where "UTILIZATION_CEILING_PCT = 85"

definition budget :: "u64 \<Rightarrow> u64" where
  "budget usable = as_u64 (mul128 usable UTILIZATION_CEILING_PCT div 100)"

text \<open>\<open>Some(0)\<close> means automatic.\<close>

definition effective_forced :: "u32 option \<Rightarrow> u32 option" where
  "effective_forced f = (case f of None \<Rightarrow> None | Some n \<Rightarrow> if n = 0 then None else Some n)"

section \<open>Solo\<close>

definition solo_placement :: "PlanInput \<Rightarrow> u64 \<Rightarrow> bool \<Rightarrow> PlannedPlacement" where
  "solo_placement inp head_budget forced =
     \<lparr>pp_plan = \<lparr>pl_epoch = Epoch 0, pl_model = '''', pl_strategy = Solo,
        pl_assignments = [\<lparr>as_node = nb_node (pi_head inp),
          as_layers = \<lparr>lr_start = 0, lr_end = pi_n_layers inp\<rparr>, as_stage = 0\<rparr>],
        pl_ctx_len = pi_ctx_len inp\<rparr>,
      pp_tensor_split = [Fin 1],
      pp_explanation = [SoloWeights (nb_node (pi_head inp)) (mb_ceil (pi_model_bytes inp))
        (mb_floor head_budget) UTILIZATION_CEILING_PCT (mb_floor (nb_usable (pi_head inp)))
        (pi_ctx_len inp) (if forced then ForcedSolo else AutoSolo)]\<rparr>"

section \<open>Distributed\<close>

text \<open>\<open>--nodes n\<close> keeps the \<open>n - 1\<close> largest workers, in their original order.\<close>

definition select_m3 :: "NodeBudget list \<Rightarrow> u32 option \<Rightarrow> NodeBudget list" where
  "select_m3 ws forced = (case forced of
     Some n \<Rightarrow>
       (let keep = n - 1;
            order = sort_by (\<lambda>i j. ord_then (cmp (nb_usable (ws ! j)) (nb_usable (ws ! i))) (cmp i j))
              [0..<length ws];
            chosen = sort (take keep order) in
        map ((!) ws) chosen)
   | None \<Rightarrow> ws)"

definition floor_counts :: "u32 \<Rightarrow> u64 \<Rightarrow> u64 list \<Rightarrow> u32 list" where
  "floor_counts n pooled budgets = map (\<lambda>b. as_u32 (mul128 n b div pooled)) budgets"

definition remainders :: "u32 \<Rightarrow> u64 \<Rightarrow> u64 list \<Rightarrow> (u128 \<times> u64 \<times> usize) list" where
  "remainders n pooled budgets =
     sort_by (\<lambda>(r1, b1, i1) (r2, b2, i2). ord_then (cmp r2 r1) (ord_then (cmp b2 b1) (cmp i1 i2)))
       (map (\<lambda>(i, b). (mul128 n b mod pooled, b, i)) (enumerate 0 budgets))"

text \<open>One more layer per remaining leftover, in remainder order.\<close>

fun hand_out :: "u32 list \<Rightarrow> (u128 \<times> u64 \<times> usize) list \<Rightarrow> u32 \<Rightarrow> u32 list" where
  "hand_out cs [] left = cs"
| "hand_out cs ((_, _, i) # rs) left =
     (if left = 0 then cs else hand_out (cs[i := add32 (cs ! i) 1]) rs (left - 1))"

definition layer_counts :: "u32 \<Rightarrow> u64 \<Rightarrow> u64 list \<Rightarrow> u32 list" where
  "layer_counts n pooled budgets =
     (let floors = floor_counts n pooled budgets; assigned = sum32 floors in
      hand_out floors (remainders n pooled budgets) (sub32 n assigned))"

record m3_acc =
  ma_assignments :: "Assignment list"
  ma_split :: "f32 list"
  ma_dropped :: "NodeBudget list"
  ma_prose :: "remark list"
  ma_binding :: "(usize \<times> u64) option"
  ma_cursor :: u32
  ma_stage :: u32

definition m3_step :: "PlanInput \<Rightarrow> usize \<Rightarrow> m3_acc \<Rightarrow> usize \<times> NodeBudget \<times> u32 \<times> u64 \<Rightarrow> m3_acc" where
  "m3_step inp n_parts acc = (\<lambda>(i, part, layers, b).
     if layers = 0 then acc\<lparr>ma_dropped := ma_dropped acc @ [part]\<rparr>
     else
       let range = \<lparr>lr_start = ma_cursor acc, lr_end = add32 (ma_cursor acc) layers\<rparr>;
           weight_bytes = as_u64 (mul128 layers (pi_model_bytes inp) div max (pi_n_layers inp) 1);
           util_pct = (if b = 0 then u64_max else as_u64 (mul128 weight_bytes 100 div b));
           role = (if i = n_parts - 1 then Head else Worker) in
       acc\<lparr>ma_cursor := add32 (ma_cursor acc) layers,
           ma_prose := ma_prose acc @ [StageWeights (ma_stage acc) role (nb_node part)
             (lr_start range) (lr_end range) layers (mb_ceil weight_bytes) util_pct (mb_floor b)],
           ma_binding := new_binding (ma_binding acc) (length (ma_assignments acc)) util_pct,
           ma_assignments := ma_assignments acc @
             [\<lparr>as_node = nb_node part, as_layers = range, as_stage = ma_stage acc\<rparr>],
           ma_split := ma_split acc @ [fdiv32 (f32_of_u layers) (f32_of_u (pi_n_layers inp))],
           ma_stage := add32 (ma_stage acc) 1\<rparr>)"

definition m3_acc0 :: m3_acc where
  "m3_acc0 = \<lparr>ma_assignments = [], ma_split = [], ma_dropped = [], ma_prose = [],
     ma_binding = None, ma_cursor = 0, ma_stage = 0\<rparr>"

definition m3_assemble :: "PlanInput \<Rightarrow> NodeBudget list \<Rightarrow> u32 list \<Rightarrow> u64 list \<Rightarrow> m3_acc" where
  "m3_assemble inp parts counts budgets =
     foldl (m3_step inp (length parts)) m3_acc0 (enumerate 0 (zip parts (zip counts budgets)))"

definition m3_why :: "PlanInput \<Rightarrow> u32 option \<Rightarrow> u64 \<Rightarrow> bool \<Rightarrow> why" where
  "m3_why inp forced head_budget solo_fits = (case forced of
     Some n \<Rightarrow> if solo_fits then ForcedButFits n
       else ForcedExceeds n (mb_ceil (pi_model_bytes inp)) (mb_floor head_budget)
   | None \<Rightarrow> WeightsExceed (mb_ceil (pi_model_bytes inp)) (mb_floor head_budget)
       UTILIZATION_CEILING_PCT (mb_floor (nb_usable (pi_head inp))))"

definition distributed_placement ::
    "PlanInput \<Rightarrow> u32 option \<Rightarrow> u64 \<Rightarrow> bool \<Rightarrow> (PlannedPlacement, ScheduleError) res" where
  "distributed_placement inp forced head_budget solo_fits =
     (let parts = select_m3 (pi_workers inp) forced @ [pi_head inp];
          budgets = map (budget \<circ> nb_usable) parts;
          pooled = sum64 budgets in
      if pooled < pi_model_bytes inp
      then Err (DoesNotFit (mb_ceil (pi_model_bytes inp)) (mb_floor pooled))
      else if pooled = 0 then Panic DivideByZero
      else
        let acc = m3_assemble inp parts (layer_counts (pi_n_layers inp) pooled budgets) budgets in
        Ok \<lparr>pp_plan = \<lparr>pl_epoch = Epoch 0, pl_model = '''', pl_strategy = PipelineParallel,
              pl_assignments = ma_assignments acc, pl_ctx_len = pi_ctx_len inp\<rparr>,
            pp_tensor_split = ma_split acc,
            pp_explanation =
              [PipelineAcross (length (ma_assignments acc)) (m3_why inp forced head_budget solo_fits)]
              @ ma_prose acc @ binding_notes (ma_binding acc) (ma_assignments acc)
              @ map (\<lambda>d. DroppedNode (nb_node d) (mb_floor (budget (nb_usable d)))) (ma_dropped acc)\<rparr>)"

definition plan :: "PlanInput \<Rightarrow> (PlannedPlacement, ScheduleError) res" where
  "plan inp =
     (let available = add32 (as_u32 (length (pi_workers inp))) 1;
          forced = effective_forced (pi_forced_nodes inp);
          head_budget = budget (nb_usable (pi_head inp));
          solo_fits = (pi_model_bytes inp \<le> head_budget) in
      case forced of
        None \<Rightarrow>
          if solo_fits then Ok (solo_placement inp head_budget False)
          else distributed_placement inp forced head_budget solo_fits
      | Some n \<Rightarrow>
          if available < n then Err (NotEnoughNodes n available)
          else if n = 1 then
            (if solo_fits then Ok (solo_placement inp head_budget True)
             else Err (DoesNotFit (mb_ceil (pi_model_bytes inp)) (mb_floor head_budget)))
          else distributed_placement inp forced head_budget solo_fits)"

section \<open>The apportionment\<close>

lemma budget_le: "usable < M64 \<Longrightarrow> budget usable \<le> usable"
  by (simp add: budget_def UTILIZATION_CEILING_PCT_def wrap_simps)

lemma quota_bounds:
  assumes "n < M32" "b \<le> pooled" "pooled < M64"
  shows "mul128 n b = n * b" "n * b div pooled \<le> n"
proof -
  have "n * b \<le> n * pooled" using assms(2) by (rule mult_le_mono2)
  moreover have "n * pooled < M128"
    using mult_strict_mono' [OF assms(1,3)] by simp
  ultimately have "n * b < M128" by linarith
  then show "mul128 n b = n * b" by (rule mul128_small)
  show "n * b div pooled \<le> n"
    using \<open>n * b \<le> n * pooled\<close> by (metis div_le_mono div_mult_self_is_m le_zero_eq div_by_0 not_gr_zero le0)
qed

lemma floor_counts_exact:
  assumes "n < M32" "sum_list bs = pooled" "pooled < M64"
  shows "floor_counts n pooled bs = map (\<lambda>b. n * b div pooled) bs"
proof -
  have "as_u32 (mul128 n b div pooled) = n * b div pooled" if "b \<in> set bs" for b
  proof -
    have "b \<le> pooled" using that assms(2) member_le_sum_list by blast
    from quota_bounds [OF assms(1) this assms(3)] assms(1) show ?thesis by (simp add: wrap_simps)
  qed
  then show ?thesis by (simp add: floor_counts_def)
qed

text \<open>The floors leave fewer layers than there are nodes.\<close>

lemma floors_leave:
  fixes n pooled :: nat
  assumes "sum_list bs = pooled" "0 < pooled"
  shows "sum_list (map (\<lambda>b. n * b div pooled) bs) \<le> n"
    and "n - sum_list (map (\<lambda>b. n * b div pooled) bs) < length bs"
proof -
  let ?F = "sum_list (map (\<lambda>b. n * b div pooled) bs)"
  let ?R = "sum_list (map (\<lambda>b. n * b mod pooled) bs)"
  have "sum_list (map (\<lambda>b. n * b) bs) = n * pooled"
    using assms(1) by (simp add: sum_list_const_mult)
  moreover have "sum_list (map (\<lambda>b. n * b) bs) = ?F * pooled + ?R"
    by (simp flip: sum_list_mult_const sum_list_addf)
  ultimately have eq: "n * pooled = ?F * pooled + ?R" by simp
  then have "?F * pooled \<le> n * pooled" by simp
  with assms(2) show le: "?F \<le> n" by simp
  have ne: "bs \<noteq> []" using assms by auto
  have "?R < length bs * pooled"
    using ne assms(2) by (induction bs rule: list_nonempty_induct) (auto simp: add_less_mono)
  then have "(n - ?F) * pooled < length bs * pooled"
    using eq le by (simp add: diff_mult_distrib)
  then show "n - ?F < length bs" by simp
qed

lemma hand_out_spec:
  assumes "distinct (map (\<lambda>x. snd (snd x)) rs)" "\<forall>x \<in> set rs. snd (snd x) < length cs"
    "left \<le> length rs" "sum_list cs + left < M32"
  shows "length (hand_out cs rs left) = length cs
    \<and> sum_list (hand_out cs rs left) = sum_list cs + left
    \<and> (\<forall>i < length cs. hand_out cs rs left ! i = cs ! i \<or>
         hand_out cs rs left ! i = cs ! i + 1 \<and> i \<in> set (map (\<lambda>x. snd (snd x)) rs))"
  using assms
proof (induction cs rs left rule: hand_out.induct)
  case (1 cs left)
  then show ?case by simp
next
  case (2 cs r b i rs left)
  show ?case
  proof (cases "left = 0")
    case True
    then show ?thesis by simp
  next
    case False
    have i: "i < length cs" using "2.prems"(2) by simp
    have "cs ! i \<le> sum_list cs" using i by (rule elem_le_sum_list_nat)
    then have inc: "add32 (cs ! i) 1 = Suc (cs ! i)"
      using False "2.prems"(4) by (simp add: wrap_simps)
    let ?cs = "cs[i := Suc (cs ! i)]"
    have s: "sum_list ?cs = Suc (sum_list cs)" using i by (rule sum_list_inc)
    have p: "distinct (map (\<lambda>x. snd (snd x)) rs)" "\<forall>x \<in> set rs. snd (snd x) < length ?cs"
        "left - 1 \<le> length rs" "sum_list ?cs + (left - 1) < M32"
      using "2.prems" False s by auto
    have ih: "length (hand_out ?cs rs (left - 1)) = length ?cs
      \<and> sum_list (hand_out ?cs rs (left - 1)) = sum_list ?cs + (left - 1)
      \<and> (\<forall>j < length ?cs. hand_out ?cs rs (left - 1) ! j = ?cs ! j \<or>
           hand_out ?cs rs (left - 1) ! j = ?cs ! j + 1 \<and> j \<in> set (map (\<lambda>x. snd (snd x)) rs))"
      by (rule "2.IH" [OF False, unfolded inc, OF p])
    have out: "hand_out cs ((r, b, i) # rs) left = hand_out ?cs rs (left - 1)"
      using False inc by simp
    have ni: "i \<notin> set (map (\<lambda>x. snd (snd x)) rs)" using "2.prems"(1) by simp
    have "hand_out ?cs rs (left - 1) ! j = cs ! j \<or> hand_out ?cs rs (left - 1) ! j = cs ! j + 1
        \<and> j \<in> set (map (\<lambda>x. snd (snd x)) ((r, b, i) # rs))" if j: "j < length cs" for j
    proof (cases "j = i")
      case True
      with ih ni i show ?thesis by fastforce
    next
      case ji: False
      with ih j show ?thesis by fastforce
    qed
    with ih s False show ?thesis unfolding out by simp
  qed
qed

lemma remainders_indices:
  "mset (map (\<lambda>x. snd (snd x)) (remainders n pooled bs)) = mset [0..<length bs]"
proof -
  have "mset (map (\<lambda>x. snd (snd x)) (remainders n pooled bs))
      = mset (map (\<lambda>x. snd (snd x)) (map (\<lambda>(i, b). (mul128 n b mod pooled, b, i)) (enumerate 0 bs)))"
    unfolding remainders_def by (simp only: mset_map mset_sort_by)
  also have "map (\<lambda>x. snd (snd x)) (map (\<lambda>(i, b). (mul128 n b mod pooled, b, i)) (enumerate 0 bs))
      = map fst (enumerate 0 bs)"
    by (simp add: comp_def case_prod_beta')
  finally show ?thesis by simp
qed

lemma layer_counts_spec:
  assumes n: "n < M32" and s: "sum_list bs = pooled" and p: "0 < pooled" "pooled < M64"
  shows "length (layer_counts n pooled bs) = length bs"
    and "sum_list (layer_counts n pooled bs) = n"
    and "\<And>i. i < length bs \<Longrightarrow> n * bs ! i div pooled \<le> layer_counts n pooled bs ! i
           \<and> layer_counts n pooled bs ! i \<le> n * bs ! i div pooled + 1"
proof -
  let ?fs = "map (\<lambda>b. n * b div pooled) bs" and ?rs = "remainders n pooled bs"
  have f: "floor_counts n pooled bs = ?fs" by (rule floor_counts_exact [OF n s p(2)])
  have le: "sum_list ?fs \<le> n" and lt: "n - sum_list ?fs < length bs"
    using floors_leave [OF s p(1)] by auto
  have left: "sub32 n (sum32 ?fs) = n - sum_list ?fs"
    using le n by (simp add: wrap_simps)
  have lc: "layer_counts n pooled bs = hand_out ?fs ?rs (n - sum_list ?fs)"
    by (simp only: layer_counts_def Let_def f left)
  have idx: "distinct (map (\<lambda>x. snd (snd x)) ?rs)" "set (map (\<lambda>x. snd (snd x)) ?rs) = {0..<length bs}"
    using remainders_indices [of n pooled bs] by (metis distinct_upt mset_eq_imp_distinct_iff)
      (metis remainders_indices set_mset_mset set_upt)
  have "length ?rs = length bs"
    using arg_cong [OF remainders_indices [of n pooled bs], of size] by simp
  moreover have "\<forall>x \<in> set ?rs. snd (snd x) < length ?fs"
    using idx(2) by (auto simp: image_def set_eq_iff)
  ultimately have h: "length (hand_out ?fs ?rs (n - sum_list ?fs)) = length ?fs
    \<and> sum_list (hand_out ?fs ?rs (n - sum_list ?fs)) = sum_list ?fs + (n - sum_list ?fs)
    \<and> (\<forall>i < length ?fs. hand_out ?fs ?rs (n - sum_list ?fs) ! i = ?fs ! i \<or>
         hand_out ?fs ?rs (n - sum_list ?fs) ! i = ?fs ! i + 1
         \<and> i \<in> set (map (\<lambda>x. snd (snd x)) ?rs))"
    using idx(1) le lt n by (intro hand_out_spec) auto
  show "length (layer_counts n pooled bs) = length bs" using h by (simp add: lc)
  show "sum_list (layer_counts n pooled bs) = n" using h le by (simp add: lc)
  fix i
  assume i: "i < length bs"
  with h have "layer_counts n pooled bs ! i = ?fs ! i \<or> layer_counts n pooled bs ! i = ?fs ! i + 1"
    unfolding lc by auto
  with i show "n * bs ! i div pooled \<le> layer_counts n pooled bs ! i
      \<and> layer_counts n pooled bs ! i \<le> n * bs ! i div pooled + 1"
    by auto
qed

section \<open>Assembly\<close>

definition placed :: "(usize \<times> NodeBudget \<times> u32 \<times> u64) list \<Rightarrow> (NodeId \<times> u32) list" where
  "placed ps = map (\<lambda>(i, p, l, b). (nb_node p, l)) (filter (\<lambda>(i, p, l, b). l \<noteq> 0) ps)"

lemma m3_fold:
  assumes "sum_list (map (\<lambda>(i, p, l, b). l) ps) < M32" "length ps < M32"
  shows "ma_assignments (foldl (m3_step inp k) m3_acc0 ps) = lay_out 0 0 (placed ps)
    \<and> ma_cursor (foldl (m3_step inp k) m3_acc0 ps) = sum_list (map snd (placed ps))
    \<and> ma_stage (foldl (m3_step inp k) m3_acc0 ps) = length (placed ps)
    \<and> length (ma_split (foldl (m3_step inp k) m3_acc0 ps)) = length (placed ps)
    \<and> sum_list (map snd (placed ps)) = sum_list (map (\<lambda>(i, p, l, b). l) ps)
    \<and> length (placed ps) \<le> length ps"
  using assms
proof (induction ps rule: rev_induct)
  case Nil
  then show ?case by (simp add: m3_acc0_def placed_def)
next
  case (snoc x ps)
  obtain i p l b where x: "x = (i, p, l, b)" by (cases x) auto
  define a where "a = foldl (m3_step inp k) m3_acc0 ps"
  have fold: "foldl (m3_step inp k) m3_acc0 (ps @ [x]) = m3_step inp k a x" by (simp add: a_def)
  have ih: "ma_assignments a = lay_out 0 0 (placed ps)"
      "ma_cursor a = sum_list (map snd (placed ps))" "ma_stage a = length (placed ps)"
      "length (ma_split a) = length (placed ps)"
      "sum_list (map snd (placed ps)) = sum_list (map (\<lambda>(i, p, l, b). l) ps)"
      "length (placed ps) \<le> length ps"
    using snoc by (auto simp: a_def)
  have w: "add32 (ma_cursor a) l = ma_cursor a + l" "add32 (ma_stage a) 1 = Suc (ma_stage a)"
    using snoc.prems ih x by (simp_all add: wrap_simps)
  show ?case
  proof (cases "l = 0")
    case True
    then have "placed (ps @ [x]) = placed ps" by (simp add: placed_def x)
    with True ih show ?thesis unfolding fold by (simp add: x m3_step_def)
  next
    case False
    then have "placed (ps @ [x]) = placed ps @ [(nb_node p, l)]" by (simp add: placed_def x)
    with False ih w show ?thesis unfolding fold by (simp add: x m3_step_def Let_def lay_out_snoc)
  qed
qed

lemma placed_enumerate:
  "length cs = length ps \<Longrightarrow> length bs = length ps \<Longrightarrow>
     placed (enumerate k (zip ps (zip cs bs))) = filter (\<lambda>(_, l). l \<noteq> 0) (zip (map nb_node ps) cs)"
proof (induction ps arbitrary: cs bs k)
  case (Cons p ps)
  then obtain c cs' b bs' where "cs = c # cs'" "bs = b # bs'"
    by (metis length_Suc_conv)
  with Cons show ?case by (simp add: placed_def)
qed (simp add: placed_def)

lemma layers_enumerate:
  "length cs = length ps \<Longrightarrow> length bs = length ps \<Longrightarrow>
     map (\<lambda>(i, p, l, b). l) (enumerate k (zip ps (zip cs bs))) = cs"
proof (induction ps arbitrary: cs bs k)
  case (Cons p ps)
  then obtain c cs' b bs' where "cs = c # cs'" "bs = b # bs'"
    by (metis length_Suc_conv)
  with Cons show ?case by simp
qed simp

lemma m3_assemble_spec:
  assumes "length cs = length ps" "length bs = length ps" "sum_list cs < M32" "length ps < M32"
  shows "tiles 0 0 (sum_list cs) (ma_assignments (m3_assemble inp ps cs bs))"
    and "mset (map as_node (ma_assignments (m3_assemble inp ps cs bs))) \<subseteq># mset (map nb_node ps)"
    and "length (ma_split (m3_assemble inp ps cs bs)) = length (ma_assignments (m3_assemble inp ps cs bs))"
proof -
  let ?xs = "enumerate 0 (zip ps (zip cs bs))"
  let ?qs = "filter (\<lambda>(_, l). l \<noteq> 0) (zip (map nb_node ps) cs)"
  have q: "placed ?xs = ?qs" by (rule placed_enumerate [OF assms(1,2)])
  have l: "map (\<lambda>(i, p, l, b). l) ?xs = cs" by (rule layers_enumerate [OF assms(1,2)])
  have "sum_list (map (\<lambda>(i, p, l, b). l) ?xs) < M32" "length ?xs < M32"
    using assms by (simp_all only: l) simp
  note f = m3_fold [OF this, of inp "length ps", unfolded q l]
  have a: "ma_assignments (m3_assemble inp ps cs bs) = lay_out 0 0 ?qs"
    using f by (simp add: m3_assemble_def)
  have "\<forall>k \<in> snd ` set ?qs. 0 < k" by auto
  from tiles_lay_out [OF this, of 0 0]
  show "tiles 0 0 (sum_list cs) (ma_assignments (m3_assemble inp ps cs bs))"
    using f by (simp add: a)
  have "mset (map fst ?qs) \<subseteq># mset (map fst (zip (map nb_node ps) cs))"
    by (rule mset_filter_map_subset)
  then show "mset (map as_node (ma_assignments (m3_assemble inp ps cs bs))) \<subseteq># mset (map nb_node ps)"
    using assms(1) by (simp add: a)
  show "length (ma_split (m3_assemble inp ps cs bs)) = length (ma_assignments (m3_assemble inp ps cs bs))"
    using f by (simp add: m3_assemble_def)
qed

lemma mset_select_m3: "mset (select_m3 ws f) \<subseteq># mset ws"
proof (cases f)
  case (Some n)
  let ?c = "sort (take (n - 1) (sort_by (\<lambda>i j. ord_then (cmp (nb_usable (ws ! j)) (nb_usable (ws ! i)))
      (cmp i j)) [0..<length ws]))"
  have "distinct ?c" by simp
  moreover have "set ?c \<subseteq> {..<length ws}"
    by (auto dest!: in_set_takeD)
  ultimately have "mset (map ((!) ws) ?c) \<subseteq># mset ws" by (rule mset_nth_subset)
  with Some show ?thesis by (simp add: select_m3_def Let_def)
qed (simp add: select_m3_def)

section \<open>The planner contract\<close>

text \<open>
  What the callers guarantee: a model with at least one layer, and node memories whose sum
  fits \<open>u64\<close>. The contract also asks for a model of at least one byte; what happens
  without it is \<open>plan_panics_iff\<close> below.
\<close>

definition m3_sized :: "PlanInput \<Rightarrow> bool" where
  "m3_sized inp = (0 < pi_n_layers inp \<and> pi_n_layers inp < M32 \<and> Suc (length (pi_workers inp)) < M32
     \<and> sum_list (map nb_usable (pi_head inp # pi_workers inp)) < M64)"

definition m3_admissible :: "PlanInput \<Rightarrow> bool" where
  "m3_admissible inp = (m3_sized inp \<and> 0 < pi_model_bytes inp)"

definition m3_parts :: "PlanInput \<Rightarrow> u32 option \<Rightarrow> NodeBudget list" where
  "m3_parts inp forced = select_m3 (pi_workers inp) forced @ [pi_head inp]"

lemma mset_m3_parts: "mset (m3_parts inp f) \<subseteq># mset (pi_head inp # pi_workers inp)"
  using mset_select_m3 [of "pi_workers inp" f] by (simp add: m3_parts_def)

lemma m3_pooled:
  assumes "m3_sized inp"
  shows "sum_list (map (budget \<circ> nb_usable) (m3_parts inp f)) < M64"
    and "length (m3_parts inp f) < M32"
proof -
  have "sum_list (map nb_usable (m3_parts inp f)) \<le> sum_list (map nb_usable (pi_head inp # pi_workers inp))"
    by (rule sum_list_submset_le [OF mset_m3_parts])
  also have "\<dots> < M64" using assms by (simp add: m3_sized_def)
  finally have u: "sum_list (map nb_usable (m3_parts inp f)) < M64" .
  have "budget (nb_usable p) \<le> nb_usable p" if "p \<in> set (m3_parts inp f)" for p
    using that u member_le_sum_list [of "nb_usable p" "map nb_usable (m3_parts inp f)"]
    by (intro budget_le) auto
  then have "sum_list (map (budget \<circ> nb_usable) (m3_parts inp f)) \<le> sum_list (map nb_usable (m3_parts inp f))"
    by (intro sum_list_mono) auto
  with u show "sum_list (map (budget \<circ> nb_usable) (m3_parts inp f)) < M64" by linarith
  show "length (m3_parts inp f) < M32"
    using size_mset_mono [OF mset_m3_parts [of inp f]] assms by (simp add: m3_sized_def)
qed

lemma distributed_m3_spec:
  assumes "m3_sized inp" and bs_def: "bs = map (budget \<circ> nb_usable) (m3_parts inp f)"
  shows "distributed_placement inp f hb sf = Panic k \<longleftrightarrow>
      k = DivideByZero \<and> pi_model_bytes inp = 0 \<and> sum_list bs = 0"
    and "distributed_placement inp f hb sf = Err e \<longleftrightarrow> sum_list bs < pi_model_bytes inp
      \<and> e = DoesNotFit (mb_ceil (pi_model_bytes inp)) (mb_floor (sum_list bs))"
    and "distributed_placement inp f hb sf = Ok p \<Longrightarrow>
      pi_model_bytes inp \<le> sum_list bs \<and> pl_strategy (pp_plan p) = PipelineParallel
      \<and> assignments_of p = ma_assignments (m3_assemble inp (m3_parts inp f)
           (layer_counts (pi_n_layers inp) (sum_list bs) bs) bs)
      \<and> tiles 0 0 (pi_n_layers inp) (assignments_of p)
      \<and> mset (map as_node (assignments_of p)) \<subseteq># mset (map nb_node (m3_parts inp f))
      \<and> length (pp_tensor_split p) = length (assignments_of p)"
proof -
  have s: "sum64 bs = sum_list bs" "length (m3_parts inp f) < M32" "sum_list bs < M64"
    using m3_pooled [OF assms(1), of f] by (simp_all add: wrap_simps bs_def)
  show "distributed_placement inp f hb sf = Panic k \<longleftrightarrow>
      k = DivideByZero \<and> pi_model_bytes inp = 0 \<and> sum_list bs = 0"
    unfolding distributed_placement_def m3_parts_def [symmetric] bs_def [symmetric] Let_def s(1)
    by (auto simp del: sum_list_eq_0_iff)
  show "distributed_placement inp f hb sf = Err e \<longleftrightarrow> sum_list bs < pi_model_bytes inp
      \<and> e = DoesNotFit (mb_ceil (pi_model_bytes inp)) (mb_floor (sum_list bs))"
    unfolding distributed_placement_def m3_parts_def [symmetric] bs_def [symmetric] Let_def s(1) by auto
  assume ok: "distributed_placement inp f hb sf = Ok p"
  let ?cs = "layer_counts (pi_n_layers inp) (sum_list bs) bs"
  have p: "pi_model_bytes inp \<le> sum_list bs" "0 < sum_list bs"
      "pl_strategy (pp_plan p) = PipelineParallel"
      "assignments_of p = ma_assignments (m3_assemble inp (m3_parts inp f) ?cs bs)"
      "pp_tensor_split p = ma_split (m3_assemble inp (m3_parts inp f) ?cs bs)"
    using ok unfolding distributed_placement_def m3_parts_def [symmetric] bs_def [symmetric] Let_def s(1)
    by (auto split: if_splits simp del: sum_list_eq_0_iff)
  have n: "pi_n_layers inp < M32" using assms(1) by (simp add: m3_sized_def)
  note c = layer_counts_spec [OF n refl p(2) s(3)]
  have "length ?cs = length (m3_parts inp f)" "length bs = length (m3_parts inp f)"
      "sum_list ?cs < M32"
    using c n by (simp_all add: bs_def)
  note a = m3_assemble_spec [OF this s(2), of inp]
  show "pi_model_bytes inp \<le> sum_list bs \<and> pl_strategy (pp_plan p) = PipelineParallel
      \<and> assignments_of p = ma_assignments (m3_assemble inp (m3_parts inp f) ?cs bs)
      \<and> tiles 0 0 (pi_n_layers inp) (assignments_of p)
      \<and> mset (map as_node (assignments_of p)) \<subseteq># mset (map nb_node (m3_parts inp f))
      \<and> length (pp_tensor_split p) = length (assignments_of p)"
    using p a c(2) by simp
qed

lemma plan_cases:
  obtains (not_enough) n where "effective_forced (pi_forced_nodes inp) = Some n"
      "add32 (as_u32 (length (pi_workers inp))) 1 < n"
      "plan inp = Err (NotEnoughNodes n (add32 (as_u32 (length (pi_workers inp))) 1))"
  | (solo) b where "plan inp = Ok (solo_placement inp (budget (nb_usable (pi_head inp))) b)"
      "pi_model_bytes inp \<le> budget (nb_usable (pi_head inp))"
      "effective_forced (pi_forced_nodes inp) \<in> {None, Some 1}"
  | (no_solo) "effective_forced (pi_forced_nodes inp) = Some 1"
      "budget (nb_usable (pi_head inp)) < pi_model_bytes inp"
      "plan inp = Err (DoesNotFit (mb_ceil (pi_model_bytes inp))
         (mb_floor (budget (nb_usable (pi_head inp)))))"
  | (distributed) sf where "plan inp = distributed_placement inp
         (effective_forced (pi_forced_nodes inp)) (budget (nb_usable (pi_head inp))) sf"
      "effective_forced (pi_forced_nodes inp) \<noteq> Some 1"
      "effective_forced (pi_forced_nodes inp) = None \<Longrightarrow>
         budget (nb_usable (pi_head inp)) < pi_model_bytes inp"
      "\<And>n. effective_forced (pi_forced_nodes inp) = Some n \<Longrightarrow>
         n \<le> add32 (as_u32 (length (pi_workers inp))) 1"
proof (cases "effective_forced (pi_forced_nodes inp)")
  case None
  show thesis
  proof (cases "pi_model_bytes inp \<le> budget (nb_usable (pi_head inp))")
    case True
    with None show thesis by (intro solo [of False]) (simp_all add: plan_def Let_def)
  next
    case False
    with None show thesis by (intro distributed [of False]) (simp_all add: plan_def Let_def)
  qed
next
  case (Some n)
  let ?av = "add32 (as_u32 (length (pi_workers inp))) 1"
  let ?sf = "pi_model_bytes inp \<le> budget (nb_usable (pi_head inp))"
  consider "?av < n" | "\<not> ?av < n" "n = 1" ?sf | "\<not> ?av < n" "n = 1" "\<not> ?sf" | "\<not> ?av < n" "n \<noteq> 1"
    by blast
  then show thesis
  proof cases
    case 1
    with Some show thesis by (intro not_enough) (simp_all add: plan_def Let_def)
  next
    case 2
    with Some show thesis by (intro solo [of True]) (simp_all add: plan_def Let_def)
  next
    case 3
    with Some show thesis by (intro no_solo) (simp_all add: plan_def Let_def)
  next
    case 4
    with Some show thesis by (intro distributed [of ?sf]) (simp_all add: plan_def Let_def)
  qed
qed

interpretation m3: planner plan pi_n_layers "\<lambda>inp. nb_node (pi_head inp)"
  "\<lambda>inp. map nb_node (pi_workers inp)" m3_admissible
proof
  fix r k
  assume a: "m3_admissible r"
  then have sz: "m3_sized r" "0 < pi_model_bytes r" by (simp_all add: m3_admissible_def)
  show "plan r \<noteq> Panic k"
    by (cases r rule: plan_cases) (use sz in \<open>simp_all add: distributed_m3_spec(1) [OF _ refl]\<close>)
next
  fix r p
  assume a: "m3_admissible r" and ok: "plan r = Ok p"
  then have sz: "m3_sized r" "0 < pi_n_layers r" by (simp_all add: m3_admissible_def m3_sized_def)
  have all: "tiles 0 0 (pi_n_layers r) (assignments_of p)
    \<and> mset (map as_node (assignments_of p)) \<subseteq># mset (nb_node (pi_head r) # map nb_node (pi_workers r))
    \<and> length (pp_tensor_split p) = length (assignments_of p)"
  proof (cases r rule: plan_cases)
    case (solo b)
    with ok have "p = solo_placement r (budget (nb_usable (pi_head r))) b" by simp
    then show ?thesis using sz(2) by (simp add: solo_placement_def)
  next
    case (distributed sf)
    note d = distributed_m3_spec(3) [OF sz(1) refl, of "effective_forced (pi_forced_nodes r)"
        "budget (nb_usable (pi_head r))" sf p]
    have "mset (map nb_node (m3_parts r f)) \<subseteq># mset (map nb_node (pi_head r # pi_workers r))" for f
      using image_mset_subseteq_mono [OF mset_m3_parts [of r f], of nb_node] by simp
    then show ?thesis using d distributed ok by (auto intro: subset_mset.order_trans)
  qed (use ok in simp_all)
  then show "tiles 0 0 (pi_n_layers r) (assignments_of p)"
    "mset (map as_node (assignments_of p)) \<subseteq># mset (nb_node (pi_head r) # map nb_node (pi_workers r))"
    "length (pp_tensor_split p) = length (assignments_of p)"
    by blast+
qed

section \<open>Properties\<close>

definition m3_sample :: PlanInput where
  "m3_sample = \<lparr>pi_head = \<lparr>nb_node = ''h'', nb_usable = 100\<rparr>,
     pi_workers = [\<lparr>nb_node = ''w'', nb_usable = 100\<rparr>],
     pi_model_bytes = 170, pi_n_layers = 3, pi_ctx_len = 2048, pi_forced_nodes = None\<rparr>"

definition m3_sample_acc :: m3_acc where
  "m3_sample_acc = m3_assemble m3_sample [\<lparr>nb_node = ''w'', nb_usable = 100\<rparr>,
     \<lparr>nb_node = ''h'', nb_usable = 100\<rparr>] [2, 1] [85, 85]"

lemma m3_sample_plan:
  "\<exists>p. plan m3_sample = Ok p \<and> assignments_of p =
     [\<lparr>as_node = ''w'', as_layers = \<lparr>lr_start = 0, lr_end = 2\<rparr>, as_stage = 0\<rparr>,
      \<lparr>as_node = ''h'', as_layers = \<lparr>lr_start = 2, lr_end = 3\<rparr>, as_stage = 1\<rparr>]
     \<and> StageWeights 0 Worker ''w'' 0 2 2 1 132 0 \<in> set (pp_explanation p)"
proof -
  have c: "layer_counts 3 170 [85, 85] = [2, 1]"
    by (simp add: layer_counts_def floor_counts_def remainders_def cmp_def mul128_def as_u32_def
        sum32_def sub32_def add32_def)
  have m: "m3_assemble m3_sample [\<lparr>nb_node = ''w'', nb_usable = 100\<rparr>,
      \<lparr>nb_node = ''h'', nb_usable = 100\<rparr>] [2, 1] [85, 85] = m3_sample_acc"
    by (simp add: m3_sample_acc_def)
  have acc: "ma_assignments m3_sample_acc =
     [\<lparr>as_node = ''w'', as_layers = \<lparr>lr_start = 0, lr_end = 2\<rparr>, as_stage = 0\<rparr>,
      \<lparr>as_node = ''h'', as_layers = \<lparr>lr_start = 2, lr_end = 3\<rparr>, as_stage = 1\<rparr>]"
    "StageWeights 0 Worker ''w'' 0 2 2 1 132 0 \<in> set (ma_prose m3_sample_acc)"
    by (simp_all add: m3_sample_acc_def m3_assemble_def m3_step_def m3_acc0_def m3_sample_def Let_def
        add32_def as_u64_def mul128_def mb_ceil_def mb_floor_def div_ceil_def MIB_def)
  have "budget 100 = 85" by (simp add: budget_def UTILIZATION_CEILING_PCT_def as_u64_def mul128_def)
  then have "\<exists>p. plan m3_sample = Ok p \<and> assignments_of p = ma_assignments m3_sample_acc
      \<and> set (ma_prose m3_sample_acc) \<subseteq> set (pp_explanation p)"
    using c m by (auto simp: plan_def effective_forced_def distributed_placement_def select_m3_def
        m3_sample_def sum64_def Let_def)
  then show ?thesis using acc by auto
qed

lemma m3_sample_admissible: "m3_admissible m3_sample"
  by (simp add: m3_admissible_def m3_sized_def m3_sample_def)

text \<open>An admissible request to the M3 planner never panics, and a placement it returns assigns
  every layer to exactly one stage, numbers the stages from 0 in layer order, uses each
  device of the request at most once and gives one split fraction per stage.\<close>

theorem plan_places_every_layer_once:
  assumes "m3_admissible inp" "plan inp = Ok p"
  shows "(\<forall>l < pi_n_layers inp. \<exists>!i. i < length (assignments_of p) \<and> owns (assignments_of p ! i) l)
    \<and> tiles 0 0 (pi_n_layers inp) (assignments_of p)
    \<and> mset (map as_node (assignments_of p)) \<subseteq># mset (map nb_node (pi_head inp # pi_workers inp))
    \<and> length (pp_tensor_split p) = length (assignments_of p)"
  using m3.unique_stage [OF assms] m3.tiling [OF assms] m3.nodes [OF assms] m3.split [OF assms] by simp

theorem plan_places_every_layer_once_witness:
  "\<exists>p. plan m3_sample = Ok p \<and> length (pp_tensor_split p) = 2"
  using plan_places_every_layer_once [OF m3_sample_admissible] m3_sample_plan by fastforce

text \<open>The M3 layer counts are a largest-remainder apportionment: they add up to the model's
  layers and every node is within one layer of its exact memory share (the floor of the
  exact quota or one above it).\<close>

theorem layer_counts_largest_remainder:
  assumes "n < M32" "0 < sum_list bs" "sum_list bs < M64"
  shows "sum_list (layer_counts n (sum_list bs) bs) = n
    \<and> (\<forall>i < length bs. layer_counts n (sum_list bs) bs ! i \<in>
         {n * bs ! i div sum_list bs, n * bs ! i div sum_list bs + 1})"
proof -
  note s = layer_counts_spec [OF assms(1) refl assms(2,3)]
  have "layer_counts n (sum_list bs) bs ! i \<in>
      {n * bs ! i div sum_list bs, n * bs ! i div sum_list bs + 1}" if "i < length bs" for i
    using s(3) [OF that] by force
  with s(2) show ?thesis by blast
qed

theorem layer_counts_largest_remainder_witness:
  "sum_list (layer_counts 7 (sum_list [3, 5, 9]) [3, 5, 9]) = 7"
  using layer_counts_largest_remainder [of 7 "[3, 5, 9]"] by simp

text \<open>The M3 planner chooses solo exactly when the weights fit the head's 85% budget and the
  user did not ask for two or more nodes; a distributed plan is returned only when the
  pooled budgets hold the weights, and the error otherwise names both figures.\<close>

theorem plan_decision:
  assumes "m3_admissible inp"
  shows "((\<exists>p. plan inp = Ok p \<and> pl_strategy (pp_plan p) = Solo) \<longleftrightarrow>
      pi_model_bytes inp \<le> budget (nb_usable (pi_head inp))
      \<and> effective_forced (pi_forced_nodes inp) \<in> {None, Some 1})
    \<and> ((\<exists>p. plan inp = Ok p \<and> pl_strategy (pp_plan p) = PipelineParallel) \<longleftrightarrow>
      pi_model_bytes inp \<le> sum_list (map (budget \<circ> nb_usable)
        (m3_parts inp (effective_forced (pi_forced_nodes inp))))
      \<and> (case effective_forced (pi_forced_nodes inp) of
           None \<Rightarrow> budget (nb_usable (pi_head inp)) < pi_model_bytes inp
         | Some n \<Rightarrow> n \<noteq> 1 \<and> n \<le> Suc (length (pi_workers inp))))
    \<and> (\<forall>n a. plan inp = Err (NotEnoughNodes n a) \<longleftrightarrow>
      effective_forced (pi_forced_nodes inp) = Some n \<and> a = Suc (length (pi_workers inp)) \<and> a < n)"
proof -
  have sz: "m3_sized inp" "pi_model_bytes inp \<noteq> 0" using assms by (simp_all add: m3_admissible_def)
  have av: "add32 (as_u32 (length (pi_workers inp))) 1 = Suc (length (pi_workers inp))"
    using sz by (simp add: m3_sized_def wrap_simps)
  show ?thesis
  proof (cases inp rule: plan_cases)
    case (not_enough n)
    then show ?thesis using av by auto
  next
    case (solo b)
    then show ?thesis by (auto simp: solo_placement_def)
  next
    case no_solo
    then show ?thesis by simp
  next
    case (distributed sf)
    let ?f = "effective_forced (pi_forced_nodes inp)"
    note d = distributed_m3_spec [OF sz(1) refl, of ?f "budget (nb_usable (pi_head inp))" sf]
    have "(\<exists>p. plan inp = Ok p) \<longleftrightarrow>
        pi_model_bytes inp \<le> sum_list (map (budget \<circ> nb_usable) (m3_parts inp ?f))"
    proof (cases "plan inp")
      case (Ok p)
      with d(3) [of p] distributed(1) have "pi_model_bytes inp \<le> sum_list (map (budget \<circ> nb_usable) (m3_parts inp ?f))"
        by simp
      with Ok show ?thesis by blast
    next
      case (Err e)
      with d(2) [of e] distributed(1) have "\<not> pi_model_bytes inp \<le> sum_list (map (budget \<circ> nb_usable) (m3_parts inp ?f))"
        by simp
      with Err show ?thesis by simp
    next
      case (Panic k)
      with d(1) [of k] distributed(1) sz(2) show ?thesis by simp
    qed
    moreover have "pl_strategy (pp_plan p) = PipelineParallel" if "plan inp = Ok p" for p
      using d(3) that distributed(1) by simp
    moreover have "plan inp \<noteq> Err (NotEnoughNodes n a)" for n a
      using d(2) distributed(1) by simp
    ultimately show ?thesis
      using distributed(2-4) av by (cases ?f) fastforce+
  qed
qed

theorem plan_decision_witness:
  "(\<exists>p. plan m3_sample = Ok p \<and> pl_strategy (pp_plan p) = Solo) \<longleftrightarrow> False"
  using plan_decision [OF m3_sample_admissible]
  by (simp add: m3_sample_def budget_def UTILIZATION_CEILING_PCT_def as_u64_def mul128_def)

text \<open>The M3 planner panics (a division by the pooled budget) on exactly one kind of request:
  two or more nodes demanded and available, a model of zero bytes, and participants whose
  85% budgets are all zero.\<close>

theorem plan_panics_iff:
  assumes "m3_sized inp"
  shows "(\<exists>k. plan inp = Panic k) \<longleftrightarrow>
    pi_model_bytes inp = 0
    \<and> sum_list (map (budget \<circ> nb_usable) (m3_parts inp (effective_forced (pi_forced_nodes inp)))) = 0
    \<and> (\<exists>n. effective_forced (pi_forced_nodes inp) = Some n \<and> n \<noteq> 1 \<and> n \<le> Suc (length (pi_workers inp)))"
proof -
  have av: "add32 (as_u32 (length (pi_workers inp))) 1 = Suc (length (pi_workers inp))"
    using assms by (simp add: m3_sized_def wrap_simps)
  show ?thesis
  proof (cases inp rule: plan_cases)
    case (distributed sf)
    let ?f = "effective_forced (pi_forced_nodes inp)"
    have "(\<exists>k. plan inp = Panic k) \<longleftrightarrow> pi_model_bytes inp = 0
        \<and> sum_list (map (budget \<circ> nb_usable) (m3_parts inp ?f)) = 0"
      unfolding distributed(1) distributed_m3_spec(1) [OF assms refl] by simp
    with distributed(2-4) av show ?thesis by (cases ?f) simp_all
  qed (use av in auto)
qed

definition m3_empty_pool :: PlanInput where
  "m3_empty_pool = \<lparr>pi_head = \<lparr>nb_node = ''h'', nb_usable = 0\<rparr>,
     pi_workers = [\<lparr>nb_node = ''w'', nb_usable = 1\<rparr>],
     pi_model_bytes = 0, pi_n_layers = 3, pi_ctx_len = 2048, pi_forced_nodes = Some 2\<rparr>"

theorem plan_panics_iff_witness: "\<exists>k. plan m3_empty_pool = Panic k"
proof -
  have "m3_sized m3_empty_pool" by (simp add: m3_sized_def m3_empty_pool_def)
  moreover have "budget 0 = 0" "budget 1 = 0"
    by (simp_all add: budget_def UTILIZATION_CEILING_PCT_def as_u64_def mul128_def)
  ultimately show ?thesis
    using plan_panics_iff [of m3_empty_pool]
    by (simp add: m3_empty_pool_def effective_forced_def m3_parts_def select_m3_def)
qed

end
