(* ===== verification/Apportion.thy ===== *)
theory Apportion
  imports Placement
begin

text \<open>
  The largest-remainder apportionment of \<open>onebrain-scheduler/src/v1.rs\<close> (\<open>apportion\<close>),
  which the v1 and v2 planners share: layers are handed out in proportion to \<open>f64\<close> scores
  and clamped to each node's whole-layer capacity.

  The quotas are floating point, so it is not evident that the rounded-down quotas stay
  within the number of layers (the \<open>u32\<close> subtraction \<open>n_layers - sum\<close> would wrap) or that
  the loop never meets its \<open>expect\<close>. Both follow from the error analysis here: with at
  most \<open>2 ^ 20\<close> nodes the relative error of a quota is below \<open>2 ^ - 32\<close>.
\<close>

section \<open>The code\<close>

text \<open>Whether index \<open>i\<close> beats the incumbent \<open>b\<close>: the larger unmet quota, then the larger score.\<close>

definition slot_better :: "f64 list \<Rightarrow> f64 list \<Rightarrow> u32 list \<Rightarrow> usize \<Rightarrow> usize \<Rightarrow> bool" where
  "slot_better scores quotas counts i b =
     (let key_i = fsub (quotas ! i) (f64_of_u (counts ! i));
          key_b = fsub (quotas ! b) (f64_of_u (counts ! b)) in
      flt_lt key_b key_i \<or> flt_eq key_i key_b \<and> flt_lt (scores ! b) (scores ! i))"

text \<open>The scan for the best node with slack, leaving out the nodes \<open>skip\<close> names.\<close>

definition best_slot ::
    "(usize \<Rightarrow> bool) \<Rightarrow> f64 list \<Rightarrow> u64 list \<Rightarrow> f64 list \<Rightarrow> u32 list \<Rightarrow> usize option" where
  "best_slot skip scores caps quotas counts =
     foldl (\<lambda>best i.
       if skip i \<or> caps ! i \<le> counts ! i then best
       else case best of
         None \<Rightarrow> Some i
       | Some b \<Rightarrow> if slot_better scores quotas counts i b then Some i else best)
     None [0..<length scores]"

text \<open>The loop that hands out the leftover layers one at a time.\<close>

fun fill :: "f64 list \<Rightarrow> u64 list \<Rightarrow> f64 list \<Rightarrow> u32 list \<Rightarrow> nat \<Rightarrow> (u32 list, ScheduleError) res" where
  "fill scores caps quotas counts 0 = Ok counts"
| "fill scores caps quotas counts (Suc left) =
     (case best_slot (\<lambda>_. False) scores caps quotas counts of
        None \<Rightarrow> Panic ExpectFailed
      | Some i \<Rightarrow> fill scores caps quotas (counts[i := add32 (counts ! i) 1]) left)"

definition quota :: "u32 \<Rightarrow> f64 \<Rightarrow> f64 \<Rightarrow> f64" where
  "quota n_layers total_score s = fdiv (fmul (f64_of_u n_layers) s) total_score"

definition floor_count :: "f64 \<Rightarrow> u64 \<Rightarrow> u32" where
  "floor_count q c = as_u32 (min (f64_as_u64 (ffloor q)) c)"

definition apportion ::
    "f64 list \<Rightarrow> u64 list \<Rightarrow> u32 \<Rightarrow> ((u32 list \<times> f64 list) option, ScheduleError) res" where
  "apportion scores caps n_layers =
     (let total_score = fsum scores; total_cap = sum64 caps in
      if flt_le total_score (Fin 0) \<or> total_cap < n_layers then Ok None
      else
        let quotas = map (quota n_layers total_score) scores;
            counts = map2 floor_count quotas caps;
            leftover = sub32 n_layers (sum32 counts) in
        res_bind (fill scores caps quotas counts leftover) (\<lambda>counts. Ok (Some (counts, quotas))))"

section \<open>The quotas\<close>

text \<open>The scores the planners produce: zero, or far from both ends of the \<open>f64\<close> range.\<close>

definition scored :: "rat \<Rightarrow> bool" where
  "scored s \<longleftrightarrow> s = 0 \<or> 2 powi (- 70) \<le> s \<and> s \<le> 2 powi 70"

definition MAX_NODES :: nat where "MAX_NODES = 1048576"

lemma scored_nonneg: "scored s \<Longrightarrow> 0 \<le> s"
  using powi_pos [of "- 70"] by (auto simp: scored_def)

lemma scored_le: "scored s \<Longrightarrow> s \<le> 2 powi 70"
  using powi_pos [of 70] by (auto simp: scored_def)

lemma tiny_le_powi: "- 900 \<le> k \<Longrightarrow> tiny \<le> 2 powi k"
  unfolding tiny_def by (rule powi_mono)

lemma scored_nrm: "scored s \<Longrightarrow> nrm s"
  using tiny_le_powi [of "- 70"] by (auto simp: scored_def nrm_def)

lemma of_nat_less_powi32: "n < M32 \<Longrightarrow> (of_nat n :: rat) \<le> 2 powi 32"
proof -
  assume "n < M32"
  then have "n \<le> 2 ^ 32" by simp
  then have "(of_nat n :: rat) \<le> of_nat (2 ^ 32)" by (simp only: of_nat_le_iff)
  then show ?thesis by (simp add: power_int_numeral)
qed

lemma quota_bound:
  assumes s: "scored s" and n: "0 < n" "n < M32" and t: "s / 2 \<le> t" "0 < t" "t \<le> 2 powi 91"
  shows "\<exists>q. quota n (Fin t) (Fin s) = Fin q \<and> 0 \<le> q \<and> q \<le> of_nat n * s / t * (1 + uro) ^ 2"
proof (cases "s = 0")
  case True
  have "f64_of_u n = Fin (of_nat n)" using n by (intro f64_of_u_exact) simp
  with True t show ?thesis by (simp add: quota_def fdiv_def fl64_Fin huge_def)
next
  case False
  have n1: "1 \<le> (of_nat n :: rat)" using n(1) by simp
  have s0: "2 powi (- 70) \<le> s" "s \<le> 2 powi 70" "0 < s"
    using s False scored_nonneg [OF s] by (auto simp: scored_def)
  let ?x = "of_nat n * s"
  let ?a = "rnd64 ?x"
  let ?y = "?a / t"
  have x0: "s \<le> ?x" using mult_right_mono [OF n1, of s] s0 by simp
  have xu: "?x \<le> 2 powi 102"
  proof -
    have "?x \<le> 2 powi 32 * 2 powi 70"
      using of_nat_less_powi32 [OF n(2)] s0 by (intro mult_mono) simp_all
    then show ?thesis by (simp flip: power_int_add)
  qed
  then have xh: "?x \<le> huge" using huge_ge [of 102] by linarith
  have "tiny \<le> 2 powi (- 70)" by (rule tiny_le_powi) simp
  with x0 s0(1) have "tiny \<le> ?x" by linarith
  then have nx: "nrm ?x" by (simp add: nrm_def)
  note ax = rnd64_relative [OF nx]
  have a_lo: "2 powi (- 71) \<le> ?a"
  proof -
    have "uro \<le> 1 / 2" by (simp add: uro_def)
    then have "?x * (1 / 2) \<le> ?x * (1 - uro)" using x0 s0 by (intro mult_left_mono) simp_all
    then have "?x / 2 \<le> ?a" using ax(1) by simp
    moreover have "(2::rat) powi (- 71) = 2 powi (- 70) / 2" by (simp add: power_int_minus)
    ultimately show ?thesis using x0 s0(1) by linarith
  qed
  then have a0: "0 < ?a" using powi_pos [of "- 71"] by linarith
  have y_lo: "tiny \<le> ?y"
  proof -
    have "tiny * t \<le> tiny * 2 powi 91" using t(3) tiny_pos by (intro mult_left_mono) simp_all
    also have "\<dots> \<le> 2 powi (- 71)" unfolding tiny_def by (simp add: powi_mono flip: power_int_add)
    also have "\<dots> \<le> ?a" by (rule a_lo)
    finally show ?thesis using t(2) by (simp add: pos_le_divide_eq)
  qed
  have y_hi: "?y \<le> of_nat n * s / t * (1 + uro)"
    using divide_right_mono [OF ax(2), of t] t(2) by (simp add: field_simps)
  have yh: "?y \<le> huge"
  proof -
    have "of_nat n * s / t \<le> of_nat n * 2"
      using t(1,2) n1 by (simp add: pos_divide_le_eq mult.assoc)
    moreover have "0 \<le> of_nat n * s / t" using s0 t n1 by simp
    ultimately have "of_nat n * s / t * (1 + uro) \<le> of_nat n * 2 * 2"
      using uro_bounds by (intro mult_mono) simp_all
    also have "\<dots> \<le> 2 powi 32 * 4" using of_nat_less_powi32 [OF n(2)] by simp
    also have "\<dots> = 2 powi 34" by simp
    also have "\<dots> \<le> huge" by (rule huge_ge) simp
    finally show ?thesis using y_hi by linarith
  qed
  have ny: "nrm ?y" using y_lo by (simp add: nrm_def)
  have "f64_of_u n = Fin (of_nat n)" using n by (intro f64_of_u_exact) simp
  then have q: "quota n (Fin t) (Fin s) = Fin (rnd64 ?y)"
    using t(2) x0 s0(3) xh yh a0 by (simp add: quota_def fdiv_def fl64_Fin)
  have "rnd64 ?y \<le> ?y * (1 + uro)" by (rule rnd64_relative(2) [OF ny])
  also have "\<dots> \<le> of_nat n * s / t * (1 + uro) * (1 + uro)"
    using y_hi uro_bounds by (intro mult_right_mono) simp_all
  also have "\<dots> = of_nat n * s / t * (1 + uro) ^ 2" by (simp add: power2_eq_square mult.assoc)
  finally show ?thesis using q rnd64_nonneg [OF nrm_nonneg [OF ny]] by blast
qed

lemma sum_scored_le: "\<forall>s \<in> set ss. scored s \<Longrightarrow> sum_list ss \<le> of_nat (length ss) * 2 powi 70"
  by (induction ss) (auto simp: algebra_simps dest!: scored_le intro: add_mono)

lemma error_budget:
  assumes n: "n < M32" and m: "m \<le> MAX_NODES"
  shows "of_nat n * (1 + uro) ^ 2 < (of_nat n + 1) * (1 - of_nat m * uro)"
    and "of_nat m * uro \<le> 1 / 2"
proof -
  have m': "(of_nat m :: rat) \<le> 1048576"
    using m of_nat_le_iff [where 'a = rat, of m 1048576] by (simp add: MAX_NODES_def)
  have n': "(of_nat n :: rat) \<le> 4294967296" "0 \<le> (of_nat n :: rat)"
    using n of_nat_le_iff [where 'a = rat, of n M32] by simp_all
  show "of_nat m * uro \<le> 1 / 2" using m' by (simp add: uro_def)
  have "of_nat n * of_nat m \<le> (4294967296 :: rat) * 1048576"
    using n' m' by (intro mult_mono) simp_all
  then have "of_nat n * of_nat m * uro \<le> 1 / 2" by (simp add: uro_def mult.commute)
  moreover have "of_nat m * uro \<le> 1 / 8" using m' by (simp add: uro_def)
  moreover have "of_nat n * (2 * uro + uro * uro) \<le> 4294967296 * (2 * uro + uro * uro)"
    using n' uro_bounds by (intro mult_right_mono) simp_all
  moreover have "4294967296 * (2 * uro + uro * uro) \<le> 1 / 8" by (simp add: uro_def)
  ultimately have "of_nat n * (2 * uro + uro * uro) + of_nat n * of_nat m * uro + of_nat m * uro < 1"
    by linarith
  then show "of_nat n * (1 + uro) ^ 2 < (of_nat n + 1) * (1 - of_nat m * uro)"
    by (simp add: power2_eq_square algebra_simps)
qed

lemma quotas_exist:
  assumes "\<forall>s \<in> set ss. \<exists>q. f s = Fin q \<and> 0 \<le> q \<and> q \<le> c * s"
  shows "\<exists>qs. map f ss = map Fin qs \<and> (\<forall>q \<in> set qs. 0 \<le> q) \<and> sum_list qs \<le> c * sum_list ss"
  using assms
proof (induction ss)
  case (Cons s ss)
  then obtain q qs where "f s = Fin q" "0 \<le> q" "q \<le> c * s" "map f ss = map Fin qs"
    "\<forall>q \<in> set qs. 0 \<le> q" "sum_list qs \<le> c * sum_list ss" by auto
  then show ?case by (intro exI [of _ "q # qs"]) (auto simp: algebra_simps)
qed simp

lemma quotas_sum:
  assumes ss: "\<forall>s \<in> set ss. scored s" "length ss \<le> MAX_NODES" and n: "0 < n" "n < M32"
    and S: "0 < sum_list ss"
  obtains t qs where "fsum (map Fin ss) = Fin t" "0 < t"
    "map (quota n (Fin t)) (map Fin ss) = map Fin qs" "\<forall>q \<in> set qs. 0 \<le> q"
    "sum_list qs < of_nat n + 1"
proof -
  let ?m = "length ss" and ?S = "sum_list ss"
  have mu: "of_nat ?m * uro \<le> 1 / 2" by (rule error_budget(2) [OF n(2) ss(2)])
  have "(of_nat ?m :: rat) \<le> of_nat MAX_NODES" using ss(2) by (simp only: of_nat_le_iff)
  then have "of_nat ?m * 2 powi 70 \<le> (2::rat) powi 20 * 2 powi 70"
    by (intro mult_right_mono) (simp_all add: MAX_NODES_def)
  also have "\<dots> = 2 powi 90" by (simp flip: power_int_add)
  finally have S90: "?S \<le> 2 powi 90" using sum_scored_le [OF ss(1)] by linarith
  have "2 * (2::rat) powi 90 = 2 powi 91" by simp
  with S90 have S91: "2 * ?S \<le> 2 powi 91" by linarith
  also have "\<dots> \<le> huge" by (rule huge_ge) simp
  finally have "2 * ?S \<le> huge" .
  from fsum_bounds [OF _ mu this] ss(1)
  obtain t where t: "fsum (map Fin ss) = Fin t" "(1 - of_nat ?m * uro) * ?S \<le> t" "t \<le> 2 * ?S"
    by (auto simp: scored_nrm)
  have "1 / 2 * ?S \<le> (1 - of_nat ?m * uro) * ?S" using mu S by (intro mult_right_mono) simp_all
  then have half: "?S / 2 \<le> t" using t(2) by simp
  then have t0: "0 < t" using S by simp
  let ?c = "of_nat n * (1 + uro) ^ 2 / t"
  have "\<exists>q. (quota n (Fin t) \<circ> Fin) s = Fin q \<and> 0 \<le> q \<and> q \<le> ?c * s" if "s \<in> set ss" for s
  proof -
    have "s \<le> ?S" using that ss(1) by (intro member_le_sum_list) (auto simp: scored_nonneg)
    with half have "s / 2 \<le> t" by linarith
    from quota_bound [OF _ n this t0] t(3) S91 ss(1) that show ?thesis by (simp add: field_simps)
  qed
  then obtain qs where q: "map (quota n (Fin t) \<circ> Fin) ss = map Fin qs" "\<forall>q \<in> set qs. 0 \<le> q"
      "sum_list qs \<le> ?c * ?S"
    using quotas_exist by blast
  have "?c * ?S < of_nat n + 1"
  proof -
    have "of_nat n * (1 + uro) ^ 2 * ?S < (of_nat n + 1) * (1 - of_nat ?m * uro) * ?S"
      using error_budget(1) [OF n(2) ss(2)] S by (rule mult_strict_right_mono)
    also have "\<dots> = (of_nat n + 1) * ((1 - of_nat ?m * uro) * ?S)" by (simp only: mult.assoc)
    also have "\<dots> \<le> (of_nat n + 1) * t" using t(2) by (intro mult_left_mono) simp_all
    finally show ?thesis using t0 by (simp add: pos_divide_less_eq)
  qed
  with q(3) have "sum_list qs < of_nat n + 1" by linarith
  with that [OF t(1) t0 _ q(2)] q(1) show thesis by simp
qed

section \<open>The counts\<close>

lemma floor_count_exact:
  assumes "0 \<le> q" "c < M32"
  shows "floor_count (Fin q) c = min (nat \<lfloor>q\<rfloor>) c"
  using assms by (auto simp: floor_count_def as_u32_def u64_max_def min_def)

lemma sum_floors_le:
  assumes "\<forall>q \<in> set qs. 0 \<le> q" "\<forall>c \<in> set caps. c < M32" "length caps = length qs"
  shows "of_nat (sum_list (map2 floor_count (map Fin qs) caps)) \<le> (sum_list qs :: rat)"
  using assms(3,1,2)
proof (induction caps qs rule: list_induct2)
  case (Cons c caps q qs)
  then have "of_nat (floor_count (Fin q) c) \<le> q"
    by (auto simp: floor_count_exact min_def) (linarith | metis le_floor_iff of_int_of_nat_eq)+
  with Cons show ?case by simp
qed simp

lemma best_slot_cases:
  "case best_slot skip scores caps quotas counts of
     Some i \<Rightarrow> i < length scores \<and> \<not> skip i \<and> counts ! i < caps ! i
   | None \<Rightarrow> \<forall>i < length scores. skip i \<or> caps ! i \<le> counts ! i"
proof -
  let ?f = "\<lambda>best i. if skip i \<or> caps ! i \<le> counts ! i then best
       else case best of None \<Rightarrow> Some i
       | Some b \<Rightarrow> if slot_better scores quotas counts i b then Some i else best"
  have "case foldl ?f None [0..<m] of
     Some i \<Rightarrow> i < m \<and> \<not> skip i \<and> counts ! i < caps ! i
   | None \<Rightarrow> \<forall>i < m. skip i \<or> caps ! i \<le> counts ! i" for m
    by (induction m) (auto simp: less_Suc_eq split: option.splits if_splits)
  from this [of "length scores"] show ?thesis by (simp only: best_slot_def)
qed

lemma best_slot_SomeD:
  "best_slot skip scores caps quotas counts = Some i \<Longrightarrow>
     i < length scores \<and> \<not> skip i \<and> counts ! i < caps ! i"
  using best_slot_cases [where skip = skip and scores = scores and caps = caps and quotas = quotas and counts = counts] by simp

lemma best_slot_NoneD:
  "best_slot skip scores caps quotas counts = None \<Longrightarrow> i < length scores \<Longrightarrow>
     skip i \<or> caps ! i \<le> counts ! i"
  using best_slot_cases [where skip = skip and scores = scores and caps = caps and quotas = quotas and counts = counts] by simp

lemma fill_spec:
  assumes "length counts = length caps" "length scores = length caps"
    "\<forall>i < length caps. counts ! i \<le> caps ! i" "\<forall>c \<in> set caps. c < M32"
    "sum_list counts + left \<le> sum_list caps"
  shows "\<exists>cs. fill scores caps quotas counts left = Ok cs \<and> length cs = length caps
    \<and> sum_list cs = sum_list counts + left
    \<and> (\<forall>i < length caps. counts ! i \<le> cs ! i \<and> cs ! i \<le> caps ! i)"
  using assms
proof (induction left arbitrary: counts)
  case 0
  then show ?case by simp
next
  case (Suc left)
  have "\<exists>i < length counts. counts ! i < caps ! i"
    using Suc.prems by (intro sum_list_pos_ex) simp_all
  then obtain i where b: "best_slot (\<lambda>_. False) scores caps quotas counts = Some i"
    using best_slot_NoneD [of "\<lambda>_. False" scores caps quotas counts] Suc.prems(1,2)
    by (metis not_le option.exhaust)
  have i: "i < length caps" "counts ! i < caps ! i"
    using best_slot_SomeD [OF b] Suc.prems(2) by auto
  then have "caps ! i < M32" using Suc.prems(4) by simp
  then have inc: "add32 (counts ! i) 1 = Suc (counts ! i)" using i(2) by (simp add: wrap_simps)
  let ?cs = "counts[i := Suc (counts ! i)]"
  have s: "sum_list ?cs = Suc (sum_list counts)" using i(1) Suc.prems(1) by (intro sum_list_inc) simp
  have le: "\<forall>j < length caps. ?cs ! j \<le> caps ! j"
    using Suc.prems(1,3) i by (auto simp: nth_list_update)
  have "length ?cs = length caps" "sum_list ?cs + left \<le> sum_list caps"
    using Suc.prems(1,5) s by simp_all
  from Suc.IH [OF this(1) Suc.prems(2) le Suc.prems(4) this(2)]
  obtain cs where cs: "fill scores caps quotas ?cs left = Ok cs" "length cs = length caps"
      "sum_list cs = sum_list ?cs + left" "\<forall>j < length caps. ?cs ! j \<le> cs ! j \<and> cs ! j \<le> caps ! j"
    by blast
  have "counts ! j \<le> cs ! j" if "j < length caps" for j
  proof -
    have "counts ! j \<le> ?cs ! j" using that Suc.prems(1) by (cases "j = i") simp_all
    with cs(4) that show ?thesis by (meson le_trans)
  qed
  with cs s show ?case by (simp add: b inc [unfolded One_nat_def])
qed

text \<open>
  The contract of \<open>apportion\<close>: it never panics, it refuses exactly when no node has a score
  or the capacities do not hold the layers, and otherwise every layer is handed out, no node
  exceeds its capacity and none falls below its rounded-down quota (capacity permitting).
\<close>

lemma fsum_zero:
  assumes "\<forall>s \<in> set ss. scored s" "length ss \<le> MAX_NODES" "sum_list ss = 0"
  shows "fsum (map Fin ss) = Fin 0"
proof -
  have "of_nat (length ss) * uro \<le> 1 / 2" by (rule error_budget(2) [OF _ assms(2), of 0]) simp
  from fsum_bounds [OF _ this] assms obtain t where "fsum (map Fin ss) = Fin t" "nrm t" "t \<le> 0"
    by (auto simp: scored_nrm huge_def)
  with nrm_nonneg [of t] show ?thesis by simp
qed

lemma apportion_spec:
  assumes ss: "\<forall>s \<in> set ss. scored s" "length ss \<le> MAX_NODES" and n: "0 < n" "n < M32"
    and caps: "length caps = length ss" "\<forall>c \<in> set caps. c < M32"
  shows "sum_list ss = 0 \<or> sum_list caps < n \<Longrightarrow> apportion (map Fin ss) caps n = Ok None"
    and "sum_list ss \<noteq> 0 \<Longrightarrow> n \<le> sum_list caps \<Longrightarrow>
      \<exists>cs qs. apportion (map Fin ss) caps n = Ok (Some (cs, map Fin qs))
        \<and> length cs = length ss \<and> length qs = length ss \<and> sum_list cs = n
        \<and> (\<forall>i < length ss. cs ! i \<le> caps ! i \<and> min (nat \<lfloor>qs ! i\<rfloor>) (caps ! i) \<le> cs ! i)"
proof -
  have S0: "0 \<le> sum_list ss" using ss(1) by (intro sum_list_nonneg) (auto simp: scored_nonneg)
  have "sum_list caps \<le> length caps * M32"
    using caps(2) by (induction caps) (auto simp: less_imp_le add_mono)
  also have "\<dots> \<le> 1048576 * M32" using ss(2) caps(1) by (simp add: MAX_NODES_def)
  also have "\<dots> < M64" by simp
  finally have cap64: "sum64 caps = sum_list caps" by (rule sum64_small)
  {
    assume "sum_list ss = 0 \<or> sum_list caps < n"
    then show "apportion (map Fin ss) caps n = Ok None"
      using fsum_zero [OF ss] by (auto simp: apportion_def cap64 flt_le_def flt_eq_def)
  next
    assume pos: "sum_list ss \<noteq> 0" and fits: "n \<le> sum_list caps"
    with S0 have S: "0 < sum_list ss" by simp
    obtain t qs where t: "fsum (map Fin ss) = Fin t" "0 < t"
        and q: "map (quota n (Fin t)) (map Fin ss) = map Fin qs" "\<forall>q \<in> set qs. 0 \<le> q"
          "sum_list qs < of_nat n + 1"
      by (rule quotas_sum [OF ss n S])
    have lq: "length qs = length ss" using q(1) by (metis length_map)
    let ?c0 = "map2 floor_count (map Fin qs) caps"
    have "of_nat (sum_list ?c0) < (of_nat n + 1 :: rat)"
      using sum_floors_le [OF q(2) caps(2)] caps(1) lq q(3) by simp
    then have le: "sum_list ?c0 \<le> n" by linarith
    have nth: "?c0 ! i = min (nat \<lfloor>qs ! i\<rfloor>) (caps ! i)" if "i < length ss" for i
      using that lq caps q(2) by (simp add: floor_count_exact)
    have "sub32 n (sum32 ?c0) = n - sum_list ?c0" using le n(2) by (simp add: wrap_simps)
    then have ap: "apportion (map Fin ss) caps n =
        res_bind (fill (map Fin ss) caps (map Fin qs) ?c0 (n - sum_list ?c0)) (\<lambda>cs. Ok (Some (cs, map Fin qs)))"
      using t fits by (simp only: apportion_def Let_def q(1) cap64) (simp add: flt_le_def flt_eq_def)
    have "length ?c0 = length caps" "length (map Fin ss) = length caps"
        "\<forall>i < length caps. ?c0 ! i \<le> caps ! i" "sum_list ?c0 + (n - sum_list ?c0) \<le> sum_list caps"
      using lq caps(1) nth le fits by simp_all
    from fill_spec [OF this(1-3) caps(2) this(4), of "map Fin qs"]
    obtain cs where "fill (map Fin ss) caps (map Fin qs) ?c0 (n - sum_list ?c0) = Ok cs"
        "length cs = length caps" "sum_list cs = n"
        "\<forall>i < length caps. ?c0 ! i \<le> cs ! i \<and> cs ! i \<le> caps ! i"
      using le by fastforce
    then show "\<exists>cs qs. apportion (map Fin ss) caps n = Ok (Some (cs, map Fin qs))
        \<and> length cs = length ss \<and> length qs = length ss \<and> sum_list cs = n
        \<and> (\<forall>i < length ss. cs ! i \<le> caps ! i \<and> min (nat \<lfloor>qs ! i\<rfloor>) (caps ! i) \<le> cs ! i)"
      using nth caps(1) lq by (intro exI [of _ cs] exI [of _ qs]) (simp add: ap)
  }
qed

section \<open>Properties\<close>

text \<open>Apportioning layers to float scores never panics; it refuses exactly when every score is
  zero or the capacities together hold fewer layers than the model has; and otherwise it
  hands out every layer, keeps each node within its whole-layer capacity and gives each node
  at least its rounded-down quota (or its capacity, where that is smaller). This holds for up
  to \<open>2 ^ 20\<close> nodes, scores that are zero or between \<open>2 ^ - 70\<close> and \<open>2 ^ 70\<close>, and
  capacities that fit \<open>u32\<close>.\<close>

theorem apportion_hands_out_every_layer:
  assumes "\<forall>s \<in> set ss. scored s" "length ss \<le> MAX_NODES" "0 < n" "n < M32"
    "length caps = length ss" "\<forall>c \<in> set caps. c < M32"
  shows "(\<exists>r. apportion (map Fin ss) caps n = Ok r)
    \<and> (apportion (map Fin ss) caps n = Ok None \<longleftrightarrow> sum_list ss = 0 \<or> sum_list caps < n)
    \<and> (\<forall>cs quotas. apportion (map Fin ss) caps n = Ok (Some (cs, quotas)) \<longrightarrow>
        sum_list cs = n \<and> length cs = length ss \<and>
        (\<exists>qs. quotas = map Fin qs \<and> length qs = length ss \<and>
          (\<forall>i < length ss. cs ! i \<le> caps ! i \<and> min (nat \<lfloor>qs ! i\<rfloor>) (caps ! i) \<le> cs ! i)))"
proof (cases "sum_list ss = 0 \<or> sum_list caps < n")
  case True
  with apportion_spec(1) [OF assms] show ?thesis by simp
next
  case False
  then have "sum_list ss \<noteq> 0" "n \<le> sum_list caps" by simp_all
  from apportion_spec(2) [OF assms this] False show ?thesis by auto
qed

theorem apportion_hands_out_every_layer_witness:
  "(\<exists>cs qs. apportion [Fin 2, Fin 1] [2, 5] 4 = Ok (Some (cs, qs)) \<and> sum_list cs = 4
     \<and> cs ! 0 \<le> 2 \<and> cs ! 1 \<le> 5)
   \<and> apportion [Fin 2, Fin 1] [2, 1] 4 = Ok None"
proof -
  have s: "\<forall>s \<in> set [2, 1]. scored s" by (simp add: scored_def)
  have m: "length [2, 1 :: rat] \<le> MAX_NODES" by (simp add: MAX_NODES_def)
  have a: "map Fin [2, 1] = [Fin 2, Fin 1]" by simp
  have 1: "apportion [Fin 2, Fin 1] [2, 1] 4 = Ok None"
    using apportion_hands_out_every_layer [OF s m, of 4 "[2, 1]"] unfolding a by simp
  have h: "0 < (4 :: nat)" "(4 :: nat) < M32" "length [2, 5 :: nat] = length [2, 1 :: rat]"
    "\<forall>c \<in> set [2, 5]. c < M32" by simp_all
  note t = apportion_hands_out_every_layer [OF s m h, unfolded a]
  have "\<exists>r. apportion [Fin 2, Fin 1] [2, 5] 4 = Ok (Some r)"
    using t by (auto intro: option.exhaust)
  then obtain cs qs where r: "apportion [Fin 2, Fin 1] [2, 5] 4 = Ok (Some (cs, qs))" by auto
  with t have "sum_list cs = 4" "cs ! 0 \<le> [2, 5] ! 0" "cs ! 1 \<le> [2, 5] ! 1"
    by fastforce+
  with 1 r show ?thesis by simp
qed

end
