(* ===== verification/Text.thy ===== *)
theory Text
  imports Prelude
begin

text \<open>
  The parts of Rust's \<open>str\<close> the sources use. A \<open>string\<close> is the UTF-8 bytes of the Rust
  string (an Isabelle \<open>char\<close> is one byte): decimal numbers, prefixes and suffixes, splitting
  at a separator, trimming and ASCII case folding.
\<close>

section \<open>Decimal numbers\<close>

definition digit_of :: "char \<Rightarrow> nat option" where
  "digit_of c = (let v = of_char c :: nat in if 48 \<le> v \<and> v \<le> 57 then Some (v - 48) else None)"

definition is_ascii_digit :: "char \<Rightarrow> bool" where
  "is_ascii_digit c = (digit_of c \<noteq> None)"

fun digits_value :: "nat \<Rightarrow> string \<Rightarrow> nat option" where
  "digits_value acc [] = Some acc"
| "digits_value acc (c # cs) = (case digit_of c of
     None \<Rightarrow> None | Some d \<Rightarrow> digits_value (10 * acc + d) cs)"

text \<open>\<open>str::parse\<close> for an unsigned type of \<open>bound\<close> values: an optional plus sign, then decimal digits.\<close>

definition parse_unsigned :: "nat \<Rightarrow> string \<Rightarrow> nat option" where
  "parse_unsigned bound s =
     (let ds = (case s of c # cs \<Rightarrow> if c = CHR ''+'' then cs else s | [] \<Rightarrow> []) in
      if ds = [] then None
      else (case digits_value 0 ds of
          None \<Rightarrow> None | Some v \<Rightarrow> if v < bound then Some v else None))"

definition parse_usize :: "string \<Rightarrow> usize option" where
  "parse_usize = parse_unsigned M64"

definition parse_u32 :: "string \<Rightarrow> u32 option" where
  "parse_u32 = parse_unsigned M32"

definition digit_char :: "nat \<Rightarrow> char" where
  "digit_char d = char_of (48 + d)"

text \<open>\<open>Display\<close> of an unsigned number, and \<open>{:05}\<close>.\<close>

fun dec :: "nat \<Rightarrow> string" where
  "dec n = (if n < 10 then [digit_char n] else dec (n div 10) @ [digit_char (n mod 10)])"

declare dec.simps [simp del]

definition pad5 :: "nat \<Rightarrow> string" where
  "pad5 n = replicate (5 - length (dec n)) (CHR ''0'') @ dec n"

lemma digit_of_digit_char [simp]: "d < 10 \<Longrightarrow> digit_of (digit_char d) = Some d"
  by (simp add: digit_of_def digit_char_def)

lemma is_ascii_digit_simps [simp]: "d < 10 \<Longrightarrow> is_ascii_digit (digit_char d)" "is_ascii_digit (CHR ''0'')"
  by (simp_all add: is_ascii_digit_def) (simp add: digit_of_def)

lemma digit_of_less: "digit_of c = Some d \<Longrightarrow> d < 10"
  by (auto simp: digit_of_def Let_def split: if_splits)

lemma digit_char_of: "digit_of c = Some d \<Longrightarrow> c = digit_char d"
  by (auto simp: digit_of_def digit_char_def Let_def split: if_splits)

lemma digits_value_snoc:
  "digits_value a (xs @ [c]) = (case digits_value a xs of None \<Rightarrow> None
     | Some v \<Rightarrow> map_option (\<lambda>d. 10 * v + d) (digit_of c))"
  by (induction xs arbitrary: a) (auto split: option.split)

lemma digits_value_dec [simp]: "digits_value 0 (dec n) = Some n"
proof (induction n rule: dec.induct)
  case (1 n)
  then show ?case by (subst dec.simps) (auto simp: digits_value_snoc)
qed

lemma dec_not_Nil [simp]: "dec n \<noteq> []"
  by (subst dec.simps) simp

lemma dec_digits: "list_all is_ascii_digit (dec n)"
proof (induction n rule: dec.induct)
  case (1 n)
  then show ?case by (subst dec.simps) simp
qed

lemma length_dec: "n < 10 ^ k \<Longrightarrow> 0 < k \<Longrightarrow> length (dec n) \<le> k"
proof (induction k arbitrary: n)
  case (Suc k)
  show ?case
  proof (cases "n < 10")
    case True
    then show ?thesis by (subst dec.simps) simp
  next
    case False
    then have "0 < k" using Suc.prems(1) by (cases k) auto
    moreover have "n div 10 < 10 ^ k" using Suc.prems(1) by (simp add: div_less_iff_less_mult mult.commute)
    ultimately show ?thesis using Suc.IH False by (subst dec.simps) simp
  qed
qed simp

lemma dec_bytes: "c \<in> set (dec n) \<Longrightarrow> 48 \<le> (of_char c :: nat) \<and> (of_char c :: nat) \<le> 57"
  using dec_digits [of n] by (auto simp: list_all_iff is_ascii_digit_def digit_of_def Let_def split: if_splits)

lemma parse_unsigned_dec: "n < bound \<Longrightarrow> parse_unsigned bound (dec n) = Some n"
proof -
  assume n: "n < bound"
  obtain c cs where cs: "dec n = c # cs" by (cases "dec n") simp_all
  then have "c \<noteq> CHR ''+''" using dec_bytes [of c n] by auto
  then show ?thesis using n digits_value_dec [of n] unfolding parse_unsigned_def cs by simp
qed

text \<open>A digit string is determined by its length and value.\<close>

lemma digits_value_inj:
  "length xs = length ys \<Longrightarrow> digits_value 0 xs = Some v \<Longrightarrow> digits_value 0 ys = Some v \<Longrightarrow> xs = ys"
proof (induction xs arbitrary: ys v rule: rev_induct)
  case (snoc x xs)
  then obtain y zs where ys: "ys = zs @ [y]" by (cases ys rule: rev_cases) auto
  obtain a d where a: "digits_value 0 xs = Some a" "digit_of x = Some d" "v = 10 * a + d"
    using snoc.prems(2) by (auto simp: digits_value_snoc split: option.splits)
  obtain b e where b: "digits_value 0 zs = Some b" "digit_of y = Some e" "v = 10 * b + e"
    using snoc.prems(3) by (auto simp: ys digits_value_snoc split: option.splits)
  have "d < 10" "e < 10" using a(2) b(2) digit_of_less by auto
  then have "a = b" "d = e" using a(3) b(3) by presburger+
  moreover have "xs = zs" using snoc.IH [of zs a] snoc.prems(1) a(1) b(1) \<open>a = b\<close> by (simp add: ys)
  moreover have "x = y" using a(2) b(2) \<open>d = e\<close> digit_char_of by metis
  ultimately show ?case by (simp add: ys)
qed simp

lemma digits_value_zeros: "digits_value 0 (replicate k (CHR ''0'') @ xs) = digits_value 0 xs"
  by (induction k) (simp_all add: digit_of_def)

lemma pad5_value [simp]: "digits_value 0 (pad5 n) = Some n"
  by (simp add: pad5_def digits_value_zeros)

lemma length_pad5 [simp]: "n < 100000 \<Longrightarrow> length (pad5 n) = 5"
  using length_dec [of n 5] by (simp add: pad5_def)

lemma pad5_digits: "list_all is_ascii_digit (pad5 n)"
  using dec_digits [of n] by (auto simp: pad5_def list_all_iff)

lemma digits_value_bound: "digits_value 0 xs = Some v \<Longrightarrow> v < 10 ^ length xs"
proof (induction xs arbitrary: v rule: rev_induct)
  case (snoc x xs)
  then obtain a d where "digits_value 0 xs = Some a" "digit_of x = Some d" "v = 10 * a + d"
    by (auto simp: digits_value_snoc split: option.splits)
  with snoc.IH [of a] digit_of_less [of x d] show ?case by simp
qed simp

section \<open>Prefixes, suffixes and parts\<close>

definition starts_with :: "string \<Rightarrow> string \<Rightarrow> bool" where
  "starts_with s pat = (take (length pat) s = pat)"

definition ends_with :: "string \<Rightarrow> string \<Rightarrow> bool" where
  "ends_with s pat = (length pat \<le> length s \<and> drop (length s - length pat) s = pat)"

definition contains_str :: "string \<Rightarrow> string \<Rightarrow> bool" where
  "contains_str s pat = list_ex (\<lambda>k. starts_with (drop k s) pat) [0..<Suc (length s)]"

definition ascii_lower :: "char \<Rightarrow> char" where
  "ascii_lower c = (let v = of_char c :: nat in if 65 \<le> v \<and> v \<le> 90 then char_of (v + 32) else c)"

definition to_ascii_lowercase :: "string \<Rightarrow> string" where
  "to_ascii_lowercase s = map ascii_lower s"

text \<open>A byte position starts a character unless the byte there is a continuation byte.\<close>

definition is_char_boundary :: "string \<Rightarrow> usize \<Rightarrow> bool" where
  "is_char_boundary s i = (i = 0 \<or> i = length s \<or>
     i < length s \<and> \<not> (128 \<le> (of_char (s ! i) :: nat) \<and> (of_char (s ! i) :: nat) < 192))"

lemma ends_with_append [simp]: "ends_with (xs @ pat) pat"
  by (simp add: ends_with_def)

lemma ends_withD: "ends_with s pat \<Longrightarrow> s = take (length s - length pat) s @ pat"
  by (metis append_take_drop_id ends_with_def)

text \<open>\<open>str::split\<close>: the pieces between separators, at least one.\<close>

fun split_on :: "('c \<Rightarrow> bool) \<Rightarrow> 'c list \<Rightarrow> 'c list list" where
  "split_on p [] = [[]]"
| "split_on p (c # cs) = (if p c then [] # split_on p cs
     else (case split_on p cs of [] \<Rightarrow> [[c]] | x # xs \<Rightarrow> (c # x) # xs))"

lemma split_on_not_Nil [simp]: "split_on p s \<noteq> []"
  by (cases s) (auto split: list.split)

lemma split_on_clean: "\<forall>c \<in> set s. \<not> p c \<Longrightarrow> split_on p s = [s]"
  by (induction s) auto

lemma split_on_append:
  "\<forall>c \<in> set xs. \<not> p c \<Longrightarrow> p s \<Longrightarrow> split_on p (xs @ s # ys) = xs # split_on p ys"
  by (induction xs) auto

text \<open>\<open>str::trim\<close> on ASCII white space.\<close>

definition is_ws :: "char \<Rightarrow> bool" where
  "is_ws c = (let v = of_char c :: nat in 9 \<le> v \<and> v \<le> 13 \<or> v = 32)"

definition trim :: "string \<Rightarrow> string" where
  "trim s = rev (dropWhile is_ws (rev (dropWhile is_ws s)))"

text \<open>\<open>str::lines\<close>, \<open>split_whitespace\<close> and \<open>eq_ignore_ascii_case\<close>.\<close>

definition strip_cr :: "string \<Rightarrow> string" where
  "strip_cr l = (if l \<noteq> [] \<and> of_char (last l) = (13 :: nat) then butlast l else l)"

definition lines_of :: "string \<Rightarrow> string list" where
  "lines_of s =
     (let ls = split_on (\<lambda>c. of_char c = (10 :: nat)) s in
      map strip_cr (if last ls = [] then butlast ls else ls))"

definition words_of :: "string \<Rightarrow> string list" where
  "words_of s = filter (\<lambda>w. w \<noteq> []) (split_on is_ws s)"

definition eq_ignore_ascii_case :: "string \<Rightarrow> string \<Rightarrow> bool" where
  "eq_ignore_ascii_case a b = (to_ascii_lowercase a = to_ascii_lowercase b)"

end
