(* ===== verification/Dims.thy ===== *)
theory Dims
  imports Placement Text
begin

text \<open>
  \<open>onebrain-scheduler/src/dims.rs\<close>: the memory shape of a model from its GGUF header. The
  main result is that the per-layer byte counts of \<open>model_dims\<close> account for every byte
  of the tensor data exactly once and never overflow, and that the routed-expert share of a
  layer never exceeds the layer.
\<close>

section \<open>The dimensions of a model\<close>

record ModelDims =
  d_n_layers :: u32
  d_kv_rate :: u64
  d_weights :: "u64 list"
  d_total :: u64
  d_n_embd :: u64
  d_n_expert :: u32
  d_n_expert_used :: u32
  d_expert_weights :: "u64 list"

definition kv_bytes_per_layer :: "ModelDims \<Rightarrow> u32 \<Rightarrow> u64" where
  "kv_bytes_per_layer d ctx_len = mul64 (d_kv_rate d) ctx_len"

definition total_required_bytes :: "ModelDims \<Rightarrow> u32 \<Rightarrow> u64" where
  "total_required_bytes d ctx_len =
     add64 (d_total d) (mul64 (d_n_layers d) (kv_bytes_per_layer d ctx_len))"

definition mean_weight_bytes_per_layer :: "ModelDims \<Rightarrow> u64" where
  "mean_weight_bytes_per_layer d = div_ceil (d_total d) (max (d_n_layers d) 1)"

definition moe_scaled :: "ModelDims \<Rightarrow> bool" where
  "moe_scaled d = (0 < d_n_expert d \<and> 0 < d_n_expert_used d \<and> d_n_expert_used d < d_n_expert d)"

text \<open>\<open>slice.get(i).copied().unwrap_or(0)\<close>.\<close>

definition get_or0 :: "u64 list \<Rightarrow> usize \<Rightarrow> u64" where
  "get_or0 xs i = (if i < length xs then xs ! i else 0)"

definition active_compute_fraction :: "ModelDims \<Rightarrow> usize \<Rightarrow> f64" where
  "active_compute_fraction d layer =
     (if \<not> moe_scaled d then Fin 1
      else let total = get_or0 (d_weights d) layer;
               expert = min (get_or0 (d_expert_weights d) layer) total in
        if total = 0 then Fin 1
        else let used = fdiv (f64_of_u (d_n_expert_used d)) (f64_of_u (d_n_expert d)) in
          fdiv (fadd (f64_of_u (total - expert)) (fmul (f64_of_u expert) used)) (f64_of_u total))"

definition active_compute_units :: "ModelDims \<Rightarrow> u32 \<Rightarrow> u32 \<Rightarrow> f64" where
  "active_compute_units d start end =
     (let span = sat_sub end start in
      if \<not> moe_scaled d then f64_of_u span
      else fsum (map (active_compute_fraction d) [start..<end]))"

definition uniform :: "u64 \<Rightarrow> u32 \<Rightarrow> ModelDims" where
  "uniform total_weight_bytes n_layers =
     (let n = max n_layers 1;
          per = total_weight_bytes div n;
          assigned = mul64 per n;
          weights = (replicate n per)[n - 1 := add64 per (sub64 total_weight_bytes assigned)] in
      \<lparr>d_n_layers = n, d_kv_rate = 0, d_weights = weights, d_total = total_weight_bytes,
       d_n_embd = 0, d_n_expert = 0, d_n_expert_used = 0, d_expert_weights = replicate n 0\<rparr>)"

section \<open>\<open>model_dims\<close>\<close>

definition meta_u64 :: "GgufHeader \<Rightarrow> string \<Rightarrow> u64 option" where
  "meta_u64 h key = Option.bind (g_metadata h key) as_u64_value"

text \<open>\<open>meta_u64(..).filter(|n| *n > 0)\<close>.\<close>

definition meta_pos :: "GgufHeader \<Rightarrow> string \<Rightarrow> u64 option" where
  "meta_pos h key = (case meta_u64 h key of
     Some n \<Rightarrow> if 0 < n then Some n else None | None \<Rightarrow> None)"

definition kv_width :: "GgufHeader \<Rightarrow> string \<Rightarrow> u64 \<Rightarrow> u64" where
  "kv_width h arch n_embd = (case meta_pos h (arch @ ''.attention.head_count'') of
     Some n_head \<Rightarrow>
       (let head_dim = n_embd div n_head;
            n_head_kv = (case meta_pos h (arch @ ''.attention.head_count_kv'') of
                Some k \<Rightarrow> k | None \<Rightarrow> n_head) in
        max (min (mul64 n_head_kv head_dim) n_embd) 1)
   | None \<Rightarrow> n_embd)"

definition expert_u32 :: "GgufHeader \<Rightarrow> string \<Rightarrow> string \<Rightarrow> (u32, ScheduleError) res" where
  "expert_u32 h arch suffix =
     (let key = arch @ ''.'' @ suffix in
      case meta_pos h key of
        None \<Rightarrow> Ok 0
      | Some v \<Rightarrow> if v < M32 then Ok v else Err (BadModel (AbsurdKey key v)))"

text \<open>The layer a tensor is charged to, and whether it is a routed-expert stack.\<close>

definition tensor_slot :: "u32 \<Rightarrow> string \<Rightarrow> (usize \<times> bool, ScheduleError) res" where
  "tensor_slot n_layers name =
     (if starts_with name ''blk.'' then
        (let rest = drop 4 name in
         case parse_usize (takeWhile (\<lambda>c. c \<noteq> CHR ''.'') rest) of
           None \<Rightarrow> Err (BadModel (MalformedBlockIndex name))
         | Some idx \<Rightarrow>
             if n_layers \<le> idx then Err (BadModel (LayerOutOfRange name idx n_layers))
             else Ok (idx, contains_str rest ''_exps''))
      else if starts_with name ''token_embd'' then Ok (0, False)
      else Ok (n_layers - 1, False))"

text \<open>The loop over the tensor ranges: per-layer bytes, expert bytes and the total.\<close>

fun dims_loop :: "u32 \<Rightarrow> TensorRange list \<Rightarrow> u64 list \<Rightarrow> u64 list \<Rightarrow> u64
    \<Rightarrow> (u64 list \<times> u64 list \<times> u64, ScheduleError) res" where
  "dims_loop n [] ws es tot = Ok (ws, es, tot)"
| "dims_loop n (r # rs) ws es tot =
     (let size = sub64 (tr_end r) (tr_start r) in
      res_bind (tensor_slot n (tr_name r)) (\<lambda>(slot, expert).
        dims_loop n rs (ws[slot := add64 (ws ! slot) size])
          (if expert then es[slot := add64 (es ! slot) size] else es) (add64 tot size)))"

definition model_dims :: "GgufHeader \<Rightarrow> u64 \<Rightarrow> (ModelDims, ScheduleError) res" where
  "model_dims h file_size =
     res_bind (ok_or (architecture h) (MissingMetadata ''general.architecture'')) (\<lambda>arch.
     res_bind (ok_or (meta_pos h (arch @ ''.block_count''))
         (MissingMetadata (arch @ ''.block_count''))) (\<lambda>n_layers_u64.
     res_bind (if n_layers_u64 < M32 then Ok n_layers_u64
         else Err (BadModel (AbsurdLayerCount n_layers_u64))) (\<lambda>n_layers.
     res_bind (ok_or (meta_pos h (arch @ ''.embedding_length''))
         (MissingMetadata (arch @ ''.embedding_length''))) (\<lambda>n_embd.
     let kv_rate = mul64 4 (kv_width h arch n_embd) in
     res_bind (expert_u32 h arch ''expert_count'') (\<lambda>n_expert.
     res_bind (expert_u32 h arch ''expert_used_count'') (\<lambda>n_expert_used.
     if 0 < n_expert \<and> n_expert < n_expert_used
     then Err (BadModel (TooManyActiveExperts n_expert_used n_expert))
     else
       res_bind (case tensor_ranges h file_size of
           Ok rs \<Rightarrow> Ok rs | Err e \<Rightarrow> Err (BadModel (BadGguf e)) | Panic k \<Rightarrow> Panic k) (\<lambda>ranges.
       res_bind (dims_loop n_layers ranges (replicate n_layers 0) (replicate n_layers 0) 0)
         (\<lambda>(ws, es, total).
            Ok \<lparr>d_n_layers = n_layers, d_kv_rate = kv_rate, d_weights = ws, d_total = total,
                d_n_embd = n_embd, d_n_expert = n_expert, d_n_expert_used = n_expert_used,
                d_expert_weights = es\<rparr>))))))))"

section \<open>Every byte is charged once\<close>

lemma tensor_slot_less: "tensor_slot n name = Ok (slot, e) \<Longrightarrow> 0 < n \<Longrightarrow> slot < n"
  by (auto simp: tensor_slot_def Let_def split: if_splits option.splits)

lemma tensor_slot_no_panic: "tensor_slot n name \<noteq> Panic k"
  by (auto simp: tensor_slot_def Let_def split: option.splits)

lemma dims_loop_accounts:
  assumes "dims_loop n rs ws es tot = Ok (ws', es', tot')"
    and "0 < n" "length ws = n" "length es = n" "sum_list ws = tot"
    and "\<forall>r \<in> set rs. tr_start r \<le> tr_end r \<and> tr_end r < M64"
    and "tot + sum_list (map range_size rs) < M64"
    and "\<forall>i < n. es ! i \<le> ws ! i"
  shows "length ws' = n \<and> length es' = n \<and> sum_list ws' = tot'
    \<and> tot' = tot + sum_list (map range_size rs) \<and> (\<forall>i < n. es' ! i \<le> ws' ! i)"
  using assms
proof (induction rs arbitrary: ws es tot)
  case Nil
  then show ?case by simp
next
  case (Cons r rs)
  let ?size = "range_size r"
  have size: "sub64 (tr_end r) (tr_start r) = ?size"
    using Cons.prems(6) by (simp add: wrap_simps range_size_def)
  obtain slot ex where s: "tensor_slot n (tr_name r) = Ok (slot, ex)"
      and l: "dims_loop n rs (ws[slot := add64 (ws ! slot) ?size])
        (if ex then es[slot := add64 (es ! slot) ?size] else es) (add64 tot ?size)
          = Ok (ws', es', tot')"
    using Cons.prems(1) by (auto simp: Let_def size res_simps)
  have sl: "slot < n" using s Cons.prems(2) by (rule tensor_slot_less)
  have w: "ws ! slot \<le> tot" using sl Cons.prems(3,5) elem_le_sum_list_nat [of slot ws] by simp
  have e: "es ! slot \<le> ws ! slot" using sl Cons.prems(8) by simp
  have nw: "add64 (ws ! slot) ?size = ws ! slot + ?size" "add64 (es ! slot) ?size = es ! slot + ?size"
      "add64 tot ?size = tot + ?size"
    using w e Cons.prems(7) by (simp_all add: wrap_simps)
  let ?ws = "ws[slot := ws ! slot + ?size]" and ?es = "if ex then es[slot := es ! slot + ?size] else es"
  have "sum_list ?ws = tot + ?size"
    using sl w Cons.prems(3,5) by (simp add: sum_list_update_nat)
  moreover have "length ?ws = n" "length ?es = n" using Cons.prems(3,4) by auto
  moreover have "\<forall>i < n. ?es ! i \<le> ?ws ! i"
    using Cons.prems(3,4,8) sl e by (auto simp: nth_list_update)
  moreover have "\<forall>r \<in> set rs. tr_start r \<le> tr_end r \<and> tr_end r < M64" using Cons.prems(6) by simp
  moreover have "tot + ?size + sum_list (map range_size rs) < M64" using Cons.prems(7) by simp
  ultimately have "length ws' = n \<and> length es' = n \<and> sum_list ws' = tot'
    \<and> tot' = tot + ?size + sum_list (map range_size rs) \<and> (\<forall>i < n. es' ! i \<le> ws' ! i)"
    using Cons.IH [OF l [unfolded nw] Cons.prems(2)] by blast
  then show ?case by simp
qed

lemma dims_loop_no_panic: "dims_loop n rs ws es tot \<noteq> Panic k"
  by (induction rs arbitrary: ws es tot)
    (auto simp: Let_def res_simps tensor_slot_no_panic split: prod.splits)

lemma expert_u32_bound: "expert_u32 h a s = Ok v \<Longrightarrow> v < M32"
  by (auto simp: expert_u32_def Let_def split: option.splits if_splits)

lemma meta_pos_pos: "meta_pos h k = Some n \<Longrightarrow> 0 < n"
  by (auto simp: meta_pos_def split: option.splits if_splits)

lemma model_dims_Ok:
  assumes "model_dims h fs = Ok d"
  obtains arch rs where "architecture h = Some arch"
    "meta_pos h (arch @ ''.block_count'') = Some (d_n_layers d)" "d_n_layers d < M32"
    "meta_pos h (arch @ ''.embedding_length'') = Some (d_n_embd d)"
    "d_kv_rate d = mul64 4 (kv_width h arch (d_n_embd d))"
    "\<not> (0 < d_n_expert d \<and> d_n_expert d < d_n_expert_used d)"
    "tensor_ranges h fs = Ok rs"
    "dims_loop (d_n_layers d) rs (replicate (d_n_layers d) 0) (replicate (d_n_layers d) 0) 0
       = Ok (d_weights d, d_expert_weights d, d_total d)"
  using assms
  by (auto simp: model_dims_def Let_def res_simps split: if_splits res.splits)

text \<open>C21: the dimensions read from a header account for the tensor data exactly: the per-layer
  weights have one entry per layer and add up, without overflow, to the total, which is the
  number of bytes from the first tensor to the end of the file; the routed-expert bytes of a
  layer are part of that layer's bytes.\<close>

theorem model_dims_accounts:
  assumes "model_dims h fs = Ok d" "fs < M64"
  shows "0 < d_n_layers d \<and> length (d_weights d) = d_n_layers d
    \<and> length (d_expert_weights d) = d_n_layers d \<and> sum_list (d_weights d) = d_total d
    \<and> (\<forall>i < d_n_layers d. d_expert_weights d ! i \<le> d_weights d ! i)
    \<and> (\<exists>rs. tensor_ranges h fs = Ok rs
         \<and> d_total d = (if rs = [] then 0 else fs - tr_start (hd rs)))"
proof -
  obtain arch rs where n: "meta_pos h (arch @ ''.block_count'') = Some (d_n_layers d)"
      and rs: "tensor_ranges h fs = Ok rs"
      and l: "dims_loop (d_n_layers d) rs (replicate (d_n_layers d) 0) (replicate (d_n_layers d) 0) 0
        = Ok (d_weights d, d_expert_weights d, d_total d)"
    using assms(1) by (rule model_dims_Ok)
  have n0: "0 < d_n_layers d" using n by (rule meta_pos_pos)
  have rl: "range_loop (g_data_offset h) fs (sort_key ti_offset (g_tensors h)) = Ok rs"
    using rs by (simp add: tensor_ranges_def)
  have c: "chained rs fs" by (rule range_loop_chained [OF rl])
  have b: "\<forall>r \<in> set rs. tr_start r \<le> tr_end r \<and> tr_end r < M64"
    using chained_start_le [OF c] range_loop_ends [OF rl] assms(2) by (meson le_less_trans)
  have sum: "sum_list (map range_size rs) = (if rs = [] then 0 else fs - tr_start (hd rs))"
    using chained_sum [OF c] by auto
  then have "0 + sum_list (map range_size rs) < M64" using assms(2) by auto
  from dims_loop_accounts [OF l n0 _ _ _ b this] show ?thesis
    using n0 rs sum by auto
qed

definition sample_header :: GgufHeader where
  "sample_header = \<lparr>g_version = 3,
     g_metadata = [''general.architecture'' \<mapsto> MStr ''llama'', ''llama.block_count'' \<mapsto> MU32 2,
       ''llama.embedding_length'' \<mapsto> MU32 64, ''llama.attention.head_count'' \<mapsto> MU32 8,
       ''llama.attention.head_count_kv'' \<mapsto> MU32 2],
     g_tensors = [\<lparr>ti_name = ''token_embd'', ti_dims = [], ti_ggml_type = 0, ti_offset = 0\<rparr>,
       \<lparr>ti_name = ''blk.0.x_exps'', ti_dims = [], ti_ggml_type = 0, ti_offset = 32\<rparr>,
       \<lparr>ti_name = ''blk.1.q'', ti_dims = [], ti_ggml_type = 0, ti_offset = 96\<rparr>,
       \<lparr>ti_name = ''output'', ti_dims = [], ti_ggml_type = 0, ti_offset = 160\<rparr>],
     g_header_len = 500, g_alignment = 32, g_data_offset = 512\<rparr>"

lemma sample_ranges:
  "tensor_ranges sample_header 700 =
     Ok [\<lparr>tr_name = ''token_embd'', tr_start = 512, tr_end = 544\<rparr>,
       \<lparr>tr_name = ''blk.0.x_exps'', tr_start = 544, tr_end = 608\<rparr>,
       \<lparr>tr_name = ''blk.1.q'', tr_start = 608, tr_end = 672\<rparr>,
       \<lparr>tr_name = ''output'', tr_start = 672, tr_end = 700\<rparr>]"
  by (simp add: tensor_ranges_def sample_header_def add64_def)

lemma sample_slots:
  "tensor_slot 2 ''token_embd'' = Ok (0, False)" "tensor_slot 2 ''blk.0.x_exps'' = Ok (0, True)"
  "tensor_slot 2 ''blk.1.q'' = Ok (1, False)" "tensor_slot 2 ''output'' = Ok (1, False)"
  by (simp_all add: tensor_slot_def starts_with_def contains_str_def parse_usize_def parse_unsigned_def digit_of_def
      Let_def)

lemma sample_metadata:
  "g_metadata sample_header ''general.architecture'' = Some (MStr ''llama'')"
  "g_metadata sample_header ''llama.block_count'' = Some (MU32 2)"
  "g_metadata sample_header ''llama.embedding_length'' = Some (MU32 64)"
  "g_metadata sample_header ''llama.attention.head_count'' = Some (MU32 8)"
  "g_metadata sample_header ''llama.attention.head_count_kv'' = Some (MU32 2)"
  "g_metadata sample_header ''llama.expert_count'' = None"
  "g_metadata sample_header ''llama.expert_used_count'' = None"
  by (simp_all add: sample_header_def)

lemma sample_dims:
  "model_dims sample_header 700 = Ok \<lparr>d_n_layers = 2, d_kv_rate = 64, d_weights = [96, 92],
     d_total = 188, d_n_embd = 64, d_n_expert = 0, d_n_expert_used = 0,
     d_expert_weights = [64, 0]\<rparr>"
proof -
  have "replicate 2 (0::nat) = [0, 0]" by (simp add: numeral_2_eq_2)
  then show ?thesis
    by (simp add: model_dims_def architecture_def ok_or_def meta_pos_def meta_u64_def kv_width_def
        expert_u32_def sample_ranges sample_slots sample_metadata add64_def sub64_def mul64_def
        Let_def cong: res_bind_weak_cong)
qed

theorem model_dims_accounts_witness:
  "\<exists>d. model_dims sample_header 700 = Ok d \<and> sum_list (d_weights d) = d_total d \<and> d_total d = 188"
  using model_dims_accounts [OF sample_dims] sample_dims by auto

text \<open>The KV rate is the grouped-query figure, two f16 vectors of \<open>n_head_kv\<close> heads of
  width \<open>n_embd / n_head\<close>, whenever the header gives head counts; it never exceeds the
  multi-head figure \<open>4 n_embd\<close>, which the missing-key fallbacks use or approach from below.\<close>

theorem model_dims_kv_rate:
  assumes "model_dims h fs = Ok d" "architecture h = Some arch" "d_n_embd d < 2 ^ 62"
  shows "4 \<le> d_kv_rate d \<and> d_kv_rate d \<le> 4 * d_n_embd d
    \<and> (meta_pos h (arch @ ''.attention.head_count'') = None \<longrightarrow> d_kv_rate d = 4 * d_n_embd d)
    \<and> (\<forall>n k. meta_pos h (arch @ ''.attention.head_count'') = Some n
         \<and> meta_pos h (arch @ ''.attention.head_count_kv'') = Some k \<and> k \<le> n \<and> n dvd d_n_embd d
         \<longrightarrow> d_kv_rate d = 4 * (k * (d_n_embd d div n)))"
proof -
  obtain arch' where a: "architecture h = Some arch'"
      "meta_pos h (arch' @ ''.embedding_length'') = Some (d_n_embd d)"
      "d_kv_rate d = mul64 4 (kv_width h arch' (d_n_embd d))"
    using assms(1) by (rule model_dims_Ok)
  have arch: "arch' = arch" using a(1) assms(2) by simp
  have e0: "0 < d_n_embd d" using a(2) by (rule meta_pos_pos)
  let ?w = "kv_width h arch (d_n_embd d)"
  have w: "1 \<le> ?w" "?w \<le> d_n_embd d"
    using e0 by (auto simp: kv_width_def Let_def split: option.splits)
  then have rate: "d_kv_rate d = 4 * ?w"
    using assms(3) by (simp add: a(3) arch wrap_simps)
  have gqa: "?w = k * (d_n_embd d div n)"
    if k: "meta_pos h (arch @ ''.attention.head_count'') = Some n"
        "meta_pos h (arch @ ''.attention.head_count_kv'') = Some k" "k \<le> n" "n dvd d_n_embd d" for n k
  proof -
    have "k * (d_n_embd d div n) \<le> n * (d_n_embd d div n)" using k(3) by (rule mult_le_mono1)
    also have "\<dots> = d_n_embd d" using k(4) by simp
    finally have le: "k * (d_n_embd d div n) \<le> d_n_embd d" .
    have "0 < k" "0 < d_n_embd d div n"
      using k e0 meta_pos_pos [OF k(2)] by (auto simp: div_greater_zero_iff dvd_imp_le dest: meta_pos_pos)
    then have "1 \<le> k * (d_n_embd d div n)" by (simp add: Suc_le_eq)
    with le k assms(3) show ?thesis by (simp add: kv_width_def wrap_simps)
  qed
  have "?w = d_n_embd d" if "meta_pos h (arch @ ''.attention.head_count'') = None"
    using that by (simp add: kv_width_def)
  with w rate gqa show ?thesis by auto
qed

theorem model_dims_kv_rate_witness:
  "\<exists>d. model_dims sample_header 700 = Ok d \<and> d_kv_rate d = 4 * (2 * (64 div 8))"
proof -
  have "architecture sample_header = Some ''llama''"
    by (simp add: architecture_def sample_metadata)
  moreover have "meta_pos sample_header (''llama'' @ ''.attention.head_count'') = Some 8"
      "meta_pos sample_header (''llama'' @ ''.attention.head_count_kv'') = Some 2"
    by (simp_all add: meta_pos_def meta_u64_def sample_metadata)
  ultimately show ?thesis
    using model_dims_kv_rate [OF sample_dims, of "''llama''"] sample_dims by auto
qed

end
