(* ===== verification/Cands.thy ===== *)
theory Cands
  imports Apportion Dims PlanM3
begin

text \<open>
  The inputs of the v1 and v2 planners (\<open>onebrain-scheduler/src/v1.rs\<close>, and
  \<open>ComputeProfile\<close> of \<open>profile.rs\<close>): node capabilities, link table and request, the
  per-node budget and layer capacity, and the candidate table with its compute tilt. The
  lemmas bound every float of a candidate, which is what the apportionment and the ranking
  need: no score is ever a NaN.
\<close>

section \<open>Requests\<close>

record ComputeProfile =
  cp_prefill_tps :: f64
  cp_decode_tps :: f64

definition OVERHEAD_RESERVE_BYTES :: u64 where "OVERHEAD_RESERVE_BYTES = 512 * 1024 * 1024"
definition DEFAULT_LINK_RTT_MS :: f64 where "DEFAULT_LINK_RTT_MS = Fin 1"
definition ADDED_NODE_TPT_GAIN :: f64 where "ADDED_NODE_TPT_GAIN = fl64 (5 / 100)"
definition EXACT_ORDER_MAX_NODES :: usize where "EXACT_ORDER_MAX_NODES = 8"
definition DEFAULT_N_UBATCH :: u32 where "DEFAULT_N_UBATCH = 512"

record NodeCaps =
  nc_node :: NodeId
  nc_usable :: u64
  nc_compute :: "ComputeProfile option"
  nc_draining :: bool

record LinkRtt =
  lk_a :: NodeId
  lk_b :: NodeId
  lk_rtt :: f64
  lk_bandwidth :: "f64 option"

record PlanRequest =
  pr_head :: NodeCaps
  pr_workers :: "NodeCaps list"
  pr_dims :: ModelDims
  pr_ctx_len :: u32
  pr_forced_nodes :: "u32 option"
  pr_links :: "LinkRtt list"
  pr_n_ubatch :: u32

definition to_caps :: "NodeBudget \<Rightarrow> NodeCaps" where
  "to_caps n = \<lparr>nc_node = nb_node n, nc_usable = nb_usable n, nc_compute = None, nc_draining = False\<rparr>"

text \<open>\<open>From<&PlanInput>\<close>: an M3 request as a v1 request.\<close>

definition request_of :: "PlanInput \<Rightarrow> PlanRequest" where
  "request_of inp = \<lparr>pr_head = to_caps (pi_head inp), pr_workers = map to_caps (pi_workers inp),
     pr_dims = uniform (pi_model_bytes inp) (pi_n_layers inp), pr_ctx_len = pi_ctx_len inp,
     pr_forced_nodes = pi_forced_nodes inp, pr_links = [], pr_n_ubatch = DEFAULT_N_UBATCH\<rparr>"

section \<open>Budgets\<close>

definition node_budget :: "u64 \<Rightarrow> u64" where
  "node_budget usable = sat_sub usable OVERHEAD_RESERVE_BYTES"

definition per_layer_cost :: "ModelDims \<Rightarrow> u32 \<Rightarrow> f64" where
  "per_layer_cost dims ctx_len =
     fmax (f64_of_u (add64 (mean_weight_bytes_per_layer dims) (kv_bytes_per_layer dims ctx_len))) (Fin 1)"

definition node_layer_capacity :: "u64 \<Rightarrow> ModelDims \<Rightarrow> u32 \<Rightarrow> u64" where
  "node_layer_capacity usable dims ctx_len =
     f64_as_u64 (ffloor (fdiv (f64_of_u (node_budget usable)) (per_layer_cost dims ctx_len)))"

section \<open>Candidates\<close>

record Cand =
  cd_caps :: NodeCaps
  cd_is_head :: bool
  cd_budget :: u64
  cd_cap_f :: f64
  cd_cap_layers :: u64
  cd_decode :: "f64 option"
  cd_factor :: f64
  cd_tpt_decode :: "f64 option"

definition positive :: "f64 \<Rightarrow> bool" where
  "positive d = flt_lt (Fin 0) d"

definition own_decode :: "NodeCaps \<Rightarrow> f64 option" where
  "own_decode c = (case nc_compute c of None \<Rightarrow> None
     | Some p \<Rightarrow> if positive (cp_decode_tps p) then Some (cp_decode_tps p) else None)"

text \<open>The positive decode rates of the candidates.\<close>

definition profiled :: "NodeCaps list \<Rightarrow> f64 list" where
  "profiled all_caps = List.map_filter own_decode all_caps"

definition tilt_factor :: "f64 \<Rightarrow> f64 option \<Rightarrow> f64" where
  "tilt_factor max_decode decode = (case decode of
     Some d \<Rightarrow> if is_finite max_decode
       then fadd (Fin (1 / 2)) (fdiv (fmul (Fin (1 / 2)) d) max_decode) else Fin 1
   | None \<Rightarrow> Fin 1)"

definition tpt_rate :: "f64 \<Rightarrow> f64 option \<Rightarrow> f64 option" where
  "tpt_rate min_decode decode = (case decode of Some d \<Rightarrow> Some d
     | None \<Rightarrow> if is_finite min_decode then Some min_decode else None)"

definition build_cands :: "NodeCaps list \<Rightarrow> f64 \<Rightarrow> (u64 \<Rightarrow> u64) \<Rightarrow> Cand list" where
  "build_cands all_caps cost budget_of =
     (let max_decode = foldl fmax NaN (profiled all_caps);
          min_decode = foldl fmin NaN (profiled all_caps) in
      map (\<lambda>(i, caps).
        let bud = budget_of (nc_usable caps); cap_f = fdiv (f64_of_u bud) cost; decode = own_decode caps in
        \<lparr>cd_caps = caps, cd_is_head = (i = length all_caps - 1), cd_budget = bud, cd_cap_f = cap_f,
         cd_cap_layers = min (f64_as_u64 (fmax (ffloor cap_f) (Fin 0))) u32_max,
         cd_decode = decode, cd_factor = tilt_factor max_decode decode,
         cd_tpt_decode = tpt_rate min_decode decode\<rparr>)
      (enumerate 0 all_caps))"

text \<open>The memory-and-compute score v1 ranks and apportions by.\<close>

definition cand_score :: "Cand \<Rightarrow> f64" where
  "cand_score c = fmul (cd_cap_f c) (cd_factor c)"

section \<open>Links\<close>

text \<open>The first entry for the unordered pair.\<close>

definition find_link :: "LinkRtt list \<Rightarrow> NodeId \<Rightarrow> NodeId \<Rightarrow> LinkRtt option" where
  "find_link links a b =
     List.find (\<lambda>l. lk_a l = a \<and> lk_b l = b \<or> lk_a l = b \<and> lk_b l = a) links"

definition link_rtt :: "LinkRtt list \<Rightarrow> NodeId \<Rightarrow> NodeId \<Rightarrow> f64" where
  "link_rtt links a b = (case find_link links a b of Some l \<Rightarrow> lk_rtt l | None \<Rightarrow> DEFAULT_LINK_RTT_MS)"

definition link_bandwidth :: "LinkRtt list \<Rightarrow> NodeId \<Rightarrow> NodeId \<Rightarrow> f64 option" where
  "link_bandwidth links a b = (case find_link links a b of None \<Rightarrow> None
     | Some l \<Rightarrow> (case lk_bandwidth l of None \<Rightarrow> None
         | Some bw \<Rightarrow> if positive bw then Some bw else None))"

section \<open>Bounds on the floats of a candidate\<close>

lemma fl64_below:
  assumes "0 \<le> y" "rnd64 y < 2 ^ 1024"
  shows "fl64 y = Fin (rnd64 y)"
proof -
  have "\<not> rnd64 y \<le> - (2 ^ 1024)"
  proof -
    have "0 \<le> rnd64 y" using assms(1) by (rule rnd64_nonneg)
    moreover have "(0::rat) < 2 ^ 1024" by (rule zero_less_power) simp
    ultimately show ?thesis by linarith
  qed
  moreover have "\<not> 2 ^ 1024 \<le> rnd64 y" using assms(2) by (simp only: not_le)
  ultimately show ?thesis by (simp only: fl64_def Let_def if_False)
qed

lemma rnd64_le_powi: "0 \<le> x \<Longrightarrow> x \<le> 2 powi k \<Longrightarrow> - 1074 \<le> k \<Longrightarrow> rnd64 x \<le> 2 powi k"
  using rnd64_mono [of x "2 powi k"] by (simp only: rnd64_powi)

lemma rnd64_ge_powi: "2 powi k \<le> x \<Longrightarrow> - 1074 \<le> k \<Longrightarrow> 2 powi k \<le> rnd64 x"
  using rnd64_mono [of "2 powi k" x] powi_pos [of k] by (simp only: rnd64_powi less_imp_le)

text \<open>Rounding a number of at least one half gives a multiple of \<open>2 ^ - 53\<close>.\<close>

lemma rnd64_multiple:
  assumes "1 / 2 \<le> y"
  shows "\<exists>k::int. rnd64 y = of_int k * 2 powi (- 53)"
proof -
  let ?q = "quantum 53 (- 1074) y"
  have "- 1 \<le> ilog2 y"
  proof -
    have "(2::rat) powi (- 1) = 1 / 2" by (simp add: power_int_minus)
    then have "(2::rat) powi (- 1) < 2 powi (ilog2 y + 1)"
      using assms ilog2_bounds(2) [of y] by linarith
    from powi_less_cancel [OF this] show ?thesis by simp
  qed
  then have q: "- 53 \<le> ?q" using assms by (simp add: quantum_def)
  then have "(2::rat) powi ?q = of_int (2 ^ nat (?q + 53)) * 2 powi (- 53)"
    using powi_of_int [of "?q + 53"] by (simp add: power_int_add)
  then have "rnd64 y = of_int (round_even (y / 2 powi ?q) * 2 ^ nat (?q + 53)) * 2 powi (- 53)"
    by (simp add: rnd_def Let_def)
  then show ?thesis by blast
qed

text \<open>The values of the type \<open>f64\<close>: a rational is one when rounding does not change it.\<close>

fun is_f64 :: "f64 \<Rightarrow> bool" where
  "is_f64 (Fin x) = (fl64 x = Fin x)"
| "is_f64 _ = True"

lemma is_f64_FinD:
  assumes "is_f64 (Fin x)"
  shows "rnd64 x = x" "x < 2 ^ 1024"
proof -
  have eq: "(if 2 ^ 1024 \<le> rnd64 x then PosInf else if rnd64 x \<le> - (2 ^ 1024) then NegInf
      else Fin (rnd64 x)) = Fin x"
    using assms by (simp only: is_f64.simps fl64_def Let_def)
  have *: "(if P then PosInf else if Q then NegInf else Fin y) = Fin x \<Longrightarrow> y = x \<and> \<not> P" for P Q y
    by (simp split: if_splits)
  note c = * [OF eq]
  show "rnd64 x = x" by (rule conjunct1 [OF c])
  have "\<not> 2 ^ 1024 \<le> x" using conjunct2 [OF c] unfolding conjunct1 [OF c] .
  then show "x < 2 ^ 1024" by (rule not_le [THEN iffD1])
qed

lemma foldl_fmax:
  assumes "a \<noteq> NaN" "NaN \<notin> set xs"
  shows "foldl fmax a xs \<in> insert a (set xs) \<and> (\<forall>x \<in> insert a (set xs). \<not> flt_lt (foldl fmax a xs) x)"
  using assms
proof (induction xs arbitrary: a)
  case (Cons x xs)
  have "fmax a x \<noteq> NaN" using Cons.prems by (simp add: fmax_def)
  with Cons have ih: "foldl fmax (fmax a x) xs \<in> insert (fmax a x) (set xs)"
      "\<forall>y \<in> insert (fmax a x) (set xs). \<not> flt_lt (foldl fmax (fmax a x) xs) y"
    by auto
  let ?m = "foldl fmax (fmax a x) xs"
  have m: "?m \<noteq> NaN" using ih(1) Cons.prems \<open>fmax a x \<noteq> NaN\<close> by auto
  have "fmax a x \<in> {a, x}" by (simp add: fmax_def)
  moreover have "\<not> flt_lt (fmax a x) a" "\<not> flt_lt (fmax a x) x"
    using Cons.prems flt_lt_trans [of a x a] by (auto simp: fmax_def)
  ultimately have "\<not> flt_lt ?m a" "\<not> flt_lt ?m x"
    using not_flt_lt_trans [of a "fmax a x" ?m] not_flt_lt_trans [of x "fmax a x" ?m] ih(2) m
      Cons.prems \<open>fmax a x \<noteq> NaN\<close> by auto
  with ih \<open>fmax a x \<in> {a, x}\<close> show ?case by auto
qed simp

lemma fmax_NaN [simp]: "fmax NaN x = x"
  by (simp add: fmax_def)

lemma max_profiled:
  assumes "NaN \<notin> set xs" "d \<in> set xs"
  shows "foldl fmax NaN xs \<in> set xs" "\<not> flt_lt (foldl fmax NaN xs) d"
proof -
  obtain x ys where xs: "xs = x # ys" using assms(2) by (cases xs) auto
  have "foldl fmax x ys \<in> insert x (set ys) \<and> (\<forall>z \<in> insert x (set ys). \<not> flt_lt (foldl fmax x ys) z)"
    using assms(1) xs by (intro foldl_fmax) auto
  with assms(2) show "foldl fmax NaN xs \<in> set xs" "\<not> flt_lt (foldl fmax NaN xs) d"
    by (auto simp: xs)
qed

definition factor_ok :: "f64 \<Rightarrow> bool" where
  "factor_ok f \<longleftrightarrow> (\<exists>x k. f = Fin x \<and> 1 / 2 \<le> x \<and> x \<le> 3 / 2 \<and> x = of_int k * 2 powi (- 53))"

lemma rnd64_three_halves: "rnd64 (3 / 2) = 3 / 2"
  by (rule rnd_representable [of _ 3 "- 1"]) (simp_all add: power_int_minus)

lemma factor_ok_rnd:
  assumes "1 / 2 \<le> y" "y \<le> 3 / 2"
  shows "fl64 y = Fin (rnd64 y)" "factor_ok (Fin (rnd64 y))"
proof -
  have "y \<le> huge" using assms(2) huge_ge [of 1] by simp
  with assms(1) show "fl64 y = Fin (rnd64 y)" by (intro fl64_Fin) simp_all
  have "rnd64 (2 powi (- 1)) \<le> rnd64 y" using assms(1) by (intro rnd64_mono) (simp_all add: power_int_minus)
  moreover have "rnd64 (2 powi (- 1)) = 2 powi (- 1)" by (rule rnd64_powi) simp
  moreover have "(2::rat) powi (- 1) = 1 / 2" by (simp add: power_int_minus)
  moreover have "rnd64 y \<le> 3 / 2"
    using rnd64_mono [of y "3 / 2"] assms by (simp add: rnd64_three_halves)
  ultimately show "factor_ok (Fin (rnd64 y))"
    using rnd64_multiple [OF assms(1)] by (simp add: factor_ok_def)
qed

lemma factor_ok_1: "factor_ok (Fin 1)"
proof -
  have "(1::rat) = of_int (2 ^ 53) * 2 powi (- 53)" by (simp add: power_int_minus)
  then show ?thesis unfolding factor_ok_def by (intro exI [of _ 1] exI [of _ "2 ^ 53"]) simp
qed

text \<open>The compute tilt of a positive rate no larger than the maximum lies in \<open>[1/2, 3/2]\<close>.\<close>

lemma tilt_factor_ok:
  assumes "is_f64 (Fin d)" "0 < d" "d \<le> m"
  shows "factor_ok (fadd (Fin (1 / 2)) (fdiv (fmul (Fin (1 / 2)) (Fin d)) (Fin m)))"
proof -
  note d = is_f64_FinD [OF assms(1)]
  let ?h = "rnd64 (1 / 2 * d)"
  have "?h \<le> rnd64 d" using assms(2) by (intro rnd64_mono) simp_all
  then have hd: "?h \<le> d" by (simp only: d(1))
  have h0: "0 \<le> ?h" using assms(2) by (intro rnd64_nonneg) simp
  have "?h < 2 ^ 1024" using hd d(2) by linarith
  then have "fl64 (1 / 2 * d) = Fin ?h" using assms(2) by (intro fl64_below) simp_all
  then have mul: "fmul (Fin (1 / 2)) (Fin d) = Fin ?h" by (simp only: fmul.simps)
  have m0: "0 < m" using assms by linarith
  have y: "0 \<le> ?h / m" "?h / m \<le> 1"
    using h0 m0 hd assms(3) by (simp_all add: pos_divide_le_eq)
  let ?r = "rnd64 (?h / m)"
  have "fl64 (?h / m) = Fin ?r" using y huge_ge [of 0] by (intro fl64_Fin) simp_all
  then have dv: "fdiv (Fin ?h) (Fin m) = Fin ?r" using m0 by (simp add: fdiv_def)
  have "0 \<le> ?r" using y by (intro rnd64_nonneg)
  moreover have "?r \<le> 1" using rnd64_le_powi [of "?h / m" 0] y by simp
  ultimately have "1 / 2 \<le> 1 / 2 + ?r" "1 / 2 + ?r \<le> 3 / 2" by simp_all
  from factor_ok_rnd [OF this] show ?thesis unfolding mul dv by (simp only: fadd.simps)
qed

section \<open>Well-formed candidates\<close>

text \<open>What the types of the source guarantee of a node's capabilities.\<close>

definition caps_ok :: "NodeCaps \<Rightarrow> bool" where
  "caps_ok c \<longleftrightarrow> nc_usable c < M64 \<and> (\<forall>p. nc_compute c = Some p \<longrightarrow> is_f64 (cp_decode_tps p))"

definition cand_ok :: "Cand \<Rightarrow> bool" where
  "cand_ok c \<longleftrightarrow> factor_ok (cd_factor c) \<and> (\<forall>d. cd_decode c = Some d \<longrightarrow> positive d)
     \<and> (\<exists>x. cd_cap_f c = Fin x \<and> (x = 0 \<or> 2 powi (- 64) \<le> x) \<and> x \<le> 2 powi 64
          \<and> cd_cap_layers c = min (nat \<lfloor>x\<rfloor>) u32_max)"

lemma of_nat_le_powi64: "n < M64 \<Longrightarrow> (of_nat n :: rat) \<le> 2 powi 64"
proof -
  assume "n < M64"
  then have "n \<le> 2 ^ 64" by simp
  then have "(of_nat n :: rat) \<le> of_nat (2 ^ 64)" by (simp only: of_nat_le_iff)
  then show ?thesis by (simp add: power_int_numeral)
qed

lemma f64_of_u64:
  assumes "n < M64"
  shows "f64_of_u n = Fin (rnd64 (of_nat n))" "rnd64 (of_nat n) \<le> 2 powi 64"
    "n = 0 \<or> 1 \<le> rnd64 (of_nat n)"
proof -
  show "f64_of_u n = Fin (rnd64 (of_nat n))" using assms by (intro f64_of_u_Fin) simp
  show "rnd64 (of_nat n) \<le> 2 powi 64"
    using of_nat_le_powi64 [OF assms] by (intro rnd64_le_powi) simp_all
  have "1 \<le> rnd64 (of_nat n)" if "n \<noteq> 0"
    using rnd64_ge_powi [of 0 "of_nat n"] that by simp
  then show "n = 0 \<or> 1 \<le> rnd64 (of_nat n)" by blast
qed

lemma per_layer_cost_bounds:
  obtains k where "per_layer_cost dims ctx = Fin k" "1 \<le> k" "k \<le> 2 powi 64"
proof -
  let ?n = "add64 (mean_weight_bytes_per_layer dims) (kv_bytes_per_layer dims ctx)"
  have "f64_of_u ?n = Fin (rnd64 (of_nat ?n))" "rnd64 (of_nat ?n) \<le> 2 powi 64"
    using f64_of_u64 [of ?n] by simp_all
  moreover have "(1::rat) \<le> 2 powi 64" by simp
  ultimately show thesis
    using that [of "max (rnd64 (of_nat ?n)) 1"] by (auto simp: per_layer_cost_def fmax_def max_def)
qed

lemma cap_f_bounds:
  assumes b: "b < M64" and k: "1 \<le> k" "k \<le> 2 powi 64"
  obtains x where "fdiv (f64_of_u b) (Fin k) = Fin x" "x = 0 \<or> 2 powi (- 64) \<le> x" "x \<le> 2 powi 64"
proof (cases "b = 0")
  case True
  then have "fdiv (f64_of_u b) (Fin k) = Fin 0"
    using k(1) f64_of_u_exact [of 0] huge_ge [of 0] by (simp add: fdiv_def fl64_Fin)
  then show thesis using that [of 0] by simp
next
  case False
  let ?a = "rnd64 (of_nat b)"
  have a: "f64_of_u b = Fin ?a" "?a \<le> 2 powi 64" "1 \<le> ?a" using f64_of_u64 [OF b] False by auto
  have k0: "0 < k" using k(1) by linarith
  have "?a \<le> 2 powi 64 * k" using a(2,3) k(1) mult_mono [of ?a "2 powi 64" 1 k] by simp
  then have up: "?a / k \<le> 2 powi 64" using k0 by (simp add: pos_divide_le_eq)
  have "2 powi (- 64) * k \<le> 2 powi (- 64) * 2 powi 64" using k(2) by (intro mult_left_mono) simp_all
  also have "\<dots> = 1" by (simp flip: power_int_add)
  finally have lo: "2 powi (- 64) \<le> ?a / k" using a(3) k0 by (simp add: pos_le_divide_eq)
  have y0: "0 \<le> ?a / k" using a(3) k0 by simp
  have "?a / k \<le> huge" using up huge_ge [of 64] by linarith
  with y0 have "fl64 (?a / k) = Fin (rnd64 (?a / k))" by (rule fl64_Fin)
  then have "fdiv (f64_of_u b) (Fin k) = Fin (rnd64 (?a / k))" using k0 by (simp add: fdiv_def a(1))
  moreover have "2 powi (- 64) \<le> rnd64 (?a / k)" using lo by (intro rnd64_ge_powi) simp_all
  moreover have "rnd64 (?a / k) \<le> 2 powi 64" using y0 up by (intro rnd64_le_powi) simp_all
  ultimately show thesis using that by blast
qed

lemma cap_layers_floor:
  assumes "0 \<le> x"
  shows "min (f64_as_u64 (fmax (ffloor (Fin x)) (Fin 0))) u32_max = min (nat \<lfloor>x\<rfloor>) u32_max"
proof -
  have "0 \<le> \<lfloor>x\<rfloor>" using assms by simp
  then have "fmax (ffloor (Fin x)) (Fin 0) = Fin (of_int \<lfloor>x\<rfloor>)" by (simp add: fmax_def)
  with assms show ?thesis by (simp add: u64_max_def u32_max_def min_def)
qed

lemma own_decode_positive: "own_decode c = Some d \<Longrightarrow> positive d"
  by (simp add: own_decode_def split: option.splits if_splits)

lemma set_profiled: "set (profiled cs) = {d. \<exists>c \<in> set cs. own_decode c = Some d}"
  by (induction cs) (auto simp: profiled_def map_filter_def)

lemma profiled_not_NaN: "NaN \<notin> set (profiled cs)"
  using own_decode_positive by (fastforce simp: set_profiled positive_def)

lemma own_decode_profiled: "c \<in> set cs \<Longrightarrow> own_decode c = Some d \<Longrightarrow> d \<in> set (profiled cs)"
  by (auto simp: set_profiled)

lemma factor_ok_tilt:
  assumes "c \<in> set cs" "\<forall>c \<in> set cs. caps_ok c"
  shows "factor_ok (tilt_factor (foldl fmax NaN (profiled cs)) (own_decode c))"
proof (cases "own_decode c")
  case None
  then show ?thesis by (simp add: tilt_factor_def factor_ok_1)
next
  case (Some d)
  let ?m = "foldl fmax NaN (profiled cs)"
  have mem: "d \<in> set (profiled cs)" by (rule own_decode_profiled [OF assms(1) Some])
  have nlt: "\<not> flt_lt ?m d" by (rule max_profiled(2) [OF profiled_not_NaN mem])
  have d: "positive d" "is_f64 d"
    using Some assms by (auto simp: own_decode_def caps_ok_def split: option.splits if_splits)
  show ?thesis
  proof (cases ?m)
    case (Fin m)
    with nlt d(1) obtain x where x: "d = Fin x" "0 < x" "x \<le> m"
      by (cases d) (auto simp: positive_def)
    with tilt_factor_ok [of x m] d(2) Fin Some show ?thesis by (simp add: tilt_factor_def)
  qed (simp_all add: tilt_factor_def Some factor_ok_1)
qed

lemma length_build_cands [simp]: "length (build_cands cs cost bo) = length cs"
  by (simp add: build_cands_def Let_def)

lemma build_cands_nth:
  assumes "i < length cs"
  shows "cd_caps (build_cands cs cost bo ! i) = cs ! i"
    and "cd_is_head (build_cands cs cost bo ! i) = (i = length cs - 1)"
    and "cd_budget (build_cands cs cost bo ! i) = bo (nc_usable (cs ! i))"
    and "cd_cap_f (build_cands cs cost bo ! i) = fdiv (f64_of_u (bo (nc_usable (cs ! i)))) cost"
  using assms by (simp_all add: build_cands_def Let_def nth_enumerate_eq)

lemma build_cands_ok:
  assumes "\<forall>c \<in> set cs. caps_ok c" "\<forall>c \<in> set cs. bo (nc_usable c) < M64"
    "cost = Fin k" "1 \<le> k" "k \<le> 2 powi 64" "c \<in> set (build_cands cs cost bo)"
  shows "cand_ok c"
proof -
  obtain i where i: "i < length cs" "c = build_cands cs cost bo ! i"
    using assms(6) by (metis in_set_conv_nth length_build_cands)
  then have mem: "cs ! i \<in> set cs" by simp
  obtain x where x: "fdiv (f64_of_u (bo (nc_usable (cs ! i)))) (Fin k) = Fin x"
      "x = 0 \<or> 2 powi (- 64) \<le> x" "x \<le> 2 powi 64"
    using cap_f_bounds [OF _ assms(4,5)] assms(2) mem by metis
  have x0: "0 \<le> x" using x(2) powi_pos [of "- 64"] by linarith
  have c: "cd_cap_f c = Fin x" "cd_cap_layers c = min (nat \<lfloor>x\<rfloor>) u32_max"
    "cd_factor c = tilt_factor (foldl fmax NaN (profiled cs)) (own_decode (cs ! i))"
    "cd_decode c = own_decode (cs ! i)"
    using i(1) x(1) cap_layers_floor [OF x0]
    by (simp_all add: i(2) build_cands_def Let_def nth_enumerate_eq assms(3))
  have "\<forall>d. cd_decode c = Some d \<longrightarrow> positive d"
    by (simp add: c own_decode_positive)
  then show ?thesis unfolding cand_ok_def
    using factor_ok_tilt [OF mem assms(1)] x c by auto
qed

lemma cand_ok_caps: "cand_ok c \<Longrightarrow> cd_cap_layers c < M32"
  by (auto simp: cand_ok_def u32_max_def)

text \<open>Every score of a well-formed candidate is a number the apportionment accepts.\<close>

lemma cand_score_scored:
  assumes "cand_ok c"
  obtains s where "cand_score c = Fin s" "scored s" "0 < cd_cap_layers c \<longrightarrow> 0 < s"
proof -
  obtain f where f: "cd_factor c = Fin f" "1 / 2 \<le> f" "f \<le> 3 / 2"
    using assms by (auto simp: cand_ok_def factor_ok_def)
  obtain x where x: "cd_cap_f c = Fin x" "x = 0 \<or> 2 powi (- 64) \<le> x" "x \<le> 2 powi 64"
      "cd_cap_layers c = min (nat \<lfloor>x\<rfloor>) u32_max"
    using assms by (auto simp: cand_ok_def)
  show thesis
  proof (cases "x = 0")
    case True
    then have "cand_score c = Fin 0"
      using f x(1) huge_ge [of 0] by (simp add: cand_score_def fl64_Fin)
    with True x(4) that [of 0] show thesis by (simp add: scored_def)
  next
    case False
    with x(2) have lo: "2 powi (- 64) \<le> x" by simp
    then have x0: "0 < x" using powi_pos [of "- 64"] by linarith
    have "x * f \<le> 2 powi 64 * 2" using x(3) x0 f by (intro mult_mono) simp_all
    also have "\<dots> = 2 powi 65" by simp
    finally have up: "x * f \<le> 2 powi 65" .
    have "(2::rat) powi (- 65) = 2 powi (- 64) * (1 / 2)" by (simp add: power_int_minus)
    also have "\<dots> \<le> x * f" using lo f x0 by (intro mult_mono) simp_all
    finally have dn: "2 powi (- 65) \<le> x * f" .
    have p: "0 \<le> x * f" using x0 f by simp
    have "x * f \<le> huge" using up huge_ge [of 65] by linarith
    with p have eq: "cand_score c = Fin (rnd64 (x * f))" by (simp add: cand_score_def f(1) x(1) fl64_Fin)
    have r: "2 powi (- 65) \<le> rnd64 (x * f)" "rnd64 (x * f) \<le> 2 powi 65"
      using dn up p by (simp_all only: rnd64_ge_powi rnd64_le_powi)
    have "(2::rat) powi (- 70) \<le> 2 powi (- 65)" "(2::rat) powi 65 \<le> 2 powi 70"
      by (rule powi_mono; simp)+
    with r have "2 powi (- 70) \<le> rnd64 (x * f)" "rnd64 (x * f) \<le> 2 powi 70" by linarith+
    moreover have "0 < rnd64 (x * f)" using r(1) powi_pos [of "- 65"] by linarith
    ultimately show thesis using that [OF eq] by (simp only: scored_def) simp
  qed
qed

text \<open>
  With memory sizes below \<open>2 ^ 53\<close> (8 PiB) the capacity computed in floating point is exact:
  the largest number of mean layers with their KV cache that the budget holds.
\<close>

definition layer_cost :: "ModelDims \<Rightarrow> u32 \<Rightarrow> nat" where
  "layer_cost dims ctx = max (mean_weight_bytes_per_layer dims + kv_bytes_per_layer dims ctx) 1"

lemma per_layer_cost_exact:
  assumes "mean_weight_bytes_per_layer dims + kv_bytes_per_layer dims ctx < 2 ^ 53"
  shows "per_layer_cost dims ctx = Fin (of_nat (layer_cost dims ctx))"
proof -
  have "add64 (mean_weight_bytes_per_layer dims) (kv_bytes_per_layer dims ctx)
      = mean_weight_bytes_per_layer dims + kv_bytes_per_layer dims ctx"
    using assms by (intro add64_small) simp
  then show ?thesis
    using assms f64_of_u_exact [of "mean_weight_bytes_per_layer dims + kv_bytes_per_layer dims ctx"]
    by (auto simp: per_layer_cost_def layer_cost_def fmax_def max_def)
qed

lemma cap_f_exact:
  assumes "b < 2 ^ 53" "0 < c" "c \<le> 2 ^ 53"
  shows "\<exists>x. fdiv (f64_of_u b) (Fin (of_nat c)) = Fin x \<and> 0 \<le> x \<and> \<lfloor>x\<rfloor> = int (b div c)"
proof -
  let ?x = "rnd64 (of_nat b / of_nat c)"
  have "of_nat b / of_nat c \<le> (of_nat b :: rat)"
    using assms(2) by (simp add: pos_divide_le_eq mult_le_cancel_left1)
  also have "\<dots> \<le> huge" using assms(1) by (intro of_nat_le_huge) simp
  finally have "fl64 (of_nat b / of_nat c) = Fin ?x" by (intro fl64_Fin) simp_all
  moreover have "f64_of_u b = Fin (of_nat b)" using assms(1) by (intro f64_of_u_exact) simp
  ultimately have "fdiv (f64_of_u b) (Fin (of_nat c)) = Fin ?x" using assms(2) by (simp add: fdiv_def)
  moreover have "\<lfloor>?x\<rfloor> = int (b div c)" using assms by (intro floor_rnd64_quotient) simp_all
  moreover have "0 \<le> ?x" by (intro rnd64_nonneg) simp
  ultimately show ?thesis by blast
qed

lemma node_layer_capacity_exact:
  assumes "usable < 2 ^ 53" "mean_weight_bytes_per_layer dims + kv_bytes_per_layer dims ctx < 2 ^ 53"
  shows "node_layer_capacity usable dims ctx = node_budget usable div layer_cost dims ctx"
proof -
  have b: "node_budget usable < 2 ^ 53" using assms(1) by (simp add: node_budget_def sat_sub_def)
  have c: "0 < layer_cost dims ctx" "layer_cost dims ctx \<le> 2 ^ 53"
    using assms(2) by (simp_all add: layer_cost_def)
  from cap_f_exact [OF b c] obtain x where x: "0 \<le> x"
      "fdiv (f64_of_u (node_budget usable)) (Fin (of_nat (layer_cost dims ctx))) = Fin x"
      "\<lfloor>x\<rfloor> = int (node_budget usable div layer_cost dims ctx)" by blast
  have "node_budget usable div layer_cost dims ctx \<le> u64_max"
    using b by (intro le_trans [OF div_le_dividend]) (simp add: u64_max_def)
  with x show ?thesis by (simp add: node_layer_capacity_def per_layer_cost_exact [OF assms(2)])
qed

lemma cap_layers_exact:
  assumes "i < length cs" "cost = Fin (of_nat c)" "0 < c" "c \<le> 2 ^ 53"
    "bo (nc_usable (cs ! i)) < 2 ^ 53"
  shows "cd_cap_layers (build_cands cs cost bo ! i) = min (bo (nc_usable (cs ! i)) div c) u32_max"
proof -
  obtain x where x: "0 \<le> x" "fdiv (f64_of_u (bo (nc_usable (cs ! i)))) cost = Fin x"
      "\<lfloor>x\<rfloor> = int (bo (nc_usable (cs ! i)) div c)"
    using cap_f_exact [OF assms(5,3,4)] assms(2) by blast
  with cap_layers_floor [OF x(1)] show ?thesis
    using assms(1) by (simp add: build_cands_def Let_def nth_enumerate_eq)
qed

section \<open>Properties\<close>

text \<open>For memory sizes below 8 PiB the layer capacity a node advertises is exact although it
  is computed in floating point: that many mean layers with their KV cache fit into usable
  memory minus the 512 MiB reserve, and one more does not.\<close>

theorem node_layer_capacity_is_exact:
  assumes "usable < 2 ^ 53" "mean_weight_bytes_per_layer dims + kv_bytes_per_layer dims ctx < 2 ^ 53"
  shows "node_layer_capacity usable dims ctx * layer_cost dims ctx \<le> usable - OVERHEAD_RESERVE_BYTES
    \<and> usable - OVERHEAD_RESERVE_BYTES < (node_layer_capacity usable dims ctx + 1) * layer_cost dims ctx"
proof -
  have "0 < layer_cost dims ctx" by (simp add: layer_cost_def)
  then have "node_budget usable div layer_cost dims ctx * layer_cost dims ctx \<le> node_budget usable
    \<and> node_budget usable < (node_budget usable div layer_cost dims ctx + 1) * layer_cost dims ctx"
    by (metis add.commute div_times_less_eq_dividend dividend_less_div_times mult.commute mult_Suc Suc_eq_plus1)
  then show ?thesis
    unfolding node_layer_capacity_exact [OF assms] by (simp add: node_budget_def sat_sub_def)
qed

theorem node_layer_capacity_is_exact_witness:
  "node_layer_capacity 536870937 (uniform 100 10) 4096 * 10 \<le> 25
   \<and> 25 < (node_layer_capacity 536870937 (uniform 100 10) 4096 + 1) * 10"
proof -
  have m: "mean_weight_bytes_per_layer (uniform 100 10) = 10" "kv_bytes_per_layer (uniform 100 10) 4096 = 0"
    by (simp_all add: mean_weight_bytes_per_layer_def kv_bytes_per_layer_def uniform_def Let_def
        div_ceil_def mul64_def)
  have "mean_weight_bytes_per_layer (uniform 100 10) + kv_bytes_per_layer (uniform 100 10) 4096 < 2 ^ 53"
    by (simp add: m)
  from node_layer_capacity_is_exact [OF _ this, of 536870937]
  show ?thesis by (simp add: layer_cost_def m OVERHEAD_RESERVE_BYTES_def)
qed

end
