(* ===== verification/Stages.thy ===== *)
theory Stages
  imports Cands
begin

text \<open>
  Stage order (\<open>order_stages\<close> and \<open>permutations\<close> of \<open>onebrain-scheduler/src/v1.rs\<close>): the
  nodes that hold layers, the head pinned to the last stage, arranged by exact search over all
  permutations for up to eight nodes and by a greedy nearest-neighbour chain beyond.
\<close>

section \<open>The code\<close>

definition remove_at :: "nat \<Rightarrow> 'a list \<Rightarrow> 'a list" where
  "remove_at i xs = take i xs @ drop (Suc i) xs"

lemma length_remove_at [simp]: "i < length xs \<Longrightarrow> length (remove_at i xs) = length xs - 1"
  by (simp add: remove_at_def)

function permutations :: "usize list \<Rightarrow> usize list list" where
  "permutations items = (if items = [] then [[]]
     else concat (map (\<lambda>i. map (\<lambda>p. (items ! i) # p) (permutations (remove_at i items)))
            [0..<length items]))"
  by pat_completeness auto
termination
  by (relation "measure length") (auto simp: remove_at_def)

declare permutations.simps [simp del]

text \<open>\<open>min_by\<close> on \<open>f64\<close> keys with \<open>partial_cmp(..).expect(..)\<close>: the first minimum; comparing
  with a NaN panics.\<close>

fun min_by_key :: "'a \<times> f64 \<Rightarrow> ('a \<times> f64) list \<Rightarrow> ('a \<times> f64, ScheduleError) res" where
  "min_by_key best [] = Ok best"
| "min_by_key best (x # xs) = (case partial_cmp (snd best) (snd x) of
     None \<Rightarrow> Panic ExpectFailed
   | Some Greater \<Rightarrow> min_by_key x xs
   | Some _ \<Rightarrow> min_by_key best xs)"

definition active_set :: "Cand list \<Rightarrow> u32 list \<Rightarrow> usize list" where
  "active_set cands counts = filter (\<lambda>i. 0 < counts ! i) [0..<length cands]"

definition tail_of :: "Cand list \<Rightarrow> usize list \<Rightarrow> usize option" where
  "tail_of cands active = List.find (\<lambda>i. cd_is_head (cands ! i)) active"

definition movable_of :: "usize list \<Rightarrow> usize option \<Rightarrow> usize list" where
  "movable_of active tail = filter (\<lambda>i. Some i \<noteq> tail) active"

definition with_tail :: "usize option \<Rightarrow> usize list \<Rightarrow> usize list" where
  "with_tail tail chain = (case tail of Some t \<Rightarrow> chain @ [t] | None \<Rightarrow> chain)"

definition hop_rtt :: "Cand list \<Rightarrow> LinkRtt list \<Rightarrow> usize \<Rightarrow> usize \<Rightarrow> f64" where
  "hop_rtt cands links i j =
     link_rtt links (nc_node (cd_caps (cands ! i))) (nc_node (cd_caps (cands ! j)))"

definition chain_rtts :: "Cand list \<Rightarrow> LinkRtt list \<Rightarrow> usize list \<Rightarrow> f64 list" where
  "chain_rtts cands links chain = map (\<lambda>(i, j). hop_rtt cands links i j) (windows2 chain)"

definition chain_cost :: "Cand list \<Rightarrow> LinkRtt list \<Rightarrow> usize list \<Rightarrow> f64" where
  "chain_cost cands links chain = fsum (chain_rtts cands links chain)"

definition keep_cheaper ::
    "Cand list \<Rightarrow> LinkRtt list \<Rightarrow> (f64 \<times> usize list) option \<Rightarrow> usize list \<Rightarrow> (f64 \<times> usize list) option" where
  "keep_cheaper cands links =
     keep_best (\<lambda>(cost, _) (c, _). flt_lt cost c) (\<lambda>chain. (chain_cost cands links chain, chain))"

text \<open>The greedy chain grows from the tail: attach the node with the cheapest link to the front.\<close>

definition nearest :: "Cand list \<Rightarrow> LinkRtt list \<Rightarrow> usize \<Rightarrow> usize list \<Rightarrow> (usize, ScheduleError) res" where
  "nearest cands links front remaining =
     (case enumerate 0 (map (\<lambda>i. hop_rtt cands links i front) remaining) of
        [] \<Rightarrow> Panic ExpectFailed
      | x # xs \<Rightarrow> res_bind (min_by_key x xs) (\<lambda>b. Ok (fst b)))"

fun greedy :: "Cand list \<Rightarrow> LinkRtt list \<Rightarrow> nat \<Rightarrow> usize list \<Rightarrow> usize list \<Rightarrow>
    (usize list, ScheduleError) res" where
  "greedy cands links 0 remaining chain = Ok chain"
| "greedy cands links (Suc k) remaining chain =
     res_bind (nearest cands links (hd chain) remaining)
       (\<lambda>pos. greedy cands links k (remove_at pos remaining) ((remaining ! pos) # chain))"

definition order_stages ::
    "Cand list \<Rightarrow> u32 list \<Rightarrow> LinkRtt list \<Rightarrow> (usize list \<times> f64 list, ScheduleError) res" where
  "order_stages cands counts links =
     (let active = active_set cands counts in
      if length active \<le> 1 then Ok (active, [])
      else
        let tail = tail_of cands active;
            movable = movable_of active tail in
        if length active \<le> EXACT_ORDER_MAX_NODES then
          (case foldl (keep_cheaper cands links) None (map (with_tail tail) (permutations movable)) of
             None \<Rightarrow> Panic ExpectFailed
           | Some (_, chain) \<Rightarrow> Ok (chain, chain_rtts cands links chain))
        else
          let (remaining, anchor) = (case tail of Some t \<Rightarrow> (movable, t)
                | None \<Rightarrow> (butlast movable, last movable)) in
          res_bind (greedy cands links (length remaining) remaining [anchor])
            (\<lambda>chain. Ok (chain, chain_rtts cands links chain)))"

section \<open>Permutations\<close>

lemma mset_remove_at: "i < length xs \<Longrightarrow> add_mset (xs ! i) (mset (remove_at i xs)) = mset xs"
  by (metis remove_at_def id_take_nth_drop mset.simps(2) mset_append union_mset_add_mset_right)

text \<open>The search space is exactly the set of rearrangements.\<close>

lemma set_permutations: "set (permutations xs) = {ys. mset ys = mset xs}"
proof (induction xs rule: permutations.induct)
  case (1 xs)
  show ?case
  proof (cases "xs = []")
    case True
    then show ?thesis by (simp add: permutations.simps)
  next
    case False
    have ih: "set (permutations (remove_at i xs)) = {ys. mset ys = mset (remove_at i xs)}"
      if "i < length xs" for i
      using 1 [OF False] that by simp
    have "set (permutations xs) = (\<Union>i < length xs. (#) (xs ! i) ` {ys. mset ys = mset (remove_at i xs)})"
      using False by (subst permutations.simps) (auto simp: ih)
    also have "\<dots> = {ys. mset ys = mset xs}"
    proof (intro equalityI subsetI)
      fix ys
      assume "ys \<in> (\<Union>i < length xs. (#) (xs ! i) ` {ys. mset ys = mset (remove_at i xs)})"
      then obtain i zs where "i < length xs" "ys = xs ! i # zs" "mset zs = mset (remove_at i xs)" by auto
      then show "ys \<in> {ys. mset ys = mset xs}" using mset_remove_at [of i xs] by simp
    next
      fix ys
      assume "ys \<in> {ys. mset ys = mset xs}"
      then have m: "mset ys = mset xs" by simp
      with False obtain y zs where ys: "ys = y # zs" by (cases ys) auto
      then have "y \<in> set xs" using m by (metis list.set_intros(1) set_mset_mset)
      then obtain i where i: "i < length xs" "xs ! i = y" by (metis in_set_conv_nth)
      have "add_mset y (mset zs) = add_mset y (mset (remove_at i xs))"
        using mset_remove_at [OF i(1)] m i(2) ys by simp
      then have "mset zs = mset (remove_at i xs)" by simp
      with i ys show "ys \<in> (\<Union>i < length xs. (#) (xs ! i) ` {ys. mset ys = mset (remove_at i xs)})" by auto
    qed
    finally show ?thesis .
  qed
qed

lemma permutations_nonempty: "permutations xs \<noteq> []"
proof -
  have "xs \<in> set (permutations xs)" by (simp add: set_permutations)
  then show ?thesis by auto
qed

section \<open>Links\<close>

text \<open>A round-trip time is a non-negative number (the prober measures elapsed time).\<close>

definition nonneg_flt :: "f64 \<Rightarrow> bool" where
  "nonneg_flt x \<longleftrightarrow> x \<noteq> NaN \<and> \<not> flt_lt x (Fin 0)"

definition links_ok :: "LinkRtt list \<Rightarrow> bool" where
  "links_ok links \<longleftrightarrow> (\<forall>l \<in> set links. nonneg_flt (lk_rtt l))"

lemma nonneg_flt_cases: "nonneg_flt x \<Longrightarrow> x = PosInf \<or> (\<exists>r. x = Fin r \<and> 0 \<le> r)"
  by (cases x) (auto simp: nonneg_flt_def)

lemma nonneg_fl64: "0 \<le> r \<Longrightarrow> nonneg_flt (fl64 r)"
proof -
  assume r: "0 \<le> r"
  then have r0: "0 \<le> rnd64 r" by (rule rnd64_nonneg)
  have "(0::rat) < 2 ^ 1024" by (rule zero_less_power) simp
  with r0 have "\<not> rnd64 r \<le> - (2 ^ 1024)" by linarith
  then have "fl64 r = PosInf \<or> fl64 r = Fin (rnd64 r)" by (simp only: fl64_def Let_def if_False split: if_split) blast
  with r0 show ?thesis by (auto simp: nonneg_flt_def)
qed

lemma nonneg_fadd: "nonneg_flt x \<Longrightarrow> nonneg_flt y \<Longrightarrow> nonneg_flt (fadd x y)"
  using nonneg_flt_cases [of x] nonneg_flt_cases [of y]
  by (auto simp: nonneg_fl64)

lemma nonneg_fsum: "\<forall>x \<in> set xs. nonneg_flt x \<Longrightarrow> nonneg_flt (fsum xs)"
proof -
  have "nonneg_flt a \<Longrightarrow> \<forall>x \<in> set xs. nonneg_flt x \<Longrightarrow> nonneg_flt (foldl fadd a xs)" for a
    by (induction xs arbitrary: a) (auto simp: nonneg_fadd)
  then show "\<forall>x \<in> set xs. nonneg_flt x \<Longrightarrow> nonneg_flt (fsum xs)"
    by (simp add: fsum_def nonneg_flt_def)
qed

lemma link_rtt_nonneg: "links_ok links \<Longrightarrow> nonneg_flt (link_rtt links a b)"
  by (auto simp: link_rtt_def links_ok_def find_link_def DEFAULT_LINK_RTT_MS_def nonneg_flt_def
      split: option.splits dest!: find_Some_iff [THEN iffD1])

lemma hop_rtt_nonneg: "links_ok links \<Longrightarrow> nonneg_flt (hop_rtt cands links i j)"
  by (simp add: hop_rtt_def link_rtt_nonneg)

lemma chain_cost_nonneg: "links_ok links \<Longrightarrow> nonneg_flt (chain_cost cands links chain)"
  unfolding chain_cost_def by (rule nonneg_fsum) (auto simp: chain_rtts_def hop_rtt_nonneg)

section \<open>The stage order\<close>

lemma active_set_props:
  "distinct (active_set cands counts)"
  "set (active_set cands counts) = {i. i < length cands \<and> 0 < counts ! i}"
  by (auto simp: active_set_def)

lemma tail_movable:
  assumes "distinct active" "tail_of cands active = Some t"
  shows "mset (movable_of active (Some t)) + {#t#} = mset active" "t \<in> set active" "cd_is_head (cands ! t)"
proof -
  have t: "t \<in> set active" "cd_is_head (cands ! t)"
    using assms(2) by (auto simp: tail_of_def find_Some_iff)
  then show "t \<in> set active" "cd_is_head (cands ! t)" by simp_all
  have "filter (\<lambda>i. Some i \<noteq> Some t) active = remove1 t active"
    using assms(1) by (simp add: distinct_remove1_removeAll removeAll_filter_not_eq) (metis)
  then show "mset (movable_of active (Some t)) + {#t#} = mset active"
    using t(1) by (simp add: movable_of_def)
qed

lemma mset_with_tail:
  assumes "distinct active" "tail = tail_of cands active"
    "mset p = mset (movable_of active tail)"
  shows "mset (with_tail tail p) = mset active"
proof (cases tail)
  case None
  then show ?thesis using assms(3) by (simp add: with_tail_def movable_of_def)
next
  case (Some t)
  then show ?thesis using assms tail_movable(1) [OF assms(1), of cands t] by (simp add: with_tail_def)
qed

lemma foldl_keep_cheaper:
  assumes "xs \<noteq> []"
  shows "\<exists>ch. foldl (keep_cheaper cands links) None xs = Some (chain_cost cands links ch, ch) \<and> ch \<in> set xs
    \<and> (\<forall>x \<in> set xs. \<not> flt_lt (chain_cost cands links x) (chain_cost cands links ch))"
  using foldl_keep_best [of "\<lambda>(cost, _) (c, _). flt_lt cost c" xs "\<lambda>chain. (chain_cost cands links chain, chain)", OF _ _ assms]
    flt_lt_trans
  by (auto simp: keep_cheaper_def)

lemma min_by_key_ok:
  assumes "snd b \<noteq> NaN" "\<forall>x \<in> set xs. snd x \<noteq> NaN"
  shows "\<exists>m. min_by_key b xs = Ok m \<and> m \<in> set (b # xs) \<and> (\<forall>x \<in> set (b # xs). \<not> flt_lt (snd x) (snd m))"
  using assms
proof (induction b xs rule: min_by_key.induct)
  case (1 best)
  then show ?case by simp
next
  case (2 best x xs)
  have nn: "snd best \<noteq> NaN" "snd x \<noteq> NaN" "\<forall>y \<in> set xs. snd y \<noteq> NaN" using "2.prems" by auto
  consider (lt) "flt_lt (snd best) (snd x)" | (eq) "snd best = snd x" | (gt) "flt_lt (snd x) (snd best)"
    using flt_lt_total nn by blast
  then show ?case
  proof cases
    case lt
    then have pc: "partial_cmp (snd best) (snd x) = Some Less" using nn by (simp add: partial_cmp_def)
    with 2 nn obtain m where m: "min_by_key best xs = Ok m" "m \<in> set (best # xs)"
        "\<forall>y \<in> set (best # xs). \<not> flt_lt (snd y) (snd m)" by fastforce
    have "\<not> flt_lt (snd x) (snd m)" using lt m(3) flt_lt_trans by fastforce
    with m pc show ?thesis by auto
  next
    case eq
    then have pc: "partial_cmp (snd best) (snd x) = Some Equal" using nn by (simp add: partial_cmp_def)
    with 2 nn obtain m where m: "min_by_key best xs = Ok m" "m \<in> set (best # xs)"
        "\<forall>y \<in> set (best # xs). \<not> flt_lt (snd y) (snd m)" by fastforce
    with pc eq show ?thesis by auto
  next
    case gt
    then have "\<not> flt_lt (snd best) (snd x)" "snd best \<noteq> snd x" using flt_lt_trans flt_lt_irrefl by metis+
    then have pc: "partial_cmp (snd best) (snd x) = Some Greater" using nn by (simp add: partial_cmp_def)
    with 2 nn obtain m where m: "min_by_key x xs = Ok m" "m \<in> set (x # xs)"
        "\<forall>y \<in> set (x # xs). \<not> flt_lt (snd y) (snd m)" by fastforce
    have "\<not> flt_lt (snd best) (snd m)" using gt m(3) flt_lt_trans by fastforce
    with m pc show ?thesis by auto
  qed
qed

lemma nearest_ok:
  assumes "links_ok links" "remaining \<noteq> []"
  shows "\<exists>pos < length remaining. nearest cands links front remaining = Ok pos"
proof -
  let ?ks = "enumerate 0 (map (\<lambda>i. hop_rtt cands links i front) remaining)"
  have nn: "\<forall>x \<in> set ?ks. snd x \<noteq> NaN"
  proof -
    have "NaN \<noteq> hop_rtt cands links i front" for i
      using hop_rtt_nonneg [OF assms(1), of cands i front] by (auto simp: nonneg_flt_def)
    then show ?thesis by (auto simp: enumerate_eq_zip dest!: set_zip_rightD)
  qed
  have "length ?ks \<noteq> 0" using assms(2) by simp
  then obtain x xs where xs: "?ks = x # xs" by (cases ?ks) simp_all
  with nn obtain m where m: "min_by_key x xs = Ok m" "m \<in> set ?ks"
    using min_by_key_ok [of x xs] by auto
  then have "fst m < length remaining" by (cases m) (auto simp: enumerate_eq_zip dest!: set_zip_leftD)
  moreover have "nearest cands links front remaining = Ok (fst m)"
    by (simp add: nearest_def xs m(1))
  ultimately show ?thesis by blast
qed

lemma greedy_ok:
  assumes "links_ok links" "chain \<noteq> []"
  shows "\<exists>ch. greedy cands links (length remaining) remaining chain = Ok ch
    \<and> mset ch = mset remaining + mset chain \<and> last ch = last chain"
  using assms
proof (induction "length remaining" arbitrary: remaining chain)
  case 0
  then show ?case by simp
next
  case (Suc k)
  from Suc.hyps(2) have "remaining \<noteq> []" by auto
  then obtain pos where pos: "pos < length remaining" "nearest cands links (hd chain) remaining = Ok pos"
    using nearest_ok [OF Suc.prems(1)] by blast
  let ?r = "remove_at pos remaining" and ?c = "(remaining ! pos) # chain"
  have l: "k = length ?r" using Suc.hyps(2) pos(1) by simp
  from Suc.hyps(1) [OF this Suc.prems(1), of ?c]
  obtain ch where ch: "greedy cands links (length ?r) ?r ?c = Ok ch" "mset ch = mset ?r + mset ?c"
      "last ch = last ?c" by auto
  have "length remaining = Suc (length ?r)" using Suc.hyps(2) l by simp
  then have "greedy cands links (length remaining) remaining chain = Ok ch"
    by (simp only: greedy.simps pos(2) res_bind.simps ch(1))
  with ch(2,3) Suc.prems(2) mset_remove_at [OF pos(1)] show ?case by auto
qed

text \<open>
  The contract of \<open>order_stages\<close>: an arrangement of exactly the nodes holding layers, the head
  (when it holds layers) last, and the link times of consecutive stages.
\<close>

lemma order_stages_obtain:
  assumes "links_ok links"
  obtains chain where "order_stages cands counts links = Ok (chain, chain_rtts cands links chain)"
    "mset chain = mset (active_set cands counts)"
    "\<And>t. tail_of cands (active_set cands counts) = Some t \<Longrightarrow> last chain = t"
    "length (active_set cands counts) \<le> EXACT_ORDER_MAX_NODES \<Longrightarrow>
       \<forall>p. mset p = mset (movable_of (active_set cands counts) (tail_of cands (active_set cands counts))) \<longrightarrow>
         \<not> flt_lt (chain_cost cands links (with_tail (tail_of cands (active_set cands counts)) p))
             (chain_cost cands links chain)"
proof -
  let ?a = "active_set cands counts"
  let ?t = "tail_of cands ?a"
  let ?m = "movable_of ?a ?t"
  have d: "distinct ?a" by (rule active_set_props)
  consider (one) "length ?a \<le> 1" | (exact) "\<not> length ?a \<le> 1" "length ?a \<le> EXACT_ORDER_MAX_NODES"
    | (many) "\<not> length ?a \<le> 1" "\<not> length ?a \<le> EXACT_ORDER_MAX_NODES" by blast
  then show thesis
  proof cases
    case one
    have w: "windows2 ?a = []" using one by (cases ?a rule: windows2.cases) auto
    have o: "order_stages cands counts links = Ok (?a, chain_rtts cands links ?a)"
      using one w by (simp add: order_stages_def chain_rtts_def Let_def)
    have t: "last ?a = t" if "?t = Some t" for t
      using tail_movable(2) [OF d that] one by (cases ?a) auto
    have p: "with_tail ?t p = ?a" if "mset p = mset ?m" for p
    proof -
      have "mset (with_tail ?t p) = mset ?a" using mset_with_tail [OF d refl that] .
      with one show ?thesis
        by (cases ?a rule: windows2.cases) (auto simp: mset_single_iff_right)
    qed
    show thesis by (rule that [OF o refl t]) (simp_all add: p)
  next
    case exact
    have ne: "map (with_tail ?t) (permutations ?m) \<noteq> []" by (simp add: permutations_nonempty)
    from foldl_keep_cheaper [OF ne, of cands links] obtain ch where
      ch: "foldl (keep_cheaper cands links) None (map (with_tail ?t) (permutations ?m)) =
           Some (chain_cost cands links ch, ch)" "ch \<in> set (map (with_tail ?t) (permutations ?m))"
        "\<forall>x \<in> set (map (with_tail ?t) (permutations ?m)).
           \<not> flt_lt (chain_cost cands links x) (chain_cost cands links ch)" by blast
    from ch(2) obtain p where p: "ch = with_tail ?t p" "mset p = mset ?m" by (auto simp: set_permutations)
    have o: "order_stages cands counts links = Ok (ch, chain_rtts cands links ch)"
      using exact ch(1) by (simp add: order_stages_def Let_def)
    have m: "mset ch = mset ?a" using mset_with_tail [OF d refl p(2)] p(1) by simp
    have t: "last ch = t" if "?t = Some t" for t using that by (simp add: p(1) with_tail_def)
    have c: "\<not> flt_lt (chain_cost cands links (with_tail ?t q)) (chain_cost cands links ch)"
      if "mset q = mset ?m" for q
      using ch(3) that by (simp add: set_permutations)
    show thesis by (rule that [OF o m t]) (use c in blast)+
  next
    case many
    define ra where "ra = (case ?t of Some t \<Rightarrow> (?m, t) | None \<Rightarrow> (butlast ?m, last ?m))"
    obtain r a where ra: "ra = (r, a)" by (cases ra)
    have ms: "mset r + {#a#} = mset ?a \<and> (\<forall>t. ?t = Some t \<longrightarrow> a = t)"
    proof (cases ?t)
      case None
      then have "?m = ?a" by (simp add: movable_of_def)
      moreover have "?a \<noteq> []" using many(1) by auto
      then have "mset (butlast ?a @ [last ?a]) = mset ?a" by (intro arg_cong [OF append_butlast_last_id])
      ultimately have "mset (butlast ?m) + {#last ?m#} = mset ?a" by simp
      with None ra show ?thesis by (simp add: ra_def)
    next
      case (Some t)
      then have "r = ?m" "a = t" using ra by (auto simp: ra_def)
      with tail_movable(1) [OF d Some] Some show ?thesis by simp
    qed
    from greedy_ok [OF assms, of "[a]" cands r] obtain ch where
      ch: "greedy cands links (length r) r [a] = Ok ch" "mset ch = mset r + {#a#}" "last ch = a" by auto
    have o: "order_stages cands counts links = Ok (ch, chain_rtts cands links ch)"
      using many ch(1) ra by (simp add: order_stages_def Let_def ra_def)
    have m: "mset ch = mset ?a" using ch(2) ms by simp
    have t: "last ch = t" if "?t = Some t" for t using ch(3) ms that by simp
    show thesis by (rule that [OF o m t]) (use many in blast)+
  qed
qed

lemma order_stages_spec:
  assumes "links_ok links"
  shows "\<exists>chain. order_stages cands counts links = Ok (chain, chain_rtts cands links chain)
    \<and> mset chain = mset (active_set cands counts)
    \<and> (\<forall>t. tail_of cands (active_set cands counts) = Some t \<longrightarrow> last chain = t)"
  by (rule order_stages_obtain [OF assms, of cands counts]) blast

section \<open>Properties\<close>

lemma flt_leI: "nonneg_flt x \<Longrightarrow> nonneg_flt y \<Longrightarrow> \<not> flt_lt y x \<Longrightarrow> flt_le x y"
  using flt_lt_total [of x y] by (auto simp: nonneg_flt_def flt_le_def flt_eq_def)

text \<open>For up to eight nodes holding layers, the stage order is an arrangement of exactly those
  nodes with the head last, and no arrangement with the head last has a smaller summed
  round-trip time.\<close>

theorem order_stages_optimal:
  assumes "links_ok links" "length (active_set cands counts) \<le> EXACT_ORDER_MAX_NODES"
  shows "\<exists>chain. order_stages cands counts links = Ok (chain, chain_rtts cands links chain)
    \<and> mset chain = mset (active_set cands counts)
    \<and> (\<forall>t. tail_of cands (active_set cands counts) = Some t \<longrightarrow> last chain = t)
    \<and> (\<forall>ys. mset ys = mset (active_set cands counts)
         \<and> (\<forall>t. tail_of cands (active_set cands counts) = Some t \<longrightarrow> last ys = t) \<longrightarrow>
         flt_le (chain_cost cands links chain) (chain_cost cands links ys))"
proof -
  let ?a = "active_set cands counts"
  let ?t = "tail_of cands ?a"
  have d: "distinct ?a" by (rule active_set_props)
  obtain chain where ch: "order_stages cands counts links = Ok (chain, chain_rtts cands links chain)"
      "mset chain = mset ?a" "\<And>t. ?t = Some t \<Longrightarrow> last chain = t"
      "\<forall>p. mset p = mset (movable_of ?a ?t) \<longrightarrow>
         \<not> flt_lt (chain_cost cands links (with_tail ?t p)) (chain_cost cands links chain)"
    using order_stages_obtain [OF assms(1), of cands counts] assms(2) by metis
  have "flt_le (chain_cost cands links chain) (chain_cost cands links ys)"
    if ys: "mset ys = mset ?a" "\<forall>t. ?t = Some t \<longrightarrow> last ys = t" for ys
  proof -
    obtain p where "ys = with_tail ?t p" "mset p = mset (movable_of ?a ?t)"
    proof (cases ?t)
      case None
      with ys(1) show thesis by (intro that [of ys]) (simp_all add: with_tail_def movable_of_def)
    next
      case (Some t)
      with ys(1) tail_movable(2) [OF d Some] have "ys \<noteq> []" by auto
      then have e: "butlast ys @ [t] = ys" using ys(2) Some append_butlast_last_id by metis
      then have "mset (butlast ys) + {#t#} = mset ?a" using ys(1) by (metis mset_append mset_single_iff_right)
      then have "mset (butlast ys) = mset (movable_of ?a ?t)"
        using tail_movable(1) [OF d Some] Some by (metis add_right_cancel)
      with e Some show thesis by (intro that [of "butlast ys"]) (simp_all add: with_tail_def)
    qed
    with ch(4) have "\<not> flt_lt (chain_cost cands links ys) (chain_cost cands links chain)" by simp
    then show ?thesis using chain_cost_nonneg [OF assms(1)] by (intro flt_leI)
  qed
  with ch(1-3) show ?thesis by blast
qed

definition sample_cand :: "NodeId \<Rightarrow> bool \<Rightarrow> Cand" where
  "sample_cand name head = \<lparr>cd_caps = \<lparr>nc_node = name, nc_usable = 0, nc_compute = None, nc_draining = False\<rparr>,
     cd_is_head = head, cd_budget = 0, cd_cap_f = Fin 4, cd_cap_layers = 4, cd_decode = None,
     cd_factor = Fin 1, cd_tpt_decode = None\<rparr>"

theorem order_stages_optimal_witness:
  "\<exists>chain rtts. order_stages [sample_cand ''a'' False, sample_cand ''b'' False, sample_cand ''h'' True]
     [1, 1, 1] [] = Ok (chain, rtts) \<and> last chain = 2 \<and> set chain = {0, 1, 2}"
proof -
  let ?cs = "[sample_cand ''a'' False, sample_cand ''b'' False, sample_cand ''h'' True]"
  have a: "active_set ?cs [1, 1, 1] = [0, 1, 2]" by (simp add: active_set_def upt_rec)
  have t: "tail_of ?cs [0, 1, 2] = Some 2" by (simp add: tail_of_def sample_cand_def)
  have "links_ok []" "length (active_set ?cs [1, 1, 1]) \<le> EXACT_ORDER_MAX_NODES"
    unfolding a by (simp_all add: links_ok_def EXACT_ORDER_MAX_NODES_def)
  from order_stages_optimal [OF this, unfolded a] t obtain chain where
    "order_stages ?cs [1, 1, 1] [] = Ok (chain, chain_rtts ?cs [] chain)"
    "mset chain = mset [0, 1, 2]" "last chain = 2" by blast
  moreover from this(2) have "set chain = {0, 1, 2}" by (metis list.simps(15) mset_eq_setD empty_set)
  ultimately show ?thesis by blast
qed

end
