(* ===== verification/Select.thy ===== *)
theory Select
  imports Stages
begin

text \<open>
  Participant selection (\<open>participants\<close> and \<open>select_workers\<close> of
  \<open>onebrain-scheduler/src/v1.rs\<close>), shared by the v1 and v2 planners. The planner's own
  evaluation of a participant set is a parameter of the code (\<open>eval_tpt\<close>); the locale
  \<open>evaluator\<close> states what selection relies on, and each planner interprets it.
\<close>

section \<open>The code\<close>

definition participants :: "Cand list \<Rightarrow> usize list \<Rightarrow> Cand list" where
  "participants cands selected = map ((!) cands) (sort selected @ [length cands - 1])"

definition cand_name :: "Cand \<Rightarrow> NodeId" where
  "cand_name c = nc_node (cd_caps c)"

definition is_draining :: "Cand \<Rightarrow> bool" where
  "is_draining c = nc_draining (cd_caps c)"

definition f64_order :: "f64 \<Rightarrow> f64 \<Rightarrow> ordering" where
  "f64_order x y = (case partial_cmp x y of Some ord \<Rightarrow> ord | None \<Rightarrow> Equal)"

text \<open>
  Non-draining first, then by score, then by position. A sort of two or more elements
  compares each of them, and the \<open>expect\<close> on \<open>partial_cmp\<close> is evaluated on every
  comparison, so a NaN score among two or more workers is a panic.
\<close>

definition rank_order :: "Cand list \<Rightarrow> usize \<Rightarrow> usize \<Rightarrow> ordering" where
  "rank_order cands a b =
     ord_then (ord_then (cmp (is_draining (cands ! a)) (is_draining (cands ! b)))
       (f64_order (cand_score (cands ! b)) (cand_score (cands ! a)))) (cmp a b)"

definition rank_workers :: "Cand list \<Rightarrow> (usize list, ScheduleError) res" where
  "rank_workers cands =
     (let head_idx = length cands - 1; workers = [0..<head_idx] in
      if 2 \<le> head_idx \<and> list_ex (\<lambda>i. cand_score (cands ! i) = NaN) workers then Panic ExpectFailed
      else Ok (sort_by (rank_order cands) workers))"

text \<open>One worker of the automatic mode.\<close>

definition consider_worker ::
    "Cand list \<Rightarrow> u32 \<Rightarrow> u32 \<Rightarrow> f64 \<Rightarrow> (Cand list \<Rightarrow> (f64 option, ScheduleError) res) \<Rightarrow>
     usize list \<times> remark list \<Rightarrow> usize \<Rightarrow> (usize list \<times> remark list, ScheduleError) res" where
  "consider_worker cands n_layers ctx_len cost eval_tpt = (\<lambda>(selected, notes) wi.
     let cand = cands ! wi; name = cand_name cand in
     if cd_cap_layers cand = 0 then
       Ok (selected, notes @ [CannotHoldLayer name ctx_len (mb_floor (cd_budget cand)) (mb_ceil (f64_as_u64 cost))])
     else res_bind (eval_tpt (participants cands selected)) (\<lambda>current.
       if is_draining cand then
         (case current of
            None \<Rightarrow> Ok (selected @ [wi], notes @ [DrainingNeeded name])
          | Some _ \<Rightarrow> Ok (selected, notes @ [DrainingExcluded name]))
       else
         (case current of
            None \<Rightarrow>
              let have_layers = sum64 (map cd_cap_layers (participants cands selected)) in
              Ok (selected @ [wi], notes @ [NeededForMemory name have_layers n_layers])
          | Some cur \<Rightarrow>
              res_bind (eval_tpt (participants cands (selected @ [wi]))) (\<lambda>with_set.
                case with_set of
                  None \<Rightarrow> Ok (selected, notes)
                | Some w \<Rightarrow>
                    let gain = fdiv (fsub cur w) (fmax cur (fl64 (1 / 1000000000))) in
                    if flt_le ADDED_NODE_TPT_GAIN gain then
                      Ok (selected @ [wi], notes @ [GainIncluded name (fmul gain (Fin 100)) cur w
                        (fmul ADDED_NODE_TPT_GAIN (Fin 100))])
                    else if flt_lt (Fin 0) gain then
                      Ok (selected, notes @ [GainBelow name (fmul gain (Fin 100)) cur w
                        (fmul ADDED_NODE_TPT_GAIN (Fin 100))])
                    else Ok (selected, notes @ [NoGain name cur w])))))"

definition select_workers ::
    "Cand list \<Rightarrow> u32 option \<Rightarrow> u32 \<Rightarrow> u32 \<Rightarrow> f64 \<Rightarrow> (Cand list \<Rightarrow> (f64 option, ScheduleError) res) \<Rightarrow>
     (usize list \<times> remark list, ScheduleError) res" where
  "select_workers cands forced n_layers ctx_len cost eval_tpt =
     res_bind (rank_workers cands) (\<lambda>ranked_workers.
       case forced of
         Some n \<Rightarrow>
           let selected = take (n - 1) ranked_workers in
           Ok (selected, ForcedJoined n (n - 1) #
             map (\<lambda>wi. ForcedDraining (cand_name (cands ! wi)) n)
               (filter (\<lambda>wi. is_draining (cands ! wi)) selected))
       | None \<Rightarrow> fold_res (consider_worker cands n_layers ctx_len cost eval_tpt) ([], []) ranked_workers)"

section \<open>Capacity of a participant set\<close>

definition caps_of :: "Cand list \<Rightarrow> nat" where
  "caps_of cs = sum_list (map cd_cap_layers cs)"

definition cap_at :: "Cand list \<Rightarrow> usize \<Rightarrow> nat" where
  "cap_at cands i = cd_cap_layers (cands ! i)"

lemma mset_participants:
  "mset (participants cands S) = mset (map ((!) cands) (S @ [length cands - 1]))"
  by (simp add: participants_def)

lemma caps_of_participants:
  "caps_of (participants cands S) = sum_list (map (cap_at cands) S) + cap_at cands (length cands - 1)"
proof -
  have "caps_of (participants cands S) = sum_mset (image_mset cd_cap_layers (mset (participants cands S)))"
    by (metis caps_of_def mset_map sum_mset_sum_list)
  also have "\<dots> = sum_mset (mset (map (cap_at cands) S)) + cap_at cands (length cands - 1)"
    unfolding mset_participants by (simp add: cap_at_def [abs_def] comp_def image_mset.compositionality)
  finally show ?thesis by (simp only: sum_mset_sum_list)
qed

lemma set_participants: "set (participants cands S) = (!) cands ` set (S @ [length cands - 1])"
  by (metis mset_participants set_map set_mset_mset)

lemma length_participants [simp]: "length (participants cands S) = Suc (length S)"
  by (simp add: participants_def)

text \<open>Sets of worker positions.\<close>

definition selectable :: "Cand list \<Rightarrow> usize list \<Rightarrow> bool" where
  "selectable cands S \<longleftrightarrow> distinct S \<and> set S \<subseteq> {..<length cands - 1}"

lemma participants_ok:
  assumes "\<forall>c \<in> set cands. cand_ok c" "cands \<noteq> []" "length cands \<le> MAX_NODES" "selectable cands S"
  shows "\<forall>c \<in> set (participants cands S). cand_ok c" "participants cands S \<noteq> []"
    "length (participants cands S) \<le> MAX_NODES"
proof -
  show "\<forall>c \<in> set (participants cands S). cand_ok c"
    using assms by (auto simp: set_participants selectable_def subset_iff)
  show "participants cands S \<noteq> []" by (simp add: participants_def)
  have "length S \<le> length cands - 1"
    using assms(4) card_mono [of "{..<length cands - 1}" "set S"] by (simp add: selectable_def distinct_card)
  with assms(2,3) show "length (participants cands S) \<le> MAX_NODES" by (cases cands) simp_all
qed

section \<open>Ranking\<close>

lemma rank_workers_ok:
  assumes "\<forall>c \<in> set cands. cand_ok c" "cands \<noteq> []"
  shows "rank_workers cands = Ok (sort_by (rank_order cands) [0..<length cands - 1])"
proof -
  have "cand_score (cands ! i) \<noteq> NaN" if "i < length cands - 1" for i
  proof -
    have "cand_ok (cands ! i)" using assms that by simp
    then obtain s where "cand_score (cands ! i) = Fin s" by (rule cand_score_scored)
    then show ?thesis by simp
  qed
  then have "\<not> list_ex (\<lambda>i. cand_score (cands ! i) = NaN) [0..<length cands - 1]"
    by (auto simp: list_ex_iff)
  then show ?thesis by (simp add: rank_workers_def Let_def)
qed

text \<open>The ranking puts every draining worker behind every other.\<close>

lemma insert_by_split:
  assumes "\<And>a b. \<not> P a \<Longrightarrow> P b \<Longrightarrow> c a b \<noteq> Greater" "\<And>a b. P a \<Longrightarrow> \<not> P b \<Longrightarrow> c a b = Greater"
    "xs = us @ vs" "\<forall>u \<in> set us. \<not> P u" "\<forall>v \<in> set vs. P v"
  shows "\<exists>us' vs'. insert_by c x xs = us' @ vs' \<and> (\<forall>u \<in> set us'. \<not> P u) \<and> (\<forall>v \<in> set vs'. P v)"
  using assms(3-5)
proof (induction us arbitrary: xs)
  case Nil
  show ?case
  proof (cases "P x")
    case True
    have "\<forall>v \<in> set (insert_by c x vs). P v"
      using Nil True by (metis mset_insert_by set_mset_add_mset_insert set_mset_mset insert_iff)
    with Nil show ?thesis by (intro exI [of _ "[]"] exI [of _ "insert_by c x vs"]) auto
  next
    case False
    then have "insert_by c x vs = [x] @ vs" using Nil assms(1) by (cases vs) auto
    with Nil False show ?thesis by (intro exI [of _ "[x]"] exI [of _ vs]) auto
  qed
next
  case (Cons u us)
  show ?case
  proof (cases "c x u = Greater")
    case True
    from Cons.IH [of "us @ vs"] Cons.prems obtain us' vs' where
      "insert_by c x (us @ vs) = us' @ vs'" "\<forall>u \<in> set us'. \<not> P u" "\<forall>v \<in> set vs'. P v" by auto
    with Cons.prems True show ?thesis by (intro exI [of _ "u # us'"] exI [of _ vs']) auto
  next
    case False
    then have "\<not> P x" using Cons.prems(2) assms(2) by auto
    with Cons.prems False show ?thesis by (intro exI [of _ "x # u # us"] exI [of _ vs]) auto
  qed
qed

lemma sort_by_split:
  assumes "\<And>a b. \<not> P a \<Longrightarrow> P b \<Longrightarrow> c a b \<noteq> Greater" "\<And>a b. P a \<Longrightarrow> \<not> P b \<Longrightarrow> c a b = Greater"
  shows "\<exists>us vs. sort_by c xs = us @ vs \<and> (\<forall>u \<in> set us. \<not> P u) \<and> (\<forall>v \<in> set vs. P v)"
proof (induction xs)
  case (Cons x xs)
  then obtain us vs where "sort_by c xs = us @ vs" "\<forall>u \<in> set us. \<not> P u" "\<forall>v \<in> set vs. P v" by blast
  from insert_by_split [of P c, OF assms this, of x] show ?case by simp
qed simp

lemma ranked_draining_last:
  "\<exists>us vs. sort_by (rank_order cands) xs = us @ vs \<and> (\<forall>u \<in> set us. \<not> is_draining (cands ! u))
     \<and> (\<forall>v \<in> set vs. is_draining (cands ! v))"
  by (rule sort_by_split) (simp_all add: rank_order_def cmp_def)

section \<open>The contract of an evaluator\<close>

text \<open>
  What selection relies on: on well-formed candidates an evaluation returns, and it returns
  \<open>None\<close> exactly when the set's whole-layer capacities do not hold the model.
\<close>

locale evaluator =
  fixes eval_tpt :: "'req \<Rightarrow> Cand list \<Rightarrow> (f64 option, ScheduleError) res"
    and layers_of :: "'req \<Rightarrow> u32"
    and admissible :: "'req \<Rightarrow> bool"
  assumes returns: "admissible r \<Longrightarrow> \<forall>c \<in> set cs. cand_ok c \<Longrightarrow> cs \<noteq> [] \<Longrightarrow> length cs \<le> MAX_NODES \<Longrightarrow>
      \<exists>t. eval_tpt r cs = Ok t"
    and feasible: "admissible r \<Longrightarrow> \<forall>c \<in> set cs. cand_ok c \<Longrightarrow> cs \<noteq> [] \<Longrightarrow> length cs \<le> MAX_NODES \<Longrightarrow>
      eval_tpt r cs = Ok None \<longleftrightarrow> caps_of cs < layers_of r"
begin

lemma step:
  assumes r: "admissible r" and cs: "\<forall>c \<in> set cands. cand_ok c" "cands \<noteq> []" "length cands \<le> MAX_NODES"
    and S: "selectable cands S" "selectable cands (S @ [wi])"
  shows "\<exists>S' notes'. consider_worker cands n ctx cost (eval_tpt r) (S, notes) wi = Ok (S', notes')
    \<and> S' \<in> {S, S @ [wi]}
    \<and> (caps_of (participants cands S) < layers_of r \<and> cap_at cands wi \<noteq> 0 \<longrightarrow> S' = S @ [wi])
    \<and> (\<not> caps_of (participants cands S) < layers_of r \<and> is_draining (cands ! wi) \<longrightarrow> S' = S)"
proof (cases "cap_at cands wi = 0")
  case True
  then show ?thesis by (simp add: consider_worker_def Let_def cap_at_def)
next
  case False
  note p = participants_ok [OF cs S(1)] and q = participants_ok [OF cs S(2)]
  obtain t where t: "eval_tpt r (participants cands S) = Ok t" using returns [OF r p] by blast
  obtain u where u: "eval_tpt r (participants cands (S @ [wi])) = Ok u" using returns [OF r q] by blast
  have none: "t = None \<longleftrightarrow> caps_of (participants cands S) < layers_of r"
    using feasible [OF r p] t by simp
  show ?thesis
  proof (cases t)
    case None
    with t False none show ?thesis by (simp add: consider_worker_def Let_def cap_at_def)
  next
    case (Some cur)
    with t u False none show ?thesis
      by (cases u) (auto simp: consider_worker_def Let_def cap_at_def)
  qed
qed

text \<open>
  What the automatic selection has established after a prefix of the ranking: the set so far
  holds the model, or every worker seen that can hold a layer is in it.
\<close>

definition settled :: "'req \<Rightarrow> Cand list \<Rightarrow> usize list \<Rightarrow> usize list \<Rightarrow> bool" where
  "settled r cands seen S \<longleftrightarrow> set S \<subseteq> set seen \<and> distinct S \<and>
     (layers_of r \<le> caps_of (participants cands S) \<or> (\<forall>i \<in> set seen. cap_at cands i \<noteq> 0 \<longrightarrow> i \<in> set S))"

lemma caps_grow: "caps_of (participants cands S) \<le> caps_of (participants cands (S @ [wi]))"
  by (simp add: caps_of_participants)

lemma settled_step:
  assumes r: "admissible r" and cs: "\<forall>c \<in> set cands. cand_ok c" "cands \<noteq> []" "length cands \<le> MAX_NODES"
    and seen: "distinct (seen @ [wi])" "set (seen @ [wi]) \<subseteq> {..<length cands - 1}"
    and S: "settled r cands seen S"
  shows "\<exists>S' notes'. consider_worker cands n ctx cost (eval_tpt r) (S, notes) wi = Ok (S', notes')
    \<and> settled r cands (seen @ [wi]) S'
    \<and> (layers_of r \<le> caps_of (participants cands S) \<and> is_draining (cands ! wi) \<longrightarrow> S' = S)"
proof -
  have "selectable cands S" "selectable cands (S @ [wi])"
    using seen S by (auto simp: selectable_def settled_def)
  from step [OF r cs this, of n ctx cost "notes"] obtain S' notes' where
    s: "consider_worker cands n ctx cost (eval_tpt r) (S, notes) wi = Ok (S', notes')"
      "S' \<in> {S, S @ [wi]}"
      "caps_of (participants cands S) < layers_of r \<and> cap_at cands wi \<noteq> 0 \<longrightarrow> S' = S @ [wi]"
      "\<not> caps_of (participants cands S) < layers_of r \<and> is_draining (cands ! wi) \<longrightarrow> S' = S"
    by blast
  have "settled r cands (seen @ [wi]) S'"
  proof (cases "layers_of r \<le> caps_of (participants cands S)")
    case True
    then have "layers_of r \<le> caps_of (participants cands S')"
      using s(2) caps_grow [of cands S wi] by auto
    with s(2) S seen(1) show ?thesis by (auto simp: settled_def)
  next
    case False
    with s S seen(1) show ?thesis by (auto simp: settled_def)
  qed
  with s show ?thesis by auto
qed

lemma sum_selected:
  assumes "distinct seen" "distinct S" "set S \<subseteq> set seen" "\<forall>i \<in> set seen. cap_at cands i \<noteq> 0 \<longrightarrow> i \<in> set S"
  shows "sum_list (map (cap_at cands) S) = sum_list (map (cap_at cands) seen)"
proof -
  have "sum (cap_at cands) (set S) = sum (cap_at cands) (set seen)"
    using assms(3,4) by (intro sum.mono_neutral_left) auto
  with assms(1,2) show ?thesis by (simp add: sum_list_distinct_conv_sum_set)
qed

lemma settled_infeasible:
  assumes "settled r cands seen S" "distinct seen"
  shows "caps_of (participants cands S) < layers_of r \<longleftrightarrow>
    sum_list (map (cap_at cands) seen) + cap_at cands (length cands - 1) < layers_of r"
proof (cases "layers_of r \<le> caps_of (participants cands S)")
  case True
  have "sum (cap_at cands) (set S) \<le> sum (cap_at cands) (set seen)"
    using assms(1) by (intro sum_mono2) (auto simp: settled_def)
  then have "sum_list (map (cap_at cands) S) \<le> sum_list (map (cap_at cands) seen)"
    using assms by (simp add: sum_list_distinct_conv_sum_set settled_def)
  with True show ?thesis by (simp add: caps_of_participants)
next
  case False
  with assms have "sum_list (map (cap_at cands) S) = sum_list (map (cap_at cands) seen)"
    by (intro sum_selected) (auto simp: settled_def)
  then show ?thesis by (simp add: caps_of_participants)
qed

lemma select_prefix:
  assumes r: "admissible r" and cs: "\<forall>c \<in> set cands. cand_ok c" "cands \<noteq> []" "length cands \<le> MAX_NODES"
    and seen: "distinct (seen @ xs)" "set (seen @ xs) \<subseteq> {..<length cands - 1}"
    and S: "settled r cands seen S"
  shows "\<exists>S' notes'. fold_res (consider_worker cands n ctx cost (eval_tpt r)) (S, notes) xs = Ok (S', notes')
    \<and> settled r cands (seen @ xs) S'
    \<and> (layers_of r \<le> caps_of (participants cands S) \<and> (\<forall>x \<in> set xs. is_draining (cands ! x)) \<longrightarrow> S' = S)"
proof -
  let ?I = "\<lambda>ps (t :: usize list \<times> remark list). settled r cands (seen @ ps) (fst t)
    \<and> (layers_of r \<le> caps_of (participants cands S) \<and> (\<forall>x \<in> set ps. is_draining (cands ! x)) \<longrightarrow> fst t = S)"
  have "\<exists>t. fold_res (consider_worker cands n ctx cost (eval_tpt r)) (S, notes) xs = Ok t \<and> ?I xs t"
  proof (rule fold_res_invariant [where I = ?I])
    show "?I [] (S, notes)" using S by simp
  next
    fix ps x zs and t :: "usize list \<times> remark list"
    assume xs: "xs = ps @ x # zs" and I: "?I ps t"
    have "distinct ((seen @ ps) @ [x])" "set ((seen @ ps) @ [x]) \<subseteq> {..<length cands - 1}"
      using seen xs by auto
    from settled_step [OF r cs this, of "fst t" n ctx cost "snd t"] I obtain S' notes' where
      "consider_worker cands n ctx cost (eval_tpt r) t x = Ok (S', notes')"
      "settled r cands (seen @ (ps @ [x])) S'"
      "layers_of r \<le> caps_of (participants cands (fst t)) \<and> is_draining (cands ! x) \<longrightarrow> S' = fst t"
      by auto
    with I show "\<exists>t'. consider_worker cands n ctx cost (eval_tpt r) t x = Ok t' \<and> ?I (ps @ [x]) t'"
      by auto
  qed
  then show ?thesis by (metis fst_conv surj_pair)
qed

text \<open>
  Automatic selection returns; it finds a set that holds the model exactly when all nodes
  together do; and when the nodes that are not draining hold it, no draining node joins.
\<close>

lemma select_automatic:
  assumes r: "admissible r" and cs: "\<forall>c \<in> set cands. cand_ok c" "cands \<noteq> []" "length cands \<le> MAX_NODES"
  shows "\<exists>S notes. select_workers cands None n ctx cost (eval_tpt r) = Ok (S, notes) \<and> selectable cands S
    \<and> (caps_of (participants cands S) < layers_of r \<longleftrightarrow> caps_of cands < layers_of r)
    \<and> (layers_of r \<le> sum_list (map (cap_at cands) (filter (\<lambda>i. \<not> is_draining (cands ! i)) [0..<length cands - 1]))
          + cap_at cands (length cands - 1) \<longrightarrow> (\<forall>i \<in> set S. \<not> is_draining (cands ! i)))"
proof -
  let ?w = "[0..<length cands - 1]"
  let ?k = "sort_by (rank_order cands) ?w"
  obtain us vs where uv: "?k = us @ vs" "\<forall>u \<in> set us. \<not> is_draining (cands ! u)"
      "\<forall>v \<in> set vs. is_draining (cands ! v)"
    using ranked_draining_last by blast
  have m: "mset (us @ vs) = mset ?w" using uv(1) by (metis mset_sort_by)
  have d: "distinct (us @ vs)" "set (us @ vs) = {..<length cands - 1}"
    using m mset_eq_imp_distinct_iff [OF m] mset_eq_setD [OF m] by auto
  from select_prefix [OF r cs, of "[]" us "[]" n ctx cost "[]"] d obtain S1 n1 where
    s1: "fold_res (consider_worker cands n ctx cost (eval_tpt r)) ([], []) us = Ok (S1, n1)"
      "settled r cands us S1"
    by (auto simp: settled_def)
  from select_prefix [OF r cs, of us vs S1 n ctx cost n1] d s1(2) obtain S n2 where
    s: "fold_res (consider_worker cands n ctx cost (eval_tpt r)) (S1, n1) vs = Ok (S, n2)"
      "settled r cands (us @ vs) S"
      "layers_of r \<le> caps_of (participants cands S1) \<longrightarrow> S = S1"
    using uv(3) by auto
  have sel: "select_workers cands None n ctx cost (eval_tpt r) = Ok (S, n2)"
    using s1(1) s(1) by (simp add: select_workers_def rank_workers_ok [OF cs(1,2), unfolded uv(1)] fold_res_append)
  have all: "sum_list (map (cap_at cands) (us @ vs)) = sum_list (map (cap_at cands) ?w)"
    by (rule sum_list_map_mset_cong [OF m])
  have whole: "sum_list (map (cap_at cands) ?w) + cap_at cands (length cands - 1) = caps_of cands"
  proof -
    have "caps_of cands = sum_list (map (cap_at cands) [0..<length cands])"
    proof -
      have "map cd_cap_layers cands = map (cap_at cands) [0..<length cands]"
        by (rule nth_equalityI) (simp_all add: cap_at_def)
      then show ?thesis by (simp only: caps_of_def)
    qed
    moreover have "[0..<length cands] = ?w @ [length cands - 1]" using cs(2) by (cases cands) auto
    ultimately show ?thesis by simp
  qed
  have nd: "mset (filter (\<lambda>i. \<not> is_draining (cands ! i)) ?w) = mset us"
  proof -
    have "mset (filter (\<lambda>i. \<not> is_draining (cands ! i)) ?w) = mset (filter (\<lambda>i. \<not> is_draining (cands ! i)) (us @ vs))"
      by (simp only: mset_filter m)
    also have "filter (\<lambda>i. \<not> is_draining (cands ! i)) (us @ vs) = us" using uv(2,3) by simp
    finally show ?thesis .
  qed
  have "sum_list (map (cap_at cands) (filter (\<lambda>i. \<not> is_draining (cands ! i)) ?w)) = sum_list (map (cap_at cands) us)"
    by (rule sum_list_map_mset_cong [OF nd])
  then have "S = S1" if "layers_of r \<le> sum_list (map (cap_at cands) (filter (\<lambda>i. \<not> is_draining (cands ! i)) ?w))
          + cap_at cands (length cands - 1)"
    using that settled_infeasible [OF s1(2)] d(1) s(3) by simp
  moreover have "\<forall>i \<in> set S1. \<not> is_draining (cands ! i)" using s1(2) uv(2) by (auto simp: settled_def)
  moreover have "caps_of (participants cands S) < layers_of r \<longleftrightarrow> caps_of cands < layers_of r"
    using settled_infeasible [OF s(2) d(1)] all whole by simp
  moreover have "selectable cands S" using s(2) d by (auto simp: selectable_def settled_def)
  ultimately show ?thesis using sel by blast
qed

lemma select_forced:
  assumes cs: "\<forall>c \<in> set cands. cand_ok c" "cands \<noteq> []"
  shows "\<exists>notes. select_workers cands (Some k) n ctx cost (eval_tpt r) =
      Ok (take (k - 1) (sort_by (rank_order cands) [0..<length cands - 1]), notes)"
    and "selectable cands (take (k - 1) (sort_by (rank_order cands) [0..<length cands - 1]))"
proof -
  show "\<exists>notes. select_workers cands (Some k) n ctx cost (eval_tpt r) =
      Ok (take (k - 1) (sort_by (rank_order cands) [0..<length cands - 1]), notes)"
    by (simp add: select_workers_def rank_workers_ok [OF cs] Let_def)
  show "selectable cands (take (k - 1) (sort_by (rank_order cands) [0..<length cands - 1]))"
    by (auto simp: selectable_def dest!: in_set_takeD)
qed

lemma select_any:
  assumes r: "admissible r" and cs: "\<forall>c \<in> set cands. cand_ok c" "cands \<noteq> []" "length cands \<le> MAX_NODES"
  shows "\<exists>S sn. select_workers cands f n ctx cost (eval_tpt r) = Ok (S, sn) \<and> selectable cands S"
proof (cases f)
  case None
  with select_automatic [OF r cs, of n ctx cost] show ?thesis by blast
next
  case (Some k)
  with select_forced(1) [OF cs(1,2), of k n ctx cost r] select_forced(2) [OF cs(1,2), of k]
  show ?thesis by blast
qed

end

end
