(* ===== verification/Assemble.thy ===== *)
theory Assemble
  imports Select
begin

text \<open>
  What the v1 and v2 planners share after selection (\<open>onebrain-scheduler/src/v1.rs\<close> and
  \<open>v2.rs\<close>): the assembly of assignments in stage order, the solo placement, and the frame
  of the decision (solo when it fits, forced node counts, otherwise distribution).

  The locale \<open>distributor\<close> states what the frame relies on: an evaluator of participant sets,
  a budget rule, and a distribution step that either refuses a set that is too small or lays
  out an evaluated one. The placement contract \<open>planner\<close>, completeness, budgets, the head's
  place and the rule for draining nodes are proved in it once, for both planners.
\<close>

section \<open>Assembly\<close>

record stage_acc =
  sa_assignments :: "Assignment list"
  sa_split :: "f32 list"
  sa_prose :: "remark list"
  sa_binding :: "(usize \<times> u64) option"
  sa_cursor :: u32

definition stage_acc0 :: stage_acc where
  "stage_acc0 = \<lparr>sa_assignments = [], sa_split = [], sa_prose = [], sa_binding = None, sa_cursor = 0\<rparr>"

text \<open>The sum of a slice \<open>xs[a..b]\<close>, which panics out of range.\<close>

definition slice_sum :: "u64 list \<Rightarrow> usize \<Rightarrow> usize \<Rightarrow> (u64, ScheduleError) res" where
  "slice_sum xs a b = (if a \<le> b \<and> b \<le> length xs then Ok (sum64 (take (b - a) (drop a xs)))
     else Panic IndexOutOfRange)"

definition stage_step ::
    "ModelDims \<Rightarrow> u64 \<Rightarrow> Cand list \<Rightarrow> u32 list \<Rightarrow> stage_acc \<Rightarrow> usize \<times> usize \<Rightarrow> (stage_acc, ScheduleError) res" where
  "stage_step dims kv_layer final_set counts acc = (\<lambda>(stage, pi).
     let cand = final_set ! pi;
         layers = counts ! pi;
         range = \<lparr>lr_start = sa_cursor acc, lr_end = add32 (sa_cursor acc) layers\<rparr> in
     res_bind (slice_sum (d_weights dims) (lr_start range) (lr_end range)) (\<lambda>weight_bytes.
       let kv_bytes = mul64 layers kv_layer;
           util_pct = (if cd_budget cand = 0 then u64_max
             else as_u64 (mul128 (add64 weight_bytes kv_bytes) 100 div cd_budget cand)) in
       Ok (acc\<lparr>sa_cursor := add32 (sa_cursor acc) layers,
             sa_prose := sa_prose acc @ [StageRequired stage (if cd_is_head cand then Head else Worker)
               (cand_name cand) (lr_start range) (lr_end range) layers (mb_ceil weight_bytes)
               (mb_ceil kv_bytes) util_pct (mb_floor (cd_budget cand))],
             sa_binding := new_binding (sa_binding acc) (length (sa_assignments acc)) util_pct,
             sa_assignments := sa_assignments acc @
               [\<lparr>as_node = cand_name cand, as_layers = range, as_stage = as_u32 stage\<rparr>],
             sa_split := sa_split acc @ [fdiv32 (f32_of_u layers) (f32_of_u (d_n_layers dims))]\<rparr>)))"

definition assemble ::
    "ModelDims \<Rightarrow> u64 \<Rightarrow> Cand list \<Rightarrow> u32 list \<Rightarrow> usize list \<Rightarrow> (stage_acc, ScheduleError) res" where
  "assemble dims kv_layer final_set counts order =
     fold_res (stage_step dims kv_layer final_set counts) stage_acc0 (enumerate 0 order)"

text \<open>Participants that rounded to zero layers.\<close>

definition dropped_notes :: "Cand list \<Rightarrow> u32 list \<Rightarrow> remark list" where
  "dropped_notes final_set counts =
     map (\<lambda>i. DroppedNode (cand_name (final_set ! i)) (mb_floor (cd_budget (final_set ! i))))
       (filter (\<lambda>i. counts ! i = 0) [0..<length final_set])"

definition why_distributed :: "PlanRequest \<Rightarrow> u32 option \<Rightarrow> u64 \<Rightarrow> u64 \<Rightarrow> bool \<Rightarrow> why" where
  "why_distributed req forced head_budget required solo_fits = (case forced of
     Some n \<Rightarrow> if solo_fits then ForcedButFits n
       else ForcedExceeds n (mb_ceil required) (mb_floor head_budget)
   | None \<Rightarrow> RequiredExceeds (pr_ctx_len req) (mb_ceil required) (mb_floor head_budget)
       (mb_floor (nc_usable (pr_head req))) (mb_ceil OVERHEAD_RESERVE_BYTES))"

definition hops :: "Cand list \<Rightarrow> usize list \<Rightarrow> f64 list \<Rightarrow> (NodeId \<times> NodeId \<times> f64) list" where
  "hops final_set order rtts = map (\<lambda>((i, j), rtt). (cand_name (final_set ! i), cand_name (final_set ! j), rtt))
     (zip (windows2 order) rtts)"

section \<open>The planner\<close>

definition solo_placement_v1 :: "PlanRequest \<Rightarrow> u64 \<Rightarrow> u64 \<Rightarrow> bool \<Rightarrow> PlannedPlacement" where
  "solo_placement_v1 req head_budget required forced =
     (let dims = pr_dims req;
          kv_total = mul64 (d_n_layers dims) (kv_bytes_per_layer dims (pr_ctx_len req)) in
      \<lparr>pp_plan = \<lparr>pl_epoch = Epoch 0, pl_model = '''', pl_strategy = Solo,
         pl_assignments = [\<lparr>as_node = nc_node (pr_head req),
           as_layers = \<lparr>lr_start = 0, lr_end = d_n_layers dims\<rparr>, as_stage = 0\<rparr>],
         pl_ctx_len = pr_ctx_len req\<rparr>,
       pp_tensor_split = [Fin 1],
       pp_explanation = [SoloRequired (nc_node (pr_head req)) (mb_ceil (d_total dims)) (mb_ceil kv_total)
         (pr_ctx_len req) (mb_ceil required) (mb_floor head_budget) (mb_floor (nc_usable (pr_head req)))
         (mb_ceil OVERHEAD_RESERVE_BYTES) (if forced then ForcedSolo else AutoSolo)]\<rparr>)"

definition all_caps :: "PlanRequest \<Rightarrow> NodeCaps list" where
  "all_caps req = pr_workers req @ [pr_head req]"

text \<open>What the callers guarantee: a model with as many layer weights as layers, well-typed node
  capabilities, non-negative link times, and at most \<open>2 ^ 20\<close> nodes.\<close>

definition req_ok :: "PlanRequest \<Rightarrow> bool" where
  "req_ok req \<longleftrightarrow> 0 < d_n_layers (pr_dims req) \<and> d_n_layers (pr_dims req) < M32
     \<and> length (d_weights (pr_dims req)) = d_n_layers (pr_dims req)
     \<and> (\<forall>c \<in> set (all_caps req). caps_ok c) \<and> length (all_caps req) \<le> MAX_NODES
     \<and> links_ok (pr_links req)"

text \<open>Apportioning to the candidates by any score the planners use.\<close>

lemma apportion_cands:
  assumes cs: "\<forall>c \<in> set cs. cand_ok c" "length cs \<le> MAX_NODES" and n: "0 < n" "n < M32"
    and sc: "\<forall>c. cand_ok c \<longrightarrow> (\<exists>s. sc c = Fin s \<and> scored s)"
  shows "caps_of cs < n \<Longrightarrow> apportion (map sc cs) (map cd_cap_layers cs) n = Ok None"
    and "n \<le> caps_of cs \<Longrightarrow> \<forall>c. cand_ok c \<longrightarrow> 0 < cd_cap_layers c \<longrightarrow> sc c \<noteq> Fin 0 \<Longrightarrow>
      \<exists>counts quotas. apportion (map sc cs) (map cd_cap_layers cs) n = Ok (Some (counts, quotas))"
    and "(\<exists>r. apportion (map sc cs) (map cd_cap_layers cs) n = Ok r)
      \<and> (\<forall>counts quotas. apportion (map sc cs) (map cd_cap_layers cs) n = Ok (Some (counts, quotas)) \<longrightarrow>
           length counts = length cs \<and> sum_list counts = n \<and> (\<forall>i < length cs. counts ! i \<le> cap_at cs i))"
proof -
  obtain f where f: "\<forall>c \<in> set cs. sc c = Fin (f c) \<and> scored (f c)" using sc cs(1) by metis
  have m: "map sc cs = map Fin (map f cs)" using f by simp
  have ss: "\<forall>s \<in> set (map f cs). scored s" "length (map f cs) \<le> MAX_NODES" using f cs(2) by auto
  have caps: "length (map cd_cap_layers cs) = length (map f cs)" "\<forall>c \<in> set (map cd_cap_layers cs). c < M32"
    using cs(1) cand_ok_caps by auto
  note a = apportion_spec [OF ss n caps]
  {
    assume "caps_of cs < n"
    then show "apportion (map sc cs) (map cd_cap_layers cs) n = Ok None"
      unfolding m using a(1) by (simp add: caps_of_def)
  next
    assume fits: "n \<le> caps_of cs" and pos: "\<forall>c. cand_ok c \<longrightarrow> 0 < cd_cap_layers c \<longrightarrow> sc c \<noteq> Fin 0"
    have "\<exists>c \<in> set cs. 0 < cd_cap_layers c"
    proof (rule ccontr)
      assume "\<not> ?thesis"
      then have "caps_of cs = 0" by (simp add: caps_of_def)
      with fits n(1) show False by simp
    qed
    then obtain c where c: "c \<in> set cs" "f c \<noteq> 0" using f pos cs(1) by fastforce
    moreover have "f c \<le> sum_list (map f cs)"
      using c(1) f by (intro member_le_sum_list) (auto simp: scored_nonneg)
    moreover have "0 \<le> f c" using c(1) f by (simp add: scored_nonneg)
    ultimately have "sum_list (map f cs) \<noteq> 0" by linarith
    with fits a(2) show "\<exists>counts quotas. apportion (map sc cs) (map cd_cap_layers cs) n = Ok (Some (counts, quotas))"
      unfolding m caps_of_def by blast
  next
    show "(\<exists>r. apportion (map sc cs) (map cd_cap_layers cs) n = Ok r)
      \<and> (\<forall>counts quotas. apportion (map sc cs) (map cd_cap_layers cs) n = Ok (Some (counts, quotas)) \<longrightarrow>
           length counts = length cs \<and> sum_list counts = n \<and> (\<forall>i < length cs. counts ! i \<le> cap_at cs i))"
    proof (cases "sum_list (map f cs) = 0 \<or> sum_list (map cd_cap_layers cs) < n")
      case True
      with a(1) show ?thesis unfolding m by auto
    next
      case False
      with a(2) show ?thesis unfolding m by (auto simp: cap_at_def)
    qed
  }
qed

text \<open>An evaluated set: every layer is apportioned within capacity, and the order holds exactly the
  nodes with layers.\<close>

definition evaluated_ok :: "Cand list \<Rightarrow> u32 \<Rightarrow> u32 list \<Rightarrow> usize list \<Rightarrow> bool" where
  "evaluated_ok cs n counts order \<longleftrightarrow> length counts = length cs \<and> sum_list counts = n
     \<and> (\<forall>i < length cs. counts ! i \<le> cap_at cs i) \<and> mset order = mset (active_set cs counts)
     \<and> (\<forall>t. tail_of cs (active_set cs counts) = Some t \<longrightarrow> last order = t)"

section \<open>Assembly meets the plan contract\<close>

lemma stage_step_ok:
  assumes "sa_cursor acc + counts ! i \<le> length (d_weights dims)" "length (d_weights dims) < M32" "st < M32"
  shows "\<exists>acc'. stage_step dims kv fs counts acc (st, i) = Ok acc'
    \<and> sa_assignments acc' = sa_assignments acc @ [\<lparr>as_node = cand_name (fs ! i),
        as_layers = \<lparr>lr_start = sa_cursor acc, lr_end = sa_cursor acc + counts ! i\<rparr>, as_stage = st\<rparr>]
    \<and> sa_cursor acc' = sa_cursor acc + counts ! i \<and> length (sa_split acc') = Suc (length (sa_split acc))"
proof -
  have cur: "add32 (sa_cursor acc) (counts ! i) = sa_cursor acc + counts ! i"
    using assms(1,2) by (intro add32_small) linarith
  obtain wb where wb: "slice_sum (d_weights dims) (sa_cursor acc) (sa_cursor acc + counts ! i) = Ok wb"
    using assms(1) by (simp add: slice_sum_def)
  have "as_u32 st = st" using assms(3) by (rule as_u32_small)
  then show ?thesis by (simp add: stage_step_def Let_def cur wb)
qed

lemma assemble_spec:
  assumes w: "sum_list (map ((!) counts) order) \<le> length (d_weights dims)" "length (d_weights dims) < M32"
    and o: "length order < M32"
  shows "\<exists>acc. assemble dims kv fs counts order = Ok acc
    \<and> sa_assignments acc = lay_out 0 0 (map (\<lambda>i. (cand_name (fs ! i), counts ! i)) order)
    \<and> length (sa_split acc) = length order"
proof -
  let ?node = "\<lambda>i. (cand_name (fs ! i), counts ! i)"
  let ?I = "\<lambda>ps (acc :: stage_acc). sa_assignments acc = lay_out 0 0 (map ?node (map snd ps))
    \<and> sa_cursor acc = sum_list (map ((!) counts) (map snd ps)) \<and> length (sa_split acc) = length ps"
  have "\<exists>acc. fold_res (stage_step dims kv fs counts) stage_acc0 (enumerate 0 order) = Ok acc
      \<and> ?I (enumerate 0 order) acc"
  proof (rule fold_res_invariant [where I = ?I])
    show "?I [] stage_acc0" by (simp add: stage_acc0_def)
  next
    fix ps x zs and acc :: stage_acc
    assume xs: "enumerate 0 order = ps @ x # zs" and I: "?I ps acc"
    obtain st i where x: "x = (st, i)" by (cases x)
    have ord: "order = map snd ps @ i # map snd zs"
      using arg_cong [OF xs, of "map snd"] x by simp
    have "map fst (enumerate 0 order) = [0..<length order]" by simp
    then have "map fst ps @ st # map fst zs = [0..<length order]" using xs x by simp
    then have "st = [0..<length order] ! length ps" by (metis length_map nth_append_length)
    moreover have "length ps < length order" by (simp add: ord)
    ultimately have st: "st = length ps" by simp
    have "sum_list (map ((!) counts) order) = sa_cursor acc + counts ! i + sum_list (map ((!) counts) (map snd zs))"
      unfolding ord using I by simp
    then have le: "sa_cursor acc + counts ! i \<le> length (d_weights dims)" using w(1) by linarith
    have "length order = length ps + Suc (length zs)" by (simp add: ord)
    then have "st < M32" using o st by linarith
    from stage_step_ok [OF le w(2) this, of kv fs] obtain acc' where
      a: "stage_step dims kv fs counts acc x = Ok acc'"
        "sa_assignments acc' = sa_assignments acc @ [\<lparr>as_node = cand_name (fs ! i),
          as_layers = \<lparr>lr_start = sa_cursor acc, lr_end = sa_cursor acc + counts ! i\<rparr>, as_stage = st\<rparr>]"
        "sa_cursor acc' = sa_cursor acc + counts ! i" "length (sa_split acc') = Suc (length (sa_split acc))"
      unfolding x by blast
    have "?I (ps @ [x]) acc'"
      using I by (simp add: a(2-4) x st lay_out_snoc comp_def)
    with a(1) show "\<exists>acc'. stage_step dims kv fs counts acc x = Ok acc' \<and> ?I (ps @ [x]) acc'" by blast
  qed
  then show ?thesis unfolding assemble_def by auto
qed

lemma sum_active:
  assumes "length counts = length cs"
  shows "sum_list (map ((!) counts) (active_set cs counts)) = sum_list counts"
proof -
  have "active_set cs counts = filter (\<lambda>i. counts ! i \<noteq> 0) [0..<length counts]"
    using assms by (simp add: active_set_def)
  then show ?thesis using sum_list_filter_nonzero [of "(!) counts" "[0..<length counts]"] by (simp add: map_nth)
qed

text \<open>An evaluated participant set assembles into a plan that places every layer once on known nodes.\<close>

lemma assemble_evaluated:
  assumes e: "evaluated_ok fs n counts order" and n: "0 < n" "n < M32" "length (d_weights dims) = n"
    and fs: "length fs \<le> MAX_NODES"
  shows "\<exists>acc. assemble dims kv fs counts order = Ok acc
    \<and> sa_assignments acc = lay_out 0 0 (map (\<lambda>i. (cand_name (fs ! i), counts ! i)) order)
    \<and> tiles 0 0 n (sa_assignments acc)
    \<and> mset (map as_node (sa_assignments acc)) \<subseteq># mset (map cand_name fs)
    \<and> length (sa_split acc) = length (sa_assignments acc)"
proof -
  have o: "mset order = mset (active_set fs counts)" and c: "length counts = length fs" "sum_list counts = n"
    using e by (simp_all add: evaluated_ok_def)
  have os: "distinct order" "set order = {i. i < length fs \<and> 0 < counts ! i}"
    using mset_eq_imp_distinct_iff [OF o] mset_eq_setD [OF o] active_set_props [of fs counts] by simp_all
  have sum: "sum_list (map ((!) counts) order) = n"
    using sum_list_map_mset_cong [OF o, of "(!) counts"] sum_active [OF c(1)] c(2) by simp
  have sub: "set order \<subseteq> {..<length fs}" using os(2) by auto
  then have "card (set order) \<le> card {..<length fs}" by (intro card_mono) simp_all
  then have "length order \<le> length fs" by (simp add: distinct_card [OF os(1)])
  then have lo: "length order < M32" using fs by (simp add: MAX_NODES_def)
  have w: "sum_list (map ((!) counts) order) \<le> length (d_weights dims)" "length (d_weights dims) < M32"
    using sum n by simp_all
  from assemble_spec [OF w lo, of kv fs] obtain acc where a: "assemble dims kv fs counts order = Ok acc"
      "sa_assignments acc = lay_out 0 0 (map (\<lambda>i. (cand_name (fs ! i), counts ! i)) order)"
      "length (sa_split acc) = length order" by blast
  let ?ps = "map (\<lambda>i. (cand_name (fs ! i), counts ! i)) order"
  have "\<forall>k \<in> snd ` set ?ps. 0 < k" using os(2) by auto
  from tiles_lay_out [OF this, of 0 0] have t: "tiles 0 0 n (sa_assignments acc)"
    using sum by (simp add: a(2) comp_def)
  have "mset (map ((!) fs) order) \<subseteq># mset fs" by (rule mset_nth_subset [OF os(1) sub])
  then have "image_mset cand_name (mset (map ((!) fs) order)) \<subseteq># image_mset cand_name (mset fs)"
    by (rule image_mset_subseteq_mono)
  then have nd: "mset (map as_node (sa_assignments acc)) \<subseteq># mset (map cand_name fs)"
    by (simp add: a(2) comp_def image_mset.compositionality)
  have "length (sa_split acc) = length (sa_assignments acc)" by (simp add: a(2,3))
  with a(1,2) t nd show ?thesis by blast
qed

section \<open>The planner contract\<close>

lemma all_caps_simps [simp]: "all_caps req \<noteq> []" "length (all_caps req) = Suc (length (pr_workers req))"
  by (simp_all add: all_caps_def)

definition req_cands :: "(u64 \<Rightarrow> u64) \<Rightarrow> PlanRequest \<Rightarrow> Cand list" where
  "req_cands budget_of req = build_cands (all_caps req) (per_layer_cost (pr_dims req) (pr_ctx_len req)) budget_of"

lemma length_req_cands [simp]: "length (req_cands bo req) = Suc (length (pr_workers req))"
  by (simp add: req_cands_def)

lemma req_cands_ok:
  assumes "req_ok req" "\<And>u. u < M64 \<Longrightarrow> bo u < M64"
  shows "\<forall>c \<in> set (req_cands bo req). cand_ok c" "req_cands bo req \<noteq> []" "length (req_cands bo req) \<le> MAX_NODES"
proof -
  obtain k where k: "per_layer_cost (pr_dims req) (pr_ctx_len req) = Fin k" "1 \<le> k" "k \<le> 2 powi 64"
    by (rule per_layer_cost_bounds)
  have caps: "\<forall>c \<in> set (all_caps req). caps_ok c" using assms(1) by (simp add: req_ok_def)
  then have "\<forall>c \<in> set (all_caps req). bo (nc_usable c) < M64" using assms(2) by (simp add: caps_ok_def)
  from build_cands_ok [OF caps this k] show "\<forall>c \<in> set (req_cands bo req). cand_ok c"
    by (simp add: req_cands_def)
  show "req_cands bo req \<noteq> []" using length_req_cands [of bo req] by (metis list.size(3) nat.distinct(1))
  show "length (req_cands bo req) \<le> MAX_NODES" using assms(1) by (simp add: req_ok_def)
qed

lemma req_cands_names: "map cand_name (req_cands bo req) = map nc_node (all_caps req)"
  by (rule nth_equalityI) (simp_all add: req_cands_def cand_name_def build_cands_nth)

lemma node_budget_less: "u < M64 \<Longrightarrow> node_budget u < M64"
  by (simp add: node_budget_def sat_sub_def)

lemma participants_submset:
  assumes "selectable cands S" "cands \<noteq> []"
  shows "mset (participants cands S) \<subseteq># mset cands"
proof -
  have "distinct (S @ [length cands - 1])" "set (S @ [length cands - 1]) \<subseteq> {..<length cands}"
    using assms by (auto simp: selectable_def)
  from mset_nth_subset [OF this] show ?thesis unfolding mset_participants .
qed

lemma final_set_ok:
  assumes "req_ok req" "\<And>u. u < M64 \<Longrightarrow> bo u < M64" "selectable (req_cands bo req) S"
  shows "\<forall>c \<in> set (participants (req_cands bo req) S). cand_ok c"
    "participants (req_cands bo req) S \<noteq> []" "length (participants (req_cands bo req) S) \<le> MAX_NODES"
    "mset (map cand_name (participants (req_cands bo req) S)) \<subseteq># mset (nc_node (pr_head req) # map nc_node (pr_workers req))"
proof -
  note c = req_cands_ok [of req bo, OF assms(1,2)]
  note p = participants_ok [OF c assms(3)]
  show "\<forall>c \<in> set (participants (req_cands bo req) S). cand_ok c"
    "participants (req_cands bo req) S \<noteq> []" "length (participants (req_cands bo req) S) \<le> MAX_NODES"
    using p by blast+
  have "image_mset cand_name (mset (participants (req_cands bo req) S)) \<subseteq># image_mset cand_name (mset (req_cands bo req))"
    by (rule image_mset_subseteq_mono [OF participants_submset [OF assms(3) c(2)]])
  also have "image_mset cand_name (mset (req_cands bo req)) = mset (map nc_node (all_caps req))"
    by (simp only: mset_map [symmetric] req_cands_names)
  finally show "mset (map cand_name (participants (req_cands bo req) S)) \<subseteq># mset (nc_node (pr_head req) # map nc_node (pr_workers req))"
    by (simp add: all_caps_def)
qed

text \<open>A placement of a participant set: the evaluated layer counts laid out in stage order, every
  layer placed once, on nodes of the request.\<close>

definition placed_as :: "PlanRequest \<Rightarrow> Cand list \<Rightarrow> PlannedPlacement \<Rightarrow> bool" where
  "placed_as req fs p \<longleftrightarrow> pl_strategy (pp_plan p) = PipelineParallel
     \<and> (\<exists>counts order. evaluated_ok fs (d_n_layers (pr_dims req)) counts order
          \<and> assignments_of p = lay_out 0 0 (map (\<lambda>i. (cand_name (fs ! i), counts ! i)) order))
     \<and> tiles 0 0 (d_n_layers (pr_dims req)) (assignments_of p)
     \<and> mset (map as_node (assignments_of p)) \<subseteq># mset (nc_node (pr_head req) # map nc_node (pr_workers req))
     \<and> length (pp_tensor_split p) = length (assignments_of p)"

lemma placed_asI:
  assumes r: "req_ok req" and fs: "length fs \<le> MAX_NODES"
    "mset (map cand_name fs) \<subseteq># mset (nc_node (pr_head req) # map nc_node (pr_workers req))"
    and e: "evaluated_ok fs (d_n_layers (pr_dims req)) counts order"
  obtains acc where "assemble (pr_dims req) kv fs counts order = Ok acc"
    "\<forall>p. pl_strategy (pp_plan p) = PipelineParallel \<and> assignments_of p = sa_assignments acc
       \<and> pp_tensor_split p = sa_split acc \<longrightarrow> placed_as req fs p"
proof -
  have n: "0 < d_n_layers (pr_dims req)" "d_n_layers (pr_dims req) < M32"
    "length (d_weights (pr_dims req)) = d_n_layers (pr_dims req)"
    using r by (simp_all add: req_ok_def)
  from assemble_evaluated [OF e n fs(1), of kv] obtain acc where
    acc: "assemble (pr_dims req) kv fs counts order = Ok acc"
      "sa_assignments acc = lay_out 0 0 (map (\<lambda>i. (cand_name (fs ! i), counts ! i)) order)"
      "tiles 0 0 (d_n_layers (pr_dims req)) (sa_assignments acc)"
      "mset (map as_node (sa_assignments acc)) \<subseteq># mset (map cand_name fs)"
      "length (sa_split acc) = length (sa_assignments acc)" by blast
  have nodes: "mset (map as_node (sa_assignments acc)) \<subseteq># mset (nc_node (pr_head req) # map nc_node (pr_workers req))"
    by (rule subset_mset.order_trans [OF acc(4) fs(2)])
  have "placed_as req fs p" if "pl_strategy (pp_plan p) = PipelineParallel"
      "assignments_of p = sa_assignments acc" "pp_tensor_split p = sa_split acc" for p
    unfolding placed_as_def that
  proof (intro conjI exI)
    show "evaluated_ok fs (d_n_layers (pr_dims req)) counts order" by (rule e)
  qed (simp_all only: acc(2) [symmetric] acc(3,5) nodes)
  with acc(1) that show thesis by blast
qed
text \<open>How an assignment of a placed set traces back to a node of the request.\<close>

lemma req_cand_props:
  assumes "c \<in> set (req_cands bo req)"
  shows "cd_caps c \<in> set (all_caps req)" "cd_is_head c \<longrightarrow> cd_caps c = pr_head req"
    "\<not> cd_is_head c \<longrightarrow> cd_caps c \<in> set (pr_workers req)" "cd_budget c = bo (nc_usable (cd_caps c))"
proof -
  obtain i where i: "i < length (all_caps req)" "c = req_cands bo req ! i"
    using assms by (auto simp: in_set_conv_nth)
  note b = build_cands_nth [OF i(1), of "per_layer_cost (pr_dims req) (pr_ctx_len req)" bo,
      folded req_cands_def i(2)]
  show "cd_caps c \<in> set (all_caps req)" "cd_budget c = bo (nc_usable (cd_caps c))"
    using b(1,3) i(1) by simp_all
  show "cd_is_head c \<longrightarrow> cd_caps c = pr_head req" using b(1,2) by (simp add: all_caps_def nth_append)
  show "\<not> cd_is_head c \<longrightarrow> cd_caps c \<in> set (pr_workers req)"
    using b(1,2) i(1) by (simp add: all_caps_def nth_append)
qed

lemma placed_asD:
  assumes "placed_as req (participants (req_cands bo req) S) p" "selectable (req_cands bo req) S"
    "a \<in> set (assignments_of p)"
  obtains c where "c \<in> set (participants (req_cands bo req) S)" "c \<in> set (req_cands bo req)"
    "as_node a = cand_name c" "LayerRange_len (as_layers a) \<le> cd_cap_layers c"
proof -
  let ?fs = "participants (req_cands bo req) S"
  obtain counts order where e: "evaluated_ok ?fs (d_n_layers (pr_dims req)) counts order"
      "assignments_of p = lay_out 0 0 (map (\<lambda>i. (cand_name (?fs ! i), counts ! i)) order)"
    using assms(1) by (auto simp: placed_as_def)
  obtain i where i: "i \<in> set order" "as_node a = cand_name (?fs ! i)" "LayerRange_len (as_layers a) = counts ! i"
    using in_lay_out [of a 0 0] assms(3) unfolding e(2) by fastforce
  have "set order = set (active_set ?fs counts)" using e(1) by (auto simp: evaluated_ok_def dest: mset_eq_setD)
  then have il: "i < length ?fs" using i(1) by (simp add: active_set_props)
  then have "counts ! i \<le> cd_cap_layers (?fs ! i)" using e(1) by (simp add: evaluated_ok_def cap_at_def)
  moreover have "?fs ! i \<in> set ?fs" using il by simp
  moreover have "set ?fs \<subseteq> set (req_cands bo req)"
    using mset_subset_eqD [OF participants_submset [OF assms(2)]] length_req_cands [of bo req]
    by (metis list.size(3) nat.distinct(1) set_mset_mset subsetI)
  ultimately show thesis using that i(2,3) by (metis subsetD)
qed

text \<open>With memory sizes below \<open>2 ^ 53\<close> the candidates' capacities are integer divisions.\<close>

definition memory_ok :: "PlanRequest \<Rightarrow> bool" where
  "memory_ok req \<longleftrightarrow> (\<forall>c \<in> set (all_caps req). nc_usable c < 2 ^ 53)
     \<and> mean_weight_bytes_per_layer (pr_dims req) + kv_bytes_per_layer (pr_dims req) (pr_ctx_len req) < 2 ^ 53"

lemma req_cand_capacity:
  assumes "memory_ok req" "\<And>u. bo u \<le> u" "c \<in> set (req_cands bo req)"
  shows "cd_cap_layers c = min (bo (nc_usable (cd_caps c)) div layer_cost (pr_dims req) (pr_ctx_len req)) u32_max"
proof -
  obtain i where i: "i < length (all_caps req)" "c = req_cands bo req ! i"
    using assms(3) by (auto simp: in_set_conv_nth)
  let ?k = "layer_cost (pr_dims req) (pr_ctx_len req)"
  have cost: "per_layer_cost (pr_dims req) (pr_ctx_len req) = Fin (of_nat ?k)" "0 < ?k" "?k \<le> 2 ^ 53"
    using assms(1) by (simp_all add: memory_ok_def per_layer_cost_exact) (simp_all add: layer_cost_def)
  have "nc_usable (all_caps req ! i) < 2 ^ 53" using assms(1) i(1) by (simp add: memory_ok_def)
  then have "bo (nc_usable (all_caps req ! i)) < 2 ^ 53" using assms(2) le_less_trans by blast
  from cap_layers_exact [where bo = bo, OF i(1) cost this] show ?thesis
    using build_cands_nth(1) [OF i(1)] by (simp add: i(2) req_cands_def)
qed

lemma node_budget_le: "node_budget u \<le> u"
  by (simp add: node_budget_def sat_sub_def)

text \<open>The order of a placed set ends in the head whenever the head takes part.\<close>

lemma placed_head_last:
  assumes pl: "placed_as req (participants (req_cands bo req) S) p" and S: "selectable (req_cands bo req) S"
    and uniq: "nc_node (pr_head req) \<notin> nc_node ` set (pr_workers req)"
    and mem: "nc_node (pr_head req) \<in> as_node ` set (assignments_of p)"
  shows "as_node (last (assignments_of p)) = nc_node (pr_head req)"
proof -
  let ?fs = "participants (req_cands bo req) S"
  obtain counts order where e: "evaluated_ok ?fs (d_n_layers (pr_dims req)) counts order"
      "assignments_of p = lay_out 0 0 (map (\<lambda>i. (cand_name (?fs ! i), counts ! i)) order)"
    using pl by (auto simp: placed_as_def)
  have so: "set order = set (active_set ?fs counts)"
    using e(1) by (auto simp: evaluated_ok_def dest: mset_eq_setD)
  have fsub: "c \<in> set (req_cands bo req)" if "c \<in> set ?fs" for c
    using that mset_subset_eqD [OF participants_submset [OF S]] length_req_cands [of bo req]
    by (metis list.size(3) nat.distinct(1) set_mset_mset)
  have elt: "?fs ! i \<in> set (req_cands bo req)" if "i \<in> set order" for i
  proof -
    have "i < length ?fs" using that so by (simp add: active_set_props)
    then have "?fs ! i \<in> set ?fs" by (rule nth_mem)
    then show ?thesis by (rule fsub)
  qed
  have "nc_node (pr_head req) \<in> set (map as_node (assignments_of p))" using mem by simp
  also have "map as_node (assignments_of p) = map (\<lambda>i. cand_name (?fs ! i)) order"
    by (simp only: e(2) map_node_lay_out map_map comp_def fst_conv)
  finally obtain i where i: "i \<in> set order" "cand_name (?fs ! i) = nc_node (pr_head req)" by auto
  have "cd_is_head (?fs ! i)"
    using req_cand_props(3) [OF elt [OF i(1)]] i(2) uniq by (metis cand_name_def imageI)
  with i(1) so have "tail_of ?fs (active_set ?fs counts) \<noteq> None"
    by (auto simp: tail_of_def find_None_iff)
  then obtain t where t: "tail_of ?fs (active_set ?fs counts) = Some t" by blast
  have "last order = t" using e(1) t by (simp add: evaluated_ok_def)
  moreover have "cd_is_head (?fs ! t)" "t \<in> set order"
    using tail_movable(2,3) [OF active_set_props(1) t] so by auto
  ultimately have "cand_name (?fs ! last order) = nc_node (pr_head req)"
    using req_cand_props(2) [OF elt] by (simp add: cand_name_def)
  moreover have "order \<noteq> []" using i(1) by auto
  ultimately show ?thesis by (simp add: e(2) last_lay_out last_map)
qed

lemma non_draining_capacity:
  "caps_of (filter (\<lambda>c. cd_is_head c \<or> \<not> is_draining c) (req_cands bo req)) =
     sum_list (map (cap_at (req_cands bo req))
        (filter (\<lambda>i. \<not> is_draining (req_cands bo req ! i)) [0..<length (pr_workers req)]))
     + cap_at (req_cands bo req) (length (pr_workers req))"
proof -
  let ?c = "req_cands bo req" and ?m = "length (pr_workers req)"
  let ?P = "\<lambda>c. cd_is_head c \<or> \<not> is_draining c"
  have hd: "cd_is_head (?c ! i) = (i = ?m)" if "i < Suc ?m" for i
    using build_cands_nth(2) [of i "all_caps req"] that by (simp add: req_cands_def)
  have c: "map ((!) ?c) [0..<Suc ?m] = ?c" using map_nth [of ?c] by (simp only: length_req_cands)
  have "filter ?P (map ((!) ?c) [0..<Suc ?m]) = map ((!) ?c) (filter (?P \<circ> (!) ?c) [0..<Suc ?m])"
    by (rule filter_map)
  then have "filter ?P ?c = map ((!) ?c) (filter (\<lambda>i. ?P (?c ! i)) [0..<Suc ?m])"
    unfolding c by (simp only: comp_def)
  also have "filter (\<lambda>i. ?P (?c ! i)) [0..<Suc ?m] = filter (\<lambda>i. \<not> is_draining (?c ! i)) [0..<?m] @ [?m]"
    using hd by (auto intro!: filter_cong)
  finally show ?thesis by (simp add: caps_of_def cap_at_def [abs_def] comp_def)
qed

section \<open>The decision frame\<close>

abbreviation required_bytes :: "PlanRequest \<Rightarrow> u64" where
  "required_bytes req \<equiv> total_required_bytes (pr_dims req) (pr_ctx_len req)"

abbreviation head_budget_of :: "PlanRequest \<Rightarrow> u64" where
  "head_budget_of req \<equiv> node_budget (nc_usable (pr_head req))"

abbreviation forced_of :: "PlanRequest \<Rightarrow> u32 option" where
  "forced_of req \<equiv> effective_forced (pr_forced_nodes req)"

lemma req_available: "req_ok req \<Longrightarrow> add32 (as_u32 (length (pr_workers req))) 1 = Suc (length (pr_workers req))"
  by (simp add: req_ok_def MAX_NODES_def wrap_simps)

locale distributor = evaluator eval_tpt "\<lambda>req. d_n_layers (pr_dims req)" req_ok
  for eval_tpt :: "PlanRequest \<Rightarrow> Cand list \<Rightarrow> (f64 option, ScheduleError) res" +
  fixes solve :: "PlanRequest \<Rightarrow> (PlannedPlacement, ScheduleError) res"
    and solo :: "PlanRequest \<Rightarrow> bool \<Rightarrow> PlannedPlacement"
    and dist :: "PlanRequest \<Rightarrow> (PlannedPlacement, ScheduleError) res"
    and budget_of :: "PlanRequest \<Rightarrow> u64 \<Rightarrow> u64"
  assumes decides: "solve req =
      (case forced_of req of
         None \<Rightarrow> if required_bytes req \<le> head_budget_of req then Ok (solo req False) else dist req
       | Some n \<Rightarrow>
           if add32 (as_u32 (length (pr_workers req))) 1 < n
           then Err (NotEnoughNodes n (add32 (as_u32 (length (pr_workers req))) 1))
           else if n = 1 then
             (if required_bytes req \<le> head_budget_of req then Ok (solo req True)
              else Err (DoesNotFit (mb_ceil (required_bytes req)) (mb_floor (head_budget_of req))))
           else dist req)"
    and budget_le: "budget_of req u \<le> u"
    and solo_shape: "pl_strategy (pp_plan (solo req b)) = Solo"
      "assignments_of (solo req b) = [\<lparr>as_node = nc_node (pr_head req),
         as_layers = \<lparr>lr_start = 0, lr_end = d_n_layers (pr_dims req)\<rparr>, as_stage = 0\<rparr>]"
      "length (pp_tensor_split (solo req b)) = 1"
    and dist_refuses: "req_ok req \<Longrightarrow>
      select_workers (req_cands (budget_of req) req) (forced_of req) (d_n_layers (pr_dims req)) (pr_ctx_len req)
        (per_layer_cost (pr_dims req) (pr_ctx_len req)) (eval_tpt req) = Ok (S, sn) \<Longrightarrow>
      selectable (req_cands (budget_of req) req) S \<Longrightarrow>
      caps_of (participants (req_cands (budget_of req) req) S) < d_n_layers (pr_dims req) \<Longrightarrow>
      dist req = Err (DoesNotFit (mb_ceil (required_bytes req))
        (mb_floor (sum64 (map cd_budget (req_cands (budget_of req) req)))))"
    and dist_places: "req_ok req \<Longrightarrow>
      select_workers (req_cands (budget_of req) req) (forced_of req) (d_n_layers (pr_dims req)) (pr_ctx_len req)
        (per_layer_cost (pr_dims req) (pr_ctx_len req)) (eval_tpt req) = Ok (S, sn) \<Longrightarrow>
      selectable (req_cands (budget_of req) req) S \<Longrightarrow>
      d_n_layers (pr_dims req) \<le> caps_of (participants (req_cands (budget_of req) req) S) \<Longrightarrow>
      \<exists>p. dist req = Ok p \<and> placed_as req (participants (req_cands (budget_of req) req) S) p"
begin

definition cands_of :: "PlanRequest \<Rightarrow> Cand list" where
  "cands_of req = req_cands (budget_of req) req"

definition selects :: "PlanRequest \<Rightarrow> usize list \<Rightarrow> bool" where
  "selects req S \<longleftrightarrow> selectable (cands_of req) S \<and>
     (\<exists>sn. select_workers (cands_of req) (forced_of req) (d_n_layers (pr_dims req)) (pr_ctx_len req)
        (per_layer_cost (pr_dims req) (pr_ctx_len req)) (eval_tpt req) = Ok (S, sn))"

lemma budget_less: "u < M64 \<Longrightarrow> budget_of req u < M64"
  using budget_le [of req u] by linarith

lemma cands_ok:
  assumes "req_ok req"
  shows "\<forall>c \<in> set (cands_of req). cand_ok c" "cands_of req \<noteq> []" "length (cands_of req) \<le> MAX_NODES"
  using req_cands_ok [of req "budget_of req", OF assms budget_less] by (simp_all add: cands_of_def)

text \<open>The five outcomes on a well-formed request.\<close>

lemma outcomes:
  assumes r: "req_ok req"
  obtains (not_enough) n where "forced_of req = Some n" "Suc (length (pr_workers req)) < n"
      "solve req = Err (NotEnoughNodes n (Suc (length (pr_workers req))))"
  | (solo) b where "solve req = Ok (solo req b)"
      "required_bytes req \<le> head_budget_of req" "forced_of req \<in> {None, Some 1}"
  | (no_solo) "forced_of req = Some 1" "\<not> required_bytes req \<le> head_budget_of req"
      "solve req = Err (DoesNotFit (mb_ceil (required_bytes req)) (mb_floor (head_budget_of req)))"
  | (refused) S where "selects req S" "forced_of req \<noteq> Some 1"
      "forced_of req = None \<longrightarrow> \<not> required_bytes req \<le> head_budget_of req"
      "caps_of (participants (cands_of req) S) < d_n_layers (pr_dims req)"
      "solve req = Err (DoesNotFit (mb_ceil (required_bytes req)) (mb_floor (sum64 (map cd_budget (cands_of req)))))"
  | (placed) S p where "selects req S" "forced_of req \<noteq> Some 1"
      "forced_of req = None \<longrightarrow> \<not> required_bytes req \<le> head_budget_of req"
      "d_n_layers (pr_dims req) \<le> caps_of (participants (cands_of req) S)"
      "solve req = Ok p" "placed_as req (participants (cands_of req) S) p"
proof (rule decision_cases [OF decides [of req]])
  fix n
  assume "forced_of req = Some n" "add32 (as_u32 (length (pr_workers req))) 1 < n"
    "solve req = Err (NotEnoughNodes n (add32 (as_u32 (length (pr_workers req))) 1))"
  then show thesis using not_enough by (simp add: req_available [OF r, simplified])
next
  fix b
  assume "solve req = Ok (solo req b)" "required_bytes req \<le> head_budget_of req" "forced_of req \<in> {None, Some 1}"
  then show thesis by (rule solo)
next
  assume "forced_of req = Some 1" "\<not> required_bytes req \<le> head_budget_of req"
    "solve req = Err (DoesNotFit (mb_ceil (required_bytes req)) (mb_floor (head_budget_of req)))"
  then show thesis by (rule no_solo)
next
  assume d: "solve req = dist req" "forced_of req \<noteq> Some 1"
    "forced_of req = None \<Longrightarrow> \<not> required_bytes req \<le> head_budget_of req"
  have sf: "forced_of req = None \<longrightarrow> \<not> required_bytes req \<le> head_budget_of req" using d(3) by blast
  from select_any [OF r cands_ok [OF r]]
  obtain S sn where s: "select_workers (cands_of req) (forced_of req) (d_n_layers (pr_dims req)) (pr_ctx_len req)
      (per_layer_cost (pr_dims req) (pr_ctx_len req)) (eval_tpt req) = Ok (S, sn)" "selectable (cands_of req) S"
    by blast
  have S: "selects req S" using s by (auto simp: selects_def)
  note dr = dist_refuses [OF r s [unfolded cands_of_def], folded cands_of_def d(1)]
    and dp = dist_places [OF r s [unfolded cands_of_def], folded cands_of_def d(1)]
  show thesis
  proof (cases "caps_of (participants (cands_of req) S) < d_n_layers (pr_dims req)")
    case True
    show thesis by (rule refused [OF S d(2) sf True dr [OF True]])
  next
    case False
    then have F: "d_n_layers (pr_dims req) \<le> caps_of (participants (cands_of req) S)" by simp
    from dp [OF F] placed [OF S d(2) sf F] show thesis by blast
  qed
qed

text \<open>Automatic selection finds a set whenever all nodes together hold the model, without draining
  nodes when the others suffice.\<close>

lemma selects_automatic:
  assumes "req_ok req" "forced_of req = None" "selects req S"
  shows "caps_of (participants (cands_of req) S) < d_n_layers (pr_dims req) \<longleftrightarrow>
      caps_of (cands_of req) < d_n_layers (pr_dims req)"
    and "d_n_layers (pr_dims req) \<le> caps_of (filter (\<lambda>c. cd_is_head c \<or> \<not> is_draining c) (cands_of req)) \<Longrightarrow>
      \<forall>i \<in> set S. \<not> is_draining (cands_of req ! i)"
  using select_automatic [OF assms(1) cands_ok [OF assms(1)],
      of "d_n_layers (pr_dims req)" "pr_ctx_len req" "per_layer_cost (pr_dims req) (pr_ctx_len req)"] assms(2,3)
  by (auto simp: selects_def non_draining_capacity cands_of_def)

lemma complete:
  assumes "req_ok req" "forced_of req = None"
  shows "((\<exists>p. solve req = Ok p \<and> pl_strategy (pp_plan p) = Solo) \<longleftrightarrow> required_bytes req \<le> head_budget_of req)
    \<and> ((\<exists>p. solve req = Ok p \<and> pl_strategy (pp_plan p) = PipelineParallel) \<longleftrightarrow>
        head_budget_of req < required_bytes req \<and> d_n_layers (pr_dims req) \<le> caps_of (cands_of req))
    \<and> ((\<exists>a b. solve req = Err (DoesNotFit a b)) \<longleftrightarrow>
        head_budget_of req < required_bytes req \<and> caps_of (cands_of req) < d_n_layers (pr_dims req))"
  using assms(1)
proof (cases rule: outcomes)
  case (solo b)
  then show ?thesis by (auto simp: solo_shape)
next
  case (refused S)
  with selects_automatic(1) [OF assms refused(1)] assms(2) show ?thesis by auto
next
  case (placed S p)
  with selects_automatic(1) [OF assms placed(1)] assms(2) show ?thesis by (auto simp: placed_as_def)
qed (use assms(2) in simp_all)

lemma placement:
  assumes "req_ok req"
  shows "solve req \<noteq> Panic k"
    and "solve req = Ok p \<Longrightarrow> tiles 0 0 (d_n_layers (pr_dims req)) (assignments_of p)
      \<and> mset (map as_node (assignments_of p)) \<subseteq># mset (nc_node (pr_head req) # map nc_node (pr_workers req))
      \<and> length (pp_tensor_split p) = length (assignments_of p)"
proof -
  show "solve req \<noteq> Panic k" using assms by (cases rule: outcomes) simp_all
next
  assume ok: "solve req = Ok p"
  have n: "0 < d_n_layers (pr_dims req)" using assms by (simp add: req_ok_def)
  from assms show "tiles 0 0 (d_n_layers (pr_dims req)) (assignments_of p)
    \<and> mset (map as_node (assignments_of p)) \<subseteq># mset (nc_node (pr_head req) # map nc_node (pr_workers req))
    \<and> length (pp_tensor_split p) = length (assignments_of p)"
  proof (cases rule: outcomes)
    case (solo b)
    with ok n solo_shape(2,3) [of req b] show ?thesis by auto
  next
    case (placed S q)
    with ok show ?thesis by (simp add: placed_as_def)
  qed (use ok in simp_all)
qed

lemma budgets:
  assumes "req_ok req" "memory_ok req" "solve req = Ok p" "pl_strategy (pp_plan p) = PipelineParallel"
    "a \<in> set (assignments_of p)"
  shows "\<exists>c \<in> set (all_caps req). nc_node c = as_node a
    \<and> LayerRange_len (as_layers a) * layer_cost (pr_dims req) (pr_ctx_len req) \<le> budget_of req (nc_usable c)"
  using assms(1)
proof (cases rule: outcomes)
  case (placed S q)
  then have S: "selectable (req_cands (budget_of req) req) S" and q: "q = p"
    using assms(3) by (simp_all add: selects_def cands_of_def)
  from placed_asD [OF placed(6) [unfolded q cands_of_def] S assms(5)] obtain c where
    c: "c \<in> set (req_cands (budget_of req) req)" "as_node a = cand_name c" "LayerRange_len (as_layers a) \<le> cd_cap_layers c"
    by blast
  let ?k = "layer_cost (pr_dims req) (pr_ctx_len req)" and ?b = "budget_of req (nc_usable (cd_caps c))"
  have "LayerRange_len (as_layers a) \<le> ?b div ?k"
    using c(3) req_cand_capacity [of req "budget_of req", OF assms(2) budget_le c(1)] by simp
  then have "LayerRange_len (as_layers a) * ?k \<le> ?b div ?k * ?k" by (rule mult_le_mono1)
  also have "\<dots> \<le> ?b" by (rule div_times_less_eq_dividend)
  finally show ?thesis using req_cand_props(1) [OF c(1)] c(2) by (auto simp: cand_name_def)
next
  case (solo b)
  with assms(3,4) solo_shape(1) [of req b] show ?thesis by simp
qed (use assms in simp_all)

lemma head_last:
  assumes "req_ok req" "solve req = Ok p" "nc_node (pr_head req) \<notin> nc_node ` set (pr_workers req)"
    "nc_node (pr_head req) \<in> as_node ` set (assignments_of p)"
  shows "as_node (last (assignments_of p)) = nc_node (pr_head req)"
  using assms(1)
proof (cases rule: outcomes)
  case (solo b)
  with assms(2) solo_shape(2) [of req b] show ?thesis by auto
next
  case (placed S q)
  then have "placed_as req (participants (req_cands (budget_of req) req) S) p"
    "selectable (req_cands (budget_of req) req) S"
    using assms(2) by (simp_all add: selects_def cands_of_def)
  then show ?thesis by (rule placed_head_last [OF _ _ assms(3,4)])
qed (use assms(2) in simp_all)

lemma spares_draining:
  assumes "req_ok req" "forced_of req = None" "solve req = Ok p"
    "d_n_layers (pr_dims req) \<le> caps_of (filter (\<lambda>c. cd_is_head c \<or> \<not> is_draining c) (cands_of req))"
    "a \<in> set (assignments_of p)"
  shows "as_node a = nc_node (pr_head req)
    \<or> (\<exists>c \<in> set (pr_workers req). as_node a = nc_node c \<and> \<not> nc_draining c)"
  using assms(1)
proof (cases rule: outcomes)
  case (solo b)
  with assms(3,5) solo_shape(2) [of req b] show ?thesis by auto
next
  case (placed S q)
  let ?c = "req_cands (budget_of req) req"
  have S: "selectable ?c S" using placed(1) by (simp add: selects_def cands_of_def)
  have q: "q = p" using placed(5) assms(3) by simp
  have nd: "\<forall>i \<in> set S. \<not> is_draining (?c ! i)"
    using selects_automatic(2) [OF assms(1,2) placed(1) assms(4)] by (simp add: cands_of_def)
  obtain c where c: "c \<in> set (participants ?c S)" "c \<in> set ?c" "as_node a = cand_name c"
    using placed_asD [OF placed(6) [unfolded q cands_of_def] S assms(5)] by blast
  show ?thesis
  proof (cases "cd_is_head c")
    case True
    with req_cand_props(2) [OF c(2)] c(3) show ?thesis by (simp add: cand_name_def)
  next
    case False
    have h: "cd_is_head (?c ! length (pr_workers req))"
      using build_cands_nth(2) [of "length (pr_workers req)" "all_caps req"] by (simp add: req_cands_def)
    obtain i where i: "c = ?c ! i" "i \<in> set S \<or> i = length (pr_workers req)"
      using c(1) unfolding set_participants by auto
    with False h nd have "\<not> is_draining c" by blast
    with False req_cand_props(3) [OF c(2)] c(3) show ?thesis by (auto simp: cand_name_def is_draining_def)
  qed
qed (use assms(3) in simp_all)

end

text \<open>Every planner in this frame meets the placement contract.\<close>

sublocale distributor \<subseteq> placing: planner solve "\<lambda>req. d_n_layers (pr_dims req)" "\<lambda>req. nc_node (pr_head req)"
  "\<lambda>req. map nc_node (pr_workers req)" req_ok
  by unfold_locales (use placement in blast)+

end
