(* ===== verification/PlanV1.thy ===== *)
theory PlanV1
  imports Assemble
begin

text \<open>
  The v1 planner (\<open>plan_v1\<close> of \<open>onebrain-scheduler/src/v1.rs\<close>): auto-solo against the real
  weights-plus-KV requirement, and otherwise participant selection, apportionment by
  memory-and-compute score, stage ordering and assembly of the plan.

  The theory interprets the \<open>evaluator\<close> and \<open>planner\<close> contracts on the code and shows when
  the planner goes solo, when it refuses, that it refuses only if all nodes together are too
  small, that no node is given more layers than its budget covers, and that a draining node
  joins only when it is needed.
\<close>

section \<open>Evaluating a participant set\<close>

record Evaluated =
  ev_counts :: "u32 list"
  ev_order :: "usize list"
  ev_boundary_rtts :: "f64 list"
  ev_tpt :: f64

definition apportion_v1 :: "Cand list \<Rightarrow> u32 \<Rightarrow> (u32 list option, ScheduleError) res" where
  "apportion_v1 cands n_layers =
     res_bind (apportion (map cand_score cands) (map cd_cap_layers cands) n_layers)
       (\<lambda>r. Ok (map_option fst r))"

definition stage_ms :: "Cand list \<Rightarrow> u32 list \<Rightarrow> usize \<Rightarrow> f64" where
  "stage_ms cands counts i = (case cd_tpt_decode (cands ! i) of
     Some tps \<Rightarrow> fmul (fdiv (f64_of_u (counts ! i)) tps) (Fin 1000)
   | None \<Rightarrow> Fin 0)"

definition evaluate :: "Cand list \<Rightarrow> u32 \<Rightarrow> LinkRtt list \<Rightarrow> (Evaluated option, ScheduleError) res" where
  "evaluate cands n_layers links =
     res_bind (apportion_v1 cands n_layers) (\<lambda>r.
       case r of
         None \<Rightarrow> Ok None
       | Some counts \<Rightarrow>
           res_bind (order_stages cands counts links) (\<lambda>(order, boundary_rtts).
             let compute_ms = foldl fmax (Fin 0) (map (stage_ms cands counts) order);
                 tpt = fadd compute_ms (fsum boundary_rtts) in
             Ok (Some \<lparr>ev_counts = counts, ev_order = order, ev_boundary_rtts = boundary_rtts,
                        ev_tpt = tpt\<rparr>)))"

section \<open>The planner\<close>

definition eval_tpt_v1 :: "PlanRequest \<Rightarrow> Cand list \<Rightarrow> (f64 option, ScheduleError) res" where
  "eval_tpt_v1 req cs =
     res_bind (evaluate cs (d_n_layers (pr_dims req)) (pr_links req)) (\<lambda>e. Ok (map_option ev_tpt e))"

definition distributed_v1 ::
    "PlanRequest \<Rightarrow> u32 option \<Rightarrow> u64 \<Rightarrow> u64 \<Rightarrow> u64 \<Rightarrow> bool \<Rightarrow> (PlannedPlacement, ScheduleError) res" where
  "distributed_v1 req forced head_budget required kv_layer solo_fits =
     (let dims = pr_dims req;
          n_layers = d_n_layers dims;
          cost = per_layer_cost dims (pr_ctx_len req);
          cands = build_cands (all_caps req) cost node_budget;
          pooled_budget = sum64 (map cd_budget cands) in
      res_bind (select_workers cands forced n_layers (pr_ctx_len req) cost (eval_tpt_v1 req))
        (\<lambda>(selected, selection_notes).
          let final_set = participants cands selected in
          res_bind (evaluate final_set n_layers (pr_links req)) (\<lambda>e.
            case e of
              None \<Rightarrow> Err (DoesNotFit (mb_ceil required) (mb_floor pooled_budget))
            | Some eval \<Rightarrow>
                res_bind (assemble dims kv_layer final_set (ev_counts eval) (ev_order eval)) (\<lambda>acc.
                  Ok \<lparr>pp_plan = \<lparr>pl_epoch = Epoch 0, pl_model = '''', pl_strategy = PipelineParallel,
                        pl_assignments = sa_assignments acc, pl_ctx_len = pr_ctx_len req\<rparr>,
                      pp_tensor_split = sa_split acc,
                      pp_explanation =
                        [PipelineAcross (length (sa_assignments acc))
                           (why_distributed req forced head_budget required solo_fits)]
                        @ sa_prose acc
                        @ [KvBudget (mb_ceil kv_layer) (pr_ctx_len req) (d_kv_rate dims)
                             (mb_ceil OVERHEAD_RESERVE_BYTES)]
                        @ (if ev_boundary_rtts eval = [] then []
                           else [BoundariesMinRtt (hops final_set (ev_order eval) (ev_boundary_rtts eval))
                                   (fsum (ev_boundary_rtts eval))])
                        @ [PredictedDecode (ev_tpt eval)]
                        @ binding_notes (sa_binding acc) (sa_assignments acc)
                        @ selection_notes
                        @ dropped_notes final_set (ev_counts eval)\<rparr>))))"

definition plan_v1 :: "PlanRequest \<Rightarrow> (PlannedPlacement, ScheduleError) res" where
  "plan_v1 req =
     (let available = add32 (as_u32 (length (pr_workers req))) 1;
          forced = effective_forced (pr_forced_nodes req);
          dims = pr_dims req;
          kv_layer = kv_bytes_per_layer dims (pr_ctx_len req);
          required = total_required_bytes dims (pr_ctx_len req);
          head_budget = node_budget (nc_usable (pr_head req));
          solo_fits = (required \<le> head_budget) in
      case forced of
        None \<Rightarrow>
          if solo_fits then Ok (solo_placement_v1 req head_budget required False)
          else distributed_v1 req forced head_budget required kv_layer solo_fits
      | Some n \<Rightarrow>
          if available < n then Err (NotEnoughNodes n available)
          else if n = 1 then
            (if solo_fits then Ok (solo_placement_v1 req head_budget required True)
             else Err (DoesNotFit (mb_ceil required) (mb_floor head_budget)))
          else distributed_v1 req forced head_budget required kv_layer solo_fits)"

section \<open>Evaluation meets its contract\<close>

lemma evaluate_spec:
  assumes n: "0 < n" "n < M32" and l: "links_ok links" and cs: "\<forall>c \<in> set cs. cand_ok c" "length cs \<le> MAX_NODES"
  shows "caps_of cs < n \<Longrightarrow> evaluate cs n links = Ok None"
    and "n \<le> caps_of cs \<Longrightarrow> \<exists>e. evaluate cs n links = Ok (Some e) \<and> evaluated_ok cs n (ev_counts e) (ev_order e)
      \<and> ev_boundary_rtts e = chain_rtts cs links (ev_order e)"
proof -
  have "\<forall>c. cand_ok c \<longrightarrow> (\<exists>s. cand_score c = Fin s \<and> scored s)"
    by (metis cand_score_scored)
  note a = apportion_cands [OF cs n this]
  {
    assume "caps_of cs < n"
    then show "evaluate cs n links = Ok None"
      using a(1) by (simp add: evaluate_def apportion_v1_def)
  next
    assume fits: "n \<le> caps_of cs"
    have "\<forall>c. cand_ok c \<longrightarrow> 0 < cd_cap_layers c \<longrightarrow> cand_score c \<noteq> Fin 0"
      by (auto elim!: cand_score_scored)
    from a(2) [OF fits this] obtain counts quotas where
      c: "apportion (map cand_score cs) (map cd_cap_layers cs) n = Ok (Some (counts, quotas))" by blast
    obtain order where o: "order_stages cs counts links = Ok (order, chain_rtts cs links order)"
        "mset order = mset (active_set cs counts)"
        "\<forall>t. tail_of cs (active_set cs counts) = Some t \<longrightarrow> last order = t"
      using order_stages_spec [OF l, of cs counts] by blast
    have "evaluated_ok cs n counts order"
      using a(3) c o(2,3) by (simp add: evaluated_ok_def)
    then show "\<exists>e. evaluate cs n links = Ok (Some e) \<and> evaluated_ok cs n (ev_counts e) (ev_order e)
      \<and> ev_boundary_rtts e = chain_rtts cs links (ev_order e)"
      using c o(1) by (simp add: evaluate_def apportion_v1_def Let_def)
  }
qed

interpretation v1_eval: evaluator eval_tpt_v1 "\<lambda>req. d_n_layers (pr_dims req)" req_ok
proof
  fix r :: PlanRequest and cs
  assume r: "req_ok r" and cs: "\<forall>c \<in> set cs. cand_ok c" "length cs \<le> MAX_NODES"
  let ?n = "d_n_layers (pr_dims r)"
  have n: "0 < ?n" "?n < M32" "links_ok (pr_links r)" using r by (simp_all add: req_ok_def)
  note e = evaluate_spec [OF n cs]
  have "(\<exists>t. eval_tpt_v1 r cs = Ok t) \<and> (eval_tpt_v1 r cs = Ok None \<longleftrightarrow> caps_of cs < ?n)"
  proof (cases "caps_of cs < ?n")
    case True
    with e(1) show ?thesis by (simp add: eval_tpt_v1_def)
  next
    case False
    with e(2) obtain ev where "evaluate cs ?n (pr_links r) = Ok (Some ev)" by auto
    with False show ?thesis by (simp add: eval_tpt_v1_def)
  qed
  then show "\<exists>t. eval_tpt_v1 r cs = Ok t" "eval_tpt_v1 r cs = Ok None \<longleftrightarrow> caps_of cs < ?n" by blast+
qed

text \<open>A distributed v1 plan: the selected set either cannot hold the model, which is the error, or
  it is laid out as evaluated.\<close>

lemma distributed_v1_spec:
  assumes r: "req_ok req"
  defines "n \<equiv> d_n_layers (pr_dims req)" and "cands \<equiv> req_cands node_budget req"
  assumes sel: "select_workers cands f n (pr_ctx_len req) (per_layer_cost (pr_dims req) (pr_ctx_len req))
      (eval_tpt_v1 req) = Ok (S, sn)" and S: "selectable cands S"
  shows "caps_of (participants cands S) < n \<Longrightarrow> distributed_v1 req f hb rq kv sf =
      Err (DoesNotFit (mb_ceil rq) (mb_floor (sum64 (map cd_budget cands))))"
    and "n \<le> caps_of (participants cands S) \<Longrightarrow>
      \<exists>p. distributed_v1 req f hb rq kv sf = Ok p \<and> placed_as req (participants cands S) p"
proof -
  have n: "0 < n" "n < M32" "links_ok (pr_links req)" using r by (simp_all add: req_ok_def n_def)
  let ?fs = "participants cands S"
  note fs = final_set_ok [of req node_budget, OF r node_budget_less S [unfolded cands_def], folded cands_def]
  note e = evaluate_spec [OF n fs(1,3)]
  note unf = distributed_v1_def Let_def req_cands_def [symmetric] cands_def [symmetric] n_def [symmetric] sel
  {
    assume "caps_of ?fs < n"
    then show "distributed_v1 req f hb rq kv sf =
        Err (DoesNotFit (mb_ceil rq) (mb_floor (sum64 (map cd_budget cands))))"
      unfolding unf using e(1) by simp
  next
    assume "n \<le> caps_of ?fs"
    then obtain ev where ev: "evaluate ?fs n (pr_links req) = Ok (Some ev)"
        "evaluated_ok ?fs n (ev_counts ev) (ev_order ev)" using e(2) by blast
    obtain acc where acc: "assemble (pr_dims req) kv ?fs (ev_counts ev) (ev_order ev) = Ok acc"
        and pl: "\<forall>p. pl_strategy (pp_plan p) = PipelineParallel \<and> assignments_of p = sa_assignments acc
           \<and> pp_tensor_split p = sa_split acc \<longrightarrow> placed_as req ?fs p"
      by (rule placed_asI [OF r fs(3,4) ev(2) [unfolded n_def], of kv])
    show "\<exists>p. distributed_v1 req f hb rq kv sf = Ok p \<and> placed_as req ?fs p"
      unfolding unf by (simp add: ev(1) acc pl)
  }
qed

definition solo_v1 :: "PlanRequest \<Rightarrow> bool \<Rightarrow> PlannedPlacement" where
  "solo_v1 req = solo_placement_v1 req (head_budget_of req) (required_bytes req)"

definition dist_v1 :: "PlanRequest \<Rightarrow> (PlannedPlacement, ScheduleError) res" where
  "dist_v1 req = distributed_v1 req (forced_of req) (head_budget_of req) (required_bytes req)
     (kv_bytes_per_layer (pr_dims req) (pr_ctx_len req)) (required_bytes req \<le> head_budget_of req)"

interpretation v1: distributor eval_tpt_v1 plan_v1 solo_v1 dist_v1 "\<lambda>_. node_budget"
proof unfold_locales
  fix req and b
  show "plan_v1 req =
      (case forced_of req of
         None \<Rightarrow> if required_bytes req \<le> head_budget_of req then Ok (solo_v1 req False) else dist_v1 req
       | Some n \<Rightarrow>
           if add32 (as_u32 (length (pr_workers req))) 1 < n
           then Err (NotEnoughNodes n (add32 (as_u32 (length (pr_workers req))) 1))
           else if n = 1 then
             (if required_bytes req \<le> head_budget_of req then Ok (solo_v1 req True)
              else Err (DoesNotFit (mb_ceil (required_bytes req)) (mb_floor (head_budget_of req))))
           else dist_v1 req)"
    by (simp only: plan_v1_def Let_def solo_v1_def dist_v1_def)
qed (simp_all only: node_budget_le dist_v1_def distributed_v1_spec, simp_all add: solo_v1_def solo_placement_v1_def Let_def)

lemma v1_cands [simp]: "v1.cands_of req = req_cands node_budget req"
  by (simp add: v1.cands_of_def)

section \<open>Properties\<close>

text \<open>A request on which v1 distributes: ten 10-byte layers, six of which fit either node.\<close>

definition v1_sample :: PlanRequest where
  "v1_sample = \<lparr>pr_head = \<lparr>nc_node = ''h'', nc_usable = 536870972, nc_compute = None, nc_draining = False\<rparr>,
     pr_workers = [\<lparr>nc_node = ''w'', nc_usable = 536870972, nc_compute = None, nc_draining = False\<rparr>,
       \<lparr>nc_node = ''b'', nc_usable = 536870972, nc_compute = None, nc_draining = True\<rparr>],
     pr_dims = uniform 100 10, pr_ctx_len = 4096, pr_forced_nodes = None, pr_links = [], pr_n_ubatch = 0\<rparr>"

lemma uniform_sample: "d_n_layers (uniform 100 10) = 10" "d_total (uniform 100 10) = 100" "d_kv_rate (uniform 100 10) = 0"
  "d_n_embd (uniform 100 10) = 0" "length (d_weights (uniform 100 10)) = 10"
  by (simp_all add: uniform_def Let_def)

lemma uniform_sample_cost: "mean_weight_bytes_per_layer (uniform 100 10) = 10"
  "kv_bytes_per_layer (uniform 100 10) 4096 = 0" "total_required_bytes (uniform 100 10) 4096 = 100"
  by (simp_all add: mean_weight_bytes_per_layer_def kv_bytes_per_layer_def total_required_bytes_def
      uniform_sample div_ceil_def mul64_def add64_def)

lemma v1_sample_ok: "req_ok v1_sample"
  by (simp add: req_ok_def v1_sample_def uniform_sample all_caps_def caps_ok_def MAX_NODES_def links_ok_def)

lemma memory_sample: "memory_ok v1_sample" "layer_cost (uniform 100 10) 4096 = 10"
  by (simp_all add: memory_ok_def v1_sample_def all_caps_def uniform_sample_cost layer_cost_def)

lemma v1_sample_caps: "map cd_cap_layers (req_cands node_budget v1_sample) = [6, 6, 6]"
proof -
  let ?c = "req_cands node_budget v1_sample"
  have l: "length ?c = 3" by (simp add: v1_sample_def)
  have "cd_cap_layers c = 6" if "c \<in> set ?c" for c
  proof -
    have "nc_usable (cd_caps c) = 536870972"
      using req_cand_props(1) [OF that] by (auto simp: all_caps_def v1_sample_def)
    moreover have "layer_cost (pr_dims v1_sample) (pr_ctx_len v1_sample) = 10"
      using memory_sample(2) by (simp add: v1_sample_def)
    ultimately show ?thesis
      using req_cand_capacity [of v1_sample node_budget, OF memory_sample(1) node_budget_le that]
      by (simp add: node_budget_def sat_sub_def OVERHEAD_RESERVE_BYTES_def u32_max_def)
  qed
  then have "map cd_cap_layers ?c = map (\<lambda>_. 6) ?c" by simp
  also have "\<dots> = replicate 3 6" using l by (simp add: map_replicate_const)
  finally show ?thesis by (simp add: numeral_3_eq_3)
qed

text \<open>The v1 planner never panics on a well-formed request, and a placement it returns gives every
  layer exactly one stage, numbers the stages in layer order, uses each node of the request at
  most once and gives one split fraction per stage.\<close>

theorem plan_v1_places_every_layer_once:
  assumes "req_ok req"
  shows "(\<forall>k. plan_v1 req \<noteq> Panic k) \<and> (\<forall>p. plan_v1 req = Ok p \<longrightarrow>
      (\<forall>l < d_n_layers (pr_dims req). \<exists>!i. i < length (assignments_of p) \<and> owns (assignments_of p ! i) l)
      \<and> tiles 0 0 (d_n_layers (pr_dims req)) (assignments_of p)
      \<and> mset (map as_node (assignments_of p)) \<subseteq># mset (map nc_node (pr_head req # pr_workers req))
      \<and> length (pp_tensor_split p) = length (assignments_of p))"
  using v1.placing.total [OF assms] v1.placing.unique_stage [OF assms] v1.placing.tiling [OF assms]
    v1.placing.nodes [OF assms] v1.placing.split [OF assms]
  by simp

theorem plan_v1_places_every_layer_once_witness: "plan_v1 v1_sample \<noteq> Panic DivideByZero"
  using plan_v1_places_every_layer_once [OF v1_sample_ok] by blast

text \<open>In automatic mode the v1 planner is complete: it goes solo exactly when weights plus KV fit
  the head's budget, otherwise it distributes exactly when the whole-layer capacities of all
  nodes together hold the model, and otherwise it reports that the model does not fit.\<close>

theorem plan_v1_automatic_complete:
  assumes "req_ok req" "effective_forced (pr_forced_nodes req) = None"
  shows "((\<exists>p. plan_v1 req = Ok p \<and> pl_strategy (pp_plan p) = Solo) \<longleftrightarrow> required_bytes req \<le> head_budget_of req)
    \<and> ((\<exists>p. plan_v1 req = Ok p \<and> pl_strategy (pp_plan p) = PipelineParallel) \<longleftrightarrow>
        head_budget_of req < required_bytes req \<and> d_n_layers (pr_dims req) \<le> caps_of (req_cands node_budget req))
    \<and> ((\<exists>a b. plan_v1 req = Err (DoesNotFit a b)) \<longleftrightarrow>
        head_budget_of req < required_bytes req \<and> caps_of (req_cands node_budget req) < d_n_layers (pr_dims req))"
  using v1.complete [OF assms] by simp

theorem plan_v1_automatic_complete_witness:
  "\<exists>p. plan_v1 v1_sample = Ok p \<and> pl_strategy (pp_plan p) = PipelineParallel"
proof -
  have "effective_forced (pr_forced_nodes v1_sample) = None" by (simp add: effective_forced_def v1_sample_def)
  from plan_v1_automatic_complete [OF v1_sample_ok this] show ?thesis
    by (simp add: caps_of_def v1_sample_caps)
      (simp add: v1_sample_def uniform_sample uniform_sample_cost node_budget_def sat_sub_def OVERHEAD_RESERVE_BYTES_def)
qed

text \<open>For memory sizes below 8 PiB a distributed v1 plan respects every budget: the layers given to
  a node, each costed at the mean weight plus its KV cache, fit the node's usable memory minus
  the 512 MiB reserve.\<close>

theorem plan_v1_respects_budgets:
  assumes "req_ok req" "memory_ok req" "plan_v1 req = Ok p" "pl_strategy (pp_plan p) = PipelineParallel"
    "a \<in> set (assignments_of p)"
  shows "\<exists>c \<in> set (all_caps req). nc_node c = as_node a
    \<and> LayerRange_len (as_layers a) * layer_cost (pr_dims req) (pr_ctx_len req) \<le> nc_usable c - OVERHEAD_RESERVE_BYTES"
  using v1.budgets [OF assms] by (simp add: node_budget_def sat_sub_def)

lemma v1_sample_placed:
  obtains p where "plan_v1 v1_sample = Ok p" "pl_strategy (pp_plan p) = PipelineParallel"
    "assignments_of p \<noteq> []"
  using v1_sample_ok
proof (cases rule: v1.outcomes)
  case (placed S p)
  have "tiles 0 0 10 (assignments_of p)" using placed(6) by (simp add: placed_as_def v1_sample_def uniform_sample)
  then have "assignments_of p \<noteq> []" by (cases "assignments_of p") simp_all
  with placed that show thesis by (simp add: placed_as_def)
next
  case (refused S)
  have "effective_forced (pr_forced_nodes v1_sample) = None" by (simp add: effective_forced_def v1_sample_def)
  from v1.selects_automatic(1) [OF v1_sample_ok this refused(1)] refused(4) show thesis
    by (simp add: caps_of_def v1_sample_caps) (simp add: v1_sample_def uniform_sample)
qed (simp_all add: effective_forced_def v1_sample_def uniform_sample_cost node_budget_def sat_sub_def
    OVERHEAD_RESERVE_BYTES_def)

theorem plan_v1_respects_budgets_witness:
  "\<exists>p a. plan_v1 v1_sample = Ok p \<and> a \<in> set (assignments_of p) \<and> LayerRange_len (as_layers a) * 10 \<le> 60"
proof -
  obtain p where p: "plan_v1 v1_sample = Ok p" "pl_strategy (pp_plan p) = PipelineParallel" "assignments_of p \<noteq> []"
    by (rule v1_sample_placed)
  then obtain a where a: "a \<in> set (assignments_of p)" by (cases "assignments_of p") auto
  from plan_v1_respects_budgets [OF v1_sample_ok memory_sample(1) p(1,2) a]
  have "LayerRange_len (as_layers a) * 10 \<le> 60"
    using memory_sample(2) by (auto simp: v1_sample_def all_caps_def OVERHEAD_RESERVE_BYTES_def)
  with p(1) a show ?thesis by blast
qed

text \<open>The head owns the tail of the model: in a distributed v1 plan in which the head (whose id no
  worker shares) takes part, the last stage runs on the head.\<close>

theorem plan_v1_head_last:
  assumes "req_ok req" "plan_v1 req = Ok p" "nc_node (pr_head req) \<notin> nc_node ` set (pr_workers req)"
    "nc_node (pr_head req) \<in> as_node ` set (assignments_of p)"
  shows "as_node (last (assignments_of p)) = nc_node (pr_head req)"
  by (rule v1.head_last [OF assms])

definition v1_solo_sample :: PlanRequest where
  "v1_solo_sample = v1_sample\<lparr>pr_head := \<lparr>nc_node = ''h'', nc_usable = 536871012, nc_compute = None, nc_draining = False\<rparr>\<rparr>"

theorem plan_v1_head_last_witness:
  "\<exists>p. plan_v1 v1_solo_sample = Ok p \<and> as_node (last (assignments_of p)) = ''h''"
proof -
  have ok: "req_ok v1_solo_sample"
    by (simp add: req_ok_def v1_solo_sample_def v1_sample_def uniform_sample all_caps_def caps_ok_def
        MAX_NODES_def links_ok_def)
  obtain p where p: "plan_v1 v1_solo_sample = Ok p" "''h'' \<in> as_node ` set (assignments_of p)"
    by (simp add: plan_v1_def effective_forced_def v1_solo_sample_def v1_sample_def uniform_sample_cost
        node_budget_def sat_sub_def OVERHEAD_RESERVE_BYTES_def solo_placement_v1_def Let_def)
  from plan_v1_head_last [OF ok p(1)] p show ?thesis by (auto simp: v1_solo_sample_def v1_sample_def)
qed

text \<open>In automatic mode a draining node never joins while the others suffice: when the head and the
  workers that are not draining together have capacity for every layer, each stage of the v1
  plan runs on the head or on a worker that is not draining.\<close>

theorem plan_v1_spares_draining:
  assumes "req_ok req" "effective_forced (pr_forced_nodes req) = None" "plan_v1 req = Ok p"
    "d_n_layers (pr_dims req) \<le> caps_of (filter (\<lambda>c. cd_is_head c \<or> \<not> is_draining c) (req_cands node_budget req))"
    "a \<in> set (assignments_of p)"
  shows "as_node a = nc_node (pr_head req)
    \<or> (\<exists>c \<in> set (pr_workers req). as_node a = nc_node c \<and> \<not> nc_draining c)"
  using v1.spares_draining [OF assms(1-3)] assms(4,5) by simp

lemma v1_sample_cands: "\<exists>x y z. req_cands node_budget v1_sample = [x, y, z] \<and> cd_is_head z \<and> \<not> is_draining x
    \<and> \<not> cd_is_head y \<and> is_draining y"
  by (simp add: req_cands_def build_cands_def all_caps_def v1_sample_def Let_def is_draining_def)

theorem plan_v1_spares_draining_witness:
  "\<exists>p. plan_v1 v1_sample = Ok p \<and> (\<forall>a \<in> set (assignments_of p). as_node a \<in> {''h'', ''w''})"
proof -
  obtain p where p: "plan_v1 v1_sample = Ok p" by (rule v1_sample_placed)
  have f: "effective_forced (pr_forced_nodes v1_sample) = None" by (simp add: effective_forced_def v1_sample_def)
  have n: "d_n_layers (pr_dims v1_sample) \<le>
      caps_of (filter (\<lambda>c. cd_is_head c \<or> \<not> is_draining c) (req_cands node_budget v1_sample))"
    using v1_sample_cands v1_sample_caps by (auto simp: caps_of_def) (simp_all add: v1_sample_def uniform_sample)
  have "as_node a \<in> {''h'', ''w''}" if "a \<in> set (assignments_of p)" for a
    using plan_v1_spares_draining [OF v1_sample_ok f p n that] by (auto simp: v1_sample_def)
  with p show ?thesis by blast
qed

end

