(* ===== verification/PlanV2.thy ===== *)
theory PlanV2
  imports PlanV1
begin

text \<open>
  The v2 planner (\<open>onebrain-scheduler/src/v2.rs\<close>): the v1 decision frame and inclusion rules,
  but a participant set is judged by the best of a family of layer shares (three tilts, each
  also with the slowest node one layer short) times every stage order, and distributed nodes
  reserve memory for the in-flight pipeline copies.

  The theory interprets the \<open>distributor\<close> contract on the code and shows that the search
  returns a minimum of the family under its two-part key, that its prediction is never worse
  than v1's for the same set of a dense model, and what the v2 budget is.
\<close>

section \<open>Budgets and transfer times\<close>

definition effective_n_ubatch :: "u32 \<Rightarrow> u32" where
  "effective_n_ubatch n_ubatch = (if n_ubatch = 0 then DEFAULT_N_UBATCH else n_ubatch)"

definition boundary_transfer_ms :: "u64 \<Rightarrow> u32 \<Rightarrow> f64 \<Rightarrow> f64" where
  "boundary_transfer_ms n_embd n_ubatch bandwidth_mbps =
     (if flt_le bandwidth_mbps (Fin 0) then Fin 0
      else
        let bytes = fmul (fmul (Fin 4) (f64_of_u n_embd)) (f64_of_u (effective_n_ubatch n_ubatch)) in
        fdiv (fmul bytes (Fin 8)) (fmul bandwidth_mbps (Fin 1000)))"

definition node_budget_v2 :: "u64 \<Rightarrow> u64 \<Rightarrow> u32 \<Rightarrow> u64" where
  "node_budget_v2 usable n_embd n_ubatch =
     (let pipeline_copies = sat_mul64 (sat_mul64 16 n_embd) (effective_n_ubatch n_ubatch) in
      sat_sub usable (sat_add64 OVERHEAD_RESERVE_BYTES pipeline_copies))"

definition node_layer_capacity_v2 :: "u64 \<Rightarrow> ModelDims \<Rightarrow> u32 \<Rightarrow> u32 \<Rightarrow> u64" where
  "node_layer_capacity_v2 usable dims ctx_len n_ubatch =
     f64_as_u64 (ffloor (fdiv (f64_of_u (node_budget_v2 usable (d_n_embd dims) n_ubatch))
       (per_layer_cost dims ctx_len)))"

section \<open>The family of layer shares\<close>

datatype Tilt = TMemory | THybrid | TCompute

definition Tilt_ALL :: "Tilt list" where
  "Tilt_ALL = [TMemory, THybrid, TCompute]"

fun Tilt_label :: "Tilt \<Rightarrow> string" where
  "Tilt_label TMemory = ''memory-proportional''"
| "Tilt_label THybrid = ''0.5+0.5 compute tilt''"
| "Tilt_label TCompute = ''compute-proportional''"

fun Tilt_score :: "Tilt \<Rightarrow> Cand \<Rightarrow> f64" where
  "Tilt_score TMemory c = cd_cap_f c"
| "Tilt_score THybrid c = fmul (cd_cap_f c) (cd_factor c)"
| "Tilt_score TCompute c = fmax (fsub (fmul (Fin 2) (cd_factor c)) (Fin 1)) (Fin 0)"

record FamilyCandidate =
  fc_tilt :: Tilt
  fc_underweighted :: bool
  fc_counts :: "u32 list"

text \<open>The slowest participant by its own decode rate, the first index on ties.\<close>

definition slowest_of :: "Cand list \<Rightarrow> (usize option, ScheduleError) res" where
  "slowest_of cands =
     (case List.map_filter (\<lambda>(i, c). map_option (Pair i) (cd_decode c)) (enumerate 0 cands) of
        [] \<Rightarrow> Ok None
      | x # xs \<Rightarrow> res_bind (min_by_key x xs) (\<lambda>b. Ok (Some (fst b))))"

text \<open>One pass of the loop over the family; \<open>None\<close> is its \<open>continue\<close>.\<close>

definition family_member ::
    "Cand list \<Rightarrow> u32 \<Rightarrow> usize option \<Rightarrow> bool \<Rightarrow> Tilt \<Rightarrow> (FamilyCandidate option, ScheduleError) res" where
  "family_member cands n_layers slowest underweighted tilt =
     (let caps = map cd_cap_layers cands; scores = map (Tilt_score tilt) cands in
      res_bind (apportion scores caps n_layers) (\<lambda>r.
        case r of
          None \<Rightarrow> Ok None
        | Some (counts, quotas) \<Rightarrow>
            let candidate = (\<lambda>counts. \<lparr>fc_tilt = tilt, fc_underweighted = underweighted, fc_counts = counts\<rparr>) in
            if \<not> underweighted then Ok (Some (candidate counts))
            else case slowest of
              None \<Rightarrow> Ok None
            | Some s \<Rightarrow>
                if counts ! s \<le> 1 then Ok None
                else case best_slot (\<lambda>i. i = s) scores caps quotas counts of
                  None \<Rightarrow> Ok None
                | Some r \<Rightarrow>
                    let counts = counts[s := sub32 (counts ! s) 1] in
                    Ok (Some (candidate (counts[r := add32 (counts ! r) 1])))))"

definition family_counts :: "Cand list \<Rightarrow> u32 \<Rightarrow> (FamilyCandidate list, ScheduleError) res" where
  "family_counts cands n_layers =
     res_bind (slowest_of cands) (\<lambda>slowest.
       fold_res (\<lambda>out (underweighted, tilt).
         res_bind (family_member cands n_layers slowest underweighted tilt) (\<lambda>m.
           Ok (case m of None \<Rightarrow> out | Some fc \<Rightarrow> out @ [fc])))
       [] (List.product [False, True] Tilt_ALL))"

definition enumerate_orders ::
    "Cand list \<Rightarrow> u32 list \<Rightarrow> LinkRtt list \<Rightarrow> (usize list list, ScheduleError) res" where
  "enumerate_orders cands counts links =
     (let active = active_set cands counts in
      if length active \<le> 1 then Ok [active]
      else if EXACT_ORDER_MAX_NODES < length active then
        res_bind (order_stages cands counts links) (\<lambda>(order, _). Ok [order])
      else
        let tail = tail_of cands active in
        Ok (map (with_tail tail) (permutations (movable_of active tail))))"

section \<open>The search\<close>

record V2Eval =
  v2_counts :: "u32 list"
  v2_order :: "usize list"
  v2_boundary_rtts :: "f64 list"
  v2_boundary_transfer_ms :: "f64 list"
  v2_tpt :: f64
  v2_prefill_cost :: f64
  v2_tilt :: Tilt
  v2_underweighted :: bool
  v2_considered :: usize
  v2_variants :: usize

definition chain_transfers ::
    "Cand list \<Rightarrow> LinkRtt list \<Rightarrow> u64 \<Rightarrow> u32 \<Rightarrow> usize list \<Rightarrow> f64 list" where
  "chain_transfers cands links n_embd n_ubatch order =
     map (\<lambda>(i, j). case link_bandwidth links (nc_node (cd_caps (cands ! i))) (nc_node (cd_caps (cands ! j))) of
         Some bw \<Rightarrow> boundary_transfer_ms n_embd n_ubatch bw
       | None \<Rightarrow> Fin 0)
     (windows2 order)"

text \<open>The stage walk: cursor and slowest stage so far.\<close>

definition compute_step ::
    "ModelDims \<Rightarrow> Cand list \<Rightarrow> u32 list \<Rightarrow> u32 \<times> f64 \<Rightarrow> usize \<Rightarrow> u32 \<times> f64" where
  "compute_step dims cands counts = (\<lambda>(cursor, compute_ms) i.
     let units = active_compute_units dims cursor (add32 cursor (counts ! i)) in
     (add32 cursor (counts ! i),
      case cd_tpt_decode (cands ! i) of
        Some tps \<Rightarrow> fmax compute_ms (fmul (fdiv units tps) (Fin 1000))
      | None \<Rightarrow> compute_ms))"

definition compute_ms :: "ModelDims \<Rightarrow> Cand list \<Rightarrow> u32 list \<Rightarrow> usize list \<Rightarrow> f64" where
  "compute_ms dims cands counts order = snd (foldl (compute_step dims cands counts) (0, Fin 0) order)"

definition eval_order ::
    "Cand list \<Rightarrow> LinkRtt list \<Rightarrow> ModelDims \<Rightarrow> u32 \<Rightarrow> usize \<Rightarrow> FamilyCandidate \<Rightarrow> usize list \<Rightarrow> V2Eval" where
  "eval_order cands links dims n_ubatch variants fc order =
     (let rtts = chain_rtts cands links order;
          transfers = chain_transfers cands links (d_n_embd dims) n_ubatch order;
          rtt_sum = fsum rtts in
      \<lparr>v2_counts = fc_counts fc, v2_order = order, v2_boundary_rtts = rtts,
       v2_boundary_transfer_ms = transfers,
       v2_tpt = fadd (compute_ms dims cands (fc_counts fc) order) rtt_sum,
       v2_prefill_cost = fadd rtt_sum (fsum transfers),
       v2_tilt = fc_tilt fc, v2_underweighted = fc_underweighted fc, v2_considered = 0,
       v2_variants = variants\<rparr>)"

definition better_eval :: "V2Eval \<Rightarrow> V2Eval \<Rightarrow> bool" where
  "better_eval e b \<longleftrightarrow> flt_lt (v2_tpt e) (v2_tpt b)
     \<or> flt_eq (v2_tpt e) (v2_tpt b) \<and> flt_lt (v2_prefill_cost e) (v2_prefill_cost b)"

definition search_member ::
    "Cand list \<Rightarrow> LinkRtt list \<Rightarrow> ModelDims \<Rightarrow> u32 \<Rightarrow> usize \<Rightarrow> usize \<times> V2Eval option \<Rightarrow> FamilyCandidate \<Rightarrow>
     (usize \<times> V2Eval option, ScheduleError) res" where
  "search_member cands links dims n_ubatch variants acc fc =
     res_bind (enumerate_orders cands (fc_counts fc) links) (\<lambda>orders.
       Ok (foldl (\<lambda>(considered, best) order.
             (add64 considered 1, keep_best better_eval (eval_order cands links dims n_ubatch variants fc) best order))
           acc orders))"

definition search_v2 ::
    "Cand list \<Rightarrow> u32 \<Rightarrow> LinkRtt list \<Rightarrow> ModelDims \<Rightarrow> u32 \<Rightarrow> (V2Eval option, ScheduleError) res" where
  "search_v2 cands n_layers links dims n_ubatch =
     res_bind (family_counts cands n_layers) (\<lambda>family.
       res_bind (fold_res (search_member cands links dims n_ubatch (length family)) (0, None) family)
         (\<lambda>(considered, best). Ok (map_option (\<lambda>b. b\<lparr>v2_considered := considered\<rparr>) best)))"

section \<open>The planner\<close>

definition eval_tpt_v2 :: "PlanRequest \<Rightarrow> Cand list \<Rightarrow> (f64 option, ScheduleError) res" where
  "eval_tpt_v2 req cs =
     res_bind (search_v2 cs (d_n_layers (pr_dims req)) (pr_links req) (pr_dims req)
         (effective_n_ubatch (pr_n_ubatch req)))
       (\<lambda>e. Ok (map_option v2_tpt e))"

text \<open>The optional paragraphs of the explanation.\<close>

definition transfer_notes :: "PlanRequest \<Rightarrow> Cand list \<Rightarrow> u32 \<Rightarrow> V2Eval \<Rightarrow> remark list" where
  "transfer_notes req final_set n_ubatch eval =
     (let transfer_total = fsum (v2_boundary_transfer_ms eval) in
      if positive transfer_total then
        [TransferTerm (div_ceil (mul64 (mul64 4 (d_n_embd (pr_dims req))) n_ubatch) 1024)
          (map (\<lambda>((i, j), t).
              let a = cand_name (final_set ! i); b = cand_name (final_set ! j) in
              (a, b, (case link_bandwidth (pr_links req) a b of Some bw \<Rightarrow> bw | None \<Rightarrow> Fin 0), t))
            (filter (\<lambda>(_, t). positive t) (zip (windows2 (v2_order eval)) (v2_boundary_transfer_ms eval))))
          transfer_total]
      else [])"

definition moe_notes :: "ModelDims \<Rightarrow> remark list" where
  "moe_notes dims =
     (if d_n_expert dims = 0 then []
      else if 0 < d_n_expert_used dims \<and> d_n_expert_used dims < d_n_expert dims
      then [MoeActive (d_n_expert dims) (d_n_expert_used dims)]
      else [MoeDense (d_n_expert dims) (d_n_expert_used dims)])"

definition distributed_v2 ::
    "PlanRequest \<Rightarrow> u32 option \<Rightarrow> u64 \<Rightarrow> u64 \<Rightarrow> u64 \<Rightarrow> bool \<Rightarrow> u32 \<Rightarrow> (PlannedPlacement, ScheduleError) res" where
  "distributed_v2 req forced head_budget required kv_layer solo_fits n_ubatch =
     (let dims = pr_dims req;
          n_layers = d_n_layers dims;
          cost = per_layer_cost dims (pr_ctx_len req);
          cands = build_cands (all_caps req) cost (\<lambda>usable. node_budget_v2 usable (d_n_embd dims) n_ubatch);
          pooled_budget = sum64 (map cd_budget cands) in
      res_bind (select_workers cands forced n_layers (pr_ctx_len req) cost
          (\<lambda>cs. res_bind (search_v2 cs n_layers (pr_links req) dims n_ubatch) (\<lambda>e. Ok (map_option v2_tpt e))))
        (\<lambda>(selected, selection_notes).
          let final_set = participants cands selected in
          res_bind (search_v2 final_set n_layers (pr_links req) dims n_ubatch) (\<lambda>e.
            case e of
              None \<Rightarrow> Err (DoesNotFit (mb_ceil required) (mb_floor pooled_budget))
            | Some eval \<Rightarrow>
                res_bind (assemble dims kv_layer final_set (v2_counts eval) (v2_order eval)) (\<lambda>acc.
                  let pipeline_copies_bytes = sat_mul64 (sat_mul64 16 (d_n_embd dims)) n_ubatch in
                  Ok \<lparr>pp_plan = \<lparr>pl_epoch = Epoch 0, pl_model = '''', pl_strategy = PipelineParallel,
                        pl_assignments = sa_assignments acc, pl_ctx_len = pr_ctx_len req\<rparr>,
                      pp_tensor_split = sa_split acc,
                      pp_explanation =
                        [PipelineAcross (length (sa_assignments acc))
                           (why_distributed req forced head_budget required solo_fits)]
                        @ sa_prose acc
                        @ [KvBudgetPipeline (mb_ceil kv_layer) (pr_ctx_len req) (d_kv_rate dims)
                             (mb_ceil (add64 OVERHEAD_RESERVE_BYTES pipeline_copies_bytes))
                             (mb_ceil OVERHEAD_RESERVE_BYTES) (mb_ceil pipeline_copies_bytes) n_ubatch]
                        @ (if v2_boundary_rtts eval = [] then []
                           else [BoundariesSearch (hops final_set (v2_order eval) (v2_boundary_rtts eval))
                                   (fsum (v2_boundary_rtts eval))])
                        @ transfer_notes req final_set n_ubatch eval
                        @ [PredictedDecodePrefill (v2_tpt eval) (v2_prefill_cost eval),
                           CandidateSearch (v2_considered eval) (v2_variants eval) (Tilt_label (v2_tilt eval))
                             (v2_underweighted eval)]
                        @ moe_notes dims
                        @ binding_notes (sa_binding acc) (sa_assignments acc)
                        @ selection_notes
                        @ dropped_notes final_set (v2_counts eval)\<rparr>))))"

definition solo_placement_v2 :: "PlanRequest \<Rightarrow> u64 \<Rightarrow> u64 \<Rightarrow> u32 \<Rightarrow> bool \<Rightarrow> PlannedPlacement" where
  "solo_placement_v2 req head_budget required n_ubatch forced =
     (let placed = solo_placement_v1 req head_budget required forced in
      placed\<lparr>pp_explanation := pp_explanation placed @ [EffectiveUbatch n_ubatch]\<rparr>)"

definition plan_v2 :: "PlanRequest \<Rightarrow> (PlannedPlacement, ScheduleError) res" where
  "plan_v2 req =
     (let available = add32 (as_u32 (length (pr_workers req))) 1;
          forced = effective_forced (pr_forced_nodes req);
          n_ubatch = effective_n_ubatch (pr_n_ubatch req);
          dims = pr_dims req;
          kv_layer = kv_bytes_per_layer dims (pr_ctx_len req);
          required = total_required_bytes dims (pr_ctx_len req);
          head_budget = node_budget (nc_usable (pr_head req));
          solo_fits = (required \<le> head_budget) in
      case forced of
        None \<Rightarrow>
          if solo_fits then Ok (solo_placement_v2 req head_budget required n_ubatch False)
          else distributed_v2 req forced head_budget required kv_layer solo_fits n_ubatch
      | Some n \<Rightarrow>
          if available < n then Err (NotEnoughNodes n available)
          else if n = 1 then
            (if solo_fits then Ok (solo_placement_v2 req head_budget required n_ubatch True)
             else Err (DoesNotFit (mb_ceil required) (mb_floor head_budget)))
          else distributed_v2 req forced head_budget required kv_layer solo_fits n_ubatch)"

section \<open>The family holds every layer\<close>

lemma Tilt_score_scored:
  assumes "cand_ok c"
  shows "\<exists>s. Tilt_score t c = Fin s \<and> scored s"
proof (cases t)
  case TMemory
  obtain x where x: "cd_cap_f c = Fin x" "x = 0 \<or> 2 powi (- 64) \<le> x" "x \<le> 2 powi 64"
    using assms by (auto simp: cand_ok_def)
  have "(2::rat) powi (- 70) \<le> 2 powi (- 64)" "(2::rat) powi 64 \<le> 2 powi 70" by (rule powi_mono; simp)+
  with x have "scored x" unfolding scored_def by linarith
  with x(1) TMemory show ?thesis by simp
next
  case THybrid
  then show ?thesis using cand_score_scored [OF assms] by (metis Tilt_score.simps(2) cand_score_def)
next
  case TCompute
  obtain f where f: "cd_factor c = Fin f" "1 / 2 \<le> f" "f \<le> 3 / 2"
    using assms by (auto simp: cand_ok_def factor_ok_def)
  let ?y = "rnd64 (2 * f)"
  have "2 * f \<le> 2 powi 2" using f(3) by simp
  then have y2: "?y \<le> 2 powi 2" using f(2) by (intro rnd64_le_powi) simp_all
  have y1: "1 \<le> ?y" using rnd64_ge_powi [of 0 "2 * f"] f(2) by simp
  have "2 * f \<le> huge" using f(3) huge_ge [of 2] by simp
  then have mul: "fmul (Fin 2) (cd_factor c) = Fin ?y" using f(1,2) by (simp add: fl64_Fin)
  obtain k :: int where k: "?y = of_int k * 2 powi (- 53)" using rnd64_multiple [of "2 * f"] f(2) by auto
  have z: "?y - 1 = of_int (k - 2 ^ 53) * 2 powi (- 53)"
    unfolding k by (simp add: left_diff_distrib power_int_minus)
  have z2: "?y - 1 \<le> 2 powi 2" using y2 by simp
  have sub: "fsub (fmul (Fin 2) (cd_factor c)) (Fin 1) = Fin (rnd64 (?y - 1))"
  proof -
    have "?y - 1 \<le> huge" using z2 huge_ge [of 2] by linarith
    then show ?thesis using y1 by (simp add: mul fsub_def fl64_Fin)
  qed
  have "scored (rnd64 (?y - 1))"
  proof (cases "?y - 1 = 0")
    case True
    then show ?thesis by (simp add: scored_def)
  next
    case False
    then have "k - 2 ^ 53 \<noteq> 0" unfolding z by auto
    moreover have "0 \<le> (of_int (k - 2 ^ 53) :: rat) * 2 powi (- 53)" using y1 unfolding z [symmetric] by simp
    then have "0 \<le> k - 2 ^ 53" using powi_pos [of "- 53"] by (simp add: zero_le_mult_iff)
    ultimately have "(1::rat) \<le> of_int (k - 2 ^ 53)" by linarith
    then have "1 * 2 powi (- 53) \<le> ?y - 1" unfolding z using powi_pos [of "- 53"] by (intro mult_right_mono) simp_all
    then have lo: "2 powi (- 53) \<le> rnd64 (?y - 1)" by (intro rnd64_ge_powi) simp_all
    have up: "rnd64 (?y - 1) \<le> 2 powi 2" using z2 y1 by (intro rnd64_le_powi) simp_all
    have "(2::rat) powi (- 70) \<le> 2 powi (- 53)" "(2::rat) powi 2 \<le> 2 powi 70" by (rule powi_mono; simp)+
    with lo up show ?thesis unfolding scored_def by linarith
  qed
  moreover have "0 \<le> rnd64 (?y - 1)" using y1 by (intro rnd64_nonneg) simp
  ultimately show ?thesis using TCompute by (auto simp: sub fmax_def)
qed

text \<open>Layer counts that hold the model within every capacity.\<close>

definition counts_ok :: "Cand list \<Rightarrow> u32 \<Rightarrow> u32 list \<Rightarrow> bool" where
  "counts_ok cs n counts \<longleftrightarrow> length counts = length cs \<and> sum_list counts = n
     \<and> (\<forall>i < length cs. counts ! i \<le> cap_at cs i)"

lemma in_map_filter: "y \<in> set (List.map_filter f xs) \<longleftrightarrow> (\<exists>x \<in> set xs. f x = Some y)"
  by (induction xs) (auto simp: List.map_filter_def)

lemma slowest_of_ok:
  assumes "\<forall>c \<in> set cs. cand_ok c"
  shows "\<exists>s. slowest_of cs = Ok s \<and> (\<forall>i. s = Some i \<longrightarrow> i < length cs)"
proof -
  let ?ds = "List.map_filter (\<lambda>(i, c). map_option (Pair i) (cd_decode c)) (enumerate 0 cs)"
  have d: "fst x < length cs \<and> snd x \<noteq> NaN" if "x \<in> set ?ds" for x
  proof -
    from that obtain ic where "ic \<in> set (enumerate 0 cs)" "(case ic of (i, c) \<Rightarrow> map_option (Pair i) (cd_decode c)) = Some x"
      unfolding in_map_filter by blast
    then obtain i c where ic: "(i, c) \<in> set (enumerate 0 cs)" "map_option (Pair i) (cd_decode c) = Some x"
      by (cases ic rule: prod.exhaust) simp
    then have "i < length cs" "c \<in> set cs" by (auto simp: in_set_enumerate_eq)
    with ic(2) assms show ?thesis by (auto simp: cand_ok_def positive_def)
  qed
  show ?thesis
  proof (cases ?ds)
    case Nil
    then show ?thesis by (simp add: slowest_of_def)
  next
    case (Cons x xs)
    then obtain m where "min_by_key x xs = Ok m" "m \<in> set ?ds" using min_by_key_ok [of x xs] d by auto
    with Cons d show ?thesis by (auto simp: slowest_of_def)
  qed
qed

text \<open>Moving one layer from a node that has it to a node with slack keeps the counts.\<close>

lemma counts_ok_move:
  assumes c: "counts_ok cs n counts" and s: "s < length cs" "1 < counts ! s"
    and r: "r < length cs" "r \<noteq> s" "counts ! r < cap_at cs r"
    and b: "\<forall>c \<in> set cs. cand_ok c"
  shows "counts_ok cs n (counts[s := sub32 (counts ! s) 1, r := add32 (counts[s := sub32 (counts ! s) 1] ! r) 1])"
proof -
  have len: "length counts = length cs" using c by (simp add: counts_ok_def)
  have lt: "cap_at cs i < M32" if "i < length cs" for i
    using b that cand_ok_caps nth_mem by (fastforce simp: cap_at_def)
  have cs: "counts ! s \<le> cap_at cs s" using c s(1) by (simp add: counts_ok_def)
  then have "counts ! s < M32" using lt [OF s(1)] by linarith
  then have sub: "sub32 (counts ! s) 1 = counts ! s - 1" using s(2) by (simp add: wrap_simps)
  let ?d = "counts[s := counts ! s - 1]"
  have dr: "?d ! r = counts ! r" using r(2) by simp
  have add: "add32 (counts ! r) 1 = Suc (counts ! r)" using lt [OF r(1)] r(3) by (simp add: wrap_simps)
  have "?d[s := Suc (?d ! s)] = counts" using s len by (simp add: list_update_same_conv)
  then have "sum_list counts = Suc (sum_list ?d)" using sum_list_inc [of s ?d] s(1) len by simp
  moreover have "sum_list (?d[r := Suc (?d ! r)]) = Suc (sum_list ?d)" using r(1) len by (intro sum_list_inc) simp
  ultimately have sum: "sum_list (?d[r := Suc (counts ! r)]) = n" using c dr by (simp add: counts_ok_def)
  have "?d[r := Suc (counts ! r)] ! i \<le> cap_at cs i" if "i < length cs" for i
    using that c r len cs by (cases "i = s") (auto simp: nth_list_update counts_ok_def)
  with sum len show ?thesis 
    by (simp add: counts_ok_def sub [unfolded One_nat_def] dr [unfolded One_nat_def] add [unfolded One_nat_def])
qed

lemma family_member_ok:
  assumes cs: "\<forall>c \<in> set cs. cand_ok c" "length cs \<le> MAX_NODES" and n: "0 < n" "n < M32"
    and s: "\<forall>i. s = Some i \<longrightarrow> i < length cs"
  shows "\<exists>m. family_member cs n s u t = Ok m \<and> (caps_of cs < n \<longrightarrow> m = None)
    \<and> (\<forall>fc. m = Some fc \<longrightarrow> counts_ok cs n (fc_counts fc))"
proof -
  have "\<forall>c. cand_ok c \<longrightarrow> (\<exists>s. Tilt_score t c = Fin s \<and> scored s)" using Tilt_score_scored by blast
  note a = apportion_cands [OF cs n this]
  obtain r where r: "apportion (map (Tilt_score t) cs) (map cd_cap_layers cs) n = Ok r" using a(3) by blast
  show ?thesis
  proof (cases r)
    case None
    with r show ?thesis by (simp add: family_member_def)
  next
    case (Some cq)
    obtain counts quotas where cq: "cq = (counts, quotas)" by (cases cq)
    have ok: "counts_ok cs n counts" and fits: "\<not> caps_of cs < n"
      using a(1,3) r Some cq by (auto simp: counts_ok_def)
    have mv: "counts_ok cs n (counts[i := sub32 (counts ! i) 1, k := add32 (counts[i := sub32 (counts ! i) 1] ! k) 1])"
      if "s = Some i" "1 < counts ! i"
        "best_slot (\<lambda>j. j = i) (map (Tilt_score t) cs) (map cd_cap_layers cs) quotas counts = Some k" for i k
      using best_slot_SomeD [OF that(3)] s that(1,2)
      by (intro counts_ok_move [OF ok _ _ _ _ _ cs(1)]) (auto simp: cap_at_def)
    show ?thesis
      using ok fits r Some cq mv by (auto simp: family_member_def Let_def split: option.split)
  qed
qed

lemma family_member_plain:
  "apportion (map (Tilt_score t) cs) (map cd_cap_layers cs) n = Ok (Some (counts, quotas)) \<Longrightarrow>
   family_member cs n s False t = Ok (Some \<lparr>fc_tilt = t, fc_underweighted = False, fc_counts = counts\<rparr>)"
  by (simp add: family_member_def)

lemma fold_res_collect:
  assumes "\<forall>x \<in> set xs. \<exists>m. g x = Ok m \<and> P x m"
  shows "\<exists>ys. fold_res (\<lambda>out x. res_bind (g x) (\<lambda>m. Ok (case m of None \<Rightarrow> out | Some y \<Rightarrow> out @ [y]))) out xs = Ok (out @ ys)
    \<and> (\<forall>y. y \<in> set ys \<longleftrightarrow> (\<exists>x \<in> set xs. g x = Ok (Some y)))"
  using assms
proof (induction xs arbitrary: out)
  case (Cons x xs)
  then obtain m where m: "g x = Ok m" by auto
  let ?out = "case m of None \<Rightarrow> out | Some y \<Rightarrow> out @ [y]"
  from Cons.IH [of ?out] Cons.prems obtain ys where
    ys: "fold_res (\<lambda>out x. res_bind (g x) (\<lambda>m. Ok (case m of None \<Rightarrow> out | Some y \<Rightarrow> out @ [y]))) ?out xs = Ok (?out @ ys)"
      "\<forall>y. y \<in> set ys \<longleftrightarrow> (\<exists>x \<in> set xs. g x = Ok (Some y))" by auto
  with m show ?case
    by (cases m) (auto intro!: exI [of _ "case m of None \<Rightarrow> ys | Some y \<Rightarrow> y # ys"])
qed simp

lemma family_counts_spec:
  assumes cs: "\<forall>c \<in> set cs. cand_ok c" "length cs \<le> MAX_NODES" and n: "0 < n" "n < M32"
  obtains family where "family_counts cs n = Ok family" "\<forall>fc \<in> set family. counts_ok cs n (fc_counts fc)"
    "caps_of cs < n \<longrightarrow> family = []" "n \<le> caps_of cs \<longrightarrow> family \<noteq> []"
    "\<forall>t counts quotas. apportion (map (Tilt_score t) cs) (map cd_cap_layers cs) n = Ok (Some (counts, quotas)) \<longrightarrow>
      \<lparr>fc_tilt = t, fc_underweighted = False, fc_counts = counts\<rparr> \<in> set family"
proof -
  obtain s where s: "slowest_of cs = Ok s" "\<forall>i. s = Some i \<longrightarrow> i < length cs"
    using slowest_of_ok [OF cs(1)] by blast
  let ?g = "\<lambda>(u, t). family_member cs n s u t"
  let ?xs = "List.product [False, True] Tilt_ALL"
  have "\<forall>x \<in> set ?xs. \<exists>m. ?g x = Ok m \<and> True"
    using family_member_ok [OF cs n s(2)] by (metis case_prod_conv prod.exhaust)
  from fold_res_collect [OF this, of "[]"] obtain family where
    f: "fold_res (\<lambda>out x. res_bind (?g x) (\<lambda>m. Ok (case m of None \<Rightarrow> out | Some y \<Rightarrow> out @ [y]))) [] ?xs = Ok family"
      "\<forall>y. y \<in> set family \<longleftrightarrow> (\<exists>x \<in> set ?xs. ?g x = Ok (Some y))" by auto
  have fam: "family_counts cs n = Ok family"
    using f(1) by (simp add: family_counts_def s(1) case_prod_unfold)
  have all: "t \<in> set Tilt_ALL" for t by (cases t) (simp_all add: Tilt_ALL_def)
  have plain: "\<lparr>fc_tilt = t, fc_underweighted = False, fc_counts = counts\<rparr> \<in> set family"
    if "apportion (map (Tilt_score t) cs) (map cd_cap_layers cs) n = Ok (Some (counts, quotas))" for t counts quotas
    using f(2) family_member_plain [OF that, of s] all [of t] by (auto intro!: bexI [of _ "(False, t)"])
  have "family \<noteq> []" if fits: "n \<le> caps_of cs"
  proof -
    have "\<forall>c. cand_ok c \<longrightarrow> (\<exists>s. Tilt_score TMemory c = Fin s \<and> scored s)" using Tilt_score_scored by blast
    moreover have "\<forall>c. cand_ok c \<longrightarrow> 0 < cd_cap_layers c \<longrightarrow> Tilt_score TMemory c \<noteq> Fin 0"
      by (auto simp: cand_ok_def)
    ultimately obtain counts quotas where
      "apportion (map (Tilt_score TMemory) cs) (map cd_cap_layers cs) n = Ok (Some (counts, quotas))"
      using apportion_cands(2) [OF cs n _ fits] by blast
    from plain [OF this] show ?thesis by auto
  qed
  moreover have "counts_ok cs n (fc_counts fc) \<and> \<not> caps_of cs < n" if "fc \<in> set family" for fc
  proof -
    from that obtain x where "?g x = Ok (Some fc)" using f(2) by blast
    then obtain u t where "family_member cs n s u t = Ok (Some fc)" by (cases x) simp
    with family_member_ok [OF cs n s(2), of u t] show ?thesis by auto
  qed
  ultimately show thesis using that [OF fam] plain by (cases family) auto
qed

section \<open>The search returns a minimum\<close>

lemma enumerate_orders_spec:
  assumes "links_ok links"
  obtains os where "enumerate_orders cs counts links = Ok os" "os \<noteq> []"
    "\<forall>o' \<in> set os. mset o' = mset (active_set cs counts)
      \<and> (\<forall>t. tail_of cs (active_set cs counts) = Some t \<longrightarrow> last o' = t)"
    "\<forall>order rtts. order_stages cs counts links = Ok (order, rtts) \<longrightarrow> order \<in> set os"
proof -
  let ?a = "active_set cs counts"
  let ?t = "tail_of cs ?a"
  obtain chain where ch: "order_stages cs counts links = Ok (chain, chain_rtts cs links chain)"
      "mset chain = mset ?a" "\<forall>t. ?t = Some t \<longrightarrow> last chain = t"
    using order_stages_spec [OF assms, of cs counts] by blast
  consider (one) "length ?a \<le> 1" | (exact) "\<not> length ?a \<le> 1" "length ?a \<le> EXACT_ORDER_MAX_NODES"
    | (many) "\<not> length ?a \<le> 1" "\<not> length ?a \<le> EXACT_ORDER_MAX_NODES" by blast
  then show thesis
  proof cases
    case one
    then have "chain = ?a" using ch(1) by (simp add: order_stages_def Let_def)
    with one ch that [of "[?a]"] show thesis by (simp add: enumerate_orders_def Let_def)
  next
    case many
    with ch that [of "[chain]"] show thesis by (simp add: enumerate_orders_def Let_def)
  next
    case exact
    let ?os = "map (with_tail ?t) (permutations (movable_of ?a ?t))"
    obtain c where "foldl (keep_cheaper cs links) None ?os = Some (chain_cost cs links c, c)" "c \<in> set ?os"
      using foldl_keep_cheaper [of ?os cs links] permutations_nonempty by auto
    then have mem: "chain \<in> set ?os" using exact ch(1) by (auto simp: order_stages_def Let_def)
    have all: "\<forall>o' \<in> set ?os. mset o' = mset ?a \<and> (\<forall>t. ?t = Some t \<longrightarrow> last o' = t)"
    proof
      fix o'
      assume "o' \<in> set ?os"
      then obtain p where p: "o' = with_tail ?t p" "mset p = mset (movable_of ?a ?t)"
        by (auto simp: set_permutations)
      then have "mset o' = mset ?a" using mset_with_tail [OF active_set_props(1) refl] by blast
      with p(1) show "mset o' = mset ?a \<and> (\<forall>t. ?t = Some t \<longrightarrow> last o' = t)" by (simp add: with_tail_def)
    qed
    show thesis
    proof (rule that [OF _ _ all])
      show "enumerate_orders cs counts links = Ok ?os" using exact by (simp add: enumerate_orders_def Let_def)
      show "?os \<noteq> []" using permutations_nonempty by simp
      show "\<forall>order rtts. order_stages cs counts links = Ok (order, rtts) \<longrightarrow> order \<in> set ?os" using mem ch(1) by simp
    qed
  qed
qed

lemma better_eval_order:
  "\<not> better_eval a a" "better_eval a b \<Longrightarrow> better_eval b c \<Longrightarrow> better_eval a c"
  by (auto simp: better_eval_def flt_eq_def intro: flt_lt_trans)

lemma foldl_counting:
  "\<exists>k'. foldl (\<lambda>(k, b) x. (add64 k 1, keep_best R f b x)) (k, b) xs = (k', foldl (keep_best R f) b xs)"
  by (induction xs arbitrary: k b) auto

lemma foldl_pairs:
  "foldl (keep_best R (\<lambda>(x, y). f x y)) b (map (Pair x) ys) = foldl (keep_best R (f x)) b ys"
  by (induction ys arbitrary: b) (simp_all add: keep_best_def split: option.split)

text \<open>The nested loops scan the pairs of a family member and a stage order.\<close>

lemma search_fold:
  assumes "\<forall>fc \<in> set family. enumerate_orders cs (fc_counts fc) links = Ok (os fc)"
  shows "\<exists>k'. fold_res (search_member cs links dims ub v) (k, b) family =
    Ok (k', foldl (keep_best better_eval (\<lambda>(fc, ord). eval_order cs links dims ub v fc ord)) b
         (concat (map (\<lambda>fc. map (Pair fc) (os fc)) family)))"
  using assms
proof (induction family arbitrary: k b)
  case (Cons fc family)
  let ?f = "eval_order cs links dims ub v"
  obtain k1 where k1: "foldl (\<lambda>(k, b) x. (add64 k 1, keep_best better_eval (?f fc) b x)) (k, b) (os fc) =
      (k1, foldl (keep_best better_eval (?f fc)) b (os fc))"
    using foldl_counting by blast
  have "\<forall>fc \<in> set family. enumerate_orders cs (fc_counts fc) links = Ok (os fc)" using Cons.prems by simp
  from Cons.IH [OF this, of k1 "foldl (keep_best better_eval (?f fc)) b (os fc)"]
  obtain k2 where "fold_res (search_member cs links dims ub v)
      (k1, foldl (keep_best better_eval (?f fc)) b (os fc)) family =
    Ok (k2, foldl (keep_best better_eval (\<lambda>(fc, ord). ?f fc ord)) (foldl (keep_best better_eval (?f fc)) b (os fc))
         (concat (map (\<lambda>fc. map (Pair fc) (os fc)) family)))"
    by blast
  moreover have "search_member cs links dims ub v (k, b) fc = Ok (k1, foldl (keep_best better_eval (?f fc)) b (os fc))"
    using Cons.prems by (simp add: search_member_def k1 [unfolded One_nat_def])
  ultimately show ?case by (simp add: foldl_pairs)
qed simp

text \<open>The placements the search looks at.\<close>

definition placement_of :: "Cand list \<Rightarrow> u32 \<Rightarrow> LinkRtt list \<Rightarrow> FamilyCandidate \<times> usize list \<Rightarrow> bool" where
  "placement_of cs n links = (\<lambda>(fc, ord). \<exists>family os. family_counts cs n = Ok family \<and> fc \<in> set family
     \<and> enumerate_orders cs (fc_counts fc) links = Ok os \<and> ord \<in> set os)"

lemma search_v2_spec:
  assumes n: "0 < n" "n < M32" and l: "links_ok links" and cs: "\<forall>c \<in> set cs. cand_ok c" "length cs \<le> MAX_NODES"
  shows "caps_of cs < n \<Longrightarrow> search_v2 cs n links dims ub = Ok None"
    and "n \<le> caps_of cs \<Longrightarrow> \<exists>e k v fc ord. search_v2 cs n links dims ub = Ok (Some (e\<lparr>v2_considered := k\<rparr>))
      \<and> placement_of cs n links (fc, ord) \<and> e = eval_order cs links dims ub v fc ord
      \<and> evaluated_ok cs n (fc_counts fc) ord
      \<and> (\<forall>fc' ord'. placement_of cs n links (fc', ord') \<longrightarrow>
           \<not> better_eval (eval_order cs links dims ub v fc' ord') e)"
proof -
  obtain family where fam: "family_counts cs n = Ok family" "\<forall>fc \<in> set family. counts_ok cs n (fc_counts fc)"
      "caps_of cs < n \<longrightarrow> family = []" "n \<le> caps_of cs \<longrightarrow> family \<noteq> []"
    by (rule family_counts_spec [OF cs n])
  have "\<exists>os. \<forall>fc \<in> set family. enumerate_orders cs (fc_counts fc) links = Ok (os fc) \<and> os fc \<noteq> []
      \<and> (\<forall>ord \<in> set (os fc). evaluated_ok cs n (fc_counts fc) ord)"
  proof (intro bchoice ballI)
    fix fc
    assume fc: "fc \<in> set family"
    let ?a = "active_set cs (fc_counts fc)"
    obtain os where os: "enumerate_orders cs (fc_counts fc) links = Ok os" "os \<noteq> []"
        "\<forall>ord \<in> set os. mset ord = mset ?a \<and> (\<forall>t. tail_of cs ?a = Some t \<longrightarrow> last ord = t)"
      by (rule enumerate_orders_spec [OF l])
    have "counts_ok cs n (fc_counts fc)" using fam(2) fc by blast
    then have "\<forall>ord \<in> set os. evaluated_ok cs n (fc_counts fc) ord"
      using os(3) by (simp add: counts_ok_def evaluated_ok_def)
    with os(1,2) show "\<exists>os. enumerate_orders cs (fc_counts fc) links = Ok os \<and> os \<noteq> []
        \<and> (\<forall>ord \<in> set os. evaluated_ok cs n (fc_counts fc) ord)" by blast
  qed
  then obtain os where os: "\<forall>fc \<in> set family. enumerate_orders cs (fc_counts fc) links = Ok (os fc)"
      "\<forall>fc \<in> set family. os fc \<noteq> []" "\<forall>fc \<in> set family. \<forall>ord \<in> set (os fc). evaluated_ok cs n (fc_counts fc) ord"
    by blast
  let ?v = "length family" and ?xs = "concat (map (\<lambda>fc. map (Pair fc) (os fc)) family)"
  let ?f = "\<lambda>(fc, ord). eval_order cs links dims ub ?v fc ord"
  obtain k where k: "fold_res (search_member cs links dims ub ?v) (0, None) family =
      Ok (k, foldl (keep_best better_eval ?f) None ?xs)"
    using search_fold [OF os(1)] by blast
  {
    assume "caps_of cs < n"
    with fam k show "search_v2 cs n links dims ub = Ok None" by (simp add: search_v2_def)
  next
    assume "n \<le> caps_of cs"
    with fam(4) obtain fc0 where "fc0 \<in> set family" by (cases family) auto
    with os(2) have "?xs \<noteq> []" by auto
    from foldl_keep_best [of better_eval ?xs ?f, OF better_eval_order(1) _ this] better_eval_order(2) obtain x where
      x: "x \<in> set ?xs" "foldl (keep_best better_eval ?f) None ?xs = Some (?f x)"
        "\<forall>y \<in> set ?xs. \<not> better_eval (?f y) (?f x)" by blast
    obtain fc ord where "x = (fc, ord)" by (cases x)
    note b = x [unfolded this]
    have pl: "placement_of cs n links (fc', ord') \<longleftrightarrow> (fc', ord') \<in> set ?xs" for fc' ord'
      using fam(1) os(1) by (fastforce simp: placement_of_def)
    have "search_v2 cs n links dims ub = Ok (Some (?f (fc, ord)\<lparr>v2_considered := k\<rparr>))"
      using b(2) by (simp add: search_v2_def fam(1) k)
    moreover have "evaluated_ok cs n (fc_counts fc) ord" using b(1) os(3) by auto
    moreover have "\<forall>fc' ord'. placement_of cs n links (fc', ord') \<longrightarrow>
        \<not> better_eval (eval_order cs links dims ub ?v fc' ord') (?f (fc, ord))"
      using b(3) pl by fastforce
    ultimately show "\<exists>e k v fc ord. search_v2 cs n links dims ub = Ok (Some (e\<lparr>v2_considered := k\<rparr>))
      \<and> placement_of cs n links (fc, ord) \<and> e = eval_order cs links dims ub v fc ord
      \<and> evaluated_ok cs n (fc_counts fc) ord
      \<and> (\<forall>fc' ord'. placement_of cs n links (fc', ord') \<longrightarrow>
           \<not> better_eval (eval_order cs links dims ub v fc' ord') e)"
      using b(1) pl by (intro exI [of _ "?f (fc, ord)"] exI [of _ k] exI [of _ ?v] exI [of _ fc] exI [of _ ord]) simp
  }
qed

interpretation v2_eval: evaluator eval_tpt_v2 "\<lambda>req. d_n_layers (pr_dims req)" req_ok
proof
  fix r :: PlanRequest and cs
  assume r: "req_ok r" and cs: "\<forall>c \<in> set cs. cand_ok c" "length cs \<le> MAX_NODES"
  let ?n = "d_n_layers (pr_dims r)"
  have n: "0 < ?n" "?n < M32" "links_ok (pr_links r)" using r by (simp_all add: req_ok_def)
  note e = search_v2_spec [OF n cs, of "pr_dims r" "effective_n_ubatch (pr_n_ubatch r)"]
  have "(\<exists>t. eval_tpt_v2 r cs = Ok t) \<and> (eval_tpt_v2 r cs = Ok None \<longleftrightarrow> caps_of cs < ?n)"
  proof (cases "caps_of cs < ?n")
    case True
    with e(1) show ?thesis by (simp add: eval_tpt_v2_def)
  next
    case False
    with e(2) obtain ev where "search_v2 cs ?n (pr_links r) (pr_dims r) (effective_n_ubatch (pr_n_ubatch r)) = Ok (Some ev)"
      by (meson not_le)
    with False show ?thesis by (simp add: eval_tpt_v2_def)
  qed
  then show "\<exists>t. eval_tpt_v2 r cs = Ok t" "eval_tpt_v2 r cs = Ok None \<longleftrightarrow> caps_of cs < ?n" by blast+
qed

section \<open>The planner contract\<close>

text \<open>The saturating arithmetic of the v2 budget is exact: it only saturates where the budget is zero.\<close>

lemma node_budget_v2_eq:
  assumes "u < M64"
  shows "node_budget_v2 u e b = u - (OVERHEAD_RESERVE_BYTES + 16 * e * effective_n_ubatch b)"
proof -
  let ?k = "effective_n_ubatch b"
  have k: "1 \<le> ?k" by (simp add: effective_n_ubatch_def DEFAULT_N_UBATCH_def)
  have copies: "sat_mul64 (sat_mul64 16 e) ?k = min (16 * e * ?k) u64_max"
  proof (cases "16 * e \<le> u64_max")
    case True
    then show ?thesis by (simp add: sat_mul64_def)
  next
    case False
    have "16 * e * 1 \<le> 16 * e * ?k" "u64_max * 1 \<le> u64_max * ?k" using k by (simp_all only: mult_le_mono2)
    with False have "u64_max \<le> 16 * e * ?k" "u64_max \<le> u64_max * ?k" by linarith+
    with False show ?thesis by (auto simp: sat_mul64_def min_def)
  qed
  show ?thesis
    using assms unfolding node_budget_v2_def Let_def copies
    by (simp add: sat_sub_def sat_add64_def u64_max_def min_def)
qed

lemma node_budget_v2_le: "node_budget_v2 u e b \<le> u"
  by (simp add: node_budget_v2_def Let_def sat_sub_def)

definition budget_v2 :: "PlanRequest \<Rightarrow> u64 \<Rightarrow> u64" where
  "budget_v2 req usable = node_budget_v2 usable (d_n_embd (pr_dims req)) (effective_n_ubatch (pr_n_ubatch req))"

definition solo_v2 :: "PlanRequest \<Rightarrow> bool \<Rightarrow> PlannedPlacement" where
  "solo_v2 req = solo_placement_v2 req (head_budget_of req) (required_bytes req) (effective_n_ubatch (pr_n_ubatch req))"

definition dist_v2 :: "PlanRequest \<Rightarrow> (PlannedPlacement, ScheduleError) res" where
  "dist_v2 req = distributed_v2 req (forced_of req) (head_budget_of req) (required_bytes req)
     (kv_bytes_per_layer (pr_dims req) (pr_ctx_len req)) (required_bytes req \<le> head_budget_of req)
     (effective_n_ubatch (pr_n_ubatch req))"

lemma dist_v2_spec:
  assumes r: "req_ok req"
  defines "n \<equiv> d_n_layers (pr_dims req)" and "cands \<equiv> req_cands (budget_v2 req) req"
  assumes sel: "select_workers cands (forced_of req) n (pr_ctx_len req) (per_layer_cost (pr_dims req) (pr_ctx_len req))
      (eval_tpt_v2 req) = Ok (S, sn)" and S: "selectable cands S"
  shows "caps_of (participants cands S) < n \<Longrightarrow> dist_v2 req =
      Err (DoesNotFit (mb_ceil (required_bytes req)) (mb_floor (sum64 (map cd_budget cands))))"
    and "n \<le> caps_of (participants cands S) \<Longrightarrow>
      \<exists>p. dist_v2 req = Ok p \<and> placed_as req (participants cands S) p"
proof -
  have n: "0 < n" "n < M32" "links_ok (pr_links req)" using r by (simp_all add: req_ok_def n_def)
  let ?fs = "participants cands S" and ?kv = "kv_bytes_per_layer (pr_dims req) (pr_ctx_len req)"
  have less: "u < M64 \<Longrightarrow> budget_v2 req u < M64" for u
    unfolding budget_v2_def by (rule le_less_trans [OF node_budget_v2_le])
  have fs: "\<forall>c \<in> set ?fs. cand_ok c" "length ?fs \<le> MAX_NODES"
    "mset (map cand_name ?fs) \<subseteq># mset (nc_node (pr_head req) # map nc_node (pr_workers req))"
    unfolding cands_def by (rule final_set_ok [OF r less S [unfolded cands_def]]; assumption)+
  note e = search_v2_spec [OF n fs(1,2), of "pr_dims req" "effective_n_ubatch (pr_n_ubatch req)"]
  have ev: "(\<lambda>cs. res_bind (search_v2 cs n (pr_links req) (pr_dims req) (effective_n_ubatch (pr_n_ubatch req)))
      (\<lambda>e. Ok (map_option v2_tpt e))) = eval_tpt_v2 req"
    by (simp add: fun_eq_iff eval_tpt_v2_def n_def)
  have bo: "(\<lambda>usable. node_budget_v2 usable (d_n_embd (pr_dims req)) (effective_n_ubatch (pr_n_ubatch req))) = budget_v2 req"
    by (simp add: fun_eq_iff budget_v2_def)
  note unf = dist_v2_def distributed_v2_def Let_def bo req_cands_def [symmetric] cands_def [symmetric]
    n_def [symmetric] ev sel
  {
    assume "caps_of ?fs < n"
    then show "dist_v2 req = Err (DoesNotFit (mb_ceil (required_bytes req)) (mb_floor (sum64 (map cd_budget cands))))"
      unfolding unf using e(1) by simp
  next
    assume "n \<le> caps_of ?fs"
    from e(2) [OF this] obtain v where v: "search_v2 ?fs n (pr_links req) (pr_dims req)
        (effective_n_ubatch (pr_n_ubatch req)) = Ok (Some v)" "evaluated_ok ?fs n (v2_counts v) (v2_order v)"
      by (auto simp: eval_order_def Let_def)
    obtain acc where acc: "assemble (pr_dims req) ?kv ?fs (v2_counts v) (v2_order v) = Ok acc"
        and pl: "\<forall>p. pl_strategy (pp_plan p) = PipelineParallel \<and> assignments_of p = sa_assignments acc
           \<and> pp_tensor_split p = sa_split acc \<longrightarrow> placed_as req ?fs p"
      by (rule placed_asI [OF r fs(2,3) v(2) [unfolded n_def], of ?kv])
    show "\<exists>p. dist_v2 req = Ok p \<and> placed_as req ?fs p"
      unfolding unf by (simp add: v(1) acc pl)
  }
qed

interpretation v2: distributor eval_tpt_v2 plan_v2 solo_v2 dist_v2 budget_v2
proof unfold_locales
  fix req
  show "plan_v2 req =
      (case forced_of req of
         None \<Rightarrow> if required_bytes req \<le> head_budget_of req then Ok (solo_v2 req False) else dist_v2 req
       | Some n \<Rightarrow>
           if add32 (as_u32 (length (pr_workers req))) 1 < n
           then Err (NotEnoughNodes n (add32 (as_u32 (length (pr_workers req))) 1))
           else if n = 1 then
             (if required_bytes req \<le> head_budget_of req then Ok (solo_v2 req True)
              else Err (DoesNotFit (mb_ceil (required_bytes req)) (mb_floor (head_budget_of req))))
           else dist_v2 req)"
    by (simp only: plan_v2_def Let_def solo_v2_def dist_v2_def)
qed (simp_all only: node_budget_v2_le budget_v2_def dist_v2_spec,
    simp_all add: solo_v2_def solo_placement_v2_def solo_placement_v1_def Let_def)

section \<open>Properties\<close>

text \<open>C1: the v2 planner never panics on a well-formed request, and a placement it returns gives every
  layer exactly one stage, numbers the stages in layer order, uses each node of the request at
  most once and gives one split fraction per stage.\<close>

theorem plan_v2_places_every_layer_once:
  assumes "req_ok req"
  shows "(\<forall>k. plan_v2 req \<noteq> Panic k) \<and> (\<forall>p. plan_v2 req = Ok p \<longrightarrow>
      (\<forall>l < d_n_layers (pr_dims req). \<exists>!i. i < length (assignments_of p) \<and> owns (assignments_of p ! i) l)
      \<and> tiles 0 0 (d_n_layers (pr_dims req)) (assignments_of p)
      \<and> mset (map as_node (assignments_of p)) \<subseteq># mset (map nc_node (pr_head req # pr_workers req))
      \<and> length (pp_tensor_split p) = length (assignments_of p))"
  using v2.placing.total [OF assms] v2.placing.unique_stage [OF assms] v2.placing.tiling [OF assms]
    v2.placing.nodes [OF assms] v2.placing.split [OF assms]
  by simp

theorem plan_v2_places_every_layer_once_witness: "plan_v2 v1_sample \<noteq> Panic ExpectFailed"
  using plan_v2_places_every_layer_once [OF v1_sample_ok] by blast

text \<open>With an unknown embedding width the v2 budget is the v1 budget.\<close>

lemma budget_v2_no_embd: "d_n_embd (pr_dims req) = 0 \<Longrightarrow> budget_v2 req = node_budget"
  by (simp add: fun_eq_iff budget_v2_def node_budget_v2_def node_budget_def Let_def sat_mul64_def sat_add64_def
      OVERHEAD_RESERVE_BYTES_def u64_max_def)

lemma v2_sample_cands: "v2.cands_of v1_sample = req_cands node_budget v1_sample"
proof -
  have "d_n_embd (pr_dims v1_sample) = 0" by (simp add: v1_sample_def uniform_sample)
  then show ?thesis by (simp add: v2.cands_of_def budget_v2_no_embd)
qed

text \<open>C3: in automatic mode the v2 planner is complete: it goes solo exactly when weights plus KV fit
  the head's plain budget, otherwise it distributes exactly when the capacities of all nodes
  under the pipeline budget together hold the model, and otherwise it reports that the model
  does not fit.\<close>

theorem plan_v2_automatic_complete:
  assumes "req_ok req" "effective_forced (pr_forced_nodes req) = None"
  shows "((\<exists>p. plan_v2 req = Ok p \<and> pl_strategy (pp_plan p) = Solo) \<longleftrightarrow> required_bytes req \<le> head_budget_of req)
    \<and> ((\<exists>p. plan_v2 req = Ok p \<and> pl_strategy (pp_plan p) = PipelineParallel) \<longleftrightarrow>
        head_budget_of req < required_bytes req \<and> d_n_layers (pr_dims req) \<le> caps_of (req_cands (budget_v2 req) req))
    \<and> ((\<exists>a b. plan_v2 req = Err (DoesNotFit a b)) \<longleftrightarrow>
        head_budget_of req < required_bytes req \<and> caps_of (req_cands (budget_v2 req) req) < d_n_layers (pr_dims req))"
  using v2.complete [OF assms] by (simp add: v2.cands_of_def)

theorem plan_v2_automatic_complete_witness:
  "\<exists>p. plan_v2 v1_sample = Ok p \<and> pl_strategy (pp_plan p) = PipelineParallel"
proof -
  have "effective_forced (pr_forced_nodes v1_sample) = None" by (simp add: effective_forced_def v1_sample_def)
  from plan_v2_automatic_complete [OF v1_sample_ok this, folded v2.cands_of_def, unfolded v2_sample_cands]
  show ?thesis by (simp add: caps_of_def v1_sample_caps)
      (simp add: v1_sample_def uniform_sample uniform_sample_cost node_budget_def sat_sub_def OVERHEAD_RESERVE_BYTES_def)
qed

text \<open>C2: for memory sizes below 8 PiB a distributed v2 plan respects every budget: the layers given to
  a node, each costed at the mean weight plus its KV cache, leave room for the 512 MiB reserve
  and the four in-flight copies of the boundary activation, \<open>16 * n_embd * n_ubatch\<close> bytes.\<close>

theorem plan_v2_respects_budgets:
  assumes "req_ok req" "memory_ok req" "plan_v2 req = Ok p" "pl_strategy (pp_plan p) = PipelineParallel"
    "a \<in> set (assignments_of p)"
  shows "\<exists>c \<in> set (all_caps req). nc_node c = as_node a
    \<and> LayerRange_len (as_layers a) * layer_cost (pr_dims req) (pr_ctx_len req)
      \<le> nc_usable c - (OVERHEAD_RESERVE_BYTES + 16 * d_n_embd (pr_dims req) * effective_n_ubatch (pr_n_ubatch req))"
proof -
  obtain c where c: "c \<in> set (all_caps req)" "nc_node c = as_node a"
      "LayerRange_len (as_layers a) * layer_cost (pr_dims req) (pr_ctx_len req) \<le> budget_v2 req (nc_usable c)"
    using v2.budgets [OF assms] by blast
  have "nc_usable c < M64" using assms(1) c(1) by (simp add: req_ok_def caps_ok_def)
  moreover have "effective_n_ubatch (effective_n_ubatch b) = effective_n_ubatch b" for b
    by (simp add: effective_n_ubatch_def DEFAULT_N_UBATCH_def)
  ultimately have "budget_v2 req (nc_usable c) =
      nc_usable c - (OVERHEAD_RESERVE_BYTES + 16 * d_n_embd (pr_dims req) * effective_n_ubatch (pr_n_ubatch req))"
    by (simp add: budget_v2_def node_budget_v2_eq)
  with c show ?thesis by auto
qed

lemma v2_sample_placed:
  obtains p where "plan_v2 v1_sample = Ok p" "pl_strategy (pp_plan p) = PipelineParallel" "assignments_of p \<noteq> []"
proof -
  have f: "forced_of v1_sample = None" by (simp add: effective_forced_def v1_sample_def)
  from v2.complete [OF v1_sample_ok f, unfolded v2_sample_cands]
  obtain p where p: "plan_v2 v1_sample = Ok p" "pl_strategy (pp_plan p) = PipelineParallel"
    by (simp add: caps_of_def v1_sample_caps)
      (auto simp: v1_sample_def uniform_sample uniform_sample_cost node_budget_def sat_sub_def OVERHEAD_RESERVE_BYTES_def)
  have "tiles 0 0 10 (assignments_of p)"
    using v2.placing.tiling [OF v1_sample_ok p(1)] by (simp add: v1_sample_def uniform_sample)
  then have "assignments_of p \<noteq> []" by (cases "assignments_of p") simp_all
  with p that show thesis by blast
qed

theorem plan_v2_respects_budgets_witness:
  "\<exists>p a. plan_v2 v1_sample = Ok p \<and> a \<in> set (assignments_of p) \<and> LayerRange_len (as_layers a) * 10 \<le> 60"
proof -
  obtain p where p: "plan_v2 v1_sample = Ok p" "pl_strategy (pp_plan p) = PipelineParallel" "assignments_of p \<noteq> []"
    by (rule v2_sample_placed)
  then obtain a where a: "a \<in> set (assignments_of p)" by (cases "assignments_of p") auto
  from plan_v2_respects_budgets [OF v1_sample_ok memory_sample(1) p(1,2) a]
  have "LayerRange_len (as_layers a) * 10 \<le> 60"
    using memory_sample(2) by (auto simp: v1_sample_def all_caps_def OVERHEAD_RESERVE_BYTES_def uniform_sample)
  with p(1) a show ?thesis by blast
qed

section \<open>The search against v1\<close>

lemma nonneg_fmax: "nonneg_flt a \<Longrightarrow> nonneg_flt (fmax a x)"
  by (auto simp: nonneg_flt_def fmax_def dest: flt_lt_trans)

lemma compute_ms_nonneg: "nonneg_flt (compute_ms dims cs counts order)"
proof -
  have "nonneg_flt m \<Longrightarrow> nonneg_flt (snd (foldl (compute_step dims cs counts) (c, m) order))" for c m
    by (induction order arbitrary: c m) (auto simp: compute_step_def Let_def nonneg_fmax split: option.split)
  then show ?thesis by (simp add: compute_ms_def nonneg_flt_def)
qed

lemma eval_order_nonneg: "links_ok links \<Longrightarrow> nonneg_flt (v2_tpt (eval_order cs links dims ub v fc ord))"
  using nonneg_fadd [OF compute_ms_nonneg chain_cost_nonneg] by (simp add: eval_order_def Let_def chain_cost_def)

text \<open>For a dense model the stage walk is v1's maximum over the stages.\<close>

lemma fmax_zero: "nonneg_flt m \<Longrightarrow> fmax m (Fin 0) = m"
  by (auto simp: nonneg_flt_def fmax_def dest: flt_lt_trans)

lemma compute_ms_dense:
  assumes "\<not> moe_scaled dims" "sum_list (map ((!) counts) order) < M32"
  shows "compute_ms dims cs counts order = foldl fmax (Fin 0) (map (stage_ms cs counts) order)"
proof -
  have "nonneg_flt m \<Longrightarrow> c + sum_list (map ((!) counts) order) < M32 \<Longrightarrow>
      snd (foldl (compute_step dims cs counts) (c, m) order) = foldl fmax m (map (stage_ms cs counts) order)" for c m
  proof (induction order arbitrary: c m)
    case (Cons i order)
    have ad: "add32 c (counts ! i) = c + counts ! i" using Cons.prems(2) by (intro add32_small) simp
    have st: "compute_step dims cs counts (c, m) i = (c + counts ! i, fmax m (stage_ms cs counts i))"
      using assms(1) fmax_zero [OF Cons.prems(1)]
      by (simp add: compute_step_def ad Let_def active_compute_units_def sat_sub_def stage_ms_def split: option.split)
    show ?case using Cons.IH [of "fmax m (stage_ms cs counts i)" "c + counts ! i"] Cons.prems
      by (simp add: st nonneg_fmax add.assoc)
  qed simp
  from this [of "Fin 0" 0] show ?thesis using assms(2) by (simp add: compute_ms_def nonneg_flt_def)
qed

lemma evaluate_cases:
  assumes "evaluate cs n links = Ok (Some e)"
  obtains counts quotas order rtts where
    "apportion (map (Tilt_score THybrid) cs) (map cd_cap_layers cs) n = Ok (Some (counts, quotas))"
    "order_stages cs counts links = Ok (order, rtts)"
    "ev_tpt e = fadd (foldl fmax (Fin 0) (map (stage_ms cs counts) order)) (fsum rtts)"
proof -
  have sc: "map (Tilt_score THybrid) cs = map cand_score cs" by (simp add: cand_score_def)
  show thesis
    using assms that unfolding sc evaluate_def apportion_v1_def
    by (auto simp: Let_def res_bind_Ok_iff split: option.splits)
qed

text \<open>A pair of nodes to evaluate the search on.\<close>

definition v2_pair :: "Cand list" where
  "v2_pair = [sample_cand ''w'' False, sample_cand ''h'' True]"

lemma v2_pair_ok: "\<forall>c \<in> set v2_pair. cand_ok c" "length v2_pair \<le> MAX_NODES" "caps_of v2_pair = 8"
proof -
  have "(2::rat) powi (- 64) \<le> 2 powi 0" "(2::rat) powi 2 \<le> 2 powi 64" by (rule powi_mono; simp)+
  then have "(2::rat) powi (- 64) \<le> 4" "(4::rat) \<le> 2 powi 64" by simp_all
  then have "cand_ok (sample_cand nm h)" for nm h
    unfolding cand_ok_def sample_cand_def using factor_ok_1
    by (simp add: u32_max_def)
  then show "\<forall>c \<in> set v2_pair. cand_ok c" by (simp add: v2_pair_def)
qed (simp_all add: v2_pair_def MAX_NODES_def caps_of_def sample_cand_def)

text \<open>C18: the candidate search is optimal: its winner is one of the placements of the family (a tilt
  variant with a stage order), holds every layer within the capacities, and no placement of
  the family has a smaller decode time per token, or an equal one with a smaller prefill cost.\<close>

theorem search_v2_optimal:
  assumes "0 < n" "n < M32" "links_ok links" "\<forall>c \<in> set cs. cand_ok c" "length cs \<le> MAX_NODES" "n \<le> caps_of cs"
  shows "\<exists>e. search_v2 cs n links dims ub = Ok (Some e) \<and> evaluated_ok cs n (v2_counts e) (v2_order e)
    \<and> (\<exists>fc v. placement_of cs n links (fc, v2_order e) \<and> fc_counts fc = v2_counts e
        \<and> v2_tpt e = v2_tpt (eval_order cs links dims ub v fc (v2_order e)))
    \<and> (\<forall>v fc ord. placement_of cs n links (fc, ord) \<longrightarrow>
        flt_lt (v2_tpt e) (v2_tpt (eval_order cs links dims ub v fc ord))
        \<or> v2_tpt e = v2_tpt (eval_order cs links dims ub v fc ord)
          \<and> \<not> flt_lt (v2_prefill_cost (eval_order cs links dims ub v fc ord)) (v2_prefill_cost e))"
proof -
  obtain e k v fc ord where s: "search_v2 cs n links dims ub = Ok (Some (e\<lparr>v2_considered := k\<rparr>))"
      "placement_of cs n links (fc, ord)" "e = eval_order cs links dims ub v fc ord"
      "evaluated_ok cs n (fc_counts fc) ord"
      "\<forall>fc' ord'. placement_of cs n links (fc', ord') \<longrightarrow>
         \<not> better_eval (eval_order cs links dims ub v fc' ord') e"
    using search_v2_spec(2) [OF assms] by blast
  have f: "v2_counts e = fc_counts fc" "v2_order e = ord" by (simp_all add: s(3) eval_order_def Let_def)
  have e0: "nonneg_flt (v2_tpt e)" using eval_order_nonneg [OF assms(3)] by (simp add: s(3))
  have keys: "v2_tpt (eval_order cs links dims ub v' fc' ord') = v2_tpt (eval_order cs links dims ub v fc' ord')"
    "v2_prefill_cost (eval_order cs links dims ub v' fc' ord') = v2_prefill_cost (eval_order cs links dims ub v fc' ord')"
    for v' fc' ord' by (simp_all add: eval_order_def Let_def)
  have opt: "flt_lt (v2_tpt e) (v2_tpt (eval_order cs links dims ub v' fc' ord'))
        \<or> v2_tpt e = v2_tpt (eval_order cs links dims ub v' fc' ord')
          \<and> \<not> flt_lt (v2_prefill_cost (eval_order cs links dims ub v' fc' ord')) (v2_prefill_cost e)"
    if "placement_of cs n links (fc', ord')" for v' fc' ord'
    using s(5) that e0 eval_order_nonneg [OF assms(3), of cs dims ub v fc' ord']
      flt_lt_total [of "v2_tpt e" "v2_tpt (eval_order cs links dims ub v fc' ord')"]
    unfolding keys [of v'] by (auto simp: better_eval_def flt_eq_def nonneg_flt_def)
  show ?thesis
  proof (intro exI [of _ "e\<lparr>v2_considered := k\<rparr>"] conjI allI impI)
    show "\<exists>fc v. placement_of cs n links (fc, v2_order (e\<lparr>v2_considered := k\<rparr>)) \<and> fc_counts fc = v2_counts (e\<lparr>v2_considered := k\<rparr>)
        \<and> v2_tpt (e\<lparr>v2_considered := k\<rparr>) = v2_tpt (eval_order cs links dims ub v fc (v2_order (e\<lparr>v2_considered := k\<rparr>)))"
      using s(2,3) f by (intro exI [of _ fc] exI [of _ v]) simp
  qed (use s(1,4) f opt in simp_all)
qed

theorem search_v2_optimal_witness:
  "\<exists>e. search_v2 v2_pair 6 [] (uniform 100 6) 0 = Ok (Some e) \<and> sum_list (v2_counts e) = 6"
  using search_v2_optimal [of 6 "[]" v2_pair "uniform 100 6" 0] v2_pair_ok
  by (auto simp: links_ok_def evaluated_ok_def)

text \<open>C26: for a dense model the v2 search never predicts a worse decode time per token than v1's
  evaluation of the same participant set: v1's shares and stage order are in its family.\<close>

theorem search_v2_never_worse_than_v1:
  assumes "0 < n" "n < M32" "links_ok links" "\<forall>c \<in> set cs. cand_ok c" "length cs \<le> MAX_NODES"
    "\<not> moe_scaled dims" "evaluate cs n links = Ok (Some e1)" "search_v2 cs n links dims ub = Ok (Some e2)"
  shows "flt_le (v2_tpt e2) (ev_tpt e1)"
proof -
  have fits: "n \<le> caps_of cs" using search_v2_spec(1) [OF assms(1-5)] assms(8) by (cases "caps_of cs < n") auto
  obtain counts quotas order rtts where
    v1: "apportion (map (Tilt_score THybrid) cs) (map cd_cap_layers cs) n = Ok (Some (counts, quotas))"
      "order_stages cs counts links = Ok (order, rtts)"
      "ev_tpt e1 = fadd (foldl fmax (Fin 0) (map (stage_ms cs counts) order)) (fsum rtts)"
    by (rule evaluate_cases [OF assms(7)])
  obtain family where "family_counts cs n = Ok family"
      "\<lparr>fc_tilt = THybrid, fc_underweighted = False, fc_counts = counts\<rparr> \<in> set family"
    using family_counts_spec [OF assms(4,5,1,2)] v1(1) by metis
  moreover obtain os where "enumerate_orders cs counts links = Ok os" "order \<in> set os"
      "\<forall>o' \<in> set os. mset o' = mset (active_set cs counts)"
    using enumerate_orders_spec [OF assms(3), of cs counts] v1(2) by metis
  ultimately have pl: "placement_of cs n links (\<lparr>fc_tilt = THybrid, fc_underweighted = False, fc_counts = counts\<rparr>, order)"
    and m: "mset order = mset (active_set cs counts)"
    by (auto simp: placement_of_def)
  have co: "length counts = length cs" "sum_list counts = n"
    using apportion_cands(3) [OF assms(4,5,1,2)] Tilt_score_scored v1(1) by blast+
  have "sum_list (map ((!) counts) order) = n"
    using sum_list_map_mset_cong [OF m, of "(!) counts"] sum_active [OF co(1)] co(2) by simp
  with assms(2) have cm: "compute_ms dims cs counts order = foldl fmax (Fin 0) (map (stage_ms cs counts) order)"
    by (intro compute_ms_dense [OF assms(6)]) simp
  have rt: "rtts = chain_rtts cs links order" using order_stages_spec [OF assms(3), of cs counts] v1(2) by auto
  obtain e k v fc ord where s: "search_v2 cs n links dims ub = Ok (Some (e\<lparr>v2_considered := k\<rparr>))"
      "e = eval_order cs links dims ub v fc ord"
      "\<forall>fc' ord'. placement_of cs n links (fc', ord') \<longrightarrow>
         \<not> better_eval (eval_order cs links dims ub v fc' ord') e"
    using search_v2_spec(2) [OF assms(1-5) fits] by blast
  let ?e1 = "eval_order cs links dims ub v \<lparr>fc_tilt = THybrid, fc_underweighted = False, fc_counts = counts\<rparr> order"
  have "v2_tpt ?e1 = ev_tpt e1" by (simp add: eval_order_def Let_def cm rt v1(3))
  moreover have "\<not> flt_lt (v2_tpt ?e1) (v2_tpt e)" using s(3) pl by (auto simp: better_eval_def)
  moreover have "v2_tpt e2 = v2_tpt e" using s(1) assms(8) by simp
  moreover have "nonneg_flt (v2_tpt e)" "nonneg_flt (v2_tpt ?e1)"
    using eval_order_nonneg [OF assms(3)] by (simp_all add: s(2))
  ultimately show ?thesis using flt_leI by metis
qed

theorem search_v2_never_worse_than_v1_witness:
  "\<exists>e1 e2. evaluate v2_pair 6 [] = Ok (Some e1) \<and> search_v2 v2_pair 6 [] (uniform 100 6) 0 = Ok (Some e2)
    \<and> flt_le (v2_tpt e2) (ev_tpt e1)"
proof -
  have n: "0 < (6::nat)" "6 < M32" "links_ok []" by (simp_all add: links_ok_def)
  have c: "6 \<le> caps_of v2_pair" by (simp add: v2_pair_ok(3))
  obtain e1 where e1: "evaluate v2_pair 6 [] = Ok (Some e1)" using evaluate_spec(2) [OF n v2_pair_ok(1,2) c] by blast
  obtain e2 where e2: "search_v2 v2_pair 6 [] (uniform 100 6) 0 = Ok (Some e2)"
    using search_v2_spec(2) [OF n v2_pair_ok(1,2) c] by blast
  have "\<not> moe_scaled (uniform 100 6)" by (simp add: moe_scaled_def uniform_def Let_def)
  from search_v2_never_worse_than_v1 [OF n v2_pair_ok(1,2) this e1 e2] e1 e2 show ?thesis by blast
qed

end
