(* ===== verification/Split.thy ===== *)
theory Split
  imports Text
begin

text \<open>
  \<open>onebrain-models/src/split.rs\<close>: the names of the parts of a split GGUF model,
  \<open><prefix>-%05d-of-%05d.gguf\<close>. The theory shows that parsing and printing a part name are
  inverse, so that any one part names the whole set, and that the URL of a sibling part does
  not depend on which part it was derived from.
\<close>

section \<open>The code\<close>

record SplitName =
  sn_prefix :: string
  sn_index :: u32
  sn_count :: u32

definition part_file_name :: "SplitName \<Rightarrow> u32 \<Rightarrow> string" where
  "part_file_name s index = sn_prefix s @ ''-'' @ pad5 index @ ''-of-'' @ pad5 (sn_count s) @ ''.gguf''"

definition part_file_names :: "SplitName \<Rightarrow> string list" where
  "part_file_names s = map (part_file_name s) [1..<Suc (sn_count s)]"

definition TAIL :: usize where "TAIL = 15"

text \<open>The closure \<open>digits\<close> of the parser, on the bytes \<open>a..b\<close> of the tail.\<close>

definition tail_digits :: "string \<Rightarrow> usize \<Rightarrow> usize \<Rightarrow> u32 option" where
  "tail_digits tail a b =
     (let ds = take (b - a) (drop a tail) in
      if list_all is_ascii_digit ds then parse_u32 ds else None)"

definition parse_split_name :: "string \<Rightarrow> SplitName option" where
  "parse_split_name file_name =
     (if \<not> ends_with (to_ascii_lowercase file_name) ''.gguf'' then None
      else
        let stem = take (length file_name - length ''.gguf'') file_name in
        if length stem \<le> TAIL \<or> \<not> is_char_boundary stem (length stem - TAIL) then None
        else
          let prefix = take (length stem - TAIL) stem;
              tail = drop (length stem - TAIL) stem in
          if tail ! 0 \<noteq> CHR ''-'' \<or> take 4 (drop 6 tail) \<noteq> ''-of-'' then None
          else case tail_digits tail 1 6 of
            None \<Rightarrow> None
          | Some index \<Rightarrow> (case tail_digits tail 10 15 of
              None \<Rightarrow> None
            | Some n \<Rightarrow>
                if index = 0 \<or> n = 0 \<or> n < index then None
                else Some \<lparr>sn_prefix = prefix, sn_index = index, sn_count = n\<rparr>))"

definition is_split_ref :: "string \<Rightarrow> bool" where
  "is_split_ref model_ref =
     (parse_split_name (last (split_on (\<lambda>c. c = CHR ''/'' \<or> c = CHR 92) model_ref)) \<noteq> None)"

definition sibling_url :: "string \<Rightarrow> string \<Rightarrow> string" where
  "sibling_url url name =
     (let ends = (\<lambda>c. c = CHR ''?'' \<or> c = CHR ''#'');
          path = takeWhile (\<lambda>c. \<not> ends c) url;
          suffix = dropWhile (\<lambda>c. \<not> ends c) url in
      if CHR ''/'' \<in> set path
      then rev (dropWhile (\<lambda>c. c \<noteq> CHR ''/'') (rev path)) @ name @ suffix
      else name @ suffix)"

section \<open>Parsing and printing\<close>

lemma parse_u32_pad5: "n < 100000 \<Longrightarrow> parse_u32 (pad5 n) = Some n"
proof -
  assume n: "n < 100000"
  obtain c cs where cs: "pad5 n = c # cs" using n length_pad5 [of n] by (cases "pad5 n") auto
  have "is_ascii_digit c" using pad5_digits [of n] by (simp add: cs)
  then have "c \<noteq> CHR ''+''" by (auto simp: is_ascii_digit_def digit_of_def)
  then show ?thesis using n pad5_value [of n] by (simp add: parse_u32_def parse_unsigned_def cs)
qed

lemma parse_u32_digits:
  assumes "list_all is_ascii_digit ds" "parse_u32 ds = Some v"
  shows "digits_value 0 ds = Some v"
proof -
  obtain c cs where cs: "ds = c # cs" using assms(2) by (cases ds) (auto simp: parse_u32_def parse_unsigned_def)
  then have "c \<noteq> CHR ''+''" using assms(1) by (auto simp: is_ascii_digit_def digit_of_def)
  then show ?thesis using assms(2) by (auto simp: parse_u32_def parse_unsigned_def cs split: option.splits if_splits)
qed

lemma tail_digits_pad5:
  assumes "tail_digits t a (a + 5) = Some v" "a + 5 \<le> length t"
  shows "take 5 (drop a t) = pad5 v" "v < 100000"
proof -
  let ?ds = "take 5 (drop a t)"
  have d: "list_all is_ascii_digit ?ds" "parse_u32 ?ds = Some v"
    using assms(1) by (auto simp: tail_digits_def Let_def split: if_splits)
  have v: "digits_value 0 ?ds = Some v" by (rule parse_u32_digits [OF d])
  have l: "length ?ds = 5" using assms(2) by simp
  show n: "v < 100000" using digits_value_bound [OF v] l by simp
  show "?ds = pad5 v" by (rule digits_value_inj [OF _ v]) (use l n in simp_all)
qed

definition split_ok :: "SplitName \<Rightarrow> bool" where
  "split_ok s \<longleftrightarrow> sn_prefix s \<noteq> [] \<and> 1 \<le> sn_index s \<and> sn_index s \<le> sn_count s \<and> sn_count s < 100000"

lemma tail_parts:
  assumes "length a = 5" "length b = 5"
  defines "t \<equiv> CHR ''-'' # a @ ''-of-'' @ b"
  shows "length t = TAIL" "t ! 0 = CHR ''-''" "take 4 (drop 6 t) = ''-of-''" "take 5 (drop 1 t) = a"
    "take 5 (drop 10 t) = b"
  using assms by (simp_all add: TAIL_def)

lemma tail_cut:
  assumes "length t = 15"
  shows "t = take 1 t @ take 5 (drop 1 t) @ take 4 (drop 6 t) @ take 5 (drop 10 t)"
proof -
  have "t = take (1 + (5 + (4 + 5))) t" using assms by simp
  also have "\<dots> = take 1 t @ take 5 (drop 1 t) @ take 4 (drop 5 (drop 1 t)) @ take 5 (drop 4 (drop 5 (drop 1 t)))"
    by (simp only: take_add)
  finally show ?thesis by simp
qed

lemma take_one: "t ! 0 = c \<Longrightarrow> 0 < length t \<Longrightarrow> take 1 t = [c]"
  by (cases t) simp_all

lemma parse_part_file_name:
  assumes "split_ok s" "1 \<le> i" "i \<le> sn_count s"
  shows "parse_split_name (part_file_name s i) = Some (s\<lparr>sn_index := i\<rparr>)"
proof -
  let ?p = "sn_prefix s" and ?n = "sn_count s"
  let ?t = "CHR ''-'' # pad5 i @ ''-of-'' @ pad5 ?n"
  have n: "i < 100000" "?n < 100000" using assms by (simp_all add: split_ok_def)
  note t = tail_parts [OF length_pad5 [OF n(1)] length_pad5 [OF n(2)]]
  have f: "part_file_name s i = (?p @ ?t) @ ''.gguf''" by (simp add: part_file_name_def)
  have low: "to_ascii_lowercase ''.gguf'' = ''.gguf''" by (simp add: to_ascii_lowercase_def ascii_lower_def)
  have e: "ends_with (to_ascii_lowercase (part_file_name s i)) ''.gguf''"
    unfolding f to_ascii_lowercase_def map_append low [unfolded to_ascii_lowercase_def] by (rule ends_with_append)
  have stem: "take (length (part_file_name s i) - length ''.gguf'') (part_file_name s i) = ?p @ ?t"
    unfolding f by (simp only: length_append diff_add_inverse2 take_append diff_self_eq_0 take0 take_all order_refl append_Nil2)
  have len: "length (?p @ ?t) - TAIL = length ?p" using t(1) by simp
  have nz: "\<not> length (?p @ ?t) \<le> TAIL" using t(1) assms(1) by (simp add: split_ok_def)
  have b: "is_char_boundary (?p @ ?t) (length ?p)" by (simp add: is_char_boundary_def nth_append)
  have d: "tail_digits ?t 1 6 = Some i" "tail_digits ?t 10 15 = Some ?n"
    using t(4,5) parse_u32_pad5 [OF n(1)] parse_u32_pad5 [OF n(2)] pad5_digits
    by (simp_all add: tail_digits_def)
  have pt: "take (length ?p) (?p @ ?t) = ?p" "drop (length ?p) (?p @ ?t) = ?t" by simp_all
  show ?thesis
    unfolding parse_split_name_def Let_def stem len pt
    using e nz b d t(2,3) assms by simp
qed

text \<open>What a parsed name looks like: the prefix, the tail, and a suffix that is \<open>.gguf\<close> up to case.\<close>

lemma parse_split_name_cases:
  assumes "parse_split_name f = Some s"
  shows "split_ok s" "part_file_name s (sn_index s) = take (length f - 5) f @ ''.gguf''"
proof -
  let ?stem = "take (length f - length ''.gguf'') f"
  let ?p = "take (length ?stem - TAIL) ?stem" and ?t = "drop (length ?stem - TAIL) ?stem"
  obtain i n where c: "\<not> length ?stem \<le> TAIL" "?t ! 0 = CHR ''-''" "take 4 (drop 6 ?t) = ''-of-''"
      "tail_digits ?t 1 6 = Some i" "tail_digits ?t 10 15 = Some n" "i \<noteq> 0" "n \<noteq> 0" "\<not> n < i"
      "s = \<lparr>sn_prefix = ?p, sn_index = i, sn_count = n\<rparr>"
    using assms unfolding parse_split_name_def Let_def by (auto split: if_splits option.splits)
  have lt: "length ?t = 15" using c(1) by (simp add: TAIL_def)
  have i: "take 5 (drop 1 ?t) = pad5 i" "i < 100000"
    using tail_digits_pad5 [of ?t 1 i] c(4) lt by simp_all
  have n: "take 5 (drop 10 ?t) = pad5 n" "n < 100000"
    using tail_digits_pad5 [of ?t 10 n] c(5) lt by simp_all
  have "?t = take 1 ?t @ take 5 (drop 1 ?t) @ take 4 (drop 6 ?t) @ take 5 (drop 10 ?t)"
    by (rule tail_cut [OF lt])
  also have "take 1 ?t = ''-''" by (rule take_one [OF c(2)]) (simp only: lt)
  finally have t: "?t = ''-'' @ pad5 i @ ''-of-'' @ pad5 n" unfolding i(1) n(1) c(3) .
  have "?p \<noteq> []" using c(1) by (auto simp: TAIL_def)
  then show "split_ok s" using c(6-9) n(2) by (simp add: split_ok_def)
  have "?stem = ?p @ ?t" by (simp only: append_take_drop_id)
  then have st: "?stem = ?p @ ''-'' @ pad5 i @ ''-of-'' @ pad5 n" unfolding t .
  have "part_file_name s (sn_index s) = (?p @ ''-'' @ pad5 i @ ''-of-'' @ pad5 n) @ ''.gguf''"
    by (simp only: part_file_name_def c(9) SplitName.simps append_assoc)
  then have "part_file_name s (sn_index s) = ?stem @ ''.gguf''" unfolding st [symmetric] .
  then show "part_file_name s (sn_index s) = take (length f - 5) f @ ''.gguf''" by (simp add: numeral_eq_Suc)
qed

section \<open>Properties\<close>

text \<open>Parsing and printing the part names of a split model are inverse. A printed part name of a set
  of at most 99999 parts parses back to its prefix, index and part count; a name that parses
  is what printing gives, up to the case of its suffix; and every part name of a parsed set
  parses to the same set, so any one part names all its siblings.\<close>

theorem split_name_round_trip:
  shows "(split_ok s \<and> 1 \<le> i \<and> i \<le> sn_count s \<longrightarrow> parse_split_name (part_file_name s i) = Some (s\<lparr>sn_index := i\<rparr>))
    \<and> (parse_split_name f = Some s \<longrightarrow>
        split_ok s \<and> part_file_name s (sn_index s) = take (length f - 5) f @ ''.gguf''
        \<and> part_file_name s (sn_index s) \<in> set (part_file_names s)
        \<and> (\<forall>p \<in> set (part_file_names s). \<exists>k. parse_split_name p = Some (s\<lparr>sn_index := k\<rparr>)))"
proof (intro conjI impI)
  assume "split_ok s \<and> 1 \<le> i \<and> i \<le> sn_count s"
  then show "parse_split_name (part_file_name s i) = Some (s\<lparr>sn_index := i\<rparr>)"
    by (simp add: parse_part_file_name)
next
  assume f: "parse_split_name f = Some s"
  note c = parse_split_name_cases [OF f]
  show "split_ok s" "part_file_name s (sn_index s) = take (length f - 5) f @ ''.gguf''" by (rule c)+
  show "part_file_name s (sn_index s) \<in> set (part_file_names s)"
    using c(1) by (simp add: part_file_names_def split_ok_def del: upt_Suc)
  show "\<forall>p \<in> set (part_file_names s). \<exists>k. parse_split_name p = Some (s\<lparr>sn_index := k\<rparr>)"
    using parse_part_file_name [OF c(1)] by (auto simp: part_file_names_def less_Suc_eq_le simp del: upt_Suc)
qed

theorem split_name_round_trip_witness:
  "parse_split_name ''m-00002-of-00003.gguf'' = Some \<lparr>sn_prefix = ''m'', sn_index = 2, sn_count = 3\<rparr>"
proof -
  let ?s = "\<lparr>sn_prefix = ''m'', sn_index = 2, sn_count = 3\<rparr>"
  have "pad5 2 = ''00002''" "pad5 3 = ''00003''"
    by code_simp+
  then have "part_file_name ?s 2 = ''m-00002-of-00003.gguf''" by (simp add: part_file_name_def)
  then show ?thesis using split_name_round_trip [of ?s 2 "[]"] by (simp add: split_ok_def)
qed

text \<open>The path of a URL up to its last slash does not change when the last segment is swapped.\<close>

definition url_mark :: "char \<Rightarrow> bool" where
  "url_mark c \<longleftrightarrow> c = CHR ''?'' \<or> c = CHR ''#''"

definition segment :: "string \<Rightarrow> bool" where
  "segment s \<longleftrightarrow> (\<forall>c \<in> set s. \<not> url_mark c \<and> c \<noteq> CHR ''/'')"

lemma sibling_url_eq:
  "sibling_url url name =
     rev (dropWhile (\<lambda>c. c \<noteq> CHR ''/'') (rev (takeWhile (\<lambda>c. \<not> url_mark c) url))) @ name
       @ dropWhile (\<lambda>c. \<not> url_mark c) url"
proof -
  have "dropWhile (\<lambda>c. c \<noteq> CHR ''/'') (rev p) = []" if "CHR ''/'' \<notin> set p" for p
    using that by (simp add: dropWhile_eq_Nil_conv) metis
  then show ?thesis by (auto simp: sibling_url_def url_mark_def Let_def)
qed

text \<open>The URL of a sibling part does not depend on the part it is derived from: swapping the last
  path segment of a URL and then swapping it again gives what the second swap alone gives,
  query string and fragment included.\<close>

theorem sibling_url_of_sibling:
  assumes "segment p"
  shows "sibling_url (sibling_url url p) q = sibling_url url q"
proof -
  let ?path = "takeWhile (\<lambda>c. \<not> url_mark c) url" and ?suf = "dropWhile (\<lambda>c. \<not> url_mark c) url"
  let ?base = "rev (dropWhile (\<lambda>c. c \<noteq> CHR ''/'') (rev ?path))"
  have base: "\<forall>c \<in> set ?base. \<not> url_mark c" by (auto dest!: set_dropWhileD set_takeWhileD)
  have clean: "\<forall>c \<in> set (?base @ p). \<not> url_mark c" using base assms by (auto simp: segment_def)
  have suf: "takeWhile (\<lambda>c. \<not> url_mark c) ?suf = []"
    by (induction url) simp_all
  have "takeWhile (\<lambda>c. \<not> url_mark c) ((?base @ p) @ ?suf) = ?base @ p"
    using clean suf by (subst takeWhile_append2) simp_all
  moreover have "dropWhile (\<lambda>c. \<not> url_mark c) ((?base @ p) @ ?suf) = ?suf"
    using clean by (subst dropWhile_append2) (simp_all add: dropWhile_idem)
  moreover have "dropWhile (\<lambda>c. c \<noteq> CHR ''/'') (rev (?base @ p)) = dropWhile (\<lambda>c. c \<noteq> CHR ''/'') (rev ?base)"
    using assms unfolding rev_append by (subst dropWhile_append2) (auto simp: segment_def)
  moreover have "dropWhile (\<lambda>c. c \<noteq> CHR ''/'') (rev ?base) = rev ?base" by (simp add: dropWhile_idem)
  ultimately show ?thesis by (simp add: sibling_url_eq)
qed

theorem sibling_url_of_sibling_witness:
  "sibling_url (sibling_url ''h/r/a?x=1'' ''b'') ''c'' = ''h/r/c?x=1''"
proof -
  have "sibling_url ''h/r/a?x=1'' ''c'' = ''h/r/c?x=1''" by (simp add: sibling_url_def)
  then show ?thesis using sibling_url_of_sibling [of "''b''" "''h/r/a?x=1''" "''c''"]
    by (simp add: segment_def url_mark_def)
qed

end
