(* ===== verification/TextOrder.thy ===== *)
theory TextOrder
  imports Text "HOL-Library.Product_Lexorder" "HOL-Library.List_Lexorder"
begin

text \<open>
  The lexicographic \<open>Ord\<close> the standard library gives to vectors and to strings (byte by byte), and
  that it is the order of a key, so that a sort by it is a sort by a linear order.
\<close>

fun list_cmp :: "('a \<Rightarrow> 'a \<Rightarrow> ordering) \<Rightarrow> 'a list \<Rightarrow> 'a list \<Rightarrow> ordering" where
  "list_cmp c [] [] = Equal"
| "list_cmp c [] (y # ys) = Less"
| "list_cmp c (x # xs) [] = Greater"
| "list_cmp c (x # xs) (y # ys) = ord_then (c x y) (list_cmp c xs ys)"

definition byte_cmp :: "char \<Rightarrow> char \<Rightarrow> ordering" where
  "byte_cmp a b = cmp (of_char a :: nat) (of_char b)"

definition str_cmp :: "string \<Rightarrow> string \<Rightarrow> ordering" where
  "str_cmp a b = list_cmp byte_cmp a b"

lemma list_cmp_key:
  assumes "\<And>x y. c x y = cmp (f x) (f y :: 'b :: linorder)"
  shows "list_cmp c xs ys = cmp (map f xs) (map f ys)"
  by (induction xs ys rule: list_induct2') (auto simp: assms cmp_def less_list_code split: if_splits)

abbreviation str_key :: "string \<Rightarrow> nat list" where
  "str_key s \<equiv> map of_char s"

lemma str_cmp_key: "str_cmp s t = cmp (str_key s) (str_key t)"
  unfolding str_cmp_def by (rule list_cmp_key) (simp add: byte_cmp_def)

lemma str_key_inj [simp]: "str_key s = str_key t \<longleftrightarrow> s = t"
  by (auto dest: map_injective simp: inj_on_def)

text \<open>A comparison by a key sorts by that key.\<close>

lemma sorted_sort_by_key:
  assumes "\<And>a b. c a b = cmp (f a) (f b :: 'k :: linorder)"
  shows "sorted_wrt (\<lambda>a b. f a \<le> f b) (sort_by c xs)"
proof -
  have "sorted_wrt (\<lambda>a b. c a b \<noteq> Greater) (sort_by c xs)"
    by (rule sorted_wrt_sort_by) (auto simp: assms)
  then show ?thesis by (simp add: assms not_less)
qed

lemma cmp_then_key: "ord_then (cmp a b) (cmp c d) = cmp (a, c) (b, d :: 'b :: linorder)"
  by (auto simp: cmp_def less_prod_def split: if_splits)

end
