(* ===== verification/Version.thy ===== *)
theory Version
  imports TextOrder
begin

text \<open>
  \<open>onebrain-cli/src/update/version.rs\<close>: release versions, their parser, their display and the
  SemVer precedence that decides between update and downgrade. The hand-written \<open>Ord\<close> is shown
  to be a total order (it instantiates \<open>linorder\<close>), and display and parser to be inverse.
\<close>

section \<open>The code\<close>

datatype PreId = Num u64 | Alpha string

datatype Version = Version (v_major: u64) (v_minor: u64) (v_patch: u64) (v_pre: "PreId list")

text \<open>The derived \<open>Ord\<close> of \<open>PreId\<close>.\<close>

fun PreId_cmp :: "PreId \<Rightarrow> PreId \<Rightarrow> ordering" where
  "PreId_cmp (Num m) (Num n) = cmp m n"
| "PreId_cmp (Num _) (Alpha _) = Less"
| "PreId_cmp (Alpha _) (Num _) = Greater"
| "PreId_cmp (Alpha a) (Alpha b) = str_cmp a b"

definition Version_cmp :: "Version \<Rightarrow> Version \<Rightarrow> ordering" where
  "Version_cmp v w =
     ord_then (ord_then (ord_then (cmp (v_major v) (v_major w)) (cmp (v_minor v) (v_minor w)))
         (cmp (v_patch v) (v_patch w)))
       (case (v_pre v = [], v_pre w = []) of
          (True, True) \<Rightarrow> Equal
        | (True, False) \<Rightarrow> Greater
        | (False, True) \<Rightarrow> Less
        | (False, False) \<Rightarrow> list_cmp PreId_cmp (v_pre v) (v_pre w))"

datatype VersionError = NotAVersion | NotANumber string | TooManyComponents | EmptyIdentifier | PreOutOfRange

definition parse_num :: "string option \<Rightarrow> (u64, VersionError) res" where
  "parse_num part = (case part of
     None \<Rightarrow> Err NotAVersion
   | Some p \<Rightarrow> if p = [] then Err NotAVersion
       else (case parse_usize p of None \<Rightarrow> Err (NotANumber p) | Some n \<Rightarrow> Ok n))"

text \<open>One identifier of the pre-release part.\<close>

definition parse_id :: "PreId list \<Rightarrow> string \<Rightarrow> (PreId list, VersionError) res" where
  "parse_id pre ident =
     (if ident = [] then Err EmptyIdentifier
      else if list_all is_ascii_digit ident then
        (case parse_usize ident of None \<Rightarrow> Err PreOutOfRange | Some n \<Rightarrow> Ok (pre @ [Num n]))
      else Ok (pre @ [Alpha ident]))"

definition nth_piece :: "string list \<Rightarrow> nat \<Rightarrow> string option" where
  "nth_piece xs i = (if i < length xs then Some (xs ! i) else None)"

definition is_v :: "char \<Rightarrow> bool" where "is_v c = (c = CHR ''v'' \<or> c = CHR ''V'')"

definition parse_version :: "string \<Rightarrow> (Version, VersionError) res" where
  "parse_version txt =
     (let trimmed = dropWhile is_v (trim txt);
          no_build = takeWhile (\<lambda>c. c \<noteq> CHR ''+'') trimmed;
          core = takeWhile (\<lambda>c. c \<noteq> CHR ''-'') no_build;
          pre_text = (case dropWhile (\<lambda>c. c \<noteq> CHR ''-'') no_build of [] \<Rightarrow> None | _ # p \<Rightarrow> Some p);
          nums = split_on (\<lambda>c. c = CHR ''.'') core in
      res_bind (parse_num (nth_piece nums 0)) (\<lambda>major.
      res_bind (parse_num (nth_piece nums 1)) (\<lambda>minor.
      res_bind (case nth_piece nums 2 of Some part \<Rightarrow> parse_num (Some part) | None \<Rightarrow> Ok 0) (\<lambda>patch.
        if 3 < length nums then Err TooManyComponents
        else res_bind (case pre_text of
               None \<Rightarrow> Ok []
             | Some p \<Rightarrow> fold_res parse_id [] (split_on (\<lambda>c. c = CHR ''.'') p))
          (\<lambda>pre. Ok (Version major minor patch pre))))))"

fun show_id :: "PreId \<Rightarrow> string" where
  "show_id (Num n) = dec n"
| "show_id (Alpha a) = a"

definition show_version :: "Version \<Rightarrow> string" where
  "show_version v = dec (v_major v) @ ''.'' @ dec (v_minor v) @ ''.'' @ dec (v_patch v) @
     concat (map (\<lambda>(i, ident). (if i = 0 then ''-'' else ''.'') @ show_id ident) (enumerate 0 (v_pre v)))"

section \<open>The order is total\<close>

text \<open>A key whose lexicographic order is the precedence.\<close>

fun id_key :: "PreId \<Rightarrow> nat \<times> nat list" where
  "id_key (Num n) = (0, [n])"
| "id_key (Alpha a) = (1, map of_char a)"

definition version_key :: "Version \<Rightarrow> (nat \<times> nat \<times> nat) \<times> nat \<times> (nat \<times> nat list) list" where
  "version_key v = ((v_major v, v_minor v, v_patch v), (if v_pre v = [] then 1 else 0), map id_key (v_pre v))"

lemma PreId_cmp_key: "PreId_cmp a b = cmp (id_key a) (id_key b)"
proof -
  show ?thesis by (cases a; cases b) (auto simp: str_cmp_key cmp_def less_prod_def less_list_code)
qed

lemma Version_cmp_key: "Version_cmp v w = cmp (version_key v) (version_key w)"
proof -
  have pre: "list_cmp PreId_cmp p q = cmp (map id_key p) (map id_key q)" for p q
    by (rule list_cmp_key) (rule PreId_cmp_key)
  show ?thesis
    by (auto simp: Version_cmp_def version_key_def pre cmp_def less_prod_def split: if_splits)
qed

lemma id_key_inj: "id_key a = id_key b \<Longrightarrow> a = b"
  by (cases a; cases b) (auto dest: map_injective simp: inj_on_def)

lemma version_key_inj: "version_key v = version_key w \<longleftrightarrow> v = w"
proof
  assume k: "version_key v = version_key w"
  then have "v_pre v = v_pre w"
    unfolding version_key_def using map_injective [of id_key] id_key_inj by (auto simp: inj_on_def)
  with k show "v = w" by (cases v; cases w) (simp add: version_key_def)
qed simp

instantiation Version :: linorder
begin

definition less_eq_Version :: "Version \<Rightarrow> Version \<Rightarrow> bool" where
  "v \<le> w \<longleftrightarrow> Version_cmp v w \<noteq> Greater"

definition less_Version :: "Version \<Rightarrow> Version \<Rightarrow> bool" where
  "v < w \<longleftrightarrow> Version_cmp v w = Less"

instance
proof
  have le: "v \<le> w \<longleftrightarrow> version_key v \<le> version_key w" for v w :: Version
    by (auto simp: less_eq_Version_def Version_cmp_key cmp_def)
  have lt: "v < w \<longleftrightarrow> version_key v < version_key w" for v w :: Version
    by (auto simp: less_Version_def Version_cmp_key cmp_def)
  fix x y z :: Version
  show "x < y \<longleftrightarrow> x \<le> y \<and> \<not> y \<le> x" by (auto simp: le lt)
  show "x \<le> x" by (simp add: le)
  show "x \<le> y \<Longrightarrow> y \<le> z \<Longrightarrow> x \<le> z" unfolding le by (rule order_trans)
  show "x \<le> y \<Longrightarrow> y \<le> x \<Longrightarrow> x = y" unfolding le version_key_inj [symmetric] by (rule antisym)
  show "x \<le> y \<or> y \<le> x" unfolding le by (rule linear)
qed

end

section \<open>Display and parser\<close>

definition plain :: "char \<Rightarrow> bool" where
  "plain c \<longleftrightarrow> c \<noteq> CHR ''.'' \<and> c \<noteq> CHR ''+'' \<and> \<not> is_ws c"

fun id_ok :: "PreId \<Rightarrow> bool" where
  "id_ok (Num n) = (n < M64)"
| "id_ok (Alpha a) = (a \<noteq> [] \<and> \<not> list_all is_ascii_digit a \<and> (\<forall>c \<in> set a. plain c))"

definition version_ok :: "Version \<Rightarrow> bool" where
  "version_ok v \<longleftrightarrow> v_major v < M64 \<and> v_minor v < M64 \<and> v_patch v < M64 \<and> (\<forall>p \<in> set (v_pre v). id_ok p)"

lemma dec_plain: "c \<in> set (dec n) \<Longrightarrow> plain c \<and> c \<noteq> CHR ''-'' \<and> \<not> is_v c"
  using dec_bytes [of c n] by (auto simp: plain_def is_ws_def is_v_def Let_def)

lemma show_id_plain: "id_ok p \<Longrightarrow> c \<in> set (show_id p) \<Longrightarrow> plain c"
  using dec_plain by (cases p) auto

definition core_text :: "Version \<Rightarrow> string" where
  "core_text v = dec (v_major v) @ ''.'' @ dec (v_minor v) @ ''.'' @ dec (v_patch v)"

definition pre_text :: "PreId \<Rightarrow> PreId list \<Rightarrow> string" where
  "pre_text p ps = show_id p @ concat (map (\<lambda>ident. CHR ''.'' # show_id ident) ps)"

lemma show_version_eq:
  "show_version v = core_text v @ (case v_pre v of [] \<Rightarrow> [] | p # ps \<Rightarrow> CHR ''-'' # pre_text p ps)"
proof -
  have tail: "concat (map (\<lambda>(i, ident). (if i = 0 then ''-'' else ''.'') @ show_id ident) (enumerate (Suc k) ps)) =
      concat (map (\<lambda>ident. CHR ''.'' # show_id ident) ps)" for k ps
    by (induction ps arbitrary: k) simp_all
  show ?thesis by (cases "v_pre v") (simp_all add: show_version_def core_text_def pre_text_def tail)
qed

lemma core_text_chars: "c \<in> set (core_text v) \<Longrightarrow> c \<noteq> CHR ''-'' \<and> c \<noteq> CHR ''+'' \<and> \<not> is_ws c"
  using dec_plain by (auto simp: core_text_def plain_def is_ws_def)

lemma split_core: "split_on (\<lambda>c. c = CHR ''.'') (core_text v) = [dec (v_major v), dec (v_minor v), dec (v_patch v)]"
proof -
  have d: "\<forall>c \<in> set (dec n). \<not> c = CHR ''.''" for n using dec_plain by (auto simp: plain_def)
  show ?thesis by (simp add: core_text_def split_on_append [OF d] split_on_clean [OF d])
qed

lemma split_pre:
  assumes "\<forall>i \<in> set (p # ps). id_ok i"
  shows "split_on (\<lambda>c. c = CHR ''.'') (pre_text p ps) = map show_id (p # ps)"
  using assms
proof (induction ps arbitrary: p)
  case Nil
  then have "\<forall>c \<in> set (show_id p). \<not> c = CHR ''.''" using show_id_plain by (auto simp: plain_def)
  then show ?case by (simp add: pre_text_def split_on_clean)
next
  case (Cons q ps)
  then have d: "\<forall>c \<in> set (show_id p). \<not> c = CHR ''.''" using show_id_plain by (auto simp: plain_def)
  have "pre_text p (q # ps) = show_id p @ CHR ''.'' # pre_text q ps" by (simp add: pre_text_def)
  then show ?case using Cons by (simp add: split_on_append [OF d])
qed

lemma pre_text_chars:
  assumes "\<forall>i \<in> set (p # ps). id_ok i" "c \<in> set (pre_text p ps)"
  shows "c \<noteq> CHR ''+'' \<and> \<not> is_ws c"
proof -
  have "(\<exists>i \<in> set (p # ps). c \<in> set (show_id i)) \<or> c = CHR ''.''"
    using assms(2) by (auto simp: pre_text_def split: if_splits)
  moreover have "plain c" if "i \<in> set (p # ps)" "c \<in> set (show_id i)" for i
    using that assms(1) show_id_plain by blast
  ultimately show ?thesis by (auto simp: plain_def is_ws_def)
qed

lemma parse_id_show: "id_ok p \<Longrightarrow> parse_id acc (show_id p) = Ok (acc @ [p])"
  using dec_digits by (cases p) (simp_all add: parse_id_def parse_usize_def parse_unsigned_dec)

lemma parse_ids_show: "\<forall>p \<in> set ps. id_ok p \<Longrightarrow> fold_res parse_id acc (map show_id ps) = Ok (acc @ ps)"
  by (induction ps arbitrary: acc) (simp_all add: parse_id_show)

lemma trim_clean: "\<forall>c \<in> set s. \<not> is_ws c \<Longrightarrow> trim s = s"
proof -
  assume s: "\<forall>c \<in> set s. \<not> is_ws c"
  have a: "dropWhile is_ws s = s" if "\<forall>c \<in> set s. \<not> is_ws c" for s using that by (cases s) simp_all
  show "trim s = s" using a [of s] a [of "rev s"] s by (simp add: trim_def)
qed

lemma parse_num_dec: "n < M64 \<Longrightarrow> parse_num (Some (dec n)) = Ok n"
  by (simp add: parse_num_def parse_usize_def parse_unsigned_dec)

lemma parse_show:
  assumes "version_ok v"
  shows "parse_version (show_version v) = Ok v"
proof -
  let ?s = "show_version v"
  have ids: "\<forall>p \<in> set (v_pre v). id_ok p" using assms by (simp add: version_ok_def)
  have chars: "c \<noteq> CHR ''+'' \<and> \<not> is_ws c" if "c \<in> set ?s" for c
    using that ids core_text_chars [of c v] pre_text_chars
    by (cases "v_pre v") (auto simp: show_version_eq is_ws_def)
  have tr: "trim ?s = ?s" using chars by (intro trim_clean) simp
  obtain d ds where dd: "dec (v_major v) = d # ds" by (cases "dec (v_major v)") simp_all
  have "\<not> is_v d" using dec_plain [of d "v_major v"] dd by simp
  then have dv: "dropWhile is_v ?s = ?s" by (simp add: show_version_eq core_text_def dd)
  have nb: "takeWhile (\<lambda>c. c \<noteq> CHR ''+'') ?s = ?s" using chars by (simp add: takeWhile_eq_all_conv)
  have cl: "\<forall>c \<in> set (core_text v). c \<noteq> CHR ''-''" using core_text_chars by blast
  have core: "takeWhile (\<lambda>c. c \<noteq> CHR ''-'') ?s = core_text v"
    using cl by (cases "v_pre v") (simp_all add: show_version_eq takeWhile_append2)
  have rest: "dropWhile (\<lambda>c. c \<noteq> CHR ''-'') ?s = (case v_pre v of [] \<Rightarrow> [] | p # ps \<Rightarrow> CHR ''-'' # pre_text p ps)"
    using cl by (cases "v_pre v") (simp_all add: show_version_eq dropWhile_append2)
  have nums: "v_major v < M64" "v_minor v < M64" "v_patch v < M64" using assms by (simp_all add: version_ok_def)
  have "(case (case v_pre v of [] \<Rightarrow> [] | p # ps \<Rightarrow> CHR ''-'' # pre_text p ps) of [] \<Rightarrow> None | _ # p \<Rightarrow> Some p) =
      (case v_pre v of [] \<Rightarrow> None | p # ps \<Rightarrow> Some (pre_text p ps))"
    by (simp split: list.split)
  then show ?thesis
    unfolding parse_version_def Let_def tr dv nb core rest split_core
    using nums ids
    by (cases v; cases "v_pre v") (simp_all add: nth_piece_def parse_num_dec split_pre parse_id_show parse_ids_show)
qed

text \<open>What the parser accepts from a text without white space is well-formed.\<close>

lemma parse_usize_less: "parse_usize s = Some n \<Longrightarrow> n < M64"
  by (auto simp: parse_usize_def parse_unsigned_def Let_def split: option.splits if_splits)

lemma parse_num_less: "parse_num p = Ok n \<Longrightarrow> n < M64"
  using parse_usize_less by (auto simp: parse_num_def split: option.splits if_splits)

lemma split_on_subset: "x \<in> set (split_on p s) \<Longrightarrow> c \<in> set x \<Longrightarrow> c \<in> set s \<and> \<not> p c"
proof (induction s arbitrary: x)
  case (Cons a s)
  obtain y ys where y: "split_on p s = y # ys" using split_on_not_Nil [of p s] by (cases "split_on p s") auto
  have ih: "\<forall>x \<in> set (y # ys). c \<in> set x \<longrightarrow> c \<in> set s \<and> \<not> p c" using Cons.IH y by simp
  show ?case using Cons.prems ih y by (cases "p a") auto
qed simp

lemma parse_ids_ok:
  assumes "fold_res parse_id acc xs = Ok ps" "\<forall>p \<in> set acc. id_ok p" "\<forall>x \<in> set xs. \<forall>c \<in> set x. plain c"
  shows "\<forall>p \<in> set ps. id_ok p"
  using assms
proof (induction xs arbitrary: acc)
  case (Cons x xs)
  then obtain acc' where a: "parse_id acc x = Ok acc'" "fold_res parse_id acc' xs = Ok ps"
    by (auto simp: res_bind_Ok_iff)
  have "\<forall>p \<in> set acc'. id_ok p"
    using a(1) Cons.prems(2,3) parse_usize_less by (auto simp: parse_id_def split: if_splits option.splits)
  with Cons.IH a(2) Cons.prems(3) show ?case by simp
qed simp

lemma parse_version_ok:
  assumes "parse_version t = Ok v" "\<forall>c \<in> set t. \<not> is_ws c"
  shows "version_ok v"
proof -
  let ?nb = "takeWhile (\<lambda>c. c \<noteq> CHR ''+'') (dropWhile is_v (trim t))"
  have sub: "c \<in> set t" if "c \<in> set (trim t)" for c
    using that by (auto simp: trim_def dest!: set_dropWhileD)
  have nb: "c \<noteq> CHR ''+'' \<and> \<not> is_ws c" if "c \<in> set ?nb" for c
    using that sub assms(2) by (auto dest!: set_takeWhileD set_dropWhileD)
  have piece: "plain c" if "dropWhile (\<lambda>c. c \<noteq> CHR ''-'') ?nb = d # p" "x \<in> set (split_on (\<lambda>c. c = CHR ''.'') p)" "c \<in> set x"
    for d p x c
  proof -
    have "c \<in> set p" "c \<noteq> CHR ''.''" using split_on_subset [OF that(2,3)] by auto
    moreover have "set p \<subseteq> set ?nb" using that(1) by (metis set_subset_Cons set_dropWhileD subset_iff)
    ultimately show ?thesis using nb by (auto simp: plain_def)
  qed
  let ?rest = "dropWhile (\<lambda>c. c \<noteq> CHR ''-'') ?nb"
  let ?nums = "split_on (\<lambda>c. c = CHR ''.'') (takeWhile (\<lambda>c. c \<noteq> CHR ''-'') ?nb)"
  obtain a b c pre where n: "parse_num (nth_piece ?nums 0) = Ok a" "parse_num (nth_piece ?nums 1) = Ok b"
      "(case nth_piece ?nums 2 of Some part \<Rightarrow> parse_num (Some part) | None \<Rightarrow> Ok 0) = Ok c"
      "(case (case ?rest of [] \<Rightarrow> None | _ # p \<Rightarrow> Some p) of None \<Rightarrow> Ok []
        | Some p \<Rightarrow> fold_res parse_id [] (split_on (\<lambda>c. c = CHR ''.'') p)) = Ok pre"
      "v = Version a b c pre"
    using assms(1) unfolding parse_version_def Let_def by (auto simp only: res_bind_Ok_iff res.inject res.distinct simp_thms split: if_splits)
  have "c < M64" using n(3) parse_num_less by (auto split: option.splits)
  moreover have "\<forall>p \<in> set pre. id_ok p"
  proof (cases ?rest)
    case Nil
    with n(4) show ?thesis by simp
  next
    case (Cons d p)
    with n(4) have "fold_res parse_id [] (split_on (\<lambda>c. c = CHR ''.'') p) = Ok pre" by simp
    then show ?thesis by (rule parse_ids_ok) (use piece [OF Cons] in simp_all)
  qed
  ultimately show ?thesis using n(1,2,5) parse_num_less by (auto simp: version_ok_def)
qed

section \<open>Properties\<close>

text \<open>C27: release versions are totally ordered by the hand-written comparison, equal only when identical;
  a release outranks every pre-release of the same core version, and numeric identifiers sort
  below alphanumeric ones.\<close>

theorem version_order_total:
  shows "(Version_cmp v w = Equal \<longleftrightarrow> v = w) \<and> (Version_cmp v w = Less \<longleftrightarrow> Version_cmp w v = Greater)
    \<and> (Version_cmp u v \<noteq> Greater \<and> Version_cmp v w \<noteq> Greater \<longrightarrow> Version_cmp u w \<noteq> Greater)
    \<and> (ps \<noteq> [] \<longrightarrow> Version_cmp (Version a b c ps) (Version a b c []) = Less)
    \<and> Version_cmp (Version a b c [Num n]) (Version a b c [Alpha s]) = Less"
proof (intro conjI impI)
  show "Version_cmp v w = Equal \<longleftrightarrow> v = w"
    by (simp add: Version_cmp_key cmp_def version_key_inj)
  show "Version_cmp v w = Less \<longleftrightarrow> Version_cmp w v = Greater"
    by (auto simp: Version_cmp_key cmp_def)
  show "Version_cmp u w \<noteq> Greater" if "Version_cmp u v \<noteq> Greater \<and> Version_cmp v w \<noteq> Greater"
    using that order_trans [of u v w] by (simp add: less_eq_Version_def)
qed (simp_all add: Version_cmp_def cmp_def)

theorem version_order_total_witness:
  "Version_cmp (Version 1 0 0 [Alpha ''rc'', Num 1]) (Version 1 0 0 []) = Less"
  using version_order_total [where ps = "[Alpha ''rc'', Num 1]" and a = 1 and b = 0 and c = 0] by blast

text \<open>Displaying a version and parsing it back gives the same version, for every version whose
  identifiers are well-formed, and every version the parser accepts from a text without white
  space is of that kind.\<close>

theorem version_display_parse:
  shows "(version_ok v \<longrightarrow> parse_version (show_version v) = Ok v)
    \<and> (parse_version t = Ok v \<and> (\<forall>c \<in> set t. \<not> is_ws c) \<longrightarrow> version_ok v \<and> parse_version (show_version v) = Ok v)"
  using parse_show parse_version_ok by blast

theorem version_display_parse_witness:
  "parse_version ''1.2.3-rc.1'' = Ok (Version 1 2 3 [Alpha ''rc'', Num 1])"
proof -
  let ?v = "Version 1 2 3 [Alpha ''rc'', Num 1]"
  have "show_version ?v = ''1.2.3-rc.1''" by code_simp
  moreover have "version_ok ?v"
    by (simp add: version_ok_def plain_def is_ws_def is_ascii_digit_def digit_of_def)
  ultimately show ?thesis using version_display_parse [of ?v "[]"] by simp
qed

end
