(* ===== verification/Update.thy ===== *)
theory Update
  imports Version
begin

text \<open>
  \<open>onebrain self-update\<close> (\<open>onebrain-cli/src/update/mod.rs\<close>, \<open>github.rs\<close>, \<open>swap.rs\<close>): the choice of
  the release asset, the checksum lookup, the version gate, the optional signature check and
  the swap of the executable.

  The releases API, the downloads, SHA-256, the \<open>cosign\<close> process and archive extraction are
  parameters (the record \<open>world\<close>). The executable, its parked copy and the staged copy are an
  explicit store, and every file operation of the swap may fail. The theory shows that a
  binary is only ever installed when its digest is the published one and the version gate
  allows it, and what the swap leaves at the executable's path in every failure.
\<close>

section \<open>Releases\<close>

record Asset =
  a_name :: string
  a_url :: string
  a_size :: u64

record Release =
  r_tag :: string
  r_assets :: "Asset list"

definition NON_PAYLOAD_SUFFIXES :: "string list" where
  "NON_PAYLOAD_SUFFIXES = [''.sha256'', ''.sig'', ''.pem'', ''.cert'', ''.crt'', ''.asc'', ''.msi'', ''.deb'',
     ''.rpm'', ''.txt'', ''.json'', ''.sbom'']"

definition payload_class :: "string \<Rightarrow> string \<Rightarrow> nat option" where
  "payload_class name triple =
     (if ends_with name ''.exe'' then Some 0
      else if ends_with name ''.tar.gz'' \<or> ends_with name ''.tgz'' then Some 1
      else if ends_with name ''.zip'' then Some 2
      else if ends_with name triple \<or> ends_with name ''universal-apple-darwin'' then Some 0
      else None)"

text \<open>One asset of the selection loop; \<open>None\<close> is its \<open>continue\<close>.\<close>

definition asset_class :: "string \<Rightarrow> Asset \<Rightarrow> nat option" where
  "asset_class triple a =
     (let name = a_name a;
          for_this_platform = (contains_str name triple
            \<or> ends_with triple ''apple-darwin'' \<and> contains_str name ''universal-apple-darwin'') in
      if \<not> starts_with name ''onebrain'' \<or> \<not> for_this_platform then None
      else if list_ex (ends_with name) NON_PAYLOAD_SUFFIXES then None
      else payload_class name triple)"

definition select_asset :: "Asset list \<Rightarrow> string \<Rightarrow> Asset option" where
  "select_asset assets triple = map_option snd
     (foldl (\<lambda>best asset. case asset_class triple asset of
          None \<Rightarrow> best
        | Some class \<Rightarrow> (case best of
            None \<Rightarrow> Some (class, asset)
          | Some (b, old) \<Rightarrow> if class < b then Some (class, asset) else Some (b, old)))
      None assets)"

definition find_named :: "Asset list \<Rightarrow> string \<Rightarrow> Asset option" where
  "find_named assets name = List.find (\<lambda>a. a_name a = name) assets"

definition is_hex :: "char \<Rightarrow> bool" where
  "is_hex c = (let v = of_char c :: nat in 48 \<le> v \<and> v \<le> 57 \<or> 65 \<le> v \<and> v \<le> 70 \<or> 97 \<le> v \<and> v \<le> 102)"

text \<open>One line of \<open>SHA256SUMS\<close>.\<close>

definition digest_line :: "string \<Rightarrow> string \<Rightarrow> string option" where
  "digest_line asset line = (case words_of line of
     digest # name # _ \<Rightarrow>
       if length digest \<noteq> 64 \<or> \<not> list_all is_hex digest then None
       else
         let name = dropWhile (\<lambda>c. c = CHR ''*'') name;
             file = last (split_on (\<lambda>c. c = CHR ''/'' \<or> c = CHR 92) name) in
         if file = asset then Some (to_ascii_lowercase digest) else None
   | _ \<Rightarrow> None)"

fun digest_in :: "string \<Rightarrow> string list \<Rightarrow> string option" where
  "digest_in asset [] = None"
| "digest_in asset (l # ls) = (case digest_line asset l of Some d \<Rightarrow> Some d | None \<Rightarrow> digest_in asset ls)"

definition digest_for :: "string \<Rightarrow> string \<Rightarrow> string option" where
  "digest_for sums_text asset = digest_in asset (lines_of sums_text)"

section \<open>Swapping the executable\<close>

text \<open>The executable, the parked previous one (\<open>.old\<close>) and the staged new one.\<close>

record exe_files =
  x_current :: "u8 list option"
  x_old :: "u8 list option"
  x_staged :: "u8 list option"

datatype swap_step = SweepOld | CopyStaged | MarkExecutable | DropStaged | DropOldBefore | MoveAside | MoveIn | RollBack | DropOld

datatype SwapError = StagingFailed | ChmodFailed | AsideFailed | IntoPlaceFailed

datatype UpdateError =
    Init
  | Api string
  | BadVersion string VersionError
  | NoAsset string string
  | NoChecksums string
  | ChecksumMissing string
  | ChecksumMismatch string string string
  | Cosign
  | Downgrade string string
  | Extract string
  | Swap SwapError
  | Io

text \<open>\<open>fails s\<close> says whether the operating system refuses step \<open>s\<close>; a refused copy stages nothing. A result \<open>Ok True\<close> is a parked copy
  that could not be deleted.\<close>

definition drop_staged :: "(swap_step \<Rightarrow> bool) \<Rightarrow> exe_files \<Rightarrow> exe_files" where
  "drop_staged fails fs = (if fails DropStaged then fs else fs\<lparr>x_staged := None\<rparr>)"

definition swap_executable ::
    "(swap_step \<Rightarrow> bool) \<Rightarrow> u8 list \<Rightarrow> exe_files \<Rightarrow> (bool, UpdateError) res \<times> exe_files" where
  "swap_executable fails new_exe fs =
     (if fails CopyStaged then (Err (Swap StagingFailed), fs)
      else
        let fs = fs\<lparr>x_staged := Some new_exe\<rparr> in
        if fails MarkExecutable then (Err (Swap ChmodFailed), drop_staged fails fs)
        else
          let fs = (if fails DropOldBefore then fs else fs\<lparr>x_old := None\<rparr>) in
          if fails MoveAside \<or> x_current fs = None then (Err (Swap AsideFailed), drop_staged fails fs)
          else
            let fs = fs\<lparr>x_old := x_current fs, x_current := None\<rparr> in
            if fails MoveIn then
              let fs = (if fails RollBack then fs else fs\<lparr>x_current := x_old fs, x_old := None\<rparr>) in
              (Err (Swap IntoPlaceFailed), drop_staged fails fs)
            else
              let fs = fs\<lparr>x_current := x_staged fs, x_staged := None\<rparr> in
              if fails DropOld then (Ok True, fs) else (Ok False, fs\<lparr>x_old := None\<rparr>))"

section \<open>The update\<close>

record UpdateConfig =
  c_repo :: string
  c_triple :: string
  c_current_version :: string
  c_allow_downgrade :: bool
  c_cosign :: bool

datatype CosignRun = CannotRun | Exited bool

datatype SkipReason = NoBinary | NoSignature | NoCertificate

datatype CosignStatus = Verified | Skipped SkipReason

text \<open>What the update asks of the outside: the latest release, downloads and texts by URL, SHA-256 in
  hex, the exit of \<open>cosign verify-blob\<close> and the executable inside an archive. A failure to set up the
  HTTP client is a failure of \<open>w_release\<close>, one of the temporary directory a failure of \<open>w_download\<close>.\<close>

record world =
  w_release :: "(Release, UpdateError) res"
  w_download :: "string \<Rightarrow> (u8 list, UpdateError) res"
  w_text :: "string \<Rightarrow> (string, UpdateError) res"
  w_sha256 :: "u8 list \<Rightarrow> string"
  w_cosign :: "string \<Rightarrow> string \<Rightarrow> u8 list \<Rightarrow> u8 list \<Rightarrow> CosignRun"
  w_extract :: "string \<Rightarrow> u8 list \<Rightarrow> (u8 list, UpdateError) res"
  w_fails :: "swap_step \<Rightarrow> bool"

record InstallOutcome =
  io_from :: string
  io_to :: string
  io_asset :: string
  io_old_kept :: bool
  io_cosign :: CosignStatus

datatype UpdateOutcome = UpToDate string | Installed InstallOutcome

record CheckOutcome =
  co_current :: string
  co_latest :: string
  co_update_available :: bool
  co_downgrade :: bool
  co_asset :: "string option"

definition version_of :: "string \<Rightarrow> (Version, UpdateError) res" where
  "version_of t = (case parse_version t of Ok v \<Rightarrow> Ok v | Err e \<Rightarrow> Err (BadVersion t e) | Panic k \<Rightarrow> Panic k)"

fun find_first_named :: "Asset list \<Rightarrow> string list \<Rightarrow> Asset option" where
  "find_first_named assets [] = None"
| "find_first_named assets (n # ns) = (case find_named assets n of
     Some a \<Rightarrow> Some a | None \<Rightarrow> find_first_named assets ns)"

definition verify_cosign :: "world \<Rightarrow> UpdateConfig \<Rightarrow> Release \<Rightarrow> string \<Rightarrow> (CosignStatus, UpdateError) res" where
  "verify_cosign w cfg release sums_text =
     (if \<not> c_cosign cfg then Ok (Skipped NoBinary)
      else case find_named (r_assets release) ''SHA256SUMS.sig'' of
        None \<Rightarrow> Ok (Skipped NoSignature)
      | Some sig \<Rightarrow>
          (case find_first_named (r_assets release) [''SHA256SUMS.pem'', ''SHA256SUMS.cert'', ''SHA256SUMS.crt''] of
             None \<Rightarrow> Ok (Skipped NoCertificate)
           | Some cert \<Rightarrow>
               res_bind (w_download w (a_url sig)) (\<lambda>sig_bytes.
               res_bind (w_download w (a_url cert)) (\<lambda>cert_bytes.
                 case w_cosign w (c_repo cfg) sums_text sig_bytes cert_bytes of
                   CannotRun \<Rightarrow> Err Cosign
                 | Exited False \<Rightarrow> Err Cosign
                 | Exited True \<Rightarrow> Ok Verified))))"

definition check :: "world \<Rightarrow> UpdateConfig \<Rightarrow> (CheckOutcome, UpdateError) res" where
  "check w cfg =
     res_bind (w_release w) (\<lambda>release.
     res_bind (version_of (r_tag release)) (\<lambda>latest.
     res_bind (version_of (c_current_version cfg)) (\<lambda>current.
       Ok \<lparr>co_current = show_version current, co_latest = show_version latest,
           co_update_available = (current < latest), co_downgrade = (latest < current),
           co_asset = map_option a_name (select_asset (r_assets release) (c_triple cfg))\<rparr>)))"

text \<open>The verified payload: everything of \<open>perform\<close> between the version gate and the swap.\<close>

definition verified_payload ::
    "world \<Rightarrow> UpdateConfig \<Rightarrow> Release \<Rightarrow> (Asset \<times> CosignStatus \<times> u8 list, UpdateError) res" where
  "verified_payload w cfg release =
     res_bind (ok_or (select_asset (r_assets release) (c_triple cfg)) (NoAsset (r_tag release) (c_triple cfg))) (\<lambda>asset.
     res_bind (ok_or (find_named (r_assets release) ''SHA256SUMS'') (NoChecksums (r_tag release))) (\<lambda>sums_asset.
     res_bind (w_download w (a_url asset)) (\<lambda>payload.
     res_bind (w_text w (a_url sums_asset)) (\<lambda>sums_text.
     res_bind (ok_or (digest_for sums_text (a_name asset)) (ChecksumMissing (a_name asset))) (\<lambda>expected.
       let actual = w_sha256 w payload in
       if \<not> eq_ignore_ascii_case expected actual then Err (ChecksumMismatch (a_name asset) expected actual)
       else
         res_bind (verify_cosign w cfg release sums_text) (\<lambda>cosign.
         res_bind (w_extract w (a_name asset) payload) (\<lambda>new_exe. Ok (asset, cosign, new_exe))))))))"

definition perform :: "world \<Rightarrow> UpdateConfig \<Rightarrow> exe_files \<Rightarrow> (UpdateOutcome, UpdateError) res \<times> exe_files" where
  "perform w cfg fs =
     (let fs = (if w_fails w SweepOld then fs else fs\<lparr>x_old := None\<rparr>);
          gate = res_bind (w_release w) (\<lambda>release.
            res_bind (version_of (r_tag release)) (\<lambda>latest.
            res_bind (version_of (c_current_version cfg)) (\<lambda>current. Ok (release, latest, current)))) in
      case gate of
        Err e \<Rightarrow> (Err e, fs)
      | Panic k \<Rightarrow> (Panic k, fs)
      | Ok (release, latest, current) \<Rightarrow>
          if latest = current then (Ok (UpToDate (show_version current)), fs)
          else if latest < current \<and> \<not> c_allow_downgrade cfg then
            (Err (Downgrade (r_tag release) (c_current_version cfg)), fs)
          else (case verified_payload w cfg release of
              Err e \<Rightarrow> (Err e, fs)
            | Panic k \<Rightarrow> (Panic k, fs)
            | Ok (asset, cosign, new_exe) \<Rightarrow>
                (case swap_executable (w_fails w) new_exe fs of
                   (Ok kept, fs') \<Rightarrow>
                     (Ok (Installed \<lparr>io_from = show_version current, io_to = show_version latest,
                        io_asset = a_name asset, io_old_kept = kept, io_cosign = cosign\<rparr>), fs')
                 | (Err e, fs') \<Rightarrow> (Err e, fs')
                 | (Panic k, fs') \<Rightarrow> (Panic k, fs'))))"

section \<open>Properties\<close>

lemma swap_executable_cases:
  assumes "x_current fs = Some old"
  shows "case swap_executable fails new_exe fs of
     (Ok kept, fs') \<Rightarrow> x_current fs' = Some new_exe \<and> (if kept then x_old fs' = Some old else x_old fs' = None)
   | (Err e, fs') \<Rightarrow> x_current fs' = Some old
       \<or> fails MoveIn \<and> fails RollBack \<and> e = Swap IntoPlaceFailed \<and> x_current fs' = None \<and> x_old fs' = Some old
   | (Panic k, fs') \<Rightarrow> False"
  using assms by (simp add: swap_executable_def drop_staged_def Let_def)

text \<open>C28: the swap never loses the executable. When it succeeds the new binary is in place; when it fails
  the previous binary is at its path, except when both the move into place and the roll back
  are refused, and then the previous binary is the parked copy.\<close>

theorem swap_keeps_a_binary:
  assumes "x_current fs = Some old" "swap_executable fails new_exe fs = (r, fs')"
  shows "(\<forall>k. r \<noteq> Panic k) \<and> (\<forall>kept. r = Ok kept \<longrightarrow> x_current fs' = Some new_exe \<and> (kept \<longrightarrow> x_old fs' = Some old))
    \<and> (\<forall>e. r = Err e \<longrightarrow> x_current fs' = Some old
        \<or> fails MoveIn \<and> fails RollBack \<and> x_current fs' = None \<and> x_old fs' = Some old)"
  using swap_executable_cases [OF assms(1), of new_exe fails] assms(2) by (cases r) auto

definition exe_sample :: exe_files where
  "exe_sample = \<lparr>x_current = Some [1], x_old = None, x_staged = None\<rparr>"

theorem swap_keeps_a_binary_witness:
  "\<exists>r fs'. swap_executable (\<lambda>s. s = MoveIn) [2] exe_sample = (r, fs') \<and> (\<exists>e. r = Err e) \<and> x_current fs' = Some [1]"
proof -
  obtain r fs' where s: "swap_executable (\<lambda>s. s = MoveIn) [2] exe_sample = (r, fs')" by (cases "swap_executable (\<lambda>s. s = MoveIn) [2] exe_sample")
  then have "\<exists>e. r = Err e" by (auto simp: swap_executable_def exe_sample_def Let_def)
  then show ?thesis using swap_keeps_a_binary [OF _ s, of "[1]"] s by (auto simp: exe_sample_def)
qed

lemma verified_payload_Ok:
  assumes "verified_payload w cfg release = Ok (asset, cosign, new_exe)"
  obtains sums_asset payload sums_text digest where
    "select_asset (r_assets release) (c_triple cfg) = Some asset"
    "find_named (r_assets release) ''SHA256SUMS'' = Some sums_asset"
    "w_download w (a_url asset) = Ok payload" "w_text w (a_url sums_asset) = Ok sums_text"
    "digest_for sums_text (a_name asset) = Some digest" "eq_ignore_ascii_case digest (w_sha256 w payload)"
    "verify_cosign w cfg release sums_text = Ok cosign" "w_extract w (a_name asset) payload = Ok new_exe"
  using assms unfolding verified_payload_def
  by (auto simp: res_bind_Ok_iff Let_def ok_or_iffs split: if_splits)

lemma find_named_mem: "find_named assets n = Some a \<Longrightarrow> a \<in> set assets \<and> a_name a = n"
  by (auto simp: find_named_def find_Some_iff)

text \<open>C16: a self-update installs only a verified binary: the payload's SHA-256 is the one the release's
  SHA256SUMS publishes for that asset, the release is newer than the installed version (or
  older with downgrades allowed), a signature check that ran did not fail, and the executable
  is then the one extracted from that payload. Whenever nothing is installed the previous
  binary stays in place, or parked if the swap and its roll back were both refused.\<close>

theorem perform_installs_only_verified:
  assumes "x_current fs = Some old" "perform w cfg fs = (r, fs')"
  shows "(\<forall>out. r = Ok (Installed out) \<longrightarrow>
      (\<exists>release latest current asset payload sums_asset sums_text digest new_exe.
         w_release w = Ok release \<and> version_of (r_tag release) = Ok latest
         \<and> version_of (c_current_version cfg) = Ok current
         \<and> (current < latest \<or> latest < current \<and> c_allow_downgrade cfg)
         \<and> select_asset (r_assets release) (c_triple cfg) = Some asset \<and> w_download w (a_url asset) = Ok payload
         \<and> find_named (r_assets release) ''SHA256SUMS'' = Some sums_asset
         \<and> w_text w (a_url sums_asset) = Ok sums_text \<and> digest_for sums_text (a_name asset) = Some digest
         \<and> eq_ignore_ascii_case digest (w_sha256 w payload)
         \<and> verify_cosign w cfg release sums_text = Ok (io_cosign out)
         \<and> w_extract w (a_name asset) payload = Ok new_exe \<and> x_current fs' = Some new_exe))
    \<and> ((\<forall>out. r \<noteq> Ok (Installed out)) \<longrightarrow> x_current fs' = Some old
        \<or> w_fails w MoveIn \<and> w_fails w RollBack \<and> x_current fs' = None \<and> x_old fs' = Some old)"
proof -
  define fs1 where "fs1 = (if w_fails w SweepOld then fs else fs\<lparr>x_old := None\<rparr>)"
  have c1: "x_current fs1 = Some old" using assms(1) by (simp add: fs1_def)
  define gate where "gate = res_bind (w_release w) (\<lambda>release. res_bind (version_of (r_tag release)) (\<lambda>latest.
      res_bind (version_of (c_current_version cfg)) (\<lambda>current. Ok (release, latest, current))))"
  note p = assms(2) [unfolded perform_def Let_def, folded fs1_def gate_def]
  show ?thesis
  proof (cases "\<exists>release latest current asset cosign new_exe. gate = Ok (release, latest, current)
      \<and> latest \<noteq> current \<and> \<not> (latest < current \<and> \<not> c_allow_downgrade cfg)
      \<and> verified_payload w cfg release = Ok (asset, cosign, new_exe)")
    case False
    then have "fs' = fs1 \<and> (\<forall>out. r \<noteq> Ok (Installed out))"
      using p by (auto split: res.splits if_splits prod.splits)
    with c1 show ?thesis by auto
  next
    case True
    then obtain release latest current asset cosign new_exe where
      g: "gate = Ok (release, latest, current)" "latest \<noteq> current" "\<not> (latest < current \<and> \<not> c_allow_downgrade cfg)"
        "verified_payload w cfg release = Ok (asset, cosign, new_exe)" by blast
    from g(4) obtain sums_asset payload sums_text digest where
      v: "select_asset (r_assets release) (c_triple cfg) = Some asset"
        "find_named (r_assets release) ''SHA256SUMS'' = Some sums_asset"
        "w_download w (a_url asset) = Ok payload" "w_text w (a_url sums_asset) = Ok sums_text"
        "digest_for sums_text (a_name asset) = Some digest" "eq_ignore_ascii_case digest (w_sha256 w payload)"
        "verify_cosign w cfg release sums_text = Ok cosign" "w_extract w (a_name asset) payload = Ok new_exe"
      by (rule verified_payload_Ok)
    have gt: "w_release w = Ok release" "version_of (r_tag release) = Ok latest"
        "version_of (c_current_version cfg) = Ok current"
      using g(1) by (auto simp: gate_def res_bind_Ok_iff)
    obtain sr fs2 where s: "swap_executable (w_fails w) new_exe fs1 = (sr, fs2)" by (cases "swap_executable (w_fails w) new_exe fs1")
    have gate_ok: "current < latest \<or> latest < current \<and> c_allow_downgrade cfg" using g(2,3) by auto
    note sc = swap_executable_cases [OF c1, of new_exe "w_fails w", unfolded s]
    show ?thesis
    proof (cases sr)
      case (Ok kept)
      then have "fs' = fs2" "\<forall>out. r = Ok (Installed out) \<longrightarrow> io_cosign out = cosign" "\<exists>out. r = Ok (Installed out)"
        using p g s by auto
      moreover have "x_current fs2 = Some new_exe" using sc Ok by simp
      ultimately show ?thesis using gt gate_ok v by blast
    next
      case (Err e)
      then have "fs' = fs2" "r = Err e" using p g s by auto
      with sc Err show ?thesis by auto
    qed (use sc in simp)
  qed
qed

definition update_sample :: "string \<Rightarrow> world" where
  "update_sample digest = \<lparr>w_release = Ok \<lparr>r_tag = ''2.2.0'', r_assets =
       [\<lparr>a_name = ''onebrain-t.zip'', a_url = ''u'', a_size = 2\<rparr>, \<lparr>a_name = ''SHA256SUMS'', a_url = ''s'', a_size = 2\<rparr>]\<rparr>,
     w_download = (\<lambda>_. Ok [7]), w_text = (\<lambda>_. Ok (digest @ '' onebrain-t.zip'')), w_sha256 = (\<lambda>_. digest),
     w_cosign = (\<lambda>_ _ _ _. CannotRun), w_extract = (\<lambda>_ _. Ok [2]), w_fails = (\<lambda>_. False)\<rparr>"

definition config_sample :: UpdateConfig where
  "config_sample = \<lparr>c_repo = ''o/r'', c_triple = ''t'', c_current_version = ''2.0.0'', c_allow_downgrade = False, c_cosign = False\<rparr>"

lemma update_sample_installs:
  "\<exists>out fs'. perform (update_sample (replicate 64 (CHR ''0''))) config_sample exe_sample = (Ok (Installed out), fs')"
proof -
  let ?d = "replicate 64 (CHR ''0'')"
  have v: "parse_version (show_version (Version 2 n 0 [])) = Ok (Version 2 n 0 [])" if "n < M64" for n
    using that by (intro parse_show) (simp add: version_ok_def)
  have sh: "show_version (Version 2 2 0 []) = ''2.2.0''" "show_version (Version 2 0 0 []) = ''2.0.0''" by code_simp+
  have v: "parse_version ''2.2.0'' = Ok (Version 2 2 0 [])" "parse_version ''2.0.0'' = Ok (Version 2 0 0 [])"
    using v [of 2, unfolded sh] v [of 0, unfolded sh] by simp_all
  have d: "digest_for (?d @ '' onebrain-t.zip'') ''onebrain-t.zip'' = Some ?d" by code_simp
  have s: "select_asset [\<lparr>a_name = ''onebrain-t.zip'', a_url = ''u'', a_size = 2\<rparr>, \<lparr>a_name = ''SHA256SUMS'', a_url = ''s'', a_size = 2\<rparr>] ''t'' =
      Some \<lparr>a_name = ''onebrain-t.zip'', a_url = ''u'', a_size = 2\<rparr>" by code_simp
  have lt: "\<not> Version 2 2 0 [] < Version 2 0 0 []" by (simp add: less_Version_def Version_cmp_def cmp_def)
  show ?thesis
    by (simp add: perform_def update_sample_def config_sample_def version_of_def v lt verified_payload_def s
        find_named_def d eq_ignore_ascii_case_def verify_cosign_def swap_executable_def exe_sample_def Let_def ok_or_def)
qed

theorem perform_installs_only_verified_witness:
  "\<exists>out fs'. perform (update_sample (replicate 64 (CHR ''0''))) config_sample exe_sample = (Ok (Installed out), fs')
    \<and> x_current fs' = Some [2]"
proof -
  obtain out fs' where p: "perform (update_sample (replicate 64 (CHR ''0''))) config_sample exe_sample = (Ok (Installed out), fs')"
    using update_sample_installs by blast
  have "x_current exe_sample = Some [1]" by (simp add: exe_sample_def)
  from perform_installs_only_verified [OF this p] have "x_current fs' = Some [2]" by (auto simp: update_sample_def)
  with p show ?thesis by blast
qed

end
