(* ===== verification/Cache.thy ===== *)
theory Cache
  imports Split TextOrder "HOL-Library.AList" "HOL-Library.Countable"
begin

text \<open>
  The on-disk model cache (\<open>onebrain-models/src/cache.rs\<close>, with \<open>read_manifest\<close> of \<open>download.rs\<close>)
  and the daemon's use of it (\<open>onebraind/src/logistics.rs\<close>): the post-download garbage collection
  and the model keys of the wire protocol.

  A directory is the list of its entries in directory order, a file is its bytes. \<open>serde_json\<close> is a
  parameter that decodes a text to a JSON object and encodes one; the removal of a directory by
  the operating system is a parameter too, since it may be refused half way. Unreadable
  directories and concurrent changes are not modelled. A path is the list of its components
  below the cache root.
\<close>

section \<open>Directories and manifests\<close>

datatype fs_node = File "u8 list" | Dir "(string \<times> fs_node) list"

type_synonym dir_entries = "(string \<times> fs_node) list"

datatype json = JBool bool | JNum u64 | JStr string | JOther

type_synonym json_object = "(string \<times> json) list"

record serde =
  sd_decode :: "u8 list \<Rightarrow> json_object option"
  sd_encode :: "json_object \<Rightarrow> u8 list"

definition MANIFEST_FILE :: string where "MANIFEST_FILE = ''manifest.json''"
definition RANGES_MANIFEST_FILE :: string where "RANGES_MANIFEST_FILE = ''ranges.json''"
definition PARTS_DIR :: string where "PARTS_DIR = ''parts''"

record Manifest =
  mf_url :: string
  mf_size_bytes :: u64
  mf_blake3 :: string

record EntryState =
  st_pinned :: bool
  st_last_used :: u64

record CachedModel =
  cm_id :: string
  cm_path :: "string list"
  cm_size_bytes :: u64
  cm_blake3 :: "string option"
  cm_parts :: u32
  cm_pinned :: bool
  cm_last_used :: u64

record EvictionCandidate =
  ec_id :: string
  ec_bytes :: u64
  ec_last_used :: u64

datatype CacheError =
    NotCached string
  | InvalidId string
  | InUse string
  | Pinned string
  | SplitIncomplete string u32 u32
  | CacheIo

definition validate_id :: "string \<Rightarrow> (unit, CacheError) res" where
  "validate_id ident =
     (if ident = [] \<or> CHR ''/'' \<in> set ident \<or> CHR 92 \<in> set ident \<or> ident = ''.'' \<or> ident = ''..''
      then Err (InvalidId ident) else Ok ())"

text \<open>The bytes of a file directly in a directory; \<open>None\<close> when there is no such file.\<close>

definition file_in :: "dir_entries \<Rightarrow> string \<Rightarrow> u8 list option" where
  "file_in d name = (case map_of d name of Some (File bs) \<Rightarrow> Some bs | _ \<Rightarrow> None)"

definition dir_in :: "dir_entries \<Rightarrow> string \<Rightarrow> dir_entries option" where
  "dir_in d name = (case map_of d name of Some (Dir es) \<Rightarrow> Some es | _ \<Rightarrow> None)"

text \<open>The manifest as a JSON object, when there is one that parses.\<close>

definition manifest_object :: "serde \<Rightarrow> dir_entries \<Rightarrow> json_object option" where
  "manifest_object sd d = Option.bind (file_in d MANIFEST_FILE) (sd_decode sd)"

definition read_manifest :: "serde \<Rightarrow> dir_entries \<Rightarrow> Manifest option" where
  "read_manifest sd d = (case manifest_object sd d of
     None \<Rightarrow> None
   | Some m \<Rightarrow> (case (map_of m ''url'', map_of m ''size_bytes'', map_of m ''blake3'') of
       (Some (JStr url), Some (JNum len), Some (JStr h)) \<Rightarrow>
         Some \<lparr>mf_url = url, mf_size_bytes = len, mf_blake3 = h\<rparr>
     | _ \<Rightarrow> None))"

text \<open>\<open>EntryState\<close> as \<open>serde\<close> reads it: an absent field has its default, one of another type makes the
  whole reading fail.\<close>

definition state_of_object :: "json_object \<Rightarrow> EntryState option" where
  "state_of_object m =
     Option.bind (case map_of m ''pinned'' of None \<Rightarrow> Some False | Some (JBool b) \<Rightarrow> Some b | _ \<Rightarrow> None) (\<lambda>p.
     Option.bind (case map_of m ''last_used_unix'' of None \<Rightarrow> Some 0 | Some (JNum n) \<Rightarrow> Some n | _ \<Rightarrow> None) (\<lambda>l.
       Some \<lparr>st_pinned = p, st_last_used = l\<rparr>))"

definition default_state :: EntryState where
  "default_state = \<lparr>st_pinned = False, st_last_used = 0\<rparr>"

definition state_of_dir :: "serde \<Rightarrow> dir_entries \<Rightarrow> EntryState" where
  "state_of_dir sd d =
     (case manifest_object sd d of
        None \<Rightarrow> default_state
      | Some m \<Rightarrow> (case state_of_object m of Some s \<Rightarrow> s | None \<Rightarrow> default_state))"

text \<open>Read-modify-write of the manifest; writing over a directory of that name fails.\<close>

definition update_entry_state ::
    "serde \<Rightarrow> (json_object \<Rightarrow> json_object) \<Rightarrow> dir_entries \<Rightarrow> (dir_entries, CacheError) res" where
  "update_entry_state sd mutate d =
     (let m = (case manifest_object sd d of Some m \<Rightarrow> m | None \<Rightarrow> []) in
      if dir_in d MANIFEST_FILE \<noteq> None then Err CacheIo
      else Ok (AList.update MANIFEST_FILE (File (sd_encode sd (mutate m))) d))"

section \<open>Model files and parts\<close>

text \<open>The largest regular file that is no manifest and no \<open>.part\<close>; the first of equals.\<close>

definition model_candidate :: "(string \<times> u64) option \<Rightarrow> string \<times> fs_node \<Rightarrow> (string \<times> u64) option" where
  "model_candidate best e = (case e of (name, node) \<Rightarrow>
     if name = MANIFEST_FILE \<or> name = RANGES_MANIFEST_FILE \<or> ends_with name ''.part'' then best
     else (case node of
         Dir _ \<Rightarrow> best
       | File bs \<Rightarrow> (case best of
           Some prev \<Rightarrow> if length bs \<le> snd prev then Some prev else Some (name, length bs)
         | None \<Rightarrow> Some (name, length bs))))"

definition find_model_file :: "dir_entries \<Rightarrow> (string \<times> u64) option" where
  "find_model_file d = foldl model_candidate None d"

text \<open>Directories in the byte order of their names, as \<open>dirs.sort()\<close> orders siblings.\<close>

definition sub_dirs :: "dir_entries \<Rightarrow> (string \<times> dir_entries) list" where
  "sub_dirs d = concat (map (\<lambda>(n, x). case x of Dir es \<Rightarrow> [(n, es)] | File _ \<Rightarrow> []) d)"

definition complete_parts :: "dir_entries \<Rightarrow> (string list \<times> u64) list" where
  "complete_parts d = (case dir_in d PARTS_DIR of
     None \<Rightarrow> []
   | Some ps \<Rightarrow> concat (map (\<lambda>(n, es). case find_model_file es of
         Some (f, len) \<Rightarrow> [([PARTS_DIR, n, f], len)] | None \<Rightarrow> [])
       (sort_by (\<lambda>a b. str_cmp (fst a) (fst b)) (sub_dirs ps))))"

definition scan_entry :: "serde \<Rightarrow> dir_entries \<Rightarrow> string \<Rightarrow> CachedModel option" where
  "scan_entry sd d ident =
     (let state = state_of_dir sd d in
      case find_model_file d of
        Some (name, len) \<Rightarrow>
          Some \<lparr>cm_id = ident, cm_path = [ident, name], cm_size_bytes = len,
            cm_blake3 = (case read_manifest sd d of
                Some m \<Rightarrow> if mf_size_bytes m = len then Some (mf_blake3 m) else None
              | None \<Rightarrow> None),
            cm_parts = 1, cm_pinned = st_pinned state, cm_last_used = st_last_used state\<rparr>
      | None \<Rightarrow>
          let parts = complete_parts d in
          (case parts of
             [] \<Rightarrow> None
           | (first, _) # _ \<Rightarrow>
               Some \<lparr>cm_id = ident, cm_path = ident # first, cm_size_bytes = sum64 (map snd parts),
                 cm_blake3 = None, cm_parts = as_u32 (length parts),
                 cm_pinned = st_pinned state, cm_last_used = st_last_used state\<rparr>))"

definition part_stem :: "string \<Rightarrow> string" where
  "part_stem name = (if ends_with (to_ascii_lowercase name) ''.gguf''
     then take (length name - length ''.gguf'') name else name)"

section \<open>The cache root\<close>

text \<open>The root directory, \<open>None\<close> when it does not exist.\<close>

type_synonym cache_root = "dir_entries option"

definition entry_dirs :: "cache_root \<Rightarrow> (string \<times> dir_entries) list" where
  "entry_dirs croot = (case croot of None \<Rightarrow> [] | Some es \<Rightarrow> sub_dirs es)"

definition entry_dir :: "cache_root \<Rightarrow> string \<Rightarrow> dir_entries option" where
  "entry_dir croot ident = Option.bind croot (\<lambda>es. dir_in es ident)"

definition put_entry :: "cache_root \<Rightarrow> string \<Rightarrow> dir_entries \<Rightarrow> cache_root" where
  "put_entry croot ident d = map_option (AList.update ident (Dir d)) croot"

definition drop_entry :: "cache_root \<Rightarrow> string \<Rightarrow> cache_root" where
  "drop_entry croot ident = map_option (filter (\<lambda>e. fst e \<noteq> ident)) croot"

definition list_models :: "serde \<Rightarrow> cache_root \<Rightarrow> CachedModel list" where
  "list_models sd croot = sort_by (\<lambda>a b. str_cmp (cm_id a) (cm_id b))
     (List.map_filter (\<lambda>(ident, d). scan_entry sd d ident) (entry_dirs croot))"

text \<open>What \<open>remove_dir_all\<close> did: a refused removal may leave only part of the directory.\<close>

datatype rm_result = Removed | Sharing dir_entries | RmFailed dir_entries

definition remove_model ::
    "(string \<Rightarrow> rm_result) \<Rightarrow> cache_root \<Rightarrow> string \<Rightarrow> (unit, CacheError) res \<times> cache_root" where
  "remove_model rm croot ident = (case validate_id ident of
     Err e \<Rightarrow> (Err e, croot)
   | Panic k \<Rightarrow> (Panic k, croot)
   | Ok _ \<Rightarrow> (case entry_dir croot ident of
       None \<Rightarrow> (Err (NotCached ident), croot)
     | Some _ \<Rightarrow> (case rm ident of
         Removed \<Rightarrow> (Ok (), drop_entry croot ident)
       | Sharing rest \<Rightarrow> (Err (InUse ident), put_entry croot ident rest)
       | RmFailed rest \<Rightarrow> (Err CacheIo, put_entry croot ident rest))))"

definition change_state ::
    "serde \<Rightarrow> (json_object \<Rightarrow> json_object) \<Rightarrow> cache_root \<Rightarrow> string \<Rightarrow> (unit, CacheError) res \<times> cache_root" where
  "change_state sd mutate croot ident = (case validate_id ident of
     Err e \<Rightarrow> (Err e, croot)
   | Panic k \<Rightarrow> (Panic k, croot)
   | Ok _ \<Rightarrow> (case entry_dir croot ident of
       None \<Rightarrow> (Err (NotCached ident), croot)
     | Some d \<Rightarrow> (case update_entry_state sd mutate d of
         Ok d' \<Rightarrow> (Ok (), put_entry croot ident d')
       | Err e \<Rightarrow> (Err e, croot)
       | Panic k \<Rightarrow> (Panic k, croot))))"

definition set_pinned ::
    "serde \<Rightarrow> cache_root \<Rightarrow> string \<Rightarrow> bool \<Rightarrow> (unit, CacheError) res \<times> cache_root" where
  "set_pinned sd croot ident pinned = change_state sd (AList.update ''pinned'' (JBool pinned)) croot ident"

definition touch :: "serde \<Rightarrow> u64 \<Rightarrow> cache_root \<Rightarrow> string \<Rightarrow> (unit, CacheError) res \<times> cache_root" where
  "touch sd now croot ident = change_state sd (AList.update ''last_used_unix'' (JNum now)) croot ident"

text \<open>The recursive size with the explicit stack of the source (its top is the head of the list).\<close>

definition size_step :: "u64 \<times> dir_entries list \<Rightarrow> string \<times> fs_node \<Rightarrow> u64 \<times> dir_entries list" where
  "size_step s e = (case (s, e) of ((sum_bytes, stack), (_, node)) \<Rightarrow> (case node of
     Dir es \<Rightarrow> (sum_bytes, es # stack) | File bs \<Rightarrow> (add64 sum_bytes (length bs), stack)))"

primrec node_weight :: "fs_node \<Rightarrow> nat" where
  "node_weight (File bs) = 0"
| "node_weight (Dir es) = Suc (sum_list (map snd (map (map_prod id node_weight) es)))"

definition stack_weight :: "dir_entries list \<Rightarrow> nat" where
  "stack_weight stack = sum_list (map (\<lambda>es. node_weight (Dir es)) stack)"

lemma size_step_weight:
  "stack_weight (snd (foldl size_step (t, stack) d)) = stack_weight stack + sum_list (map (node_weight \<circ> snd) d)"
  by (induction d arbitrary: t stack) (auto simp: size_step_def stack_weight_def split: fs_node.split)

function size_loop :: "u64 \<Rightarrow> dir_entries list \<Rightarrow> u64" where
  "size_loop total_bytes [] = total_bytes"
| "size_loop total_bytes (d # stack) =
     (let (t, stack') = foldl size_step (total_bytes, stack) d in size_loop t stack')"
  by pat_completeness auto

termination
proof (relation "measure (\<lambda>(_, stack). stack_weight stack)")
  fix t t' :: u64 and d stack stack' s
  assume "s = foldl size_step (t, stack) d" "(t', stack') = s"
  then have "stack' = snd (foldl size_step (t, stack) d)" by (metis snd_conv)
  then have "stack_weight stack' = stack_weight stack + sum_list (map (node_weight \<circ> snd) d)"
    by (simp add: size_step_weight)
  then show "((t', stack'), t, d # stack) \<in> measure (\<lambda>(_, stack). stack_weight stack)"
    by (simp add: stack_weight_def comp_def)
qed simp

definition dir_size_bytes :: "dir_entries \<Rightarrow> u64" where
  "dir_size_bytes d = size_loop 0 [d]"

definition total_cache_bytes :: "cache_root \<Rightarrow> u64" where
  "total_cache_bytes croot = (case croot of None \<Rightarrow> 0 | Some es \<Rightarrow> dir_size_bytes es)"

definition candidate_cmp :: "EvictionCandidate \<Rightarrow> EvictionCandidate \<Rightarrow> ordering" where
  "candidate_cmp a b = ord_then (cmp (ec_last_used a) (ec_last_used b)) (str_cmp (ec_id a) (ec_id b))"

definition eviction_candidates :: "serde \<Rightarrow> cache_root \<Rightarrow> EvictionCandidate list" where
  "eviction_candidates sd croot = sort_by candidate_cmp
     (map (\<lambda>(ident, d). \<lparr>ec_id = ident, ec_bytes = dir_size_bytes d, ec_last_used = st_last_used (state_of_dir sd d)\<rparr>)
       (filter (\<lambda>(ident, d). \<not> st_pinned (state_of_dir sd d)) (entry_dirs croot)))"

definition evict_entry ::
    "serde \<Rightarrow> (string \<Rightarrow> rm_result) \<Rightarrow> cache_root \<Rightarrow> string \<Rightarrow> (u64, CacheError) res \<times> cache_root" where
  "evict_entry sd rm croot ident = (case validate_id ident of
     Err e \<Rightarrow> (Err e, croot)
   | Panic k \<Rightarrow> (Panic k, croot)
   | Ok _ \<Rightarrow> (case entry_dir croot ident of
       None \<Rightarrow> (Err (NotCached ident), croot)
     | Some d \<Rightarrow>
         if st_pinned (state_of_dir sd d) then (Err (Pinned ident), croot)
         else
           let freed = dir_size_bytes d in
           (case remove_model rm croot ident of
              (Ok _, croot') \<Rightarrow> (Ok freed, croot')
            | (Err e, croot') \<Rightarrow> (Err e, croot')
            | (Panic k, croot') \<Rightarrow> (Panic k, croot'))))"

definition split_part_dir :: "string \<Rightarrow> string \<Rightarrow> (string list, CacheError) res" where
  "split_part_dir ident name =
     res_bind (validate_id ident) (\<lambda>_. res_bind (validate_id name) (\<lambda>_. Ok [ident, PARTS_DIR, part_stem name]))"

text \<open>The largest part count the complete parts' file names declare.\<close>

definition declared_parts :: "(string list \<times> u64) list \<Rightarrow> u32 option" where
  "declared_parts parts = (case map sn_count (List.map_filter (\<lambda>(p, _). parse_split_name (last p)) parts) of
     [] \<Rightarrow> None | n # ns \<Rightarrow> Some (Max (set (n # ns))))"

definition split_part_paths :: "cache_root \<Rightarrow> string \<Rightarrow> (string list list, CacheError) res" where
  "split_part_paths croot ident =
     res_bind (validate_id ident) (\<lambda>_.
     res_bind (ok_or (entry_dir croot ident) (NotCached ident)) (\<lambda>d.
       let parts = complete_parts d in
       if parts = [] then
         (case find_model_file d of Some (name, _) \<Rightarrow> Ok [[ident, name]] | None \<Rightarrow> Err (NotCached ident))
       else
         let found = as_u32 (length parts);
             paths = map (\<lambda>(p, _). ident # p) parts in
         (case declared_parts parts of
            Some expected \<Rightarrow> if found < expected then Err (SplitIncomplete ident found expected) else Ok paths
          | None \<Rightarrow> Ok paths)))"

section \<open>The size of a directory\<close>

text \<open>The bytes of all files below a directory, by recursion on the tree.\<close>

primrec node_size :: "fs_node \<Rightarrow> nat" where
  "node_size (File bs) = length bs"
| "node_size (Dir es) = sum_list (map snd (map (map_prod id node_size) es))"

definition tree_size :: "dir_entries \<Rightarrow> nat" where
  "tree_size d = sum_list (map (node_size \<circ> snd) d)"

lemma node_size_Dir [simp]: "node_size (Dir es) = tree_size es"
  by (simp add: tree_size_def comp_def)

lemmas [simp del] = node_size.simps(2)

lemma tree_size_simps [simp]:
  "tree_size [] = 0" "tree_size (e # d) = node_size (snd e) + tree_size d"
  by (simp_all add: tree_size_def)

lemma add64_mod: "(add64 a c + d) mod M64 = (a + (c + d)) mod M64"
  unfolding add64_def mod_add_left_eq by (simp only: add.assoc)

lemma size_steps:
  "(fst (foldl size_step (t, stack) d) + sum_list (map tree_size (snd (foldl size_step (t, stack) d)))) mod M64
     = (t + sum_list (map tree_size stack) + tree_size d) mod M64"
proof (induction d arbitrary: t stack)
  case (Cons e d)
  obtain n x where e: "e = (n, x)" by (cases e)
  show ?case
  proof (cases x)
    case (File bs)
    have "(add64 t (length bs) + (sum_list (map tree_size stack) + tree_size d)) mod M64
        = (t + (length bs + (sum_list (map tree_size stack) + tree_size d))) mod M64"
      by (rule add64_mod)
    then show ?thesis using Cons.IH [of "add64 t (length bs)" stack] by (simp add: e File size_step_def ac_simps)
  next
    case (Dir es)
    then show ?thesis using Cons.IH [of t "es # stack"] by (simp add: e size_step_def ac_simps)
  qed
qed simp

lemma size_steps_bound: "t < M64 \<Longrightarrow> fst (foldl size_step (t, stack) d) < M64"
  by (induction d arbitrary: t stack) (auto simp: size_step_def split: fs_node.split)

lemma size_loop_tree: "t < M64 \<Longrightarrow> size_loop t stack = (t + sum_list (map tree_size stack)) mod M64"
proof (induction t stack rule: size_loop.induct)
  case (2 t d stack)
  obtain t' stack' where s: "foldl size_step (t, stack) d = (t', stack')" by fastforce
  have "size_loop t' stack' = (t' + sum_list (map tree_size stack')) mod M64"
    using 2 size_steps_bound [of t stack d] s by simp
  then show ?case using size_steps [of t stack d] s by (simp add: ac_simps)
qed simp

text \<open>The explicit-stack traversal that sizes a cache directory ends and counts every file below the
  directory exactly once, modulo the width of the counter.\<close>

theorem dir_size_counts_every_file: "dir_size_bytes d = tree_size d mod M64"
  using size_loop_tree [of 0 "[d]"] by (simp add: dir_size_bytes_def del: size_loop.simps)

lemma dir_size_small: "tree_size d < M64 \<Longrightarrow> dir_size_bytes d = tree_size d"
  using size_loop_tree [of 0 "[d]"] by (simp add: dir_size_bytes_def del: size_loop.simps)

section \<open>Entries\<close>

definition root_ok :: "cache_root \<Rightarrow> bool" where
  "root_ok croot \<longleftrightarrow> (\<forall>es. croot = Some es \<longrightarrow> distinct (map fst es))"

lemma sub_dirs_simps [simp]:
  "sub_dirs [] = []" "sub_dirs ((n, File bs) # d) = sub_dirs d" "sub_dirs ((n, Dir es) # d) = (n, es) # sub_dirs d"
  by (simp_all add: sub_dirs_def)

lemma sub_dirs_iff: "(n, es) \<in> set (sub_dirs d) \<longleftrightarrow> (n, Dir es) \<in> set d"
proof (induction d)
  case (Cons e d)
  then show ?case by (cases e; cases "snd e") auto
qed simp

lemma dir_in_Some: "dir_in d n = Some es \<longleftrightarrow> map_of d n = Some (Dir es)"
  by (auto simp: dir_in_def split: option.splits fs_node.splits)

lemma dir_in_iff: "distinct (map fst d) \<Longrightarrow> dir_in d n = Some es \<longleftrightarrow> (n, Dir es) \<in> set d"
  by (simp only: dir_in_Some map_of_eq_Some_iff)

lemma entry_dirs_iff: "root_ok croot \<Longrightarrow> (n, d) \<in> set (entry_dirs croot) \<longleftrightarrow> entry_dir croot n = Some d"
  by (cases croot) (auto simp: entry_dirs_def entry_dir_def sub_dirs_iff dir_in_iff root_ok_def)

lemma entry_dir_put [simp]:
  "entry_dir (put_entry croot n d) m = (if m = n \<and> croot \<noteq> None then Some d else entry_dir croot m)"
  by (cases croot) (auto simp: entry_dir_def put_entry_def dir_in_def update_conv')

lemma entry_dir_drop [simp]: "entry_dir (drop_entry croot n) m = (if m = n then None else entry_dir croot m)"
proof -
  have "map_of (filter (\<lambda>e. fst e \<noteq> n) es) m = (if m = n then None else map_of es m)" for es :: dir_entries
    by (induction es) auto
  then show ?thesis by (cases croot) (auto simp: entry_dir_def drop_entry_def dir_in_def)
qed

lemma root_ok_put: "root_ok croot \<Longrightarrow> root_ok (put_entry croot n d)"
  by (cases croot) (auto simp: root_ok_def put_entry_def distinct_update)

lemma root_ok_drop: "root_ok croot \<Longrightarrow> root_ok (drop_entry croot n)"
  by (cases croot) (auto simp: root_ok_def drop_entry_def distinct_map_filter)

lemma file_in_update [simp]:
  "file_in (AList.update n (File bs) d) m = (if m = n then Some bs else file_in d m)"
  by (simp add: file_in_def update_conv')

text \<open>A manifest the cache can read the state from: absent, not an object, or with fields of the right
  types.\<close>

definition state_readable :: "serde \<Rightarrow> dir_entries \<Rightarrow> bool" where
  "state_readable sd d \<longleftrightarrow>
     (\<forall>m. manifest_object sd d = Some m \<longrightarrow> state_of_object m \<noteq> None)"

lemma state_of_pin:
  "state_of_object m = Some s \<Longrightarrow>
     state_of_object (AList.update ''pinned'' (JBool p) m) = Some (s\<lparr>st_pinned := p\<rparr>)"
  by (auto simp: state_of_object_def update_conv' bind_eq_Some_conv split: option.splits)

lemma update_pin_effect:
  assumes "\<forall>m. sd_decode sd (sd_encode sd m) = Some m" "state_readable sd d"
    and "update_entry_state sd (AList.update ''pinned'' (JBool p)) d = Ok d'"
  shows "state_of_dir sd d' = (state_of_dir sd d)\<lparr>st_pinned := p\<rparr>" "read_manifest sd d' = read_manifest sd d"
proof -
  define m where "m = (case manifest_object sd d of Some m \<Rightarrow> m | None \<Rightarrow> [])"
  have d': "d' = AList.update MANIFEST_FILE (File (sd_encode sd (AList.update ''pinned'' (JBool p) m))) d"
    using assms(3) by (auto simp: update_entry_state_def Let_def m_def split: if_splits)
  have s: "state_of_object m = Some (state_of_dir sd d)"
  proof (cases "manifest_object sd d")
    case None
    then show ?thesis by (simp add: m_def state_of_dir_def state_of_object_def default_state_def)
  next
    case (Some m')
    then obtain s where "state_of_object m' = Some s" using assms(2) by (auto simp: state_readable_def)
    with Some show ?thesis by (simp add: m_def state_of_dir_def)
  qed
  have o: "manifest_object sd d' = Some (AList.update ''pinned'' (JBool p) m)"
    using assms(1) by (simp add: manifest_object_def d')
  show "state_of_dir sd d' = (state_of_dir sd d)\<lparr>st_pinned := p\<rparr>"
    using state_of_pin [OF s] by (simp add: state_of_dir_def [of sd d'] o)
  show "read_manifest sd d' = read_manifest sd d"
    by (cases "manifest_object sd d") (simp_all add: read_manifest_def o update_conv' m_def)
qed

lemma validate_id_Ok: "validate_id n = Ok u \<longleftrightarrow> (\<forall>e. validate_id n \<noteq> Err e)"
  by (simp add: validate_id_def)

lemma candidate_ids:
  "root_ok croot \<Longrightarrow> n \<in> ec_id ` set (eviction_candidates sd croot) \<longleftrightarrow>
     (\<exists>d. entry_dir croot n = Some d \<and> \<not> st_pinned (state_of_dir sd d))"
  by (force simp: eviction_candidates_def entry_dirs_iff image_iff)

text \<open>Pinning an entry takes effect and touches nothing else: the entry's state has the new pin and the
  old time of last use, its integrity record and every other entry are unchanged, and a pinned
  entry is not a candidate for eviction and refuses it.\<close>

theorem set_pinned_effect:
  assumes "\<forall>m. sd_decode sd (sd_encode sd m) = Some m" "root_ok croot"
    and "entry_dir croot ident = Some d" "state_readable sd d"
    and "set_pinned sd croot ident p = (Ok (), croot')"
  shows "\<exists>d'. entry_dir croot' ident = Some d' \<and> state_of_dir sd d' = (state_of_dir sd d)\<lparr>st_pinned := p\<rparr>
      \<and> read_manifest sd d' = read_manifest sd d
      \<and> (\<forall>n. n \<noteq> ident \<longrightarrow> entry_dir croot' n = entry_dir croot n)
      \<and> (p \<longrightarrow> ident \<notin> ec_id ` set (eviction_candidates sd croot')
            \<and> evict_entry sd rm croot' ident = (Err (Pinned ident), croot'))"
proof -
  have some: "croot \<noteq> None" using assms(3) by (cases croot) (simp_all add: entry_dir_def)
  from assms(3,5) obtain d' where u: "update_entry_state sd (AList.update ''pinned'' (JBool p)) d = Ok d'"
      and c: "croot' = put_entry croot ident d'" and v: "validate_id ident = Ok ()"
    by (auto simp: set_pinned_def change_state_def split: res.splits)
  note e = update_pin_effect [OF assms(1,4) u]
  have r: "root_ok croot'" unfolding c by (rule root_ok_put [OF assms(2)])
  have d': "entry_dir croot' ident = Some d'" using some by (simp add: c)
  have "ident \<notin> ec_id ` set (eviction_candidates sd croot')" if p
    using that e(1) d' by (simp add: candidate_ids [OF r])
  moreover have "evict_entry sd rm croot' ident = (Err (Pinned ident), croot')" if p
    using that e(1) d' v by (simp add: evict_entry_def)
  ultimately show ?thesis using d' e by (simp add: c)
qed

text \<open>A codec with the round trip of \<open>serde_json\<close>, and a cache of two entries.\<close>

instance json :: countable
  by countable_datatype

definition sample_serde :: serde where
  "sample_serde = \<lparr>sd_decode = (\<lambda>bs. case bs of [n] \<Rightarrow> Some (from_nat n) | _ \<Rightarrow> None), sd_encode = (\<lambda>m. [to_nat m])\<rparr>"

lemma sample_serde_round_trip: "\<forall>m. sd_decode sample_serde (sd_encode sample_serde m) = Some m"
  by (simp add: sample_serde_def)

definition sample_root :: cache_root where
  "sample_root = Some [(''a'', Dir [(''a.gguf'', File [7, 7, 7])]), (''b'', Dir [(''b.gguf'', File [9, 9])])]"

theorem set_pinned_effect_witness:
  "\<exists>d. entry_dir (snd (set_pinned sample_serde sample_root ''a'' True)) ''a'' = Some d
     \<and> st_pinned (state_of_dir sample_serde d)
     \<and> entry_dir (snd (set_pinned sample_serde sample_root ''a'' True)) ''b'' = entry_dir sample_root ''b''"
proof -
  let ?r = "set_pinned sample_serde sample_root ''a'' True"
  have ok: "root_ok sample_root" by (simp add: root_ok_def sample_root_def)
  have d: "entry_dir sample_root ''a'' = Some [(''a.gguf'', File [7, 7, 7])]"
    by (simp add: sample_root_def entry_dir_def dir_in_def)
  have s: "state_readable sample_serde [(''a.gguf'', File [7, 7, 7])]"
    by (simp add: state_readable_def manifest_object_def file_in_def MANIFEST_FILE_def)
  have "fst ?r = Ok ()"
    using d by (simp add: set_pinned_def change_state_def validate_id_def update_entry_state_def Let_def
        dir_in_def MANIFEST_FILE_def)
  then have r: "?r = (Ok (), snd ?r)" by (metis prod.collapse)
  from set_pinned_effect [OF sample_serde_round_trip ok d s r, where rm = "\<lambda>_. Removed"] show ?thesis by auto
qed

end
