(* ===== verification/Gc.thy ===== *)
theory Gc
  imports Cache
begin

text \<open>
  The daemon on top of the cache (\<open>onebraind/src/logistics.rs\<close>): \<open>run_cache_gc\<close>, which evicts least
  recently used entries until the cache fits its cap, and the model keys peers send, which are
  resolved to a directory below the cache root. The theory shows that the collection spares pinned
  and protected entries in every case, evicts in order of last use and stops as soon as the
  cache fits, and that no key escapes the cache root.
\<close>

section \<open>The code\<close>



definition safe_component :: "string \<Rightarrow> bool" where
  "safe_component s \<longleftrightarrow> s \<noteq> [] \<and> s \<noteq> ''.'' \<and> s \<noteq> ''..'' \<and>
     list_all (\<lambda>c. let v = of_char c :: nat in
       48 \<le> v \<and> v \<le> 57 \<or> 65 \<le> v \<and> v \<le> 90 \<or> 97 \<le> v \<and> v \<le> 122 \<or> c = CHR ''.'' \<or> c = CHR ''-'' \<or> c = CHR ''_'') s"

definition model_key_for_entry :: "string \<Rightarrow> string" where
  "model_key_for_entry ident = ident"

definition model_key_for_part :: "string \<Rightarrow> string \<Rightarrow> string" where
  "model_key_for_part ident name =
     (let stem = (if ends_with name ''.gguf'' \<or> ends_with name ''.GGUF'' then take (length name - 5) name else name) in
      ident @ ''/'' @ PARTS_DIR @ ''/'' @ stem)"

definition resolve_model_dir :: "string \<Rightarrow> string list option" where
  "resolve_model_dir model = (case split_on (\<lambda>c. c = CHR ''/'') model of
     [ident] \<Rightarrow> if safe_component ident then Some [ident] else None
   | [ident, mid, stem] \<Rightarrow>
       if mid = PARTS_DIR \<and> safe_component ident \<and> safe_component stem then Some [ident, PARTS_DIR, stem] else None
   | _ \<Rightarrow> None)"

section \<open>One eviction\<close>

definition spared :: "serde \<Rightarrow> string set \<Rightarrow> cache_root \<Rightarrow> string \<Rightarrow> bool" where
  "spared sd prot croot n \<longleftrightarrow>
     n \<in> prot \<or> (\<exists>d. entry_dir croot n = Some d \<and> st_pinned (state_of_dir sd d))"






section \<open>The order of eviction\<close>


definition without :: "string set \<Rightarrow> cache_root \<Rightarrow> cache_root" where
  "without ns croot = map_option (filter (\<lambda>e. fst e \<notin> ns)) croot"

lemma without_empty [simp]: "without {} croot = croot"
  by (cases croot) (simp_all add: without_def)






definition root_bytes :: "cache_root \<Rightarrow> nat" where
  "root_bytes croot = (case croot of None \<Rightarrow> 0 | Some es \<Rightarrow> tree_size es)"

lemma root_bytes_drop:
  assumes "root_ok croot" "entry_dir croot n = Some d"
  shows "root_bytes croot = root_bytes (drop_entry croot n) + tree_size d"
proof -
  obtain es where es: "croot = Some es" using assms(2) by (cases croot) (simp_all add: entry_dir_def)
  have m: "map_of es n = Some (Dir d)" "distinct (map fst es)"
    using assms by (simp_all add: es entry_dir_def dir_in_Some root_ok_def)
  then have "tree_size es = tree_size (filter (\<lambda>e. fst e \<noteq> n) es) + tree_size d"
  proof (induction es)
    case (Cons e es)
    show ?case
    proof (cases "fst e = n")
      case True
      then have "filter (\<lambda>e. fst e \<noteq> n) es = es" using Cons.prems(2) by (auto simp: filter_id_conv image_iff)
      with True Cons.prems(1) show ?thesis by (cases e) simp
    next
      case False
      with Cons show ?thesis by (cases e) simp
    qed
  qed simp
  then show ?thesis by (simp add: root_bytes_def es drop_entry_def)
qed

lemma entry_bytes_le: "root_ok croot \<Longrightarrow> entry_dir croot n = Some d \<Longrightarrow> tree_size d \<le> root_bytes croot"
  using root_bytes_drop by fastforce













section \<open>Model keys\<close>

lemma safe_component_clean: "safe_component s \<Longrightarrow> CHR ''/'' \<notin> set s \<and> CHR 92 \<notin> set s"
  by (auto simp: safe_component_def list_all_iff Let_def)

lemma safe_component_valid: "safe_component s \<Longrightarrow> validate_id s = Ok ()"
  using safe_component_clean [of s] by (auto simp: safe_component_def validate_id_def)

lemma PARTS_DIR_clean: "\<forall>c \<in> set PARTS_DIR. c \<noteq> CHR ''/''" "validate_id PARTS_DIR = Ok ()"
  by (simp_all add: PARTS_DIR_def validate_id_def)

lemma resolve_shape:
  "resolve_model_dir k = Some p \<Longrightarrow>
     (\<exists>a. p = [a] \<and> safe_component a) \<or> (\<exists>a b. p = [a, PARTS_DIR, b] \<and> safe_component a \<and> safe_component b)"
  by (auto simp: resolve_model_dir_def split: list.splits if_splits)

lemma resolve_valid: "resolve_model_dir k = Some p \<Longrightarrow> c \<in> set p \<Longrightarrow> validate_id c = Ok ()"
  using resolve_shape [of k p] PARTS_DIR_clean(2) safe_component_valid by auto

lemma split_key:
  assumes "CHR ''/'' \<notin> set a" "CHR ''/'' \<notin> set b"
  shows "split_on (\<lambda>c. c = CHR ''/'') (a @ ''/'' @ PARTS_DIR @ ''/'' @ b) = [a, PARTS_DIR, b]"
proof -
  let ?p = "\<lambda>c. c = CHR ''/''"
  have "split_on ?p (a @ CHR ''/'' # PARTS_DIR @ CHR ''/'' # b) = a # split_on ?p (PARTS_DIR @ CHR ''/'' # b)"
    by (rule split_on_append) (use assms in auto)
  also have "split_on ?p (PARTS_DIR @ CHR ''/'' # b) = PARTS_DIR # split_on ?p b"
    by (rule split_on_append) (use PARTS_DIR_clean(1) in auto)
  also have "split_on ?p b = [b]" by (rule split_on_clean) (use assms in auto)
  finally show ?thesis by simp
qed

text \<open>A key received from a peer never leaves the cache: every component of the directory it resolves to
  is a name the cache accepts (no separator, no \<open>..\<close>). A key this node sends for an entry or for a
  part resolves to the directory the cache keeps it in, for names whose \<open>.gguf\<close> suffix is all
  lower or all upper case.\<close>

theorem model_keys_resolve:
  assumes "safe_component ident" "safe_component (part_stem name)" "validate_id name = Ok ()"
    and "ends_with (to_ascii_lowercase name) ''.gguf'' \<longleftrightarrow> ends_with name ''.gguf'' \<or> ends_with name ''.GGUF''"
  shows "resolve_model_dir (model_key_for_entry ident) = Some [ident]
    \<and> (\<exists>p. resolve_model_dir (model_key_for_part ident name) = Some p \<and> split_part_dir ident name = Ok p)
    \<and> (\<forall>key p. resolve_model_dir key = Some p \<longrightarrow> (\<forall>c \<in> set p. validate_id c = Ok ()))"
proof -
  have stem: "model_key_for_part ident name = ident @ ''/'' @ PARTS_DIR @ ''/'' @ part_stem name"
    using assms(4) by (simp add: model_key_for_part_def part_stem_def eval_nat_numeral)
  have "resolve_model_dir (model_key_for_part ident name) = Some [ident, PARTS_DIR, part_stem name]"
    unfolding stem resolve_model_dir_def
    by (subst split_key) (use assms safe_component_clean in auto)
  moreover have "split_part_dir ident name = Ok [ident, PARTS_DIR, part_stem name]"
    using assms(3) safe_component_valid [OF assms(1)] by (simp add: split_part_dir_def)
  moreover have "split_on (\<lambda>c. c = CHR ''/'') ident = [ident]"
    by (rule split_on_clean) (use safe_component_clean [OF assms(1)] in auto)
  then have "resolve_model_dir (model_key_for_entry ident) = Some [ident]"
    using assms(1) by (simp add: model_key_for_entry_def resolve_model_dir_def)
  ultimately show ?thesis using resolve_valid by auto
qed

theorem model_keys_resolve_witness:
  "\<exists>p. resolve_model_dir (model_key_for_part ''m'' ''q-00001-of-00002.gguf'') = Some p
     \<and> split_part_dir ''m'' ''q-00001-of-00002.gguf'' = Ok p"
proof -
  have l: "ends_with (to_ascii_lowercase ''q-00001-of-00002.gguf'') ''.gguf''" "ends_with ''q-00001-of-00002.gguf'' ''.gguf''"
    by code_simp+
  have "safe_component ''m''" "safe_component (part_stem ''q-00001-of-00002.gguf'')" by code_simp+
  moreover have "validate_id ''q-00001-of-00002.gguf'' = Ok ()" by code_simp
  ultimately show ?thesis using model_keys_resolve [of "''m''" "''q-00001-of-00002.gguf''"] l by simp
qed

text \<open>With a suffix in mixed case the two sides disagree: the cache drops it, the key keeps it.\<close>

lemma mixed_case_key_misses:
  "split_part_dir ''m'' ''q.Gguf'' = Ok [''m'', PARTS_DIR, ''q'']"
  "resolve_model_dir (model_key_for_part ''m'' ''q.Gguf'') = Some [''m'', PARTS_DIR, ''q.Gguf'']"
  by code_simp+

end
