(* ===== verification/Ranges.thy ===== *)
theory Ranges
  imports Gguf Cache
begin

text \<open>
  The range store of \<open>onebrain-models/src/ranges.rs\<close>: which byte ranges of a model file a node needs
  for its layers, the record of verified ranges, reads from the local store, the inventory of a
  directory and the indexing of a complete file, with the header parsed from a growing prefix.

  A download directory has its ordinary entries (searched by \<open>find_model_file\<close> of the cache), the
  decoded \<open>ranges.json\<close> (\<open>None\<close> when it is missing or corrupt), the range files and the partial
  range files. BLAKE3 is a parameter. Failures of the local disk are not modelled, except reads
  past the end of a file.
\<close>

section \<open>Types\<close>

record ByteRange =
  br_start :: u64
  br_end :: u64

definition ByteRange_len :: "ByteRange \<Rightarrow> u64" where
  "ByteRange_len r = sat_sub (br_end r) (br_start r)"

definition ByteRange_cmp :: "ByteRange \<Rightarrow> ByteRange \<Rightarrow> ordering" where
  "ByteRange_cmp a b = ord_then (cmp (br_start a) (br_start b)) (cmp (br_end a) (br_end b))"

record RangeEntry =
  re_start :: u64
  re_end :: u64
  re_blake3 :: string

record RangeManifest =
  rm_url :: string
  rm_total_size :: u64
  rm_header_len :: u64
  rm_ranges :: "RangeEntry list"

record RangePlan =
  rp_total_size :: u64
  rp_header_len :: u64
  rp_ranges :: "ByteRange list"

datatype DownloadError =
    HttpClient
  | HttpStatus nat
  | Exhausted u32
  | DownloadIo
  | HashMismatch string string
  | SizeMismatch u64 u64
  | BadManifest

datatype RangeError =
    Download DownloadError
  | Gguf GgufError
  | CacheErr CacheError
  | InvalidRange u64 u64
  | NotPresent u64 u64
  | RangeUnsupported
  | NoFullFile
  | RangeIo

record dl_dir =
  dd_top :: dir_entries
  dd_manifest :: "RangeManifest option"
  dd_files :: "ByteRange \<rightharpoonup> u8 list"
  dd_parts :: "ByteRange \<rightharpoonup> u8 list"

section \<open>Planning\<close>

definition tensor_layer :: "string \<Rightarrow> u64 option" where
  "tensor_layer name = (if starts_with name ''blk.''
     then parse_usize (hd (split_on (\<lambda>c. c = CHR ''.'') (drop 4 name))) else None)"

definition needs_tensor :: "u64 set \<Rightarrow> TensorRange \<Rightarrow> bool" where
  "needs_tensor owned_layers tr \<longleftrightarrow>
     (case tensor_layer (tr_name tr) of None \<Rightarrow> True | Some layer \<Rightarrow> layer \<in> owned_layers) \<and> tr_start tr < tr_end tr"

definition tensor_bytes :: "TensorRange \<Rightarrow> ByteRange" where
  "tensor_bytes tr = \<lparr>br_start = tr_start tr, br_end = tr_end tr\<rparr>"

definition plan_ranges :: "GgufHeader \<Rightarrow> u64 \<Rightarrow> u64 set \<Rightarrow> (RangePlan, GgufError) res" where
  "plan_ranges header file_size owned_layers =
     res_bind (tensor_ranges header file_size) (\<lambda>trs.
       let ranges = \<lparr>br_start = 0, br_end = g_data_offset header\<rparr>
             # map tensor_bytes (filter (needs_tensor owned_layers) trs) in
       Ok \<lparr>rp_total_size = file_size, rp_header_len = g_data_offset header,
           rp_ranges = sort_by ByteRange_cmp ranges\<rparr>)"

definition plan_all_ranges :: "GgufHeader \<Rightarrow> u64 \<Rightarrow> (RangePlan, GgufError) res" where
  "plan_all_ranges header file_size =
     plan_ranges header file_size (set (List.map_filter (tensor_layer \<circ> ti_name) (g_tensors header)))"

section \<open>The range manifest\<close>

definition entry_key :: "RangeEntry \<Rightarrow> ByteRange" where
  "entry_key e = \<lparr>br_start = re_start e, br_end = re_end e\<rparr>"

definition find_entry :: "RangeManifest \<Rightarrow> ByteRange \<Rightarrow> RangeEntry option" where
  "find_entry m r = List.find (\<lambda>e. re_start e = br_start r \<and> re_end e = br_end r) (rm_ranges m)"

fun set_first_hash :: "ByteRange \<Rightarrow> string \<Rightarrow> RangeEntry list \<Rightarrow> RangeEntry list" where
  "set_first_hash r h [] = []"
| "set_first_hash r h (e # es) =
     (if re_start e = br_start r \<and> re_end e = br_end r then e\<lparr>re_blake3 := h\<rparr> # es else e # set_first_hash r h es)"

definition entry_cmp :: "RangeEntry \<Rightarrow> RangeEntry \<Rightarrow> ordering" where
  "entry_cmp a b = ByteRange_cmp (entry_key a) (entry_key b)"

definition upsert_range :: "RangeManifest \<Rightarrow> ByteRange \<Rightarrow> string \<Rightarrow> RangeManifest" where
  "upsert_range m r h = (case find_entry m r of
     Some _ \<Rightarrow> m\<lparr>rm_ranges := set_first_hash r h (rm_ranges m)\<rparr>
   | None \<Rightarrow> m\<lparr>rm_ranges := sort_by entry_cmp
       (rm_ranges m @ [\<lparr>re_start = br_start r, re_end = br_end r, re_blake3 = h\<rparr>])\<rparr>)"

definition fresh_manifest :: "string \<Rightarrow> RangePlan \<Rightarrow> RangeManifest" where
  "fresh_manifest url plan = \<lparr>rm_url = url, rm_total_size = rp_total_size plan,
     rm_header_len = rp_header_len plan, rm_ranges = []\<rparr>"

section \<open>Reading the store\<close>

text \<open>\<open>read_exact\<close> of \<open>len\<close> bytes at \<open>offset\<close>: \<open>None\<close> for a missing or too short file.\<close>

definition read_slice :: "u8 list option \<Rightarrow> u64 \<Rightarrow> usize \<Rightarrow> u8 list option" where
  "read_slice file offset len = (case file of
     None \<Rightarrow> None
   | Some bs \<Rightarrow> if offset + len \<le> length bs then Some (take len (drop offset bs)) else None)"

fun read_entries :: "dl_dir \<Rightarrow> u64 \<Rightarrow> u64 \<Rightarrow> RangeEntry list \<Rightarrow> u8 list option" where
  "read_entries d start end [] = None"
| "read_entries d start end (e # es) =
     (if re_start e \<le> start \<and> end \<le> re_end e then
        (case read_slice (dd_files d (entry_key e)) (start - re_start e) (end - start) of
           Some bytes \<Rightarrow> Some bytes
         | None \<Rightarrow> read_entries d start end es)
      else read_entries d start end es)"

definition manifest_entries :: "dl_dir \<Rightarrow> RangeEntry list" where
  "manifest_entries d = (case dd_manifest d of None \<Rightarrow> [] | Some m \<Rightarrow> rm_ranges m)"

definition read_range :: "dl_dir \<Rightarrow> u64 \<Rightarrow> u64 \<Rightarrow> (u8 list, RangeError) res" where
  "read_range d start end =
     (if end \<le> start then Err (InvalidRange start end)
      else case read_entries d start end (manifest_entries d) of
        Some bytes \<Rightarrow> Ok bytes
      | None \<Rightarrow> (case find_model_file (dd_top d) of
          Some (name, len) \<Rightarrow>
            if end \<le> len then
              (case read_slice (file_in (dd_top d) name) start (end - start) of
                 Some bytes \<Rightarrow> Ok bytes | None \<Rightarrow> Err (NotPresent start end))
            else Err (NotPresent start end)
        | None \<Rightarrow> Err (NotPresent start end)))"

definition entry_present :: "dl_dir \<Rightarrow> RangeEntry \<Rightarrow> bool" where
  "entry_present d e \<longleftrightarrow>
     (case dd_files d (entry_key e) of Some bs \<Rightarrow> length bs = ByteRange_len (entry_key e) | None \<Rightarrow> False)
     \<or> (case find_model_file (dd_top d) of Some (_, len) \<Rightarrow> re_end e \<le> len | None \<Rightarrow> False)"

definition present_ranges :: "dl_dir \<Rightarrow> RangeEntry list" where
  "present_ranges d = sort_by entry_cmp (filter (entry_present d) (manifest_entries d))"

section \<open>Headers from a growing prefix\<close>

text \<open>The loop of \<open>parse_local_header\<close> on a file of \<open>file_size\<close> bytes; \<open>None\<close> is a loop that never ends.\<close>

partial_function (option) local_header_loop ::
    "u8 list \<Rightarrow> u64 \<Rightarrow> u64 \<Rightarrow> (GgufHeader, RangeError) res option" where
  "local_header_loop file file_size want =
     (if length file < want then Some (Err RangeIo)
      else case parse (take want file) of
        Ok h \<Rightarrow> Some (Ok h)
      | Panic k \<Rightarrow> Some (Panic k)
      | Err e \<Rightarrow> (case e of
          NeedMoreData need_hint \<Rightarrow>
            if want < file_size
            then local_header_loop file file_size (min (max need_hint (mul64 want 2)) file_size)
            else Some (Err (Gguf e))
        | _ \<Rightarrow> Some (Err (Gguf e))))"

definition parse_local_header :: "u8 list \<Rightarrow> u64 \<Rightarrow> (GgufHeader, RangeError) res option" where
  "parse_local_header file file_size = local_header_loop file file_size (min (2 ^ 20) file_size)"

section \<open>Indexing a complete file\<close>

definition hash_entry :: "(u8 list \<Rightarrow> string) \<Rightarrow> u8 list \<Rightarrow> RangeEntry list \<Rightarrow> ByteRange \<Rightarrow> (RangeEntry list, RangeError) res" where
  "hash_entry blake3 file ranges r = (case read_slice (Some file) (br_start r) (ByteRange_len r) of
     None \<Rightarrow> Err RangeIo
   | Some bytes \<Rightarrow> Ok (ranges @ [\<lparr>re_start = br_start r, re_end = br_end r, re_blake3 = blake3 bytes\<rparr>]))"

definition gguf_res :: "('a, GgufError) res \<Rightarrow> ('a, RangeError) res" where
  "gguf_res x = (case x of Ok v \<Rightarrow> Ok v | Err e \<Rightarrow> Err (Gguf e) | Panic k \<Rightarrow> Panic k)"

definition index_file :: "(u8 list \<Rightarrow> string) \<Rightarrow> string \<Rightarrow> u8 list \<Rightarrow> GgufHeader \<Rightarrow> (RangeManifest, RangeError) res" where
  "index_file blake3 url file header =
     res_bind (gguf_res (plan_all_ranges header (length file))) (\<lambda>plan.
     res_bind (fold_res (hash_entry blake3 file) [] (rp_ranges plan)) (\<lambda>ranges.
       Ok \<lparr>rm_url = url, rm_total_size = length file, rm_header_len = rp_header_len plan, rm_ranges = ranges\<rparr>))"

definition index_full_file ::
    "(u8 list \<Rightarrow> string) \<Rightarrow> string \<Rightarrow> dl_dir \<Rightarrow> ((RangeManifest, RangeError) res \<times> dl_dir) option" where
  "index_full_file blake3 url d =
     (case Option.bind (find_model_file (dd_top d)) (\<lambda>(name, _). file_in (dd_top d) name) of
        None \<Rightarrow> Some (Err NoFullFile, d)
      | Some file \<Rightarrow> (case parse_local_header file (length file) of
          None \<Rightarrow> None
        | Some header \<Rightarrow> (case res_bind header (index_file blake3 url file) of
            Ok m \<Rightarrow> Some (Ok m, d\<lparr>dd_manifest := Some m\<rparr>)
          | Err e \<Rightarrow> Some (Err e, d)
          | Panic k \<Rightarrow> Some (Panic k, d))))"

section \<open>The plan\<close>










section \<open>The header of a local file\<close>

lemma parse_take_decides:
  assumes "\<forall>n. parse (take w f) \<noteq> Err (NeedMoreData n)"
  shows "parse f = parse (take w f)"
  using parse_stable [OF assms, of "drop w f"] by simp

lemma local_header_loop_decides:
  assumes "want \<le> length f" "0 < want \<or> f = []" "length f < 2 ^ 63"
  shows "local_header_loop f (length f) want = Some (gguf_res (parse f))"
  using assms(1,2)
proof (induction "length f - want" arbitrary: want rule: less_induct)
  case less
  note step = local_header_loop.simps [of f "length f" want]
  show ?case
  proof (cases "\<exists>n. parse (take want f) = Err (NeedMoreData n)")
    case False
    then show ?thesis using less.prems(1) parse_take_decides [of want f]
      by (subst step) (auto simp: gguf_res_def split: res.split GgufError.split)
  next
    case True
    then obtain n where n: "parse (take want f) = Err (NeedMoreData n)" by blast
    show ?thesis
    proof (cases "want < length f")
      case True
      let ?next = "min (max n (mul64 want 2)) (length f)"
      have "mul64 want 2 = 2 * want" using True assms(3) by (simp add: wrap_simps)
      then have "want < ?next" "?next \<le> length f" using True less.prems(2) by auto
      then have "local_header_loop f (length f) ?next = Some (gguf_res (parse f))"
        using less.hyps [of ?next] True by auto
      then show ?thesis using n True by (subst step) simp
    next
      case False
      then have "take want f = f" by simp
      then show ?thesis using n False less.prems(1) by (subst step) (simp add: gguf_res_def)
    qed
  qed
qed

text \<open>Reading a header from a growing prefix of a local file always ends and gives what parsing the
  whole file gives, header or error.\<close>

theorem local_header_terminates:
  assumes "length f < 2 ^ 63"
  shows "parse_local_header f (length f) = Some (gguf_res (parse f))"
  unfolding parse_local_header_def by (rule local_header_loop_decides) (use assms in auto)

theorem local_header_terminates_witness:
  "\<exists>h. parse_local_header empty_header_bytes (length empty_header_bytes) = Some (Ok h) \<and> g_data_offset h = 32"
proof -
  have "length empty_header_bytes < 2 ^ 63" by (simp add: empty_header_bytes_def)
  from local_header_terminates [OF this] show ?thesis by (simp add: parse_empty_header gguf_res_def)
qed

section \<open>Reads from the store\<close>

definition slice :: "u8 list \<Rightarrow> u64 \<Rightarrow> u64 \<Rightarrow> u8 list" where
  "slice f start end = take (end - start) (drop start f)"

text \<open>The bytes of a range file, as far as they belong to the range, are those of the model file.\<close>

definition agrees :: "u8 list \<Rightarrow> ByteRange \<Rightarrow> u8 list \<Rightarrow> bool" where
  "agrees f r bs \<longleftrightarrow> (\<exists>n. take (ByteRange_len r) bs = take n (slice f (br_start r) (br_end r)))"

lemma agrees_read:
  assumes "agrees f r bs" "br_start r \<le> a" "a < b" "b \<le> br_end r"
    and "read_slice (Some bs) (a - br_start r) (b - a) = Some out" "b \<le> length f"
  shows "out = slice f a b"
proof -
  let ?o = "a - br_start r" and ?l = "b - a" and ?n = "ByteRange_len r"
  obtain n where n: "take ?n bs = take n (slice f (br_start r) (br_end r))" using assms(1) by (auto simp: agrees_def)
  have out: "out = take ?l (drop ?o bs)" and bound: "?o + ?l \<le> length bs"
    using assms(5) by (auto simp: read_slice_def split: if_splits)
  have fit: "?o + ?l \<le> ?n" using assms(2-4) by (simp add: ByteRange_len_def sat_sub_def)
  have "take ?l (drop ?o bs) = drop ?o (take (?o + ?l) (take ?n bs))" using fit by (simp add: take_drop min_def add.commute)
  also have "\<dots> = drop ?o (take (?o + ?l) (take n (slice f (br_start r) (br_end r))))" by (simp only: n)
  also have "take (?o + ?l) (take n (slice f (br_start r) (br_end r))) = take (?o + ?l) (slice f (br_start r) (br_end r))"
  proof -
    have "?o + ?l \<le> length (take ?n bs)" using bound fit by simp
    then have "?o + ?l \<le> n" unfolding n by simp
    then show ?thesis by (simp add: min_def)
  qed
  also have "drop ?o \<dots> = slice f a b" using assms(2-4) by (simp add: slice_def take_drop min_def add.commute)
  finally show ?thesis using out by simp
qed

definition files_agree :: "u8 list \<Rightarrow> dl_dir \<Rightarrow> bool" where
  "files_agree f d \<longleftrightarrow> (\<forall>r bs. dd_files d r = Some bs \<longrightarrow> agrees f r bs)"

lemma read_entries_agree:
  assumes "files_agree f d" "a < b" "b \<le> length f"
  shows "read_entries d a b es = Some out \<Longrightarrow> out = slice f a b"
proof (induction es)
  case (Cons e es)
  show ?case
  proof (cases "re_start e \<le> a \<and> b \<le> re_end e \<and> read_slice (dd_files d (entry_key e)) (a - re_start e) (b - a) \<noteq> None")
    case True
    then obtain bs where bs: "dd_files d (entry_key e) = Some bs" by (auto simp: read_slice_def split: option.splits)
    have "read_slice (Some bs) (a - br_start (entry_key e)) (b - a) = Some out"
      using Cons.prems True bs by (auto simp: entry_key_def)
    from agrees_read [OF _ _ assms(2) _ this assms(3)] show ?thesis
      using assms(1) bs True by (auto simp: files_agree_def entry_key_def)
  next
    case False
    then show ?thesis using Cons by (auto split: if_splits)
  qed
qed simp

lemma find_model_file_fold:
  "foldl model_candidate best d = Some (n, len) \<Longrightarrow> best = Some (n, len) \<or> (\<exists>bs. (n, File bs) \<in> set d \<and> length bs = len)"
proof (induction d arbitrary: best)
  case (Cons e d)
  from Cons.IH [of "model_candidate best e"] Cons.prems
  have "model_candidate best e = Some (n, len) \<or> (\<exists>bs. (n, File bs) \<in> set d \<and> length bs = len)" by simp
  moreover have "best = Some (n, len) \<or> (\<exists>bs. e = (n, File bs) \<and> length bs = len)"
    if "model_candidate best e = Some (n, len)"
    using that by (auto simp: model_candidate_def split: prod.splits if_splits fs_node.splits option.splits)
  ultimately show ?case by auto
qed simp

lemma find_model_file_Some:
  assumes "distinct (map fst d)" "find_model_file d = Some (n, len)"
  obtains bs where "file_in d n = Some bs" "length bs = len"
proof -
  obtain bs where bs: "(n, File bs) \<in> set d" "length bs = len"
    using find_model_file_fold [of None d n len] assms(2) by (auto simp: find_model_file_def)
  then have "map_of d n = Some (File bs)" using assms(1) by simp
  then show thesis using that bs(2) by (simp add: file_in_def)
qed

text \<open>A directory that holds the complete file serves every range of it, from whichever source answers.\<close>

lemma read_range_full:
  assumes "files_agree f d" "find_model_file (dd_top d) = Some (name, length f)" "file_in (dd_top d) name = Some f"
    and "a < b" "b \<le> length f"
  shows "read_range d a b = Ok (slice f a b)"
proof (cases "read_entries d a b (manifest_entries d)")
  case None
  then show ?thesis using assms by (simp add: read_range_def read_slice_def slice_def)
next
  case (Some out)
  then show ?thesis using read_entries_agree [OF assms(1,4,5) Some] assms(4) by (simp add: read_range_def)
qed

lemma hash_entries:
  "fold_res (hash_entry blake3 f) acc rs = Ok es \<Longrightarrow>
     es = acc @ map (\<lambda>r. \<lparr>re_start = br_start r, re_end = br_end r, re_blake3 = blake3 (slice f (br_start r) (br_end r))\<rparr>) rs
     \<and> (\<forall>r \<in> set rs. br_start r + ByteRange_len r \<le> length f)"
proof (induction rs arbitrary: acc)
  case (Cons r rs)
  from Cons.prems obtain acc' where a: "hash_entry blake3 f acc r = Ok acc'"
      and b: "fold_res (hash_entry blake3 f) acc' rs = Ok es" by (auto simp: res_simps)
  from a have "acc' = acc @ [\<lparr>re_start = br_start r, re_end = br_end r, re_blake3 = blake3 (slice f (br_start r) (br_end r))\<rparr>]"
      and "br_start r + ByteRange_len r \<le> length f"
    by (auto simp: hash_entry_def read_slice_def slice_def ByteRange_len_def sat_sub_def split: if_splits)
  with Cons.IH [OF b] show ?case by simp
qed simp

text \<open>Indexing a complete file records only what the node can serve: every entry of the new
  \<open>ranges.json\<close> is in the inventory, and reading its range gives bytes with the recorded hash.\<close>

theorem indexed_ranges_are_served:
  assumes "index_full_file blake3 url d = Some (Ok m, d')" "files_agree f d"
    and "find_model_file (dd_top d) = Some (name, length f)" "file_in (dd_top d) name = Some f"
  shows "\<forall>e \<in> set (rm_ranges m). e \<in> set (present_ranges d')
    \<and> (re_start e < re_end e \<longrightarrow> (\<exists>bs. read_range d' (re_start e) (re_end e) = Ok bs \<and> re_blake3 e = blake3 bs))"
proof
  fix e assume e: "e \<in> set (rm_ranges m)"
  from assms obtain plan :: RangePlan where d': "d' = d\<lparr>dd_manifest := Some m\<rparr>"
      and f: "fold_res (hash_entry blake3 f) [] (rp_ranges plan) = Ok (rm_ranges m)"
    by (auto simp: index_full_file_def index_file_def res_simps split: option.splits res.splits)
  from hash_entries [OF f] e obtain r where r: "br_start r + ByteRange_len r \<le> length f"
      "e = \<lparr>re_start = br_start r, re_end = br_end r, re_blake3 = blake3 (slice f (br_start r) (br_end r))\<rparr>"
    by auto
  then have fit: "re_end e \<le> length f" by (simp add: ByteRange_len_def sat_sub_def)
  then have "e \<in> set (present_ranges d')"
    using e assms(3) by (simp add: present_ranges_def entry_present_def manifest_entries_def d')
  moreover have "\<exists>bs. read_range d' (re_start e) (re_end e) = Ok bs \<and> re_blake3 e = blake3 bs" if "re_start e < re_end e"
    using read_range_full [of f d' name "re_start e" "re_end e"] assms(2-4) that fit r(2)
    by (simp add: d' files_agree_def)
  ultimately show "e \<in> set (present_ranges d')
    \<and> (re_start e < re_end e \<longrightarrow> (\<exists>bs. read_range d' (re_start e) (re_end e) = Ok bs \<and> re_blake3 e = blake3 bs))"
    by simp
qed

text \<open>A complete file of 32 bytes: an empty header padded to its alignment.\<close>

definition sample_file :: "u8 list" where
  "sample_file = empty_header_bytes @ replicate 8 0"

definition sample_dir :: dl_dir where
  "sample_dir = \<lparr>dd_top = [(''m.gguf'', File sample_file)], dd_manifest = None, dd_files = Map.empty, dd_parts = Map.empty\<rparr>"

lemma sample_file_parse: "parse sample_file = parse empty_header_bytes" "length sample_file = 32"
  using parse_stable [of empty_header_bytes "replicate 8 0"]
  by (simp_all add: sample_file_def parse_empty_header) (simp add: empty_header_bytes_def)

lemma sample_dir_file:
  "find_model_file (dd_top sample_dir) = Some (''m.gguf'', 32)" "file_in (dd_top sample_dir) ''m.gguf'' = Some sample_file"
  by (simp_all add: sample_dir_def find_model_file_def model_candidate_def MANIFEST_FILE_def RANGES_MANIFEST_FILE_def
      ends_with_def file_in_def sample_file_parse)

lemma sample_index:
  "index_full_file (\<lambda>bs. replicate (length bs) (CHR ''h'')) ''u'' sample_dir =
     Some (Ok \<lparr>rm_url = ''u'', rm_total_size = 32, rm_header_len = 32,
         rm_ranges = [\<lparr>re_start = 0, re_end = 32, re_blake3 = replicate 32 (CHR ''h'')\<rparr>]\<rparr>,
       sample_dir\<lparr>dd_manifest := Some \<lparr>rm_url = ''u'', rm_total_size = 32, rm_header_len = 32,
         rm_ranges = [\<lparr>re_start = 0, re_end = 32, re_blake3 = replicate 32 (CHR ''h'')\<rparr>]\<rparr>\<rparr>)"
proof -
  have "parse_local_header sample_file 32 = Some (Ok \<lparr>g_version = 3, g_metadata = Map.empty, g_tensors = [],
      g_header_len = 24, g_alignment = 32, g_data_offset = 32\<rparr>)"
    using local_header_loop_decides [of 32 sample_file]
    by (simp add: parse_local_header_def sample_file_parse parse_empty_header gguf_res_def)
  then show ?thesis
    by (simp add: index_full_file_def sample_dir_file index_file_def plan_all_ranges_def plan_ranges_def tensor_ranges_def
        gguf_res_def hash_entry_def read_slice_def ByteRange_len_def sat_sub_def sample_file_parse)
qed

theorem indexed_ranges_are_served_witness:
  "\<exists>m d' bs. index_full_file (\<lambda>bs. replicate (length bs) (CHR ''h'')) ''u'' sample_dir = Some (Ok m, d')
     \<and> read_range d' 0 32 = Ok bs \<and> replicate 32 (CHR ''h'') = replicate (length bs) (CHR ''h'')"
proof -
  have "files_agree sample_file sample_dir" by (simp add: files_agree_def sample_dir_def)
  from indexed_ranges_are_served [OF sample_index this] sample_dir_file sample_file_parse(2) sample_index
  show ?thesis by auto
qed

end
