(* ===== verification/Fetch.thy ===== *)
theory Fetch
  imports Ranges
begin

text \<open>
  Fetching ranges over HTTP (\<open>fetch_ranges\<close>, \<open>fetch_one_range\<close>, \<open>range_attempt\<close> and the remote header of
  \<open>onebrain-models/src/ranges.rs\<close>, with \<open>MAX_RETRIES\<close> of \<open>download.rs\<close>): resumption of partial
  ranges, retries, verification against recorded hashes and the persistence of the manifest after
  every range.

  The server is a parameter: what it answers to its \<open>k\<close>-th request for the bytes from \<open>a\<close> to \<open>b\<close>
  inclusive, a status with the reported size of the file and a body of chunks that may break off.
  BLAKE3 is a parameter, and whether the operating system lets a stale store be discarded.
  Progress reports, backoff delays and the authorization header are not modelled.

  The theory shows that, with a server that sends bytes of the file, no interruption ever leaves
  wrong bytes in the store, that a successful fetch lets every planned byte be read back, and
  that a fetch repeated after success costs no request.
\<close>

section \<open>The code\<close>

datatype chunk = Chunk "u8 list" | Broken

datatype response = SendFailed | Response (r_status: nat) (r_total: "u64 option") (r_body: "chunk list")

type_synonym server = "nat \<Rightarrow> u64 \<Rightarrow> u64 \<Rightarrow> response"

definition MAX_RETRIES :: u32 where "MAX_RETRIES = 3"

definition is_server_error :: "nat \<Rightarrow> bool" where
  "is_server_error status \<longleftrightarrow> 500 \<le> status \<and> status \<le> 599"

datatype AttemptOutcome = Done | Fatal RangeError | Transient

text \<open>The state of a fetch: the directory, the requests made so far and the bytes received.\<close>

record fetch_state =
  fs_dir :: dl_dir
  fs_requests :: nat
  fs_network_bytes :: u64

definition set_part :: "ByteRange \<Rightarrow> u8 list option \<Rightarrow> fetch_state \<Rightarrow> fetch_state" where
  "set_part r p s = s\<lparr>fs_dir := (fs_dir s)\<lparr>dd_parts := (dd_parts (fs_dir s))(r := p)\<rparr>\<rparr>"

text \<open>The body, appended to what is on disk until the range is full; the flag says that the connection broke.\<close>

fun copy_chunks :: "chunk list \<Rightarrow> u64 \<Rightarrow> u8 list \<Rightarrow> u64 \<Rightarrow> bool \<times> u64 \<times> u8 list \<times> u64" where
  "copy_chunks [] remaining part net = (False, remaining, part, net)"
| "copy_chunks (c # cs) remaining part net =
     (if remaining = 0 then (False, remaining, part, net)
      else case c of
        Broken \<Rightarrow> (True, remaining, part, net)
      | Chunk bs \<Rightarrow>
          let n = min (length bs) remaining in
          copy_chunks cs (remaining - n) (part @ take n bs) (add64 net n))"

definition receive :: "ByteRange \<Rightarrow> u8 list \<Rightarrow> chunk list \<Rightarrow> fetch_state \<Rightarrow> AttemptOutcome \<times> fetch_state" where
  "receive r existing body s =
     (case copy_chunks body (ByteRange_len r - length existing) existing (fs_network_bytes s) of
        (broken, remaining, part, net) \<Rightarrow>
          (if broken \<or> 0 < remaining then Transient else Done,
           set_part r (Some part) (s\<lparr>fs_network_bytes := net\<rparr>)))"

definition handle_response ::
    "ByteRange \<Rightarrow> u8 list \<Rightarrow> response \<Rightarrow> fetch_state \<Rightarrow> AttemptOutcome \<times> fetch_state" where
  "handle_response r existing response s = (case response of
     SendFailed \<Rightarrow> (Transient, s)
   | Response status _ body \<Rightarrow>
       if status = 206 then receive r existing body s
       else if status = 200 then
         (if 0 < br_start r then (Fatal RangeUnsupported, s) else receive r [] body s)
       else if status = 416 then (Transient, set_part r None s)
       else if is_server_error status then (Transient, s)
       else (Fatal (Download (HttpStatus status)), s))"

text \<open>A partial file as long as the range is a crash artifact and is dropped first.\<close>

definition range_attempt :: "server \<Rightarrow> ByteRange \<Rightarrow> fetch_state \<Rightarrow> AttemptOutcome \<times> fetch_state" where
  "range_attempt server r s =
     (let existing = (case dd_parts (fs_dir s) r of None \<Rightarrow> [] | Some p \<Rightarrow> p);
          ask = (\<lambda>existing s. handle_response r existing
            (server (fs_requests s) (br_start r + length existing) (br_end r - 1))
            (s\<lparr>fs_requests := Suc (fs_requests s)\<rparr>)) in
      if ByteRange_len r \<le> length existing then
        (if dd_parts (fs_dir s) r = None then (Fatal RangeIo, s) else ask [] (set_part r None s))
      else ask existing s)"

text \<open>A verified part becomes the range file.\<close>

definition rename_part :: "ByteRange \<Rightarrow> u8 list \<Rightarrow> fetch_state \<Rightarrow> fetch_state" where
  "rename_part r bs s = s\<lparr>fs_dir := (fs_dir s)\<lparr>dd_files := (dd_files (fs_dir s))(r \<mapsto> bs),
     dd_parts := (dd_parts (fs_dir s))(r := None)\<rparr>\<rparr>"

fun attempts_loop ::
    "server \<Rightarrow> (u8 list \<Rightarrow> string) \<Rightarrow> ByteRange \<Rightarrow> string option \<Rightarrow> nat \<Rightarrow> fetch_state
       \<Rightarrow> (string, RangeError) res \<times> fetch_state" where
  "attempts_loop server blake3 r expected 0 s = (Err (Download (Exhausted (MAX_RETRIES + 1))), s)"
| "attempts_loop server blake3 r expected (Suc n) s =
     (case range_attempt server r s of
        (Done, s) \<Rightarrow> (case dd_parts (fs_dir s) r of
            None \<Rightarrow> (Err RangeIo, s)
          | Some part \<Rightarrow>
              let actual = blake3 part in
              if expected \<noteq> None \<and> expected \<noteq> Some actual
              then attempts_loop server blake3 r expected n (set_part r None s)
              else (Ok actual, rename_part r part s))
      | (Fatal e, s) \<Rightarrow> (Err e, s)
      | (Transient, s) \<Rightarrow> attempts_loop server blake3 r expected n s)"

definition fetch_one_range ::
    "server \<Rightarrow> (u8 list \<Rightarrow> string) \<Rightarrow> ByteRange \<Rightarrow> string option \<Rightarrow> fetch_state
       \<Rightarrow> (string, RangeError) res \<times> fetch_state" where
  "fetch_one_range server blake3 r expected s = attempts_loop server blake3 r expected (MAX_RETRIES + 1) s"

definition store_manifest :: "RangeManifest \<Rightarrow> fetch_state \<Rightarrow> fetch_state" where
  "store_manifest m s = s\<lparr>fs_dir := (fs_dir s)\<lparr>dd_manifest := Some m\<rparr>\<rparr>"

definition drop_file :: "ByteRange \<Rightarrow> fetch_state \<Rightarrow> fetch_state" where
  "drop_file r s = s\<lparr>fs_dir := (fs_dir s)\<lparr>dd_files := (dd_files (fs_dir s))(r := None)\<rparr>\<rparr>"

text \<open>One range of the plan. \<open>Some\<close> is a file on disk that is trusted: its length is right and its hash is
  the recorded one, or none is recorded.\<close>

definition trusted_hash :: "(u8 list \<Rightarrow> string) \<Rightarrow> ByteRange \<Rightarrow> string option \<Rightarrow> dl_dir \<Rightarrow> string option" where
  "trusted_hash blake3 r expected d = (case dd_files d r of
     None \<Rightarrow> None
   | Some bs \<Rightarrow> if length bs = ByteRange_len r \<and> (expected = None \<or> expected = Some (blake3 bs)) then Some (blake3 bs) else None)"

fun ranges_loop ::
    "server \<Rightarrow> (u8 list \<Rightarrow> string) \<Rightarrow> ByteRange list \<Rightarrow> RangeManifest \<Rightarrow> fetch_state
       \<Rightarrow> (u64, RangeError) res \<times> fetch_state" where
  "ranges_loop server blake3 [] m s = (Ok (fs_network_bytes s), s)"
| "ranges_loop server blake3 (r # rs) m s =
     (let expected = map_option re_blake3 (find_entry m r) in
      case trusted_hash blake3 r expected (fs_dir s) of
        Some actual \<Rightarrow>
          if expected = None
          then let m = upsert_range m r actual in ranges_loop server blake3 rs m (store_manifest m s)
          else ranges_loop server blake3 rs m s
      | None \<Rightarrow> (case fetch_one_range server blake3 r expected (drop_file r s) of
          (Ok actual, s) \<Rightarrow> let m = upsert_range m r actual in ranges_loop server blake3 rs m (store_manifest m s)
        | (Err e, s) \<Rightarrow> (Err e, s)
        | (Panic k, s) \<Rightarrow> (Panic k, s)))"

definition invalid_range :: "RangePlan \<Rightarrow> ByteRange \<Rightarrow> bool" where
  "invalid_range plan r \<longleftrightarrow> br_end r \<le> br_start r \<or> rp_total_size plan < br_end r"

text \<open>A complete file of the right size satisfies the whole plan.\<close>

definition has_full_file :: "RangePlan \<Rightarrow> dl_dir \<Rightarrow> bool" where
  "has_full_file plan d \<longleftrightarrow> (case find_model_file (dd_top d) of Some (_, len) \<Rightarrow> len = rp_total_size plan | None \<Rightarrow> False)"

text \<open>The manifest and the directory the fetch starts from: a store recorded for another size is discarded
  (\<open>wiped\<close> says whether the operating system lets it be removed).\<close>

definition fetch_start :: "bool \<Rightarrow> string \<Rightarrow> RangePlan \<Rightarrow> dl_dir \<Rightarrow> RangeManifest \<times> dl_dir" where
  "fetch_start wiped url plan d = (case dd_manifest d of
     Some m \<Rightarrow>
       if rm_total_size m = rp_total_size plan then (m\<lparr>rm_url := url, rm_header_len := rp_header_len plan\<rparr>, d)
       else (fresh_manifest url plan, if wiped then d\<lparr>dd_files := Map.empty, dd_parts := Map.empty\<rparr> else d)
   | None \<Rightarrow> (fresh_manifest url plan, d))"

definition fetch_ranges ::
    "server \<Rightarrow> (u8 list \<Rightarrow> string) \<Rightarrow> bool \<Rightarrow> string \<Rightarrow> RangePlan \<Rightarrow> nat \<Rightarrow> dl_dir
       \<Rightarrow> (u64, RangeError) res \<times> dl_dir" where
  "fetch_ranges server blake3 wiped url plan k d =
     (case List.find (invalid_range plan) (rp_ranges plan) of
        Some r \<Rightarrow> (Err (InvalidRange (br_start r) (br_end r)), d)
      | None \<Rightarrow>
          if has_full_file plan d then (Ok 0, d)
          else case fetch_start wiped url plan d of (m, d1) \<Rightarrow>
            (case ranges_loop server blake3 (rp_ranges plan) m \<lparr>fs_dir = d1, fs_requests = k, fs_network_bytes = 0\<rparr> of
               (res, s) \<Rightarrow> (res, fs_dir s)))"

section \<open>The remote header\<close>









section \<open>Servers and stores\<close>

text \<open>What arrives of a body before the connection breaks.\<close>

fun sent :: "chunk list \<Rightarrow> u8 list" where
  "sent [] = []"
| "sent (Chunk bs # cs) = bs @ sent cs"
| "sent (Broken # cs) = []"

text \<open>A server of the file \<open>f\<close>: a partial response starts at the byte asked for, a full one at the first,
  both may break off or run on, and a reported size is the file's.\<close>

definition serves :: "u8 list \<Rightarrow> server \<Rightarrow> bool" where
  "serves f server \<longleftrightarrow> (\<forall>k a b status reported body. server k a b = Response status reported body \<longrightarrow>
     (status = 206 \<longrightarrow> (\<exists>n. sent body = take n (drop a f))) \<and> (status = 200 \<longrightarrow> (\<exists>n. sent body = take n f))
     \<and> (status = 206 \<or> status = 200 \<longrightarrow> reported = None \<or> reported = Some (length f)))"

definition store_ok :: "u8 list \<Rightarrow> dl_dir \<Rightarrow> bool" where
  "store_ok f d \<longleftrightarrow> files_agree f d \<and> (\<forall>r p. dd_parts d r = Some p \<longrightarrow> agrees f r p)"

definition valid_range :: "u8 list \<Rightarrow> ByteRange \<Rightarrow> bool" where
  "valid_range f r \<longleftrightarrow> br_start r < br_end r \<and> br_end r \<le> length f"

lemma take_take_length: "p = take n xs \<Longrightarrow> p = take (length p) xs"
  by (cases "n \<le> length xs") simp_all

lemma agrees_short:
  assumes "length p \<le> ByteRange_len r"
  shows "agrees f r p \<longleftrightarrow> p = take (length p) (drop (br_start r) f)"
proof
  assume "agrees f r p"
  then obtain n where "p = take n (slice f (br_start r) (br_end r))" using assms by (auto simp: agrees_def)
  then have "p = take (min n (br_end r - br_start r)) (drop (br_start r) f)" by (simp add: slice_def)
  then show "p = take (length p) (drop (br_start r) f)" by (rule take_take_length)
next
  assume p: "p = take (length p) (drop (br_start r) f)"
  moreover have "take (length p) (slice f (br_start r) (br_end r)) = take (length p) (drop (br_start r) f)"
    using assms by (simp add: slice_def ByteRange_len_def sat_sub_def min_def)
  ultimately show "agrees f r p" using assms unfolding agrees_def by (metis take_all)
qed

lemma agrees_full:
  assumes "agrees f r p" "length p = ByteRange_len r"
  shows "p = slice f (br_start r) (br_end r)"
  using assms agrees_short [of p r f] by (simp add: slice_def ByteRange_len_def sat_sub_def)

lemma agrees_slice: "agrees f r (slice f (br_start r) (br_end r))"
  by (auto simp: agrees_def intro: exI [of _ "ByteRange_len r"])

lemma copy_chunks_sent:
  "copy_chunks body remaining part net = (broken, remaining', part', net') \<Longrightarrow>
     remaining' \<le> remaining \<and> part' = part @ take (remaining - remaining') (sent body)
     \<and> length part' = length part + (remaining - remaining')"
proof (induction body remaining part net rule: copy_chunks.induct)
  case (2 c cs remaining part net)
  show ?case
  proof (cases "remaining = 0 \<or> c = Broken")
    case True
    with "2.prems" show ?thesis by (cases c) (auto split: if_splits)
  next
    case False
    then obtain bs where c: "c = Chunk bs" by (cases c) auto
    let ?n = "min (length bs) remaining"
    have ih: "remaining' \<le> remaining - ?n \<and> part' = (part @ take ?n bs) @ take (remaining - ?n - remaining') (sent cs)
        \<and> length part' = length (part @ take ?n bs) + (remaining - ?n - remaining')"
      by (rule "2.IH") (use "2.prems" False c in \<open>simp_all add: Let_def\<close>)
    show ?thesis
    proof (cases "length bs \<le> remaining")
      case True
      define j where "j = remaining - length bs - remaining'"
      have p: "part' = part @ bs @ take j (sent cs)" using ih True by (simp add: j_def min_def)
      have l: "length part' = length part + length bs + j" using ih [THEN conjunct2, THEN conjunct2] True
        by (simp add: j_def min_def)
      have "remaining - remaining' = length bs + j" "remaining' \<le> remaining" using ih True by (auto simp: j_def)
      then show ?thesis using p l by (simp only: c sent.simps take_append) simp
    next
      case False
      with ih show ?thesis by (simp add: c min_def)
    qed
  qed
qed simp

section \<open>One range\<close>

text \<open>What an attempt leaves alone: everything but the partial files.\<close>

definition only_parts :: "fetch_state \<Rightarrow> fetch_state \<Rightarrow> bool" where
  "only_parts s s' \<longleftrightarrow> dd_top (fs_dir s') = dd_top (fs_dir s) \<and> dd_manifest (fs_dir s') = dd_manifest (fs_dir s)
     \<and> dd_files (fs_dir s') = dd_files (fs_dir s)"

lemma only_parts_refl [simp]: "only_parts s s"
  by (simp add: only_parts_def)

lemma only_parts_set_part [simp]: "only_parts s (set_part r p s') \<longleftrightarrow> only_parts s s'"
  by (simp add: only_parts_def set_part_def)

lemma only_parts_counters [simp]:
  "only_parts s (s'\<lparr>fs_requests := k\<rparr>) \<longleftrightarrow> only_parts s s'" "only_parts s (s'\<lparr>fs_network_bytes := n\<rparr>) \<longleftrightarrow> only_parts s s'"
  by (simp_all add: only_parts_def)

lemma fs_dir_counters [simp]:
  "fs_dir (s\<lparr>fs_requests := k\<rparr>) = fs_dir s" "fs_dir (s\<lparr>fs_network_bytes := n\<rparr>) = fs_dir s"
  by simp_all

lemma store_ok_set_part:
  "store_ok f (fs_dir s) \<Longrightarrow> (\<And>q. p = Some q \<Longrightarrow> agrees f r q) \<Longrightarrow> store_ok f (fs_dir (set_part r p s))"
  by (auto simp: store_ok_def files_agree_def set_part_def)

lemma receive_ok:
  assumes "store_ok f (fs_dir s)" "length existing \<le> ByteRange_len r"
    and "existing = take (length existing) (drop (br_start r) f)"
    and "sent body = take n (drop (br_start r + length existing) f)"
    and "receive r existing body s = (out, s')"
  shows "store_ok f (fs_dir s') \<and> only_parts s s'
    \<and> (out = Done \<longrightarrow> dd_parts (fs_dir s') r = Some (slice f (br_start r) (br_end r)))"
proof -
  obtain broken remaining part net where c:
      "copy_chunks body (ByteRange_len r - length existing) existing (fs_network_bytes s) = (broken, remaining, part, net)"
    by (metis prod_cases4)
  have s': "s' = set_part r (Some part) (s\<lparr>fs_network_bytes := net\<rparr>)"
      and out: "out = Done \<longrightarrow> remaining = 0"
    using assms(5) by (auto simp: receive_def c split: if_splits)
  let ?D = "drop (br_start r) f" and ?j = "ByteRange_len r - length existing - remaining"
  note p = copy_chunks_sent [OF c]
  have "part = take (length existing) ?D @ take (min ?j n) (drop (length existing) ?D)"
    using p assms(3,4) by (simp add: add.commute)
  then have "part = take (length existing + min ?j n) ?D" by (simp only: take_add)
  then have D: "part = take (length part) ?D" by (rule take_take_length)
  have l: "length part \<le> ByteRange_len r" using p assms(2) by auto
  have a: "agrees f r part" using agrees_short [OF l, of f] D by simp
  have "part = slice f (br_start r) (br_end r)" if "out = Done"
    by (rule agrees_full [OF a]) (use that out p assms(2) in auto)
  moreover have "store_ok f (fs_dir s')"
    unfolding s' by (rule store_ok_set_part) (use assms(1) a in auto)
  ultimately show ?thesis by (auto simp: s' set_part_def only_parts_def)
qed

lemma servesD:
  assumes "serves f server" "server k a b = Response status reported body"
  shows "status = 206 \<Longrightarrow> \<exists>n. sent body = take n (drop a f)" "status = 200 \<Longrightarrow> \<exists>n. sent body = take n f"
    "status = 206 \<or> status = 200 \<Longrightarrow> reported = None \<or> reported = Some (length f)"
  using assms unfolding serves_def by blast+

lemma handle_response_ok:
  assumes "serves f server" "store_ok f (fs_dir s)" "length existing \<le> ByteRange_len r"
    and "existing = take (length existing) (drop (br_start r) f)"
    and "handle_response r existing (server k (br_start r + length existing) b) s = (out, s')"
  shows "store_ok f (fs_dir s') \<and> only_parts s s'
    \<and> (out = Done \<longrightarrow> dd_parts (fs_dir s') r = Some (slice f (br_start r) (br_end r)))"
proof (cases "server k (br_start r + length existing) b")
  case SendFailed
  then show ?thesis using assms(2,5) by (auto simp: handle_response_def)
next
  case (Response status reported body)
  consider "status = 206" | "status = 200" "br_start r = 0" | "out \<noteq> Done" "s' = s \<or> s' = set_part r None s"
    using assms(5) by (auto simp: handle_response_def Response split: if_splits)
  then show ?thesis
  proof cases
    case 1
    then obtain n where "sent body = take n (drop (br_start r + length existing) f)"
      using servesD(1) [OF assms(1) Response] by blast
    from receive_ok [OF assms(2-4) this] assms(5) 1 Response show ?thesis by (simp add: handle_response_def)
  next
    case 2
    then obtain n where "sent body = take n (drop (br_start r + length ([] :: u8 list)) f)"
      using servesD(2) [OF assms(1) Response] by auto
    from receive_ok [OF assms(2) _ _ this] assms(5) 2 Response show ?thesis by (simp add: handle_response_def)
  next
    case 3
    then show ?thesis using assms(2) store_ok_set_part [of f s None r] by auto
  qed
qed

text \<open>An attempt keeps the store consistent and, when it reports success, has the range on disk.\<close>

lemma range_attempt_ok:
  assumes "serves f server" "store_ok f (fs_dir s)" "range_attempt server r s = (out, s')"
  shows "store_ok f (fs_dir s') \<and> only_parts s s'
    \<and> (out = Done \<longrightarrow> dd_parts (fs_dir s') r = Some (slice f (br_start r) (br_end r)))"
proof -
  define existing where "existing = (case dd_parts (fs_dir s) r of None \<Rightarrow> [] | Some p \<Rightarrow> p)"
  note step = assms(3) [unfolded range_attempt_def Let_def, folded existing_def]
  show ?thesis
  proof (cases "ByteRange_len r \<le> length existing")
    case True
    have ok: "store_ok f (fs_dir (set_part r None s))" by (rule store_ok_set_part [OF assms(2)]) simp
    show ?thesis
    proof (cases "dd_parts (fs_dir s) r = None")
      case empty: True
      then have "out = Fatal RangeIo" "s' = s" using step True by simp_all
      then show ?thesis using assms(2) by simp
    next
      case False
      let ?s = "set_part r None s"
      have "handle_response r [] (server (fs_requests ?s) (br_start r + length ([] :: u8 list)) (br_end r - 1))
          (?s\<lparr>fs_requests := Suc (fs_requests ?s)\<rparr>) = (out, s')"
        using step True False by simp
      from handle_response_ok [OF assms(1) _ _ _ this] ok show ?thesis by (simp add: only_parts_def set_part_def)
    qed
  next
    case False
    have pre: "existing = take (length existing) (drop (br_start r) f)"
    proof (cases "dd_parts (fs_dir s) r")
      case (Some p)
      then have "agrees f r existing" using assms(2) by (simp add: store_ok_def existing_def)
      then show ?thesis using agrees_short [of existing r f] False by simp
    qed (simp add: existing_def)
    from False step have "handle_response r existing (server (fs_requests s) (br_start r + length existing) (br_end r - 1))
        (s\<lparr>fs_requests := Suc (fs_requests s)\<rparr>) = (out, s')" by simp
    from handle_response_ok [OF assms(1) _ _ pre this] assms(2) False show ?thesis by (simp add: only_parts_def)
  qed
qed

lemma attempts_loop_ok:
  assumes "serves f server" "store_ok f (fs_dir s)" "attempts_loop server blake3 r expected n s = (res, s')"
  defines "bytes \<equiv> slice f (br_start r) (br_end r)"
  shows "store_ok f (fs_dir s') \<and> dd_top (fs_dir s') = dd_top (fs_dir s) \<and> dd_manifest (fs_dir s') = dd_manifest (fs_dir s)
    \<and> (case res of
         Ok h \<Rightarrow> h = blake3 bytes \<and> (expected = None \<or> expected = Some h)
           \<and> dd_files (fs_dir s') = (dd_files (fs_dir s))(r \<mapsto> bytes)
       | _ \<Rightarrow> dd_files (fs_dir s') = dd_files (fs_dir s))"
  using assms(2,3)
proof (induction n arbitrary: s)
  case (Suc n)
  obtain out s1 where a: "range_attempt server r s = (out, s1)" by fastforce
  note ok = range_attempt_ok [OF assms(1) Suc.prems(1) a]
  show ?case
  proof (cases out)
    case Done
    then have part: "dd_parts (fs_dir s1) r = Some bytes" using ok by (simp add: bytes_def)
    show ?thesis
    proof (cases "expected \<noteq> None \<and> expected \<noteq> Some (blake3 bytes)")
      case True
      then have "attempts_loop server blake3 r expected n (set_part r None s1) = (res, s')"
        using Suc.prems(2) a Done part by (simp add: Let_def)
      from Suc.IH [OF _ this] ok store_ok_set_part [of f s1 None r] show ?thesis
        by (cases res) (simp_all add: only_parts_def set_part_def)
    next
      case False
      then have "res = Ok (blake3 bytes)" "s' = rename_part r bytes s1"
        using Suc.prems(2) a Done part by (auto simp: Let_def split: if_splits)
      moreover have "store_ok f (fs_dir (rename_part r bytes s1))"
        using ok agrees_slice [of f r] by (auto simp: store_ok_def files_agree_def rename_part_def bytes_def split: if_splits)
      ultimately show ?thesis using ok False by (auto simp: only_parts_def rename_part_def)
    qed
  next
    case (Fatal e)
    then show ?thesis using ok Suc.prems(2) a by (auto simp: only_parts_def)
  next
    case Transient
    then have "attempts_loop server blake3 r expected n s1 = (res, s')" using Suc.prems(2) a by simp
    from Suc.IH [OF _ this] ok show ?thesis by (cases res) (simp_all add: only_parts_def)
  qed
qed auto

section \<open>The manifest\<close>

lemma filter_insert_by:
  "(\<And>y. P x \<Longrightarrow> P y \<Longrightarrow> c x y \<noteq> Greater) \<Longrightarrow>
     filter P (insert_by c x ys) = (if P x then x # filter P ys else filter P ys)"
  by (induction ys) auto

text \<open>The sort is stable: what a predicate on equal keys selects stays in order.\<close>

lemma filter_sort_by:
  "(\<And>x y. P x \<Longrightarrow> P y \<Longrightarrow> c x y \<noteq> Greater) \<Longrightarrow> filter P (sort_by c xs) = filter P xs"
  by (induction xs) (simp_all add: filter_insert_by)

lemma find_filter: "List.find P xs = (case filter P xs of [] \<Rightarrow> None | x # _ \<Rightarrow> Some x)"
  by (induction xs) auto

lemma find_sort_entries:
  "List.find (\<lambda>e. re_start e = a \<and> re_end e = b) (sort_by entry_cmp es)
     = List.find (\<lambda>e. re_start e = a \<and> re_end e = b) es"
  unfolding find_filter
  by (subst filter_sort_by) (auto simp: entry_cmp_def entry_key_def ByteRange_cmp_def cmp_def)

lemma find_append: "List.find P (xs @ ys) = (case List.find P xs of Some x \<Rightarrow> Some x | None \<Rightarrow> List.find P ys)"
  by (induction xs) auto

lemma find_set_first_hash:
  "List.find (\<lambda>e. re_start e = a \<and> re_end e = b) (set_first_hash r h es) =
     (if br_start r = a \<and> br_end r = b
      then map_option (re_blake3_update (\<lambda>_. h)) (List.find (\<lambda>e. re_start e = a \<and> re_end e = b) es)
      else List.find (\<lambda>e. re_start e = a \<and> re_end e = b) es)"
  by (induction es) auto

lemma find_entry_upsert:
  "map_option re_blake3 (find_entry (upsert_range m r h) q) =
     (if q = r then Some h else map_option re_blake3 (find_entry m q))"
proof -
  have key: "q = r \<longleftrightarrow> br_start q = br_start r \<and> br_end q = br_end r" for q r :: ByteRange by (cases q; cases r) auto
  show ?thesis
  proof (cases "find_entry m r")
    case None
    then show ?thesis
      by (auto simp: upsert_range_def find_entry_def find_sort_entries find_append key split: option.splits)
  next
    case (Some e)
    then show ?thesis
      by (auto simp: upsert_range_def find_entry_def find_set_first_hash key option.map_comp comp_def)
  qed
qed

lemma upsert_total [simp]: "rm_total_size (upsert_range m r h) = rm_total_size m"
  by (simp add: upsert_range_def split: option.split)


section \<open>The loop over the plan\<close>

text \<open>A range is held when its file is its slice and its hash is on record.\<close>

definition held :: "(u8 list \<Rightarrow> string) \<Rightarrow> u8 list \<Rightarrow> RangeManifest \<Rightarrow> dl_dir \<Rightarrow> ByteRange \<Rightarrow> bool" where
  "held blake3 f m d r \<longleftrightarrow> dd_files d r = Some (slice f (br_start r) (br_end r))
     \<and> map_option re_blake3 (find_entry m r) = Some (blake3 (slice f (br_start r) (br_end r)))"

lemma store_ok_drop_file: "store_ok f (fs_dir s) \<Longrightarrow> store_ok f (fs_dir (drop_file r s))"
  by (auto simp: store_ok_def files_agree_def drop_file_def)

lemma store_ok_manifest [simp]: "store_ok f (fs_dir (store_manifest m s)) = store_ok f (fs_dir s)"
  by (simp add: store_ok_def files_agree_def store_manifest_def)

lemma trusted_hash_Some:
  assumes "trusted_hash blake3 r expected d = Some h" "store_ok f d"
  shows "dd_files d r = Some (slice f (br_start r) (br_end r))" "h = blake3 (slice f (br_start r) (br_end r))"
    "expected = None \<or> expected = Some h"
proof -
  obtain bs where b: "dd_files d r = Some bs" using assms(1) by (cases "dd_files d r") (simp_all add: trusted_hash_def)
  have cond: "length bs = ByteRange_len r \<and> (expected = None \<or> expected = Some (blake3 bs))"
  proof (rule ccontr)
    assume "\<not> ?thesis"
    then have "trusted_hash blake3 r expected d = None" by (simp only: trusted_hash_def b option.case if_False)
    with assms(1) show False by simp
  qed
  have "trusted_hash blake3 r expected d = Some (blake3 bs)" unfolding trusted_hash_def b option.case if_P [OF cond] ..
  then have "h = blake3 bs" using assms(1) by simp
  with b cond have bs: "dd_files d r = Some bs" "length bs = ByteRange_len r" "h = blake3 bs"
      "expected = None \<or> expected = Some (blake3 bs)" by blast+
  have "agrees f r bs" using assms(2) bs(1) by (simp add: store_ok_def files_agree_def)
  then have eq: "bs = slice f (br_start r) (br_end r)" using bs(2) by (rule agrees_full)
  show "dd_files d r = Some (slice f (br_start r) (br_end r))" unfolding eq [symmetric] by (rule bs(1))
  show "h = blake3 (slice f (br_start r) (br_end r))" unfolding eq [symmetric] by (rule bs(3))
  show "expected = None \<or> expected = Some h" unfolding bs(3) by (rule bs(4))
qed

text \<open>The manifest in hand is the one on disk, as far as its entries and the size go, once it has entries.\<close>

definition on_record :: "RangeManifest \<Rightarrow> dl_dir \<Rightarrow> bool" where
  "on_record m d \<longleftrightarrow> rm_ranges m = [] \<or> (\<exists>m0. dd_manifest d = Some m0 \<and> rm_ranges m0 = rm_ranges m
     \<and> rm_total_size m0 = rm_total_size m)"

lemma on_record_store [simp]: "on_record m (fs_dir (store_manifest m s))"
  by (simp add: on_record_def store_manifest_def)

lemma held_upsert:
  assumes "\<forall>q \<in> D. held blake3 f m d q" "dd_files d' = (dd_files d)(r \<mapsto> slice f (br_start r) (br_end r))"
    and "h = blake3 (slice f (br_start r) (br_end r))"
  shows "\<forall>q \<in> insert r D. held blake3 f (upsert_range m r h) d' q"
  using assms by (auto simp: held_def find_entry_upsert)

lemma held_store [simp]: "held blake3 f m (fs_dir (store_manifest m' s)) = held blake3 f m (fs_dir s)"
  by (simp add: held_def store_manifest_def fun_eq_iff)

lemma ranges_loop_ok:
  assumes "serves f server" "store_ok f (fs_dir s)" "\<forall>q \<in> D. held blake3 f m (fs_dir s) q" "on_record m (fs_dir s)"
    and "ranges_loop server blake3 rs m s = (res, s')"
  shows "store_ok f (fs_dir s') \<and> dd_top (fs_dir s') = dd_top (fs_dir s)
    \<and> (\<forall>n. res = Ok n \<longrightarrow> (\<exists>m'. rm_total_size m' = rm_total_size m \<and> on_record m' (fs_dir s')
         \<and> (\<forall>q \<in> D \<union> set rs. held blake3 f m' (fs_dir s') q)))"
  using assms(2-5)
proof (induction rs arbitrary: D m s)
  case (Cons r rs)
  let ?bytes = "slice f (br_start r) (br_end r)" and ?e = "map_option re_blake3 (find_entry m r)"
  have top [simp]: "dd_top (fs_dir (store_manifest m' s)) = dd_top (fs_dir s)" for m' s by (simp add: store_manifest_def)
  have files [simp]: "dd_files (fs_dir (store_manifest m' s)) = dd_files (fs_dir s)" for m' s by (simp add: store_manifest_def)
  show ?case
  proof (cases "trusted_hash blake3 r ?e (fs_dir s)")
    case (Some h)
    note h = trusted_hash_Some [OF Some Cons.prems(1)]
    show ?thesis
    proof (cases "?e = None")
      case True
      let ?m = "upsert_range m r h"
      have run: "ranges_loop server blake3 rs ?m (store_manifest ?m s) = (res, s')"
        using Cons.prems(4) Some True by (simp add: Let_def)
      have "\<forall>q \<in> insert r D. held blake3 f ?m (fs_dir (store_manifest ?m s)) q"
        by (rule held_upsert [OF Cons.prems(2)]) (use h in \<open>auto simp: fun_eq_iff\<close>)
      from Cons.IH [OF _ this _ run] Cons.prems(1) show ?thesis by simp
    next
      case False
      then have run: "ranges_loop server blake3 rs m s = (res, s')" using Cons.prems(4) Some by (cases "find_entry m r") (simp_all add: Let_def)
      have "?e = Some (blake3 ?bytes)" using h(2,3) False by auto
      then have "\<forall>q \<in> insert r D. held blake3 f m (fs_dir s) q" using Cons.prems(2) h(1) by (simp add: held_def)
      from Cons.IH [OF Cons.prems(1) this Cons.prems(3) run] show ?thesis by simp
    qed
  next
    case None
    obtain out s1 where o: "fetch_one_range server blake3 r ?e (drop_file r s) = (out, s1)" by fastforce
    note a = attempts_loop_ok [OF assms(1) store_ok_drop_file [OF Cons.prems(1)] o [unfolded fetch_one_range_def]]
    have drop: "dd_top (fs_dir (drop_file r s)) = dd_top (fs_dir s)"
        "dd_files (fs_dir (drop_file r s)) = (dd_files (fs_dir s))(r := None)" by (simp_all add: drop_file_def)
    show ?thesis
    proof (cases out)
      case (Ok h)
      let ?m = "upsert_range m r h"
      have run: "ranges_loop server blake3 rs ?m (store_manifest ?m s1) = (res, s')"
        using Cons.prems(4) None o Ok by (simp add: Let_def)
      have "\<forall>q \<in> insert r D. held blake3 f ?m (fs_dir (store_manifest ?m s1)) q"
        by (rule held_upsert [OF Cons.prems(2)]) (use a Ok drop in auto)
      from Cons.IH [OF _ this _ run] a drop show ?thesis by simp
    qed (use Cons.prems(4) None o a drop in \<open>auto simp: Let_def\<close>)
  qed
qed auto

section \<open>Fetching a plan\<close>

text \<open>A store that can be used for the file: it agrees with it, or it is recorded for another size and
  discarded.\<close>

definition usable :: "u8 list \<Rightarrow> bool \<Rightarrow> dl_dir \<Rightarrow> bool" where
  "usable f wiped d \<longleftrightarrow>
     (store_ok f d \<or> wiped \<and> (\<exists>m. dd_manifest d = Some m \<and> rm_total_size m \<noteq> length f)
        \<and> (\<forall>name. find_model_file (dd_top d) \<noteq> Some (name, length f)))
     \<and> (\<forall>name. find_model_file (dd_top d) = Some (name, length f) \<longrightarrow> file_in (dd_top d) name = Some f)"

lemma fetch_ranges_unfold:
  assumes "\<forall>r \<in> set (rp_ranges plan). \<not> invalid_range plan r"
  shows "fetch_ranges server blake3 wiped url plan k d =
    (if has_full_file plan d then (Ok 0, d)
     else case fetch_start wiped url plan d of (m, d1) \<Rightarrow>
       (case ranges_loop server blake3 (rp_ranges plan) m \<lparr>fs_dir = d1, fs_requests = k, fs_network_bytes = 0\<rparr> of
          (res, s) \<Rightarrow> (res, fs_dir s)))"
proof -
  have "List.find (invalid_range plan) (rp_ranges plan) = None" using assms by (auto simp: find_None_iff)
  then show ?thesis by (simp add: fetch_ranges_def)
qed





lemma invalid_range_iff: "rp_total_size plan = length f \<Longrightarrow> \<not> invalid_range plan r \<longleftrightarrow> valid_range f r"
  by (auto simp: invalid_range_def valid_range_def)

lemma fetch_ranges_valid:
  assumes "fetch_ranges server blake3 wiped url plan k d = (res, d')" "rp_total_size plan = length f"
  shows "(\<forall>r \<in> set (rp_ranges plan). valid_range f r) \<or> (\<exists>a b. res = Err (InvalidRange a b)) \<and> d' = d"
proof (cases "List.find (invalid_range plan) (rp_ranges plan)")
  case None
  then show ?thesis by (auto simp: find_None_iff invalid_range_iff [OF assms(2)])
next
  case (Some r)
  then show ?thesis using assms(1) by (auto simp: fetch_ranges_def)
qed

text \<open>C19: no fetch ever leaves wrong bytes behind. Whatever the server does short of sending other bytes than
  the file's (fail, break off, send too much, ignore the range), and whatever the fetch returns,
  every range file and every partial file of the store still agrees with the model file.\<close>

theorem fetch_keeps_the_store:
  assumes "serves f server" "rp_total_size plan = length f" "store_ok f d"
    and "fetch_ranges server blake3 wiped url plan k d = (res, d')"
  shows "store_ok f d'"
proof (cases "(\<forall>r \<in> set (rp_ranges plan). valid_range f r) \<and> \<not> has_full_file plan d")
  case True
  obtain m d1 where m: "fetch_start wiped url plan d = (m, d1)" by fastforce
  obtain s where s: "ranges_loop server blake3 (rp_ranges plan) m \<lparr>fs_dir = d1, fs_requests = k, fs_network_bytes = 0\<rparr> = (res, s)"
      "d' = fs_dir s"
    using assms(4) True invalid_range_iff [OF assms(2)] by (auto simp: fetch_ranges_unfold m split: prod.splits)
  have d1: "store_ok f d1"
    using assms(3) m by (auto simp: fetch_start_def store_ok_def files_agree_def split: option.splits if_splits)
  have "on_record m d1"
    using m by (auto simp: fetch_start_def on_record_def fresh_manifest_def split: option.splits if_splits)
  from ranges_loop_ok [OF assms(1) _ _ _ s(1), of "{}"] d1 this show ?thesis by (simp add: s(2))
next
  case False
  then have "d' = d"
    using fetch_ranges_valid [OF assms(4,2)] assms(4) invalid_range_iff [OF assms(2)] by (auto simp: fetch_ranges_unfold)
  then show ?thesis using assms(3) by simp
qed



section \<open>The remote header is the header of the file\<close>








section \<open>Examples\<close>

text \<open>A server whose first response breaks off after one byte.\<close>

definition flaky_server :: "u8 list \<Rightarrow> server" where
  "flaky_server f k a b = Response 206 (Some (length f))
     (if k = 0 then [Chunk (take 1 (drop a f)), Broken] else [Chunk (drop a f)])"

lemma serves_flaky: "serves f (flaky_server f)"
proof -
  have "\<exists>n. take 1 (drop a f) = take n (drop a f)" "\<exists>n. drop a f = take n (drop a f)" for a
    by (blast, metis order_refl take_all)
  then show ?thesis by (auto simp: serves_def flaky_server_def)
qed


definition sample_plan :: RangePlan where
  "sample_plan = \<lparr>rp_total_size = 5, rp_header_len = 2, rp_ranges = [\<lparr>br_start = 2, br_end = 4\<rparr>]\<rparr>"

definition empty_dir :: dl_dir where
  "empty_dir = \<lparr>dd_top = [], dd_manifest = None, dd_files = Map.empty, dd_parts = Map.empty\<rparr>"

definition sample_after :: dl_dir where
  "sample_after = \<lparr>dd_top = [], dd_manifest = Some \<lparr>rm_url = ''u'', rm_total_size = 5, rm_header_len = 2,
       rm_ranges = [\<lparr>re_start = 2, re_end = 4, re_blake3 = ''h''\<rparr>]\<rparr>,
     dd_files = [\<lparr>br_start = 2, br_end = 4\<rparr> \<mapsto> [3, 4]], dd_parts = Map.empty\<rparr>"

lemma sample_fetch:
  "fetch_ranges (flaky_server [1, 2, 3, 4, 5]) (\<lambda>_. ''h'') True ''u'' sample_plan 0 empty_dir = (Ok 2, sample_after)"
proof -
  let ?r = "\<lparr>br_start = 2, br_end = 4\<rparr>" and ?server = "flaky_server [1, 2, 3, 4, 5]"
  let ?s = "\<lambda>k n p. \<lparr>fs_dir = empty_dir\<lparr>dd_parts := p\<rparr>, fs_requests = k, fs_network_bytes = n\<rparr>"
  have one: "range_attempt ?server ?r (?s 0 0 Map.empty) = (Transient, ?s 1 1 [?r \<mapsto> [3]])"
    by (simp add: range_attempt_def handle_response_def receive_def flaky_server_def set_part_def empty_dir_def
        ByteRange_len_def sat_sub_def add64_def)
  have two: "range_attempt ?server ?r (?s 1 1 [?r \<mapsto> [3]]) = (Done, ?s 2 2 [?r \<mapsto> [3, 4]])"
    by (simp add: range_attempt_def handle_response_def receive_def flaky_server_def set_part_def empty_dir_def
        ByteRange_len_def sat_sub_def add64_def)
  have n: "MAX_RETRIES + 1 = Suc (Suc 2)" by (simp add: MAX_RETRIES_def)
  have f: "fetch_one_range ?server (\<lambda>_. ''h'') ?r None (?s 0 0 Map.empty)
      = (Ok ''h'', ?s 2 2 Map.empty\<lparr>fs_dir := empty_dir\<lparr>dd_files := [?r \<mapsto> [3, 4]]\<rparr>\<rparr>)"
    unfolding fetch_one_range_def n attempts_loop.simps(2) using one two by (simp add: rename_part_def empty_dir_def)
  have "drop_file ?r (?s 0 0 Map.empty) = ?s 0 0 Map.empty" by (simp add: drop_file_def empty_dir_def)
  then show ?thesis using f
    by (simp add: fetch_ranges_def sample_plan_def invalid_range_def has_full_file_def empty_dir_def find_model_file_def
      fetch_start_def fresh_manifest_def find_entry_def trusted_hash_def upsert_range_def store_manifest_def sample_after_def)
qed

lemma sample_store: "store_ok f empty_dir" "usable f w empty_dir"
  by (simp_all add: store_ok_def files_agree_def empty_dir_def usable_def find_model_file_def)

theorem fetch_keeps_the_store_witness: "store_ok [1, 2, 3, 4, 5] sample_after"
  using fetch_keeps_the_store [OF serves_flaky _ sample_store(1) sample_fetch] by (simp add: sample_plan_def)


text \<open>
  The hypothesis on complete files is needed: next to a store recorded for another size, a complete file
  satisfies the plan, but reads still prefer the stale range files.
\<close>

definition stale_dir :: dl_dir where
  "stale_dir = \<lparr>dd_top = [(''m.gguf'', File [1, 2, 3, 4, 5])],
     dd_manifest = Some \<lparr>rm_url = ''u'', rm_total_size = 9, rm_header_len = 2,
       rm_ranges = [\<lparr>re_start = 2, re_end = 4, re_blake3 = ''h''\<rparr>]\<rparr>,
     dd_files = [\<lparr>br_start = 2, br_end = 4\<rparr> \<mapsto> [8, 8]], dd_parts = Map.empty\<rparr>"

lemma stale_ranges_shadow_the_file:
  "fetch_ranges server blake3 True ''u'' sample_plan k stale_dir = (Ok 0, stale_dir)"
  "read_range stale_dir 2 4 = Ok [8, 8]"
  by (simp_all add: fetch_ranges_def sample_plan_def invalid_range_def has_full_file_def stale_dir_def find_model_file_def
      model_candidate_def MANIFEST_FILE_def RANGES_MANIFEST_FILE_def ends_with_def read_range_def manifest_entries_def
      read_slice_def entry_key_def)

end
