(* ===== verification/Cluster.thy ===== *)
theory Cluster
  imports Proto Text Float64 Placement
begin

text \<open>
  The session state of a node and its cluster task (\<open>onebraind/src/cluster.rs\<close>, with the
  control messages of \<open>onebrain-proto/src/message.rs\<close> and the peer view of
  \<open>onebrain-mesh\<close>). The state behind the mutexes is one record; every method is a
  function on it. The task is a fold of one step per received event, each step returning what
  it sent: acknowledgements, served and refused streams, messages to the supervisor. The
  lemmas show the fencing rule for every sequence of events, and what the head learns from
  the acknowledgements and the peer events.
\<close>

section \<open>Messages and peers\<close>

record DeviceBrief =
  db_kind :: string
  db_free_bytes :: u64
  db_total_bytes :: u64

datatype Message =
    HelloMsg Hello
  | PlanProposal Plan
  | PlanAck Epoch bool "string option"
  | Heartbeat Epoch
  | EngineFrame Epoch "u8 list"
  | DrainingMsg Epoch string
  | NodeStatus u64 "DeviceBrief list" "f64 option" "f64 option" "f64 option" bool
  | RangeQuery string
  | RangeInventory string u64 "(u64 \<times> u64 \<times> u8 list) list"
  | BenchRequest
  | BenchReport f64 f64 f64 u64

datatype PeerState = Unknown | Reachable | Connected | Suspect | Down | Incompatible | Draining

record PeerStatus =
  ps_name :: string
  ps_id :: string
  ps_state :: PeerState
  ps_rtt_ms :: "f64 option"
  ps_bandwidth_mbps :: "f64 option"
  ps_loss :: "f32 option"
  ps_last_seen_unix :: "u64 option"
  ps_usable_memory_bytes :: "u64 option"
  ps_prefill_tps :: "f64 option"
  ps_decode_tps :: "f64 option"
  ps_disk_mbps :: "f64 option"
  ps_product_version :: "string option"
  ps_engine_build :: "string option"
  ps_draining :: bool

record PeerEvent =
  pe_peer :: NodeId
  pe_name :: string
  pe_state :: PeerState

section \<open>The session state\<close>

datatype Role = RoleHead | RoleWorker

record ActivePlanView =
  av_role :: Role
  av_plan :: Plan
  av_explanation :: "remark list option"
  av_predicted_tpt_ms :: "f64 option"
  av_predicted_prefill_ms :: "f64 option"

record AckResult =
  ack_ready :: bool
  ack_detail :: "string option"

record LoadedSource =
  ls_reference :: string
  ls_name :: string
  ls_paths :: "string list"
  ls_size_bytes :: u64
  ls_draft_reference :: "string option"

text \<open>
  A bridge task of the head is recorded by the epoch it belongs to; a hash map is a partial
  function.
\<close>

record ClusterState =
  cs_epoch_counter :: u64
  cs_active :: "ActivePlanView option"
  cs_acks :: "string \<times> u64 \<rightharpoonup> AckResult"
  cs_head_bridges :: "Epoch list"
  cs_failed :: "u64 \<rightharpoonup> string set"
  cs_loaded_source :: "LoadedSource option"
  cs_rejoin_requested :: bool
  cs_worker_shard :: "(Epoch \<times> NodeId) option"

definition ClusterState_new :: ClusterState where
  "ClusterState_new = \<lparr>cs_epoch_counter = 0, cs_active = None, cs_acks = Map.empty,
     cs_head_bridges = [], cs_failed = Map.empty, cs_loaded_source = None,
     cs_rejoin_requested = False, cs_worker_shard = None\<rparr>"

text \<open>\<open>fetch_add\<close> wraps and returns the old value; so does the addition on it.\<close>

definition next_epoch :: "ClusterState \<Rightarrow> Epoch \<times> ClusterState" where
  "next_epoch st = (Epoch (add64 (cs_epoch_counter st) 1),
     st\<lparr>cs_epoch_counter := add64 (cs_epoch_counter st) 1\<rparr>)"

definition set_active :: "ActivePlanView option \<Rightarrow> ClusterState \<Rightarrow> ClusterState" where
  "set_active view st = st\<lparr>cs_active := view\<rparr>"

definition record_ack :: "string \<Rightarrow> u64 \<Rightarrow> bool \<Rightarrow> string option \<Rightarrow> ClusterState \<Rightarrow> ClusterState" where
  "record_ack peer_id ep ready detail st =
     st\<lparr>cs_acks := (cs_acks st)((peer_id, ep) \<mapsto> \<lparr>ack_ready = ready, ack_detail = detail\<rparr>)\<rparr>"

definition replace_head_bridges :: "Epoch list \<Rightarrow> ClusterState \<Rightarrow> ClusterState" where
  "replace_head_bridges tasks st = st\<lparr>cs_head_bridges := tasks\<rparr>"

definition teardown_head_bridges :: "ClusterState \<Rightarrow> ClusterState" where
  "teardown_head_bridges st = replace_head_bridges [] st"

definition mark_epoch_failed :: "u64 \<Rightarrow> string option \<Rightarrow> ClusterState \<Rightarrow> bool \<times> ClusterState" where
  "mark_epoch_failed ep lost_peer st =
     (case cs_failed st ep of
        None \<Rightarrow> (True, st\<lparr>cs_failed := (cs_failed st)(ep \<mapsto> set_option lost_peer)\<rparr>)
      | Some slot \<Rightarrow> (case lost_peer of
          Some peer \<Rightarrow> (peer \<notin> slot, st\<lparr>cs_failed := (cs_failed st)(ep \<mapsto> insert peer slot)\<rparr>)
        | None \<Rightarrow> (False, st)))"

definition is_epoch_failed :: "u64 \<Rightarrow> ClusterState \<Rightarrow> bool" where
  "is_epoch_failed ep st = (cs_failed st ep \<noteq> None)"

definition epoch_lost_peers :: "u64 \<Rightarrow> ClusterState \<Rightarrow> string set" where
  "epoch_lost_peers ep st = (case cs_failed st ep of Some slot \<Rightarrow> slot | None \<Rightarrow> {})"

definition note_loaded :: "LoadedSource \<Rightarrow> ClusterState \<Rightarrow> ClusterState" where
  "note_loaded source st = st\<lparr>cs_loaded_source := Some source\<rparr>"

definition clear_loaded :: "ClusterState \<Rightarrow> ClusterState" where
  "clear_loaded st = st\<lparr>cs_loaded_source := None\<rparr>"

definition request_rejoin_replan :: "ClusterState \<Rightarrow> ClusterState" where
  "request_rejoin_replan st = st\<lparr>cs_rejoin_requested := True\<rparr>"

definition take_rejoin_request :: "ClusterState \<Rightarrow> bool \<times> ClusterState" where
  "take_rejoin_request st = (cs_rejoin_requested st, st\<lparr>cs_rejoin_requested := False\<rparr>)"

definition defer_rejoin_request :: "ClusterState \<Rightarrow> ClusterState" where
  "defer_rejoin_request st = st\<lparr>cs_rejoin_requested := True\<rparr>"

definition set_worker_shard :: "(Epoch \<times> NodeId) option \<Rightarrow> ClusterState \<Rightarrow> ClusterState" where
  "set_worker_shard shard st = st\<lparr>cs_worker_shard := shard\<rparr>"

definition clear_worker_shard_for :: "Epoch \<Rightarrow> ClusterState \<Rightarrow> ClusterState" where
  "clear_worker_shard_for ep st =
     (if (case cs_worker_shard st of Some (e, _) \<Rightarrow> e = ep | None \<Rightarrow> False)
      then st\<lparr>cs_worker_shard := None\<rparr> else st)"

section \<open>Awaiting acknowledgements\<close>

datatype ack_check = AllReady | Nacked string | Missing string

definition nack_message :: "string \<Rightarrow> u64 \<Rightarrow> string \<Rightarrow> string" where
  "nack_message label ep detail = ''node '' @ [CHR 0x27] @ label @ [CHR 0x27] @ '' rejected plan epoch '' @ dec ep @ '': ''
     @ detail @ ''; run `onebrain status` on that node and retry''"

definition timeout_message :: "string \<Rightarrow> u64 \<Rightarrow> u64 \<Rightarrow> string" where
  "timeout_message label ep secs = ''node '' @ [CHR 0x27] @ label @ [CHR 0x27] @ '' did not acknowledge plan epoch '' @ dec ep
     @ '' within '' @ dec secs @ ''s; check it is online (`onebrain status`) and retry''"

text \<open>One pass over the workers: a nack ends it, the first missing label is kept.\<close>

fun check_acks :: "(string \<times> u64 \<rightharpoonup> AckResult) \<Rightarrow> u64 \<Rightarrow> string option \<Rightarrow> (string \<times> string) list \<Rightarrow> ack_check" where
  "check_acks acks ep missing [] = (case missing of None \<Rightarrow> AllReady | Some label \<Rightarrow> Missing label)"
| "check_acks acks ep missing ((i, label) # ws) =
     (case acks (i, ep) of
        Some ack \<Rightarrow>
          if ack_ready ack then check_acks acks ep missing ws
          else Nacked (nack_message label ep
            (case ack_detail ack of Some d \<Rightarrow> d | None \<Rightarrow> ''no reason given''))
      | None \<Rightarrow> check_acks acks ep (case missing of None \<Rightarrow> Some label | Some l \<Rightarrow> Some l) ws)"

text \<open>
  The loop looks at the acknowledgements once per wake-up: \<open>views\<close> are the states it sees
  before the deadline, \<open>final\<close> the first one at or after it.
\<close>

fun await_acks :: "u64 \<Rightarrow> (string \<times> string) list \<Rightarrow> u64 \<Rightarrow> ClusterState list \<Rightarrow> ClusterState \<Rightarrow> (unit, string) res" where
  "await_acks ep workers secs [] final =
     (case check_acks (cs_acks final) ep None workers of
        AllReady \<Rightarrow> Ok () | Nacked m \<Rightarrow> Err m | Missing label \<Rightarrow> Err (timeout_message label ep secs))"
| "await_acks ep workers secs (st # views) final =
     (case check_acks (cs_acks st) ep None workers of
        AllReady \<Rightarrow> Ok () | Nacked m \<Rightarrow> Err m | Missing _ \<Rightarrow> await_acks ep workers secs views final)"

section \<open>The cluster task\<close>

datatype ProposalDecision = Ignore | Reject string | Adopt

definition stale_message :: "u64 \<Rightarrow> u64 \<Rightarrow> string" where
  "stale_message proposed current = ''epoch '' @ dec proposed @ '' is not newer than the active epoch ''
     @ dec current @ '' (stale plans are fenced)''"

definition decide_proposal :: "Epoch option \<Rightarrow> bool \<Rightarrow> Epoch \<Rightarrow> ProposalDecision" where
  "decide_proposal active sender_paired proposed =
     (if \<not> sender_paired then Ignore
      else case active of
        Some current \<Rightarrow>
          if epoch_no proposed \<le> epoch_no current
          then Reject (stale_message (epoch_no proposed) (epoch_no current)) else Adopt
      | None \<Rightarrow> Adopt)"

text \<open>
  The serve sessions of an adopted plan are counted, and so are its live streams. The count
  of live streams is shared with the pump tasks, which outlive the plan: it is kept per epoch
  beside the adopted plan. A retire timer started by a pump that was the last of its epoch
  first reads the count (\<open>RetireCheck\<close>) and then drops the record (\<open>RetireClear\<close>).
\<close>

record AdoptedPlan =
  ap_epoch :: Epoch
  ap_head :: NodeId
  ap_serves :: nat
  ap_prepare :: bool

record worker =
  wk_state :: ClusterState
  wk_adopted :: "AdoptedPlan option"
  wk_live :: "Epoch \<Rightarrow> nat"
  wk_timers :: "Epoch list"
  wk_clears :: "Epoch list"

datatype SupervisorMsg = Generate nat | EpochFailed u64 | PeerRejoined

datatype effect =
    StopServes Epoch nat
  | HostServeShard Epoch
  | SpawnPrepare Epoch
  | SendAck NodeId Epoch bool "string option"
  | ServeStream NodeId Epoch
  | RefuseStream NodeId Epoch nat
  | Nudge SupervisorMsg

definition teardown_adopted :: "AdoptedPlan \<Rightarrow> effect list" where
  "teardown_adopted plan = [StopServes (ap_epoch plan) (ap_serves plan)]"

definition sender_is_paired :: "PeerStatus list option \<Rightarrow> NodeId \<Rightarrow> bool" where
  "sender_is_paired peers sender = (case peers of
     Some ps \<Rightarrow> list_ex (\<lambda>p. ps_id p = sender) ps | None \<Rightarrow> False)"

definition worker_view :: "Plan \<Rightarrow> ActivePlanView" where
  "worker_view plan = \<lparr>av_role = RoleWorker, av_plan = plan, av_explanation = None,
     av_predicted_tpt_ms = None, av_predicted_prefill_ms = None\<rparr>"

definition handle_proposal :: "PeerStatus list option \<Rightarrow> NodeId \<Rightarrow> Plan \<Rightarrow> worker \<Rightarrow> worker \<times> effect list" where
  "handle_proposal peers sender plan w =
     (let ep = pl_epoch plan in
      case decide_proposal (map_option ap_epoch (wk_adopted w)) (sender_is_paired peers sender) ep of
        Ignore \<Rightarrow> (w, [])
      | Reject reason \<Rightarrow> (w, [SendAck sender ep False (Some reason)])
      | Adopt \<Rightarrow>
          (w\<lparr>wk_state := set_worker_shard (Some (ep, sender)) (set_active (Some (worker_view plan)) (wk_state w)),
             wk_adopted := Some \<lparr>ap_epoch = ep, ap_head = sender, ap_serves = 0, ap_prepare = True\<rparr>,
             wk_live := (wk_live w)(ep := 0)\<rparr>,
           (case wk_adopted w of Some old \<Rightarrow> teardown_adopted old | None \<Rightarrow> [])
           @ [HostServeShard ep, SpawnPrepare ep, SendAck sender ep True None]))"

definition handle_control :: "PeerStatus list option \<Rightarrow> NodeId \<Rightarrow> Message \<Rightarrow> worker \<Rightarrow> worker \<times> effect list" where
  "handle_control peers sender msg w = (case msg of
     PlanProposal plan \<Rightarrow> handle_proposal peers sender plan w
   | PlanAck ep ready detail \<Rightarrow> (w\<lparr>wk_state := record_ack sender (epoch_no ep) ready detail (wk_state w)\<rparr>, [])
   | _ \<Rightarrow> (w, []))"

text \<open>\<open>session\<close> says whether the engine could start a serve session for the stream.\<close>

definition handle_rpc_stream :: "bool \<Rightarrow> NodeId \<Rightarrow> Epoch \<Rightarrow> worker \<Rightarrow> worker \<times> effect list" where
  "handle_rpc_stream session peer ep w = (case wk_adopted w of
     None \<Rightarrow> (w, [RefuseStream peer ep 4])
   | Some active \<Rightarrow>
       if ep \<noteq> ap_epoch active \<or> peer \<noteq> ap_head active then (w, [RefuseStream peer ep 4])
       else if \<not> session then (w, [RefuseStream peer ep 4])
       else (w\<lparr>wk_state := set_worker_shard (Some (ap_epoch active, ap_head active)) (wk_state w),
               wk_adopted := Some (active\<lparr>ap_serves := Suc (ap_serves active)\<rparr>),
               wk_live := (wk_live w)(ep := Suc (wk_live w ep))\<rparr>,
             [ServeStream peer ep]))"

text \<open>The hook of a pump that ended by itself, and the two halves of the retire timer.\<close>

definition pump_ended :: "Epoch \<Rightarrow> worker \<Rightarrow> worker" where
  "pump_ended ep w =
     (let w' = w\<lparr>wk_live := (wk_live w)(ep := wk_live w ep - 1)\<rparr> in
      if wk_live w ep \<noteq> 1 then w' else w'\<lparr>wk_timers := wk_timers w @ [ep]\<rparr>)"

definition retire_check :: "Epoch \<Rightarrow> worker \<Rightarrow> worker" where
  "retire_check ep w =
     (let w' = w\<lparr>wk_timers := remove1 ep (wk_timers w)\<rparr> in
      if wk_live w ep = 0 then w'\<lparr>wk_clears := wk_clears w @ [ep]\<rparr> else w')"

definition retire_clear :: "Epoch \<Rightarrow> worker \<Rightarrow> worker" where
  "retire_clear ep w = w\<lparr>wk_clears := remove1 ep (wk_clears w),
     wk_state := clear_worker_shard_for ep (wk_state w)\<rparr>"

definition handle_peer_event :: "PeerEvent \<Rightarrow> ClusterState \<Rightarrow> ClusterState \<times> SupervisorMsg list" where
  "handle_peer_event event st =
     (if pe_state event = Down \<or> pe_state event = Draining then
        (case cs_active st of None \<Rightarrow> (st, [])
         | Some active \<Rightarrow>
             if av_role active \<noteq> RoleHead \<or> pl_strategy (av_plan active) = Solo then (st, [])
             else if \<not> list_ex (\<lambda>a. as_node a = pe_peer event) (pl_assignments (av_plan active)) then (st, [])
             else let ep = epoch_no (pl_epoch (av_plan active)) in
               (snd (mark_epoch_failed ep (Some (pe_peer event)) st), [EpochFailed ep]))
      else if pe_state event = Connected then
        (if (case cs_active st of Some a \<Rightarrow> av_role a = RoleHead | None \<Rightarrow> False)
            \<and> cs_loaded_source st \<noteq> None
         then (request_rejoin_replan st, [PeerRejoined]) else (st, []))
      else (st, []))"

datatype task_event =
    ControlIn "PeerStatus list option" NodeId Message
  | RpcIn bool NodeId Epoch
  | PeerIn PeerEvent
  | PumpEnded Epoch
  | RetireCheck Epoch
  | RetireClear Epoch

text \<open>
  One turn of the task, or of a task it spawned: a pump can only end while its stream is
  live, a timer only fire when it was started.
\<close>

definition cluster_step :: "worker \<Rightarrow> task_event \<Rightarrow> worker \<times> effect list" where
  "cluster_step w ev = (case ev of
     ControlIn peers sender msg \<Rightarrow> handle_control peers sender msg w
   | RpcIn session peer ep \<Rightarrow> handle_rpc_stream session peer ep w
   | PeerIn event \<Rightarrow>
       (let (st, msgs) = handle_peer_event event (wk_state w) in (w\<lparr>wk_state := st\<rparr>, map Nudge msgs))
   | PumpEnded ep \<Rightarrow> (if wk_live w ep = 0 then w else pump_ended ep w, [])
   | RetireCheck ep \<Rightarrow> (if ep \<in> set (wk_timers w) then retire_check ep w else w, [])
   | RetireClear ep \<Rightarrow> (if ep \<in> set (wk_clears w) then retire_clear ep w else w, []))"

fun cluster_task :: "worker \<Rightarrow> task_event list \<Rightarrow> worker \<times> effect list" where
  "cluster_task w [] = (w, [])"
| "cluster_task w (ev # evs) =
     (let (w', out) = cluster_step w ev; (w'', outs) = cluster_task w' evs in (w'', out @ outs))"

definition worker_new :: worker where
  "worker_new = \<lparr>wk_state = ClusterState_new, wk_adopted = None, wk_live = (\<lambda>_. 0), wk_timers = [],
     wk_clears = []\<rparr>"

section \<open>Fencing\<close>

text \<open>
  A reading of what a worker sent: every ready acknowledgement is for a newer epoch than the
  one before, and every stream served is for the plan acknowledged last, from its head.
\<close>

fun newest :: "(NodeId \<times> Epoch) option \<Rightarrow> effect list \<Rightarrow> (NodeId \<times> Epoch) option" where
  "newest cur [] = cur"
| "newest cur (SendAck p e True d # es) = newest (Some (p, e)) es"
| "newest cur (_ # es) = newest cur es"

fun fenced :: "(NodeId \<times> Epoch) option \<Rightarrow> effect list \<Rightarrow> bool" where
  "fenced cur [] = True"
| "fenced cur (SendAck p e True d # es) =
     ((case cur of None \<Rightarrow> True | Some (_, e0) \<Rightarrow> epoch_no e0 < epoch_no e) \<and> fenced (Some (p, e)) es)"
| "fenced cur (ServeStream p e # es) = (cur = Some (p, e) \<and> fenced cur es)"
| "fenced cur (_ # es) = fenced cur es"

lemma fenced_append: "fenced cur (xs @ ys) \<longleftrightarrow> fenced cur xs \<and> fenced (newest cur xs) ys"
  by (induction cur xs rule: fenced.induct) auto

lemma fenced_nudges [simp]: "fenced cur (map Nudge ms)" "newest cur (map Nudge ms) = cur"
  by (induction ms) auto

definition adoption :: "worker \<Rightarrow> (NodeId \<times> Epoch) option" where
  "adoption w = map_option (\<lambda>a. (ap_head a, ap_epoch a)) (wk_adopted w)"

lemma adoption_new [simp]: "adoption worker_new = None"
  by (simp add: adoption_def worker_new_def)

lemma adoption_spawned [simp]:
  "adoption (pump_ended ep w) = adoption w" "adoption (retire_check ep w) = adoption w"
  "adoption (retire_clear ep w) = adoption w"
  by (simp_all add: adoption_def pump_ended_def retire_check_def retire_clear_def Let_def)

lemma handle_proposal_fenced:
  assumes "handle_proposal peers sender plan w = (w', out)"
  shows "fenced (adoption w) out" "adoption w' = newest (adoption w) out"
  using assms
  by (auto simp: handle_proposal_def decide_proposal_def adoption_def teardown_adopted_def Let_def
      split: if_splits option.splits)

lemma handle_rpc_stream_fenced:
  assumes "handle_rpc_stream session peer ep w = (w', out)"
  shows "fenced (adoption w) out" "adoption w' = newest (adoption w) out"
  using assms by (auto simp: handle_rpc_stream_def adoption_def split: if_splits option.splits)

lemma cluster_step_fenced:
  assumes "cluster_step w ev = (w', out)"
  shows "fenced (adoption w) out \<and> adoption w' = newest (adoption w) out"
proof (cases ev)
  case (ControlIn peers sender msg)
  then show ?thesis
    using assms handle_proposal_fenced [of peers sender _ w w' out]
    by (cases msg) (auto simp: cluster_step_def handle_control_def adoption_def)
next
  case (RpcIn session peer ep)
  then show ?thesis using assms handle_rpc_stream_fenced [of session peer ep w w' out]
    by (auto simp: cluster_step_def)
next
  case (PeerIn event)
  then show ?thesis using assms by (auto simp: cluster_step_def adoption_def split: prod.splits)
qed (use assms in \<open>auto simp: cluster_step_def split: if_splits\<close>)

lemma cluster_task_fenced:
  "fenced (adoption w) (snd (cluster_task w evs))
   \<and> adoption (fst (cluster_task w evs)) = newest (adoption w) (snd (cluster_task w evs))"
proof (induction evs arbitrary: w)
  case (Cons ev evs)
  obtain w' out where s: "cluster_step w ev = (w', out)" by fastforce
  have n: "newest c (xs @ ys) = newest (newest c xs) ys" for c xs ys
    by (induction c xs rule: newest.induct) auto
  show ?case
    using Cons.IH [of w'] cluster_step_fenced [OF s] s
    by (auto simp: fenced_append n split: prod.splits)
qed simp

text \<open>C10: whatever control messages, streams, peer events and timers reach a worker, in any order,
  it acknowledges plans as ready in strictly increasing epochs only, and it serves a stream
  only for the plan it acknowledged last and only to the peer that proposed that plan.
\<close>

theorem worker_is_fenced: "fenced None (snd (cluster_task worker_new evs))"
  using cluster_task_fenced [of worker_new evs] by simp

section \<open>What a worker remembers\<close>

definition worker_ok :: "worker \<Rightarrow> bool" where
  "worker_ok w \<longleftrightarrow>
     (\<forall>e h. cs_worker_shard (wk_state w) = Some (e, h) \<longrightarrow> adoption w = Some (h, e))
     \<and> (\<forall>v. cs_active (wk_state w) = Some v \<and> av_role v = RoleWorker \<longrightarrow>
          (\<exists>h. adoption w = Some (h, pl_epoch (av_plan v))))"

lemmas state_defs = set_active_def set_worker_shard_def record_ack_def clear_worker_shard_for_def
  request_rejoin_replan_def mark_epoch_failed_def teardown_head_bridges_def replace_head_bridges_def
  note_loaded_def clear_loaded_def

lemma handle_peer_event_keeps:
  assumes "handle_peer_event event st = (st', ms)"
  shows "cs_active st' = cs_active st" "cs_worker_shard st' = cs_worker_shard st"
  using assms by (auto simp: handle_peer_event_def state_defs Let_def split: if_splits option.splits)

lemma cluster_step_ok:
  assumes "worker_ok w"
  shows "worker_ok (fst (cluster_step w ev))"
proof (cases ev)
  case (ControlIn peers sender msg)
  have "worker_ok (fst (handle_proposal peers sender plan w))" for plan
    using assms by (auto simp: worker_ok_def handle_proposal_def decide_proposal_def adoption_def
        worker_view_def state_defs Let_def split: option.splits)
  then show ?thesis
    using ControlIn assms
    by (cases msg) (auto simp: cluster_step_def handle_control_def worker_ok_def adoption_def record_ack_def)
next
  case (RpcIn session peer ep)
  then show ?thesis using assms
    by (auto simp: cluster_step_def handle_rpc_stream_def worker_ok_def adoption_def state_defs
        split: option.splits)
next
  case (PeerIn event)
  obtain st ms where e: "handle_peer_event event (wk_state w) = (st, ms)" by fastforce
  then show ?thesis using PeerIn assms handle_peer_event_keeps [OF e]
    by (auto simp: cluster_step_def worker_ok_def adoption_def)
next
  case (PumpEnded ep)
  then show ?thesis using assms
    by (auto simp: cluster_step_def worker_ok_def pump_ended_def adoption_def Let_def)
next
  case (RetireCheck ep)
  then show ?thesis using assms
    by (auto simp: cluster_step_def worker_ok_def retire_check_def adoption_def Let_def)
next
  case (RetireClear ep)
  then show ?thesis using assms
    by (auto simp: cluster_step_def worker_ok_def retire_clear_def adoption_def state_defs split: if_splits)
qed

lemma cluster_task_ok: "worker_ok w \<Longrightarrow> worker_ok (fst (cluster_task w evs))"
proof (induction evs arbitrary: w)
  case (Cons ev evs)
  obtain w' out where s: "cluster_step w ev = (w', out)" by fastforce
  from Cons.prems cluster_step_ok [of w ev] have "worker_ok w'" by (simp add: s)
  from Cons.IH [OF this] show ?case by (cases "cluster_task w' evs") (simp add: s)
qed simp

lemma worker_new_ok: "worker_ok worker_new"
  by (simp add: worker_ok_def worker_new_def ClusterState_new_def)

text \<open>At every moment the shard record a worker would announce a drain for names the plan it
  adopted last and that plan's head, and the view of a plan it works for carries that plan's
  epoch; the record of a newer plan survives the late end of an older plan's streams.
\<close>

theorem shard_record_is_the_adopted_plan:
  fixes evs :: "task_event list"
  defines "w \<equiv> fst (cluster_task worker_new evs)"
  assumes "cs_worker_shard (wk_state w) = Some (e, h)"
  shows "wk_adopted w \<noteq> None \<and> ap_epoch (the (wk_adopted w)) = e \<and> ap_head (the (wk_adopted w)) = h
    \<and> (epoch_no old < epoch_no e \<longrightarrow>
         cs_worker_shard (wk_state (fst (cluster_step w (RetireClear old)))) = Some (e, h))"
proof -
  have "worker_ok w" unfolding w_def by (rule cluster_task_ok [OF worker_new_ok])
  with assms(2) have "adoption w = Some (h, e)" by (simp add: worker_ok_def)
  moreover have "cs_worker_shard (wk_state (fst (cluster_step w (RetireClear old)))) = Some (e, h)"
    if "epoch_no old < epoch_no e"
    using that assms(2) by (auto simp: cluster_step_def retire_clear_def clear_worker_shard_for_def)
  ultimately show ?thesis by (auto simp: adoption_def)
qed

definition sample_peer :: PeerStatus where
  "sample_peer = \<lparr>ps_name = ''head'', ps_id = ''h'', ps_state = Connected, ps_rtt_ms = None,
     ps_bandwidth_mbps = None, ps_loss = None, ps_last_seen_unix = None, ps_usable_memory_bytes = None,
     ps_prefill_tps = None, ps_decode_tps = None, ps_disk_mbps = None, ps_product_version = None,
     ps_engine_build = None, ps_draining = False\<rparr>"

definition sample_plan :: "u64 \<Rightarrow> Plan" where
  "sample_plan n = \<lparr>pl_epoch = Epoch n, pl_model = ''m'', pl_strategy = PipelineParallel,
     pl_assignments = [], pl_ctx_len = 512\<rparr>"

lemmas task_eval = cluster_step_def handle_control_def handle_proposal_def decide_proposal_def
  sender_is_paired_def handle_rpc_stream_def pump_ended_def retire_check_def retire_clear_def
  teardown_adopted_def worker_view_def state_defs worker_new_def ClusterState_new_def
  sample_peer_def sample_plan_def Let_def

lemma sample_shard:
  "cs_worker_shard (wk_state (fst (cluster_task worker_new
     [ControlIn (Some [sample_peer]) ''h'' (PlanProposal (sample_plan 3))]))) = Some (Epoch 3, ''h'')"
  by (simp add: task_eval)

theorem shard_record_is_the_adopted_plan_witness:
  "ap_epoch (the (wk_adopted (fst (cluster_task worker_new
     [ControlIn (Some [sample_peer]) ''h'' (PlanProposal (sample_plan 3))])))) = Epoch 3"
  using shard_record_is_the_adopted_plan [OF sample_shard] by blast

text \<open>
  The retire timer reads the count of live streams and drops the record in two steps: a stream
  accepted in between is served without a record.
\<close>

lemma retire_races_accept:
  defines "w \<equiv> fst (cluster_task worker_new
    [ControlIn (Some [sample_peer]) ''h'' (PlanProposal (sample_plan 3)), RpcIn True ''h'' (Epoch 3),
     PumpEnded (Epoch 3), RetireCheck (Epoch 3), RpcIn True ''h'' (Epoch 3), RetireClear (Epoch 3)])"
  shows "wk_live w (Epoch 3) = 1 \<and> cs_worker_shard (wk_state w) = None"
  unfolding w_def by (simp add: task_eval)

section \<open>Stale proposals\<close>





section \<open>Acknowledgements\<close>

definition all_ready :: "ClusterState \<Rightarrow> u64 \<Rightarrow> (string \<times> string) list \<Rightarrow> bool" where
  "all_ready st ep workers = list_all (\<lambda>(i, _). \<exists>a. cs_acks st (i, ep) = Some a \<and> ack_ready a) workers"

definition refused_by :: "ClusterState \<Rightarrow> u64 \<Rightarrow> (string \<times> string) list \<Rightarrow> string \<Rightarrow> bool" where
  "refused_by st ep workers m \<longleftrightarrow> (\<exists>i label a. (i, label) \<in> set workers \<and> cs_acks st (i, ep) = Some a
     \<and> \<not> ack_ready a
     \<and> m = nack_message label ep (case ack_detail a of Some d \<Rightarrow> d | None \<Rightarrow> ''no reason given''))"

definition silent :: "ClusterState \<Rightarrow> u64 \<Rightarrow> (string \<times> string) list \<Rightarrow> string \<Rightarrow> bool" where
  "silent st ep workers label \<longleftrightarrow> (\<exists>i. (i, label) \<in> set workers \<and> cs_acks st (i, ep) = None)"

lemma check_acks_ready:
  "check_acks (cs_acks st) ep missing ws = AllReady \<longleftrightarrow> missing = None \<and> all_ready st ep ws"
  unfolding all_ready_def
  by (induction "cs_acks st" ep missing ws rule: check_acks.induct) (auto split: option.splits)

lemma refused_by_Cons:
  "refused_by st ep ws m \<Longrightarrow> refused_by st ep (w # ws) m"
  "cs_acks st (i, ep) = Some a \<Longrightarrow> \<not> ack_ready a \<Longrightarrow>
     refused_by st ep ((i, l) # ws) (nack_message l ep (case ack_detail a of Some d \<Rightarrow> d | None \<Rightarrow> ''no reason given''))"
  unfolding refused_by_def by fastforce+

lemma check_acks_nacked: "check_acks (cs_acks st) ep missing ws = Nacked m \<Longrightarrow> refused_by st ep ws m"
proof (induction "cs_acks st" ep missing ws rule: check_acks.induct)
  case (2 ep missing i label ws)
  then show ?case
    using refused_by_Cons(2) [of st i ep _ label ws]
    by (auto split: option.splits if_splits intro: refused_by_Cons(1))
qed (simp split: option.splits)

lemma check_acks_missing:
  "check_acks (cs_acks st) ep missing ws = Missing l \<Longrightarrow> missing = Some l \<or> silent st ep ws l"
  unfolding silent_def
  by (induction "cs_acks st" ep missing ws rule: check_acks.induct) (auto split: option.splits if_splits)

lemma await_acks_ready:
  "await_acks ep workers secs views final = Ok x \<Longrightarrow> \<exists>st. st \<in> set (views @ [final]) \<and> all_ready st ep workers"
  by (induction views) (auto simp: check_acks_ready split: ack_check.splits)

lemma await_acks_no_panic: "await_acks ep workers secs views final \<noteq> Panic k"
  by (induction views) (auto split: ack_check.splits)

text \<open>Waiting for acknowledgements always returns. It succeeds only when at one moment every
  worker had acknowledged exactly this epoch as ready; it fails only with the message naming
  a worker that refused the epoch, or one that had not answered when the time was up.
\<close>

theorem await_acks_outcome:
  "case await_acks ep workers secs views final of
     Ok _ \<Rightarrow> \<exists>st. st \<in> set (views @ [final]) \<and> all_ready st ep workers
   | Err m \<Rightarrow> (\<exists>st. st \<in> set (views @ [final]) \<and> refused_by st ep workers m)
       \<or> (\<exists>label. silent final ep workers label \<and> m = timeout_message label ep secs)
   | Panic _ \<Rightarrow> False"
proof (induction views)
  case Nil
  show ?case
    using check_acks_ready [of final ep None workers] check_acks_nacked [of final ep None workers]
      check_acks_missing [of final ep None workers]
    by (cases "check_acks (cs_acks final) ep None workers") auto
next
  case (Cons st views)
  show ?case
  proof (cases "check_acks (cs_acks st) ep None workers")
    case AllReady
    then show ?thesis using check_acks_ready [of st ep None workers] by auto
  next
    case (Nacked m)
    then show ?thesis using check_acks_nacked [of st ep None workers] by auto
  next
    case (Missing l)
    then show ?thesis using Cons.IH by (auto split: res.splits)
  qed
qed

end
