(* ===== verification/Load.thy ===== *)
theory Load
  imports Cluster PlanV2
begin

text \<open>
  Loading a model on the cluster (\<open>onebraind/src/server.rs\<close>: \<open>plan_load\<close>, the predictions
  shown with a plan, the two activations and \<open>drive_load\<close> from planning on; with
  \<open>local_node_status\<close> and \<open>read_gguf_header\<close> of \<open>cluster.rs\<close>). The peer view of the mesh,
  the devices, the model files and the replies of the engine host are parameters. Messages to
  the user are data, one constructor per text.
\<close>

section \<open>Messages\<close>

datatype load_message =
    MeasuringMemoryFailed
  | MeshText string
  | HeaderUnreadable string string
  | HeaderUnparsable string GgufError
  | ReadingHeaderFailed
  | ScheduleText ScheduleError
  | PlanNotSent string string
  | AckText string
  | BridgeFailed string string
  | ShuttingDown
  | HostText string
  | HostExited
  | LostNodeError string u64 u64
  | RetryExhausted string
  | NotIdentified string
  | GenerationFailed string

datatype PlanLoadError = DoesNotFitLoad u64 u64 load_message | OtherLoad load_message

fun into_message :: "PlanLoadError \<Rightarrow> load_message" where
  "into_message (DoesNotFitLoad required available msg) = msg"
| "into_message (OtherLoad msg) = msg"

section \<open>This node\<close>

datatype DeviceKind = Cpu | Gpu | IntegratedGpu | Accelerator | OtherDevice

record DeviceInfo =
  dv_kind :: DeviceKind
  dv_free_bytes :: u64
  dv_total_bytes :: u64

definition OS_RESERVE_BYTES :: u64 where "OS_RESERVE_BYTES = 2 ^ 30"

fun kind_name :: "DeviceKind \<Rightarrow> string" where
  "kind_name Cpu = ''cpu''"
| "kind_name Gpu = ''gpu''"
| "kind_name IntegratedGpu = ''igpu''"
| "kind_name Accelerator = ''accel''"
| "kind_name OtherDevice = ''other''"

definition local_node_status :: "u64 option \<Rightarrow> DeviceInfo list \<Rightarrow> u64 \<times> DeviceBrief list" where
  "local_node_status override_bytes devices =
     (case override_bytes of
        Some b \<Rightarrow> b
      | None \<Rightarrow> sat_sub (case List.find (\<lambda>d. dv_kind d = Cpu) devices of Some d \<Rightarrow> dv_free_bytes d | None \<Rightarrow> 0)
          OS_RESERVE_BYTES,
      map (\<lambda>d. \<lparr>db_kind = kind_name (dv_kind d), db_free_bytes = dv_free_bytes d,
                db_total_bytes = dv_total_bytes d\<rparr>) devices)"

text \<open>A file is its bytes, or the error of opening it.\<close>

type_synonym file_read = "(u8 list, string) res"

partial_function (option) header_loop :: "string \<Rightarrow> u8 list \<Rightarrow> u64 \<Rightarrow> (GgufHeader, load_message) res option" where
  "header_loop path bytes want =
     (case parse (take want bytes) of
        Ok header \<Rightarrow> Some (Ok header)
      | Panic k \<Rightarrow> Some (Panic k)
      | Err e \<Rightarrow> (case e of
          NeedMoreData need_hint \<Rightarrow>
            if want < length bytes
            then header_loop path bytes (min (max need_hint (sat_mul64 want 2)) (length bytes))
            else Some (Err (HeaderUnparsable path e))
        | _ \<Rightarrow> Some (Err (HeaderUnparsable path e))))"

definition read_gguf_header :: "string \<Rightarrow> file_read \<Rightarrow> (GgufHeader, load_message) res option" where
  "read_gguf_header path contents = (case contents of
     Ok bytes \<Rightarrow> header_loop path bytes (min (2 ^ 20) (length bytes))
   | Err io \<Rightarrow> Some (Err (HeaderUnreadable path io))
   | Panic k \<Rightarrow> Some (Err ReadingHeaderFailed))"

section \<open>Planning a load\<close>

record StoredProfile =
  sp_measured_unix :: u64
  sp_prefill_tps :: f64
  sp_decode_tps :: f64
  sp_disk_mbps :: f64

text \<open>
  What planning reads of the daemon: the settings, the devices (none when the measuring task
  failed), the peer view at each poll before the three second deadline and at the first poll
  after it, and the model files.
\<close>

record node_env =
  ne_own_id :: string
  ne_usable_memory_override :: "u64 option"
  ne_decode_tps_override :: "f64 option"
  ne_ctx_len :: u32
  ne_n_ubatch :: u32
  ne_profile :: "StoredProfile option"
  ne_draining :: bool
  ne_devices :: "DeviceInfo list option"
  ne_peer_views :: "(PeerStatus list, string) res list"
  ne_peer_final :: "(PeerStatus list, string) res"
  ne_files :: "string \<Rightarrow> file_read"

definition connected_peers :: "string set \<Rightarrow> bool \<Rightarrow> PeerStatus list \<Rightarrow> PeerStatus list" where
  "connected_peers exclude exclude_draining all =
     filter (\<lambda>p. \<not> (exclude_draining \<and> ps_draining p))
       (filter (\<lambda>p. ps_id p \<notin> exclude) (filter (\<lambda>p. ps_state p = Connected) all))"

fun wait_for_budgets ::
    "string set \<Rightarrow> bool \<Rightarrow> (PeerStatus list, string) res list \<Rightarrow> (PeerStatus list, string) res \<Rightarrow>
     (PeerStatus list, PlanLoadError) res" where
  "wait_for_budgets exclude exclude_draining [] final = (case final of
     Ok all \<Rightarrow> Ok (connected_peers exclude exclude_draining all)
   | Err e \<Rightarrow> Err (OtherLoad (MeshText e)) | Panic k \<Rightarrow> Panic k)"
| "wait_for_budgets exclude exclude_draining (view # views) final = (case view of
     Ok all \<Rightarrow>
       let connected = connected_peers exclude exclude_draining all in
       if \<not> list_ex (\<lambda>p. ps_usable_memory_bytes p = None) connected then Ok connected
       else wait_for_budgets exclude exclude_draining views final
   | Err e \<Rightarrow> Err (OtherLoad (MeshText e)) | Panic k \<Rightarrow> Panic k)"

definition head_compute :: "f64 option \<Rightarrow> StoredProfile option \<Rightarrow> ComputeProfile option" where
  "head_compute override stored = (case (override, stored) of
     (Some decode, stored) \<Rightarrow>
       Some \<lparr>cp_prefill_tps = (case stored of Some p \<Rightarrow> sp_prefill_tps p | None \<Rightarrow> Fin 0),
             cp_decode_tps = decode\<rparr>
   | (None, Some p) \<Rightarrow> Some \<lparr>cp_prefill_tps = sp_prefill_tps p, cp_decode_tps = sp_decode_tps p\<rparr>
   | (None, None) \<Rightarrow> None)"

definition keep_positive :: "f64 option \<Rightarrow> f64 option" where
  "keep_positive x = (case x of Some d \<Rightarrow> if positive d then Some d else None | None \<Rightarrow> None)"

text \<open>One pass of the loop over the peers: the workers and the measured links of the request.\<close>

definition add_worker :: "string \<Rightarrow> NodeCaps list \<times> LinkRtt list \<Rightarrow> PeerStatus \<Rightarrow> NodeCaps list \<times> LinkRtt list" where
  "add_worker own_id = (\<lambda>(workers, links) p.
     case ps_usable_memory_bytes p of None \<Rightarrow> (workers, links)
     | Some bytes \<Rightarrow>
        (workers @ [\<lparr>nc_node = ps_id p, nc_usable = bytes,
            nc_compute = map_option (\<lambda>decode. \<lparr>cp_prefill_tps =
                (case ps_prefill_tps p of Some x \<Rightarrow> x | None \<Rightarrow> Fin 0), cp_decode_tps = decode\<rparr>)
              (keep_positive (ps_decode_tps p)),
            nc_draining = ps_draining p\<rparr>],
         links @ (case ps_rtt_ms p of None \<Rightarrow> []
           | Some rtt_ms \<Rightarrow> [\<lparr>lk_a = own_id, lk_b = ps_id p, lk_rtt = rtt_ms,
               lk_bandwidth = keep_positive (ps_bandwidth_mbps p)\<rparr>])))"

definition build_request :: "node_env \<Rightarrow> u64 \<Rightarrow> PeerStatus list \<Rightarrow> ModelDims \<Rightarrow> u32 option \<Rightarrow> PlanRequest" where
  "build_request env head_usable peers dims forced_nodes =
     (let (workers, links) = foldl (add_worker (ne_own_id env)) ([], []) peers in
      \<lparr>pr_head = \<lparr>nc_node = ne_own_id env, nc_usable = head_usable,
          nc_compute = head_compute (ne_decode_tps_override env) (ne_profile env),
          nc_draining = ne_draining env\<rparr>,
       pr_workers = workers, pr_dims = dims, pr_ctx_len = ne_ctx_len env,
       pr_forced_nodes = forced_nodes, pr_links = links, pr_n_ubatch = ne_n_ubatch env\<rparr>)"

section \<open>The figures shown with a plan\<close>

definition decode_of :: "PlanRequest \<Rightarrow> NodeId \<Rightarrow> f64 option" where
  "decode_of req i =
     (let nodes = pr_head req # pr_workers req;
          min_decode = foldl fmin NaN (List.map_filter own_decode nodes) in
      case Option.bind (List.find (\<lambda>c. nc_node c = i) nodes) own_decode of
        Some d \<Rightarrow> Some d
      | None \<Rightarrow> if is_finite min_decode then Some min_decode else None)"

definition predicted_tpt_ms :: "Assignment list \<Rightarrow> PlanRequest \<Rightarrow> f64" where
  "predicted_tpt_ms assignments req =
     (let compute_ms = foldl fmax (Fin 0) (map (\<lambda>a.
            case decode_of req (as_node a) of
              Some tps \<Rightarrow> fmul (fdiv (active_compute_units (pr_dims req) (lr_start (as_layers a))
                  (lr_end (as_layers a))) tps) (Fin 1000)
            | None \<Rightarrow> Fin 0) assignments);
          boundary_ms = fsum (map (\<lambda>(a, b). link_rtt (pr_links req) (as_node a) (as_node b)) (windows2 assignments)) in
      fadd compute_ms boundary_ms)"

definition predicted_prefill_ms :: "Assignment list \<Rightarrow> PlanRequest \<Rightarrow> f64" where
  "predicted_prefill_ms assignments req =
     fsum (map (\<lambda>(a, b).
       let link = find_link (pr_links req) (as_node a) (as_node b);
           rtt = (case link of Some l \<Rightarrow> lk_rtt l | None \<Rightarrow> DEFAULT_LINK_RTT_MS);
           transfer = (case Option.bind link lk_bandwidth of
               Some bw \<Rightarrow> boundary_transfer_ms (d_n_embd (pr_dims req)) (pr_n_ubatch req) bw
             | None \<Rightarrow> Fin 0) in
       fadd rtt transfer) (windows2 assignments))"

record PlannedLoad =
  pn_plan :: Plan
  pn_tensor_split :: "f32 list"
  pn_explanation :: "remark list"
  pn_predicted_tpt_ms :: "f64 option"
  pn_predicted_prefill_ms :: "f64 option"
  pn_own_id :: string

text \<open>The scheduler is called, the model is named, and a distributed plan gets the next epoch.\<close>

definition place_request ::
    "PlanRequest \<Rightarrow> string \<Rightarrow> string \<Rightarrow> ClusterState \<Rightarrow> (PlannedLoad, PlanLoadError) res \<times> ClusterState" where
  "place_request req own_id model_name st = (case plan_v2 req of
     Err e \<Rightarrow> (Err (case e of
         DoesNotFit required_mb available_mb \<Rightarrow> DoesNotFitLoad required_mb available_mb (ScheduleText e)
       | _ \<Rightarrow> OtherLoad (ScheduleText e)), st)
   | Panic k \<Rightarrow> (Panic k, st)
   | Ok pcd \<Rightarrow>
       let plan = (pp_plan pcd)\<lparr>pl_model := model_name\<rparr>;
           solo = (pl_strategy plan = Solo);
           (plan, st) = (if solo then (plan, st)
             else let (ep, st) = next_epoch st in (plan\<lparr>pl_epoch := ep\<rparr>, st)) in
       (Ok \<lparr>pn_plan = plan, pn_tensor_split = pp_tensor_split pcd, pn_explanation = pp_explanation pcd,
            pn_predicted_tpt_ms = (if solo then None else Some (predicted_tpt_ms (pl_assignments plan) req)),
            pn_predicted_prefill_ms = (if solo then None else Some (predicted_prefill_ms (pl_assignments plan) req)),
            pn_own_id = own_id\<rparr>, st))"

definition plan_request ::
    "node_env \<Rightarrow> string \<Rightarrow> u64 \<Rightarrow> u32 option \<Rightarrow> string set \<Rightarrow> bool \<Rightarrow> (PlanRequest, PlanLoadError) res" where
  "plan_request env path size_bytes forced_nodes exclude exclude_draining =
     (case ne_devices env of None \<Rightarrow> Err (OtherLoad MeasuringMemoryFailed)
      | Some devices \<Rightarrow>
          let head_usable = fst (local_node_status (ne_usable_memory_override env) devices) in
          res_bind (wait_for_budgets exclude exclude_draining (ne_peer_views env) (ne_peer_final env)) (\<lambda>peers.
          res_bind (case read_gguf_header path (ne_files env path) of
              None \<Rightarrow> Err (OtherLoad ReadingHeaderFailed)
            | Some (Ok header) \<Rightarrow> Ok header
            | Some (Err msg) \<Rightarrow> Err (OtherLoad msg)
            | Some (Panic k) \<Rightarrow> Err (OtherLoad ReadingHeaderFailed)) (\<lambda>header.
          res_bind (case model_dims header size_bytes of
              Ok dims \<Rightarrow> Ok dims | Err e \<Rightarrow> Err (OtherLoad (ScheduleText e)) | Panic k \<Rightarrow> Panic k) (\<lambda>dims.
          Ok (build_request env head_usable peers dims forced_nodes)))))"

definition plan_load ::
    "node_env \<Rightarrow> string \<Rightarrow> string \<Rightarrow> u64 \<Rightarrow> u32 option \<Rightarrow> string set \<Rightarrow> bool \<Rightarrow> ClusterState \<Rightarrow>
     (PlannedLoad, PlanLoadError) res \<times> ClusterState" where
  "plan_load env model_name path size_bytes forced_nodes exclude exclude_draining st =
     (case plan_request env path size_bytes forced_nodes exclude exclude_draining of
        Ok req \<Rightarrow> place_request req (ne_own_id env) model_name st
      | Err e \<Rightarrow> (Err e, st)
      | Panic k \<Rightarrow> (Panic k, st))"

section \<open>Activation\<close>

record LocalModel =
  lm_paths :: "string list"
  lm_name :: string
  lm_size_bytes :: u64

definition local_of :: "LoadedSource \<Rightarrow> LocalModel" where
  "local_of source = \<lparr>lm_paths = ls_paths source, lm_name = ls_name source, lm_size_bytes = ls_size_bytes source\<rparr>"

definition source_of :: "string \<Rightarrow> LocalModel \<Rightarrow> string option \<Rightarrow> LoadedSource" where
  "source_of reference local draft_reference =
     \<lparr>ls_reference = reference, ls_name = lm_name local, ls_paths = lm_paths local,
      ls_size_bytes = lm_size_bytes local, ls_draft_reference = draft_reference\<rparr>"

text \<open>
  The engine host: its queue is closed, it answers that the model is loaded or why not, or it
  goes away before answering.
\<close>

datatype host_reply = HostClosed | HostReady | HostRefuses string | HostDropped

definition head_view :: "PlannedLoad \<Rightarrow> bool \<Rightarrow> ActivePlanView" where
  "head_view planned solo = \<lparr>av_role = RoleHead, av_plan = pn_plan planned,
     av_explanation = Some (pn_explanation planned),
     av_predicted_tpt_ms = (if solo then None else pn_predicted_tpt_ms planned),
     av_predicted_prefill_ms = (if solo then None else pn_predicted_prefill_ms planned)\<rparr>"

definition install_solo_active :: "string \<Rightarrow> LocalModel \<Rightarrow> PlannedLoad \<Rightarrow> string option \<Rightarrow> ClusterState \<Rightarrow> ClusterState" where
  "install_solo_active reference local planned draft st =
     note_loaded (source_of reference local draft)
       (teardown_head_bridges (set_active (Some (head_view planned True)) st))"

definition activate_solo_plan ::
    "host_reply \<Rightarrow> string \<Rightarrow> LocalModel \<Rightarrow> PlannedLoad \<Rightarrow> string option \<Rightarrow> ClusterState \<Rightarrow>
     (unit, load_message) res \<times> ClusterState" where
  "activate_solo_plan reply reference local planned draft st = (case reply of
     HostClosed \<Rightarrow> (Err ShuttingDown, st)
   | HostReady \<Rightarrow> (Ok (), install_solo_active reference local planned draft st)
   | HostRefuses m \<Rightarrow> (Err (HostText m), clear_loaded st)
   | HostDropped \<Rightarrow> (Err HostExited, clear_loaded st))"

text \<open>
  What a distributed activation meets: the peer view for the labels, the error of sending a
  proposal to a worker, the acknowledgements recorded at each wake-up and at the deadline, the
  error of setting up a worker's bridge, and the host's answer.
\<close>

record activation_env =
  ae_peers :: "PeerStatus list"
  ae_send :: "string \<Rightarrow> string option"
  ae_acks :: "(string \<times> u64 \<rightharpoonup> AckResult) list"
  ae_acks_final :: "string \<times> u64 \<rightharpoonup> AckResult"
  ae_bridge :: "string \<Rightarrow> string option"
  ae_reply :: host_reply

text \<open>Node ids are lower-case hexadecimal, so eight characters are eight bytes.\<close>

definition label_of :: "PeerStatus list \<Rightarrow> string \<Rightarrow> string" where
  "label_of peers i = (case List.find (\<lambda>p. ps_id p = i) peers of Some p \<Rightarrow> ps_name p | None \<Rightarrow> take 8 i)"

definition plan_workers :: "PeerStatus list \<Rightarrow> string \<Rightarrow> Plan \<Rightarrow> (string \<times> string) list" where
  "plan_workers peers own_id p =
     map (\<lambda>a. (as_node a, label_of peers (as_node a))) (filter (\<lambda>a. as_node a \<noteq> own_id) (pl_assignments p))"

fun first_failure :: "(string \<Rightarrow> string option) \<Rightarrow> (string \<times> string) list \<Rightarrow> (string \<times> string) option" where
  "first_failure f [] = None"
| "first_failure f ((i, label) # ws) = (case f i of Some e \<Rightarrow> Some (label, e) | None \<Rightarrow> first_failure f ws)"

definition activate_distributed_plan ::
    "activation_env \<Rightarrow> string \<Rightarrow> LocalModel \<Rightarrow> PlannedLoad \<Rightarrow> string option \<Rightarrow> ClusterState \<Rightarrow>
     (unit, load_message) res \<times> ClusterState" where
  "activate_distributed_plan ae reference local planned draft st =
     (let plan = pn_plan planned;
          ep = pl_epoch plan;
          workers = plan_workers (ae_peers ae) (pn_own_id planned) plan in
      case first_failure (ae_send ae) workers of
        Some (label, e) \<Rightarrow> (Err (PlanNotSent label e), st)
      | None \<Rightarrow>
          let views = map (\<lambda>m. st\<lparr>cs_acks := m\<rparr>) (ae_acks ae);
              st = st\<lparr>cs_acks := ae_acks_final ae\<rparr> in
          case await_acks (epoch_no ep) workers 15 views st of
            Err m \<Rightarrow> (Err (AckText m), st)
          | Panic k \<Rightarrow> (Panic k, st)
          | Ok _ \<Rightarrow> (case first_failure (ae_bridge ae) workers of
              Some (label, e) \<Rightarrow> (Err (BridgeFailed label e), st)
            | None \<Rightarrow> (case ae_reply ae of
                HostClosed \<Rightarrow> (Err ShuttingDown, st)
              | HostReady \<Rightarrow> (Ok (),
                  note_loaded (source_of reference local draft)
                    (set_active (Some (head_view planned False))
                      (replace_head_bridges (map (\<lambda>_. ep) workers) st)))
              | HostRefuses m \<Rightarrow> (Err (HostText m), clear_loaded st)
              | HostDropped \<Rightarrow> (Err HostExited, clear_loaded st))))"

text \<open>Both activations behind the choice their callers make.\<close>

definition activate ::
    "activation_env \<Rightarrow> string \<Rightarrow> LocalModel \<Rightarrow> PlannedLoad \<Rightarrow> string option \<Rightarrow> ClusterState \<Rightarrow>
     (unit, load_message) res \<times> ClusterState" where
  "activate ae reference local planned draft st =
     (if pl_strategy (pn_plan planned) = Solo
      then activate_solo_plan (ae_reply ae) reference local planned draft st
      else activate_distributed_plan ae reference local planned draft st)"

section \<open>The load request\<close>

datatype load_line =
    PlanningLine
  | PlanLine Plan "f64 option" "f64 option" "remark list option"
  | LoadingLine
  | ReadyLine
  | ErrorLine load_message

definition finish_lines :: "(unit, load_message) res \<Rightarrow> load_line list" where
  "finish_lines r = (case r of Ok _ \<Rightarrow> [ReadyLine] | Err m \<Rightarrow> [ErrorLine m] | Panic _ \<Rightarrow> [])"

text \<open>
  \<open>drive_load\<close> once the model and its draft are local; \<open>listening\<close> says whether the client
  still reads when the plan is announced.
\<close>

definition drive_load ::
    "node_env \<Rightarrow> activation_env \<Rightarrow> bool \<Rightarrow> string \<Rightarrow> LocalModel \<Rightarrow> u32 option \<Rightarrow> bool \<Rightarrow> string option \<Rightarrow> ClusterState \<Rightarrow>
     load_line list \<times> ClusterState" where
  "drive_load env ae listening reference local nodes explain draft st =
     (case plan_load env (lm_name local) (hd (lm_paths local)) (lm_size_bytes local) nodes {} False st of
        (Err e, st) \<Rightarrow> ([PlanningLine, ErrorLine (into_message e)], st)
      | (Panic k, st) \<Rightarrow> ([PlanningLine], st)
      | (Ok planned, st) \<Rightarrow>
          let plan = pn_plan planned;
              announced = [PlanningLine, PlanLine plan (pn_predicted_tpt_ms planned)
                (pn_predicted_prefill_ms planned) (if explain then Some (pn_explanation planned) else None)] in
          if \<not> listening then (announced, st)
          else let (r, st) = activate ae reference local planned draft st in
            (announced @ (if pl_strategy plan = Solo then [] else [LoadingLine]) @ finish_lines r, st))"

section \<open>The header of the model\<close>

lemma header_loop_decides:
  assumes "want \<le> length f" "0 < want \<or> f = []" "length f < M64"
  shows "header_loop path f want = Some (case parse f of
    Ok h \<Rightarrow> Ok h | Err e \<Rightarrow> Err (HeaderUnparsable path e) | Panic k \<Rightarrow> Panic k)"
  using assms(1,2)
proof (induction "length f - want" arbitrary: want rule: less_induct)
  case less
  note step = header_loop.simps [of path f want]
  have whole: "parse (take want f) = parse f" if "\<nexists>n. parse (take want f) = Err (NeedMoreData n)"
    using that parse_stable [of "take want f" "drop want f"] by auto
  show ?case
  proof (cases "\<exists>n. parse (take want f) = Err (NeedMoreData n)")
    case False
    from whole [OF this] False show ?thesis
      by (subst step) (auto split: res.split GgufError.split)
  next
    case True
    then obtain n where n: "parse (take want f) = Err (NeedMoreData n)" by blast
    show ?thesis
    proof (cases "want < length f")
      case True
      let ?next = "min (max n (sat_mul64 want 2)) (length f)"
      have "want < ?next" "?next \<le> length f"
        using True less.prems(2) assms(3) by (auto simp: sat_mul64_def u64_max_def)
      then show ?thesis using n True less.hyps [of ?next] by (subst step) auto
    next
      case False
      then have "take want f = f" by simp
      with n False show ?thesis by (subst step) simp
    qed
  qed
qed

lemma read_gguf_header_decides:
  assumes "length f < M64"
  shows "read_gguf_header path (Ok f) = Some (case parse f of
    Ok h \<Rightarrow> Ok h | Err e \<Rightarrow> Err (HeaderUnparsable path e) | Panic k \<Rightarrow> Panic k)"
  unfolding read_gguf_header_def res.case by (rule header_loop_decides) (use assms in auto)

section \<open>The request\<close>

lemma wait_for_budgets_Ok:
  "wait_for_budgets ex xd views final = Ok ps \<Longrightarrow>
     \<exists>all. Ok all \<in> set (views @ [final]) \<and> ps = connected_peers ex xd all"
  by (induction ex xd views final rule: wait_for_budgets.induct)
    (auto simp: Let_def split: res.splits if_splits)

definition worker_caps :: "PeerStatus \<Rightarrow> NodeCaps option" where
  "worker_caps p = map_option (\<lambda>bytes. \<lparr>nc_node = ps_id p, nc_usable = bytes,
     nc_compute = map_option (\<lambda>decode. \<lparr>cp_prefill_tps =
         (case ps_prefill_tps p of Some x \<Rightarrow> x | None \<Rightarrow> Fin 0), cp_decode_tps = decode\<rparr>)
       (keep_positive (ps_decode_tps p)),
     nc_draining = ps_draining p\<rparr>) (ps_usable_memory_bytes p)"

definition worker_link :: "string \<Rightarrow> PeerStatus \<Rightarrow> LinkRtt option" where
  "worker_link own_id p = (case ps_usable_memory_bytes p of None \<Rightarrow> None
     | Some _ \<Rightarrow> map_option (\<lambda>rtt_ms. \<lparr>lk_a = own_id, lk_b = ps_id p, lk_rtt = rtt_ms,
         lk_bandwidth = keep_positive (ps_bandwidth_mbps p)\<rparr>) (ps_rtt_ms p))"

lemma add_worker_foldl:
  "foldl (add_worker own_id) (ws, ls) ps =
     (ws @ List.map_filter worker_caps ps, ls @ List.map_filter (worker_link own_id) ps)"
proof (induction ps arbitrary: ws ls)
  case (Cons p ps)
  then show ?case
    by (simp add: add_worker_def worker_caps_def worker_link_def split: option.split)
qed simp

lemma build_request_simps [simp]:
  "pr_workers (build_request env u ps d n) = List.map_filter worker_caps ps"
  "pr_links (build_request env u ps d n) = List.map_filter (worker_link (ne_own_id env)) ps"
  "nc_node (pr_head (build_request env u ps d n)) = ne_own_id env"
  "pr_dims (build_request env u ps d n) = d"
  by (simp_all add: build_request_def add_worker_foldl)

text \<open>What the types of the source and the mesh give: 64-bit sizes, floats, and round trips that
  are averages of measured times; at most \<open>2 ^ 20 - 1\<close> peers.\<close>

definition peer_ok :: "PeerStatus \<Rightarrow> bool" where
  "peer_ok p \<longleftrightarrow> (\<forall>b. ps_usable_memory_bytes p = Some b \<longrightarrow> b < M64)
     \<and> (\<forall>d. ps_decode_tps p = Some d \<longrightarrow> is_f64 d) \<and> (\<forall>r. ps_rtt_ms p = Some r \<longrightarrow> nonneg_flt r)"

definition env_ok :: "node_env \<Rightarrow> bool" where
  "env_ok env \<longleftrightarrow> (\<forall>b. ne_usable_memory_override env = Some b \<longrightarrow> b < M64)
     \<and> (\<forall>d. ne_decode_tps_override env = Some d \<longrightarrow> is_f64 d)
     \<and> (\<forall>p. ne_profile env = Some p \<longrightarrow> is_f64 (sp_decode_tps p))
     \<and> (\<forall>ds. ne_devices env = Some ds \<longrightarrow> (\<forall>d \<in> set ds. dv_free_bytes d < M64))
     \<and> (\<forall>all. Ok all \<in> set (ne_peer_views env @ [ne_peer_final env]) \<longrightarrow>
          length all < MAX_NODES \<and> (\<forall>p \<in> set all. peer_ok p))"

lemma local_node_status_less:
  assumes "\<forall>b. ov = Some b \<longrightarrow> b < M64" "\<forall>d \<in> set ds. dv_free_bytes d < M64"
  shows "fst (local_node_status ov ds) < M64"
proof -
  have "dv_free_bytes d < M64" if "List.find (\<lambda>d. dv_kind d = Cpu) ds = Some d" for d
    using that assms(2) by (auto simp: find_Some_iff)
  then show ?thesis using assms(1)
    by (auto simp: local_node_status_def sat_sub_def split: option.split)
qed

lemma head_compute_f64:
  assumes "env_ok env" "head_compute (ne_decode_tps_override env) (ne_profile env) = Some p"
  shows "is_f64 (cp_decode_tps p)"
  using assms by (auto simp: env_ok_def head_compute_def split: option.splits)

lemma worker_caps_ok: "peer_ok p \<Longrightarrow> worker_caps p = Some c \<Longrightarrow> caps_ok c"
  by (auto simp: peer_ok_def worker_caps_def caps_ok_def keep_positive_def split: option.splits if_splits)

lemma length_map_filter_le: "length (List.map_filter f xs) \<le> length xs"
  by (induction xs) (auto split: option.split)

lemma dims_loop_length: "dims_loop n rs ws es t = Ok (ws', es', t') \<Longrightarrow> length ws' = length ws"
  by (induction n rs ws es t rule: dims_loop.induct) (auto simp: Let_def res_simps split: prod.splits)

lemma connected_peersD:
  "p \<in> set (connected_peers ex xd all) \<Longrightarrow>
     p \<in> set all \<and> ps_state p = Connected \<and> ps_id p \<notin> ex \<and> (xd \<longrightarrow> \<not> ps_draining p)"
  by (auto simp: connected_peers_def)

lemma plan_request_Ok:
  assumes "plan_request env path bytes forced ex xd = Ok req"
  obtains ds all h d where "ne_devices env = Some ds" "Ok all \<in> set (ne_peer_views env @ [ne_peer_final env])"
    "read_gguf_header path (ne_files env path) = Some (Ok h)" "model_dims h bytes = Ok d"
    "req = build_request env (fst (local_node_status (ne_usable_memory_override env) ds))
       (connected_peers ex xd all) d forced"
proof -
  from assms obtain ds ps h d where *: "ne_devices env = Some ds"
      "wait_for_budgets ex xd (ne_peer_views env) (ne_peer_final env) = Ok ps"
      "read_gguf_header path (ne_files env path) = Some (Ok h)" "model_dims h bytes = Ok d"
      "req = build_request env (fst (local_node_status (ne_usable_memory_override env) ds)) ps d forced"
    by (auto simp: plan_request_def Let_def res_simps split: option.splits res.splits)
  from wait_for_budgets_Ok [OF *(2)] * that show thesis by blast
qed

lemma plan_request_ok:
  assumes env: "env_ok env" and req: "plan_request env path bytes forced ex xd = Ok req"
  shows "req_ok req"
  using req
proof (rule plan_request_Ok)
  fix ds all h d
  let ?u = "fst (local_node_status (ne_usable_memory_override env) ds)" and ?ps = "connected_peers ex xd all"
  assume ds: "ne_devices env = Some ds" and all: "Ok all \<in> set (ne_peer_views env @ [ne_peer_final env])"
    and d: "model_dims h bytes = Ok d" and r: "req = build_request env ?u ?ps d forced"
  have ps: "\<forall>p \<in> set ?ps. peer_ok p" "length ?ps < MAX_NODES"
  proof -
    have "length all < MAX_NODES" "\<forall>p \<in> set all. peer_ok p" using env all by (auto simp: env_ok_def)
    moreover have "length ?ps \<le> length all"
      by (simp add: connected_peers_def)
    ultimately show "\<forall>p \<in> set ?ps. peer_ok p" "length ?ps < MAX_NODES" by (auto dest: connected_peersD)
  qed
  have u: "?u < M64" using env ds by (intro local_node_status_less) (auto simp: env_ok_def)
  have head: "caps_ok (pr_head req)"
    using u head_compute_f64 [OF env] by (auto simp: r build_request_def caps_ok_def split: prod.split)
  have workers: "caps_ok c" if "c \<in> set (pr_workers req)" for c
    using that ps(1) by (auto simp: r in_map_filter intro: worker_caps_ok)
  have links: "links_ok (pr_links req)"
    using ps(1) by (auto simp: r links_ok_def in_map_filter worker_link_def peer_ok_def split: option.splits)
  have n: "length (pr_workers req) < MAX_NODES"
    using ps(2) length_map_filter_le [of worker_caps ?ps] by (simp add: r)
  have "0 < d_n_layers d" "d_n_layers d < M32" "length (d_weights d) = d_n_layers d"
    by (rule model_dims_Ok [OF d]; auto dest: meta_pos_pos dims_loop_length)+
  then show ?thesis using head workers links n by (auto simp: req_ok_def all_caps_def r)
qed






text \<open>Planning stamps epochs exactly once: a distributed plan carries the number after the
  counter, which the counter then is, and no other field of the session state changes; a solo
  plan keeps the scheduler's epoch zero and, like every planning error, leaves the state alone.
\<close>

theorem plan_load_stamps_epochs:
  assumes "cs_epoch_counter st + 1 < M64"
  shows "case plan_load env name path bytes forced ex xd st of
      (Ok pn, st') \<Rightarrow>
        if pl_strategy (pn_plan pn) = Solo then st' = st
        else pl_epoch (pn_plan pn) = Epoch (cs_epoch_counter st + 1)
          \<and> st' = st\<lparr>cs_epoch_counter := cs_epoch_counter st + 1\<rparr>
    | (_, st') \<Rightarrow> st' = st"
  using assms
  by (auto simp: plan_load_def place_request_def Let_def next_epoch_def wrap_simps
      split: res.splits ScheduleError.splits prod.splits)

section \<open>Activation is all or nothing\<close>

text \<open>What an activation leaves of the session state, whether it succeeds or not.\<close>

definition installed :: "string \<Rightarrow> LocalModel \<Rightarrow> PlannedLoad \<Rightarrow> string option \<Rightarrow> Epoch list \<Rightarrow> ClusterState \<Rightarrow> bool" where
  "installed reference loc pn draft bridges st \<longleftrightarrow>
     (\<exists>v. cs_active st = Some v \<and> av_role v = RoleHead \<and> av_plan v = pn_plan pn)
     \<and> cs_head_bridges st = bridges \<and> cs_loaded_source st = Some (source_of reference loc draft)"

definition untouched :: "ClusterState \<Rightarrow> ClusterState \<Rightarrow> bool" where
  "untouched st st' \<longleftrightarrow> cs_active st' = cs_active st \<and> cs_head_bridges st' = cs_head_bridges st
     \<and> (cs_loaded_source st' = cs_loaded_source st \<or> cs_loaded_source st' = None)"

definition acknowledged :: "activation_env \<Rightarrow> u64 \<Rightarrow> string list \<Rightarrow> bool" where
  "acknowledged ae ep workers \<longleftrightarrow> (\<exists>acks. acks \<in> set (ae_acks ae @ [ae_acks_final ae])
     \<and> list_all (\<lambda>i. \<exists>a. acks (i, ep) = Some a \<and> ack_ready a) workers)"

definition worker_ids :: "PlannedLoad \<Rightarrow> string list" where
  "worker_ids pn = filter (\<lambda>i. i \<noteq> pn_own_id pn) (map as_node (pl_assignments (pn_plan pn)))"

lemma plan_workers_ids: "map fst (plan_workers peers (pn_own_id pn) (pn_plan pn)) = worker_ids pn"
  by (simp add: plan_workers_def worker_ids_def comp_def filter_map)

lemma activate_cases:
  assumes "activate ae reference loc pn draft st = (r, st')"
  obtains (solo) "r = Ok ()" "pl_strategy (pn_plan pn) = Solo" "installed reference loc pn draft [] st'"
  | (distributed) "r = Ok ()" "pl_strategy (pn_plan pn) \<noteq> Solo"
      "installed reference loc pn draft (map (\<lambda>_. pl_epoch (pn_plan pn)) (worker_ids pn)) st'"
      "acknowledged ae (epoch_no (pl_epoch (pn_plan pn))) (worker_ids pn)"
  | (failed) m where "r = Err m" "untouched st st'"
proof (cases "pl_strategy (pn_plan pn) = Solo")
  case True
  then show thesis
    using assms solo failed
    by (auto simp: activate_def activate_solo_plan_def install_solo_active_def installed_def untouched_def
        head_view_def state_defs split: host_reply.splits)
next
  case False
  let ?ws = "plan_workers (ae_peers ae) (pn_own_id pn) (pn_plan pn)"
  let ?views = "map (\<lambda>m. st\<lparr>cs_acks := m\<rparr>) (ae_acks ae)" and ?st = "st\<lparr>cs_acks := ae_acks_final ae\<rparr>"
  let ?ep = "epoch_no (pl_epoch (pn_plan pn))"
  have a: "activate_distributed_plan ae reference loc pn draft st = (r, st')"
    using assms False by (simp add: activate_def)
  show thesis
  proof (cases "first_failure (ae_send ae) ?ws")
    case (Some x)
    then show thesis using a failed by (cases x) (auto simp: activate_distributed_plan_def untouched_def Let_def)
  next
    case None
    note sent = None
    show thesis
    proof (cases "await_acks ?ep ?ws 15 ?views ?st")
      case (Ok x)
      from await_acks_ready [OF Ok] obtain v where "v \<in> set (?views @ [?st])" "all_ready v ?ep ?ws" by blast
      then have "cs_acks v \<in> set (ae_acks ae @ [ae_acks_final ae])"
          "list_all (\<lambda>i. \<exists>a. cs_acks v (i, ?ep) = Some a \<and> ack_ready a) (map fst ?ws)"
        by (auto simp: all_ready_def list_all_iff split_def)
      then have ackd: "acknowledged ae ?ep (worker_ids pn)" unfolding acknowledged_def plan_workers_ids [where peers = "ae_peers ae", symmetric] by blast
      have len: "map (\<lambda>_. pl_epoch (pn_plan pn)) ?ws = map (\<lambda>_. pl_epoch (pn_plan pn)) (worker_ids pn)"
        unfolding plan_workers_ids [where peers = "ae_peers ae", symmetric] by simp
      show thesis
      proof (cases "first_failure (ae_bridge ae) ?ws")
        case (Some x)
        then show thesis using a failed sent Ok
          by (cases x) (auto simp: activate_distributed_plan_def untouched_def Let_def)
      next
        case None
        show thesis
        proof (cases "ae_reply ae")
          case HostReady
          then show thesis using a distributed sent Ok None False ackd len
            by (auto simp: activate_distributed_plan_def installed_def head_view_def state_defs Let_def)
        qed (use a failed sent Ok None in \<open>auto simp: activate_distributed_plan_def untouched_def state_defs Let_def\<close>)
      qed
    next
      case (Err m)
      then show thesis using a failed sent by (auto simp: activate_distributed_plan_def untouched_def Let_def)
    next
      case (Panic k)
      then show thesis using await_acks_no_panic by blast
    qed
  qed
qed

lemma activate_keeps:
  assumes "activate ae reference loc pn draft st = (r, st')"
  shows "cs_epoch_counter st' = cs_epoch_counter st" "cs_failed st' = cs_failed st"
    "cs_worker_shard st' = cs_worker_shard st" "cs_rejoin_requested st' = cs_rejoin_requested st"
  using assms
  by (auto simp: activate_def activate_solo_plan_def activate_distributed_plan_def install_solo_active_def
      state_defs Let_def split: host_reply.splits if_splits option.splits res.splits)

text \<open>C9: activating a plan is all or nothing. On success the plan is the active one with this node
  as head, the model's source is noted, and the bridges are one per worker of the plan's
  epoch, each of which acknowledged the epoch as ready, all at one moment; none remain of an
  earlier plan. On failure the active plan and its bridges stay as they were.
\<close>

theorem activation_all_or_nothing:
  assumes "activate ae reference loc pn draft st = (r, st')"
  shows "case r of
      Ok _ \<Rightarrow> if pl_strategy (pn_plan pn) = Solo then installed reference loc pn draft [] st'
        else installed reference loc pn draft (map (\<lambda>_. pl_epoch (pn_plan pn)) (worker_ids pn)) st'
          \<and> acknowledged ae (epoch_no (pl_epoch (pn_plan pn))) (worker_ids pn)
    | Err _ \<Rightarrow> untouched st st'
    | Panic _ \<Rightarrow> False"
  using assms by (cases rule: activate_cases) simp_all

section \<open>The prediction shown is the scheduler's\<close>

lemma fmin_NaN [simp]: "fmin NaN x = x" "fmin x NaN = x"
  by (simp_all add: fmin_def)

lemma flt_linear: "\<not> flt_lt a b \<Longrightarrow> \<not> flt_lt b a \<Longrightarrow> a \<noteq> NaN \<Longrightarrow> b \<noteq> NaN \<Longrightarrow> a = b"
  by (cases a; cases b) auto

lemma fmin_commute: "fmin a b = fmin b a"
  using flt_linear [of a b] flt_lt_trans [of a b a] by (auto simp: fmin_def)

lemma fmin_assoc: "fmin (fmin a b) c = fmin a (fmin b c)"
proof (cases "a = NaN \<or> b = NaN \<or> c = NaN")
  case False
  then show ?thesis
    using flt_lt_trans [of c b a] flt_lt_trans [of b a c] flt_lt_trans [of b c a] flt_lt_trans [of a b c]
      flt_linear [of a c] flt_linear [of b c] flt_linear [of a b]
    by (auto simp: fmin_def)
qed auto

lemma foldl_fmin: "foldl fmin (fmin a b) xs = fmin a (foldl fmin b xs)"
  by (induction xs arbitrary: b) (simp_all add: fmin_assoc)

lemma map_filter_append: "List.map_filter f (xs @ ys) = List.map_filter f xs @ List.map_filter f ys"
  by (induction xs) (auto split: option.split)

lemma min_decode_eq:
  "foldl fmin NaN (profiled (pr_workers req @ [pr_head req])) =
   foldl fmin NaN (List.map_filter own_decode (pr_head req # pr_workers req))"
proof -
  let ?ws = "List.map_filter own_decode (pr_workers req)"
  show ?thesis
  proof (cases "own_decode (pr_head req)")
    case None
    then show ?thesis by (simp add: profiled_def map_filter_append)
  next
    case (Some d)
    have "foldl fmin d ?ws = fmin d (foldl fmin NaN ?ws)" using foldl_fmin [of d NaN ?ws] by simp
    with Some show ?thesis by (simp add: profiled_def map_filter_append fmin_commute [of _ d])
  qed
qed

lemma build_cands_rate:
  assumes "i < length cs"
  shows "cd_tpt_decode (build_cands cs cost bo ! i) = tpt_rate (foldl fmin NaN (profiled cs)) (own_decode (cs ! i))"
  using assms by (simp add: build_cands_def Let_def nth_enumerate_eq)

lemma find_distinct:
  assumes "distinct (map f xs)" "c \<in> set xs"
  shows "List.find (\<lambda>x. f x = f c) xs = Some c"
  using assms by (induction xs) auto

lemma req_cands_rate:
  assumes d: "distinct (map nc_node (pr_head req # pr_workers req))" and c: "c \<in> set (req_cands bo req)"
  shows "cd_tpt_decode c = decode_of req (cand_name c)"
proof -
  let ?cs = "all_caps req"
  from c obtain i where i: "i < length ?cs" "c = req_cands bo req ! i"
    by (metis in_set_conv_nth length_req_cands all_caps_simps(2))
  then have caps: "cd_caps c = ?cs ! i" by (simp add: req_cands_def build_cands_nth)
  have rate: "cd_tpt_decode c = tpt_rate (foldl fmin NaN (profiled ?cs)) (own_decode (cd_caps c))"
    using build_cands_rate [OF i(1)] unfolding caps unfolding i(2) req_cands_def by simp
  have "cd_caps c \<in> set (pr_head req # pr_workers req)"
    using nth_mem [OF i(1)] caps by (auto simp: all_caps_def)
  from find_distinct [OF d this] show ?thesis
    unfolding rate decode_of_def Let_def cand_name_def
    by (simp add: all_caps_def min_decode_eq tpt_rate_def split: option.split)
qed

text \<open>The walk over the stages of a layout computes the maximum over its assignments.\<close>

lemma compute_walk:
  assumes "\<forall>i \<in> set order. cd_tpt_decode (fs ! i) = decode_of req (cand_name (fs ! i))"
    "c + sum_list (map ((!) counts) order) < M32" "nonneg_flt m"
  shows "snd (foldl (compute_step (pr_dims req) fs counts) (c, m) order) =
    foldl fmax m (map (\<lambda>a. case decode_of req (as_node a) of
        Some tps \<Rightarrow> fmul (fdiv (active_compute_units (pr_dims req) (lr_start (as_layers a)) (lr_end (as_layers a))) tps) (Fin 1000)
      | None \<Rightarrow> Fin 0) (lay_out c s (map (\<lambda>i. (cand_name (fs ! i), counts ! i)) order)))"
  using assms
proof (induction order arbitrary: c s m)
  case (Cons i order)
  have c: "add32 c (counts ! i) = c + counts ! i" using Cons.prems(2) by (simp add: wrap_simps)
  show ?case
  proof (cases "decode_of req (cand_name (fs ! i))")
    case None
    then show ?thesis
      using Cons.IH [of "c + counts ! i" m "Suc s"] Cons.prems
      by (simp add: compute_step_def c Let_def fmax_zero add.assoc)
  next
    case (Some tps)
    let ?m = "fmax m (fmul (fdiv (active_compute_units (pr_dims req) c (c + counts ! i)) tps) (Fin 1000))"
    show ?thesis
      using Cons.IH [of "c + counts ! i" ?m "Suc s"] Cons.prems Some nonneg_fmax [of m]
      by (simp add: compute_step_def c Let_def add.assoc)
  qed
qed simp

lemma windows2_map: "windows2 (map f xs) = map (\<lambda>(a, b). (f a, f b)) (windows2 xs)"
  by (induction xs rule: windows2.induct) auto

lemma lay_out_nodes: "map as_node (lay_out c s ps) = map fst ps"
  by (induction c s ps rule: lay_out.induct) auto

lemma boundary_rtts:
  "map (\<lambda>(a, b). link_rtt links (as_node a) (as_node b)) (windows2 (lay_out c s (map (\<lambda>i. (cand_name (fs ! i), k i)) order)))
   = chain_rtts fs links order"
proof -
  let ?as = "lay_out c s (map (\<lambda>i. (cand_name (fs ! i), k i)) order)"
  have n: "map as_node ?as = map (\<lambda>i. cand_name (fs ! i)) order" by (simp add: lay_out_nodes comp_def)
  have "map (\<lambda>(a, b). link_rtt links (as_node a) (as_node b)) (windows2 ?as)
      = map (\<lambda>(x, y). link_rtt links x y) (windows2 (map as_node ?as))"
    by (simp only: windows2_map map_map) (simp add: split_def)
  then show ?thesis unfolding n by (simp add: windows2_map chain_rtts_def hop_rtt_def cand_name_def split_def)
qed

lemma distributed_v2_Ok:
  assumes "distributed_v2 req forced hb required kv sf ub = Ok p"
  obtains S sn e acc where
    "select_workers (build_cands (all_caps req) (per_layer_cost (pr_dims req) (pr_ctx_len req))
        (\<lambda>usable. node_budget_v2 usable (d_n_embd (pr_dims req)) ub)) forced (d_n_layers (pr_dims req)) (pr_ctx_len req)
        (per_layer_cost (pr_dims req) (pr_ctx_len req))
        (\<lambda>cs. res_bind (search_v2 cs (d_n_layers (pr_dims req)) (pr_links req) (pr_dims req) ub)
          (\<lambda>e. Ok (map_option v2_tpt e))) = Ok (S, sn)"
    "search_v2 (participants (build_cands (all_caps req) (per_layer_cost (pr_dims req) (pr_ctx_len req))
        (\<lambda>usable. node_budget_v2 usable (d_n_embd (pr_dims req)) ub)) S) (d_n_layers (pr_dims req)) (pr_links req)
        (pr_dims req) ub = Ok (Some e)"
    "assemble (pr_dims req) kv (participants (build_cands (all_caps req) (per_layer_cost (pr_dims req) (pr_ctx_len req))
        (\<lambda>usable. node_budget_v2 usable (d_n_embd (pr_dims req)) ub)) S) (v2_counts e) (v2_order e) = Ok acc"
    "assignments_of p = sa_assignments acc"
    "PredictedDecodePrefill (v2_tpt e) (v2_prefill_cost e) \<in> set (pp_explanation p)"
  using assms by (auto simp: distributed_v2_def Let_def res_simps split: option.splits prod.splits)

lemma dist_v2_explained:
  assumes r: "req_ok req" and p: "dist_v2 req = Ok p"
  obtains fs v fc ord where "set fs \<subseteq> set (req_cands (budget_v2 req) req)"
    "evaluated_ok fs (d_n_layers (pr_dims req)) (fc_counts fc) ord"
    "assignments_of p = lay_out 0 0 (map (\<lambda>i. (cand_name (fs ! i), fc_counts fc ! i)) ord)"
    "PredictedDecodePrefill (v2_tpt (eval_order fs (pr_links req) (pr_dims req) (effective_n_ubatch (pr_n_ubatch req)) v fc ord))
       (v2_prefill_cost (eval_order fs (pr_links req) (pr_dims req) (effective_n_ubatch (pr_n_ubatch req)) v fc ord))
       \<in> set (pp_explanation p)"
proof -
  let ?n = "d_n_layers (pr_dims req)" and ?ub = "effective_n_ubatch (pr_n_ubatch req)"
    and ?cands = "req_cands (budget_v2 req) req" and ?kv = "kv_bytes_per_layer (pr_dims req) (pr_ctx_len req)"
  have n: "0 < ?n" "?n < M32" "length (d_weights (pr_dims req)) = ?n" "links_ok (pr_links req)"
    using r by (simp_all add: req_ok_def)
  have less: "u < M64 \<Longrightarrow> budget_v2 req u < M64" for u
    unfolding budget_v2_def by (rule le_less_trans [OF node_budget_v2_le])
  have ev: "(\<lambda>cs. res_bind (search_v2 cs ?n (pr_links req) (pr_dims req) ?ub) (\<lambda>e. Ok (map_option v2_tpt e)))
      = eval_tpt_v2 req"
    by (simp add: fun_eq_iff eval_tpt_v2_def)
  have bo: "(\<lambda>usable. node_budget_v2 usable (d_n_embd (pr_dims req)) ?ub) = budget_v2 req"
    by (simp add: fun_eq_iff budget_v2_def)
  obtain S sn e acc where sel: "select_workers ?cands (forced_of req) ?n (pr_ctx_len req)
        (per_layer_cost (pr_dims req) (pr_ctx_len req)) (eval_tpt_v2 req) = Ok (S, sn)"
      and se: "search_v2 (participants ?cands S) ?n (pr_links req) (pr_dims req) ?ub = Ok (Some e)"
      and acc: "assemble (pr_dims req) ?kv (participants ?cands S) (v2_counts e) (v2_order e) = Ok acc"
      and a: "assignments_of p = sa_assignments acc"
      and ex: "PredictedDecodePrefill (v2_tpt e) (v2_prefill_cost e) \<in> set (pp_explanation p)"
    by (rule distributed_v2_Ok [OF p [unfolded dist_v2_def], unfolded ev bo, folded req_cands_def])
  let ?fs = "participants ?cands S"
  note c = req_cands_ok [of req "budget_v2 req", OF r less]
  from v2_eval.select_any [OF r c, of "forced_of req" ?n "pr_ctx_len req" "per_layer_cost (pr_dims req) (pr_ctx_len req)"] sel
  have S: "selectable ?cands S" by simp
  note fs = final_set_ok [OF r less S]
  have caps: "?n \<le> caps_of ?fs" using search_v2_spec(1) [OF n(1,2,4) fs(1,3), of "pr_dims req" ?ub] se by fastforce
  from search_v2_spec(2) [OF n(1,2,4) fs(1,3) caps, of "pr_dims req" ?ub] se
  obtain k v fc ord where e: "e = (eval_order ?fs (pr_links req) (pr_dims req) ?ub v fc ord)\<lparr>v2_considered := k\<rparr>"
      and ok: "evaluated_ok ?fs ?n (fc_counts fc) ord"
    by auto
  have co: "v2_counts e = fc_counts fc" "v2_order e = ord" by (simp_all add: e eval_order_def Let_def)
  from assemble_evaluated [OF ok n(1-3) fs(3), of ?kv] acc co a
  have "assignments_of p = lay_out 0 0 (map (\<lambda>i. (cand_name (?fs ! i), fc_counts fc ! i)) ord)" by simp
  moreover have "set ?fs \<subseteq> set ?cands"
    using set_mset_mono [OF participants_submset [OF S c(2)]] by simp
  ultimately show thesis using that [of ?fs fc ord v] ok ex by (simp add: e)
qed

text \<open>C23: the time per token announced with a distributed plan, recomputed by the daemon from the
  finished assignments, is exactly the figure the scheduler searched by and printed in its
  explanation, float for float, when no two nodes share an id.
\<close>

theorem predicted_tpt_is_the_schedulers:
  assumes "req_ok req" "distinct (map nc_node (pr_head req # pr_workers req))"
    "plan_v2 req = Ok p" "pl_strategy (pp_plan p) = PipelineParallel"
  shows "\<exists>prefill. PredictedDecodePrefill (predicted_tpt_ms (assignments_of p) req) prefill \<in> set (pp_explanation p)"
proof -
  have "dist_v2 req = Ok p"
    using assms(3,4) v2.decides [of req] v2.solo_shape(1) [of req]
    by (auto split: option.splits if_splits)
  then obtain fs v fc ord where fs: "set fs \<subseteq> set (req_cands (budget_v2 req) req)"
      and ok: "evaluated_ok fs (d_n_layers (pr_dims req)) (fc_counts fc) ord"
      and a: "assignments_of p = lay_out 0 0 (map (\<lambda>i. (cand_name (fs ! i), fc_counts fc ! i)) ord)"
      and ex: "PredictedDecodePrefill
         (v2_tpt (eval_order fs (pr_links req) (pr_dims req) (effective_n_ubatch (pr_n_ubatch req)) v fc ord))
         (v2_prefill_cost (eval_order fs (pr_links req) (pr_dims req) (effective_n_ubatch (pr_n_ubatch req)) v fc ord))
         \<in> set (pp_explanation p)"
    by (rule dist_v2_explained [OF assms(1)])
  have o: "mset ord = mset (active_set fs (fc_counts fc))" and l: "length (fc_counts fc) = length fs"
      and sum: "sum_list (fc_counts fc) = d_n_layers (pr_dims req)"
    using ok by (simp_all add: evaluated_ok_def)
  have "sum_list (map ((!) (fc_counts fc)) ord) = d_n_layers (pr_dims req)"
    using sum_list_map_mset_cong [OF o, of "(!) (fc_counts fc)"] sum_active [OF l] sum by simp
  then have lt: "0 + sum_list (map ((!) (fc_counts fc)) ord) < M32" using assms(1) by (simp add: req_ok_def)
  have "i < length fs" if "i \<in> set ord" for i
    using that mset_eq_setD [OF o] by (simp add: active_set_def)
  then have rate: "\<forall>i \<in> set ord. cd_tpt_decode (fs ! i) = decode_of req (cand_name (fs ! i))"
    using req_cands_rate [OF assms(2)] fs by (meson nth_mem subsetD)
  have "nonneg_flt (Fin 0)" by (simp add: nonneg_flt_def)
  from compute_walk [OF rate lt this, of 0]
  have "predicted_tpt_ms (assignments_of p) req =
      v2_tpt (eval_order fs (pr_links req) (pr_dims req) (effective_n_ubatch (pr_n_ubatch req)) v fc ord)"
    by (simp add: predicted_tpt_ms_def a boundary_rtts eval_order_def compute_ms_def Let_def)
  with ex show ?thesis by auto
qed

theorem predicted_tpt_is_the_schedulers_witness:
  "\<exists>p prefill. plan_v2 v1_sample = Ok p
     \<and> PredictedDecodePrefill (predicted_tpt_ms (assignments_of p) v1_sample) prefill \<in> set (pp_explanation p)"
proof -
  obtain p where p: "plan_v2 v1_sample = Ok p" "pl_strategy (pp_plan p) = PipelineParallel"
    by (rule v2_sample_placed)
  have "distinct (map nc_node (pr_head v1_sample # pr_workers v1_sample))" by (simp add: v1_sample_def)
  from predicted_tpt_is_the_schedulers [OF v1_sample_ok this p] p(1) show ?thesis by blast
qed

section \<open>A concrete load\<close>

text \<open>
  A model of two layers without tensors: 128 bytes of header. The head has no memory, the one
  peer holds four layers of KV cache beside the reserves.
\<close>

definition tiny_file :: "u8 list" where
  "tiny_file = [71, 71, 85, 70, 3, 0, 0, 0, 0, 0, 0, 0, 0, 0, 0, 0, 3, 0, 0, 0, 0, 0, 0, 0,
     20, 0, 0, 0, 0, 0, 0, 0, 103, 101, 110, 101, 114, 97, 108, 46, 97, 114, 99, 104, 105, 116, 101, 99, 116, 117, 114, 101,
     8, 0, 0, 0, 1, 0, 0, 0, 0, 0, 0, 0, 108,
     13, 0, 0, 0, 0, 0, 0, 0, 108, 46, 98, 108, 111, 99, 107, 95, 99, 111, 117, 110, 116, 4, 0, 0, 0, 2, 0, 0, 0,
     18, 0, 0, 0, 0, 0, 0, 0, 108, 46, 101, 109, 98, 101, 100, 100, 105, 110, 103, 95, 108, 101, 110, 103, 116, 104,
     4, 0, 0, 0, 64, 0, 0, 0]"

definition tiny_header :: GgufHeader where
  "tiny_header = \<lparr>g_version = 3, g_metadata = [''general.architecture'' \<mapsto> MStr ''l'', ''l.block_count'' \<mapsto> MU32 2,
      ''l.embedding_length'' \<mapsto> MU32 64], g_tensors = [], g_header_len = 128, g_alignment = 32, g_data_offset = 128\<rparr>"

lemma tiny_kvs:
  "read_kv tiny_file 24 = Ok ((''general.architecture'', MStr ''l''), 65)"
  "read_kv tiny_file 65 = Ok ((''l.block_count'', MU32 2), 94)"
  "read_kv tiny_file 94 = Ok ((''l.embedding_length'', MU32 64), 128)"
  by (simp_all add: tiny_file_def r_bind_def read_u32_def read_u64_def take_bytes_def r_ret_def read_kv_def read_string_def
      read_value_def typed_value_def scalar_value_def type_ids char_of_def bit_iff_odd)

lemma tiny_repeat: "r_repeat 3 read_kv tiny_file 24 = Ok ([(''general.architecture'', MStr ''l''),
    (''l.block_count'', MU32 2), (''l.embedding_length'', MU32 64)], 128)"
  by (simp add: numeral_3_eq_3 r_bind_def r_ret_def tiny_kvs)

lemma tiny_prefix: "take_bytes 4 tiny_file 0 = Ok ([71, 71, 85, 70], 4)" "take_bytes 4 tiny_file 4 = Ok ([3, 0, 0, 0], 8)"
  "take_bytes 8 tiny_file 8 = Ok ([0, 0, 0, 0, 0, 0, 0, 0], 16)" "take_bytes 8 tiny_file 16 = Ok ([3, 0, 0, 0, 0, 0, 0, 0], 24)"
  by (simp_all add: tiny_file_def take_bytes_def)

lemma parse_tiny: "parse tiny_file = Ok tiny_header"
  by (simp add: tiny_header_def parse_def parse_reader_def r_bind_def read_u32_def read_u64_def tiny_prefix
      r_ret_def GGUF_MAGIC_def tiny_repeat finish_header_def insert_all_def
      header_alignment_def GGUF_DEFAULT_ALIGNMENT_def Let_def div_ceil_def mul64_def)

lemma tiny_dims: "model_dims tiny_header 128 = Ok \<lparr>d_n_layers = 2, d_kv_rate = 256, d_weights = [0, 0],
    d_total = 0, d_n_embd = 64, d_n_expert = 0, d_n_expert_used = 0, d_expert_weights = [0, 0]\<rparr>"
proof -
  have "replicate 2 (0::nat) = [0, 0]" by (simp add: numeral_2_eq_2)
  then show ?thesis
    by (simp add: model_dims_def architecture_def ok_or_def meta_pos_def meta_u64_def kv_width_def expert_u32_def
        tensor_ranges_def tiny_header_def mul64_def Let_def cong: res_bind_weak_cong)
qed

definition tiny_peer :: PeerStatus where
  "tiny_peer = sample_peer\<lparr>ps_name := ''worker'', ps_id := ''w'', ps_usable_memory_bytes := Some 1879048192\<rparr>"

definition tiny_env :: node_env where
  "tiny_env = \<lparr>ne_own_id = ''h'', ne_usable_memory_override = Some 0, ne_decode_tps_override = None,
     ne_ctx_len = 1048576, ne_n_ubatch = 262144, ne_profile = None, ne_draining = False, ne_devices = Some [],
     ne_peer_views = [], ne_peer_final = Ok [tiny_peer], ne_files = (\<lambda>_. Ok tiny_file)\<rparr>"

lemma tiny_env_ok: "env_ok tiny_env"
  by (simp add: env_ok_def tiny_env_def tiny_peer_def sample_peer_def peer_ok_def MAX_NODES_def)

definition tiny_request :: PlanRequest where
  "tiny_request = \<lparr>pr_head = \<lparr>nc_node = ''h'', nc_usable = 0, nc_compute = None, nc_draining = False\<rparr>,
     pr_workers = [\<lparr>nc_node = ''w'', nc_usable = 1879048192, nc_compute = None, nc_draining = False\<rparr>],
     pr_dims = \<lparr>d_n_layers = 2, d_kv_rate = 256, d_weights = [0, 0], d_total = 0, d_n_embd = 64, d_n_expert = 0,
       d_n_expert_used = 0, d_expert_weights = [0, 0]\<rparr>,
     pr_ctx_len = 1048576, pr_forced_nodes = None, pr_links = [], pr_n_ubatch = 262144\<rparr>"

lemma tiny_plan_request: "plan_request tiny_env ''m.gguf'' 128 None {} xd = Ok tiny_request"
proof -
  have "length tiny_file < M64" by (simp add: tiny_file_def)
  from read_gguf_header_decides [OF this]
  have "read_gguf_header ''m.gguf'' (Ok tiny_file) = Some (Ok tiny_header)" by (simp add: parse_tiny)
  then show ?thesis
    by (simp add: plan_request_def tiny_env_def local_node_status_def connected_peers_def tiny_peer_def sample_peer_def
        tiny_dims build_request_def add_worker_def keep_positive_def head_compute_def tiny_request_def Let_def)
qed

lemma tiny_placed:
  obtains p where "plan_v2 tiny_request = Ok p" "pl_strategy (pp_plan p) = PipelineParallel"
proof -
  have ok: "req_ok tiny_request" by (rule plan_request_ok [OF tiny_env_ok tiny_plan_request])
  have f: "forced_of tiny_request = None" by (simp add: effective_forced_def tiny_request_def)
  have kv: "kv_bytes_per_layer (pr_dims tiny_request) (pr_ctx_len tiny_request) = 268435456"
    "mean_weight_bytes_per_layer (pr_dims tiny_request) = 0"
    by (simp_all add: tiny_request_def kv_bytes_per_layer_def mean_weight_bytes_per_layer_def div_ceil_def mul64_def)
  have m: "memory_ok tiny_request" by (simp add: memory_ok_def kv) (simp add: tiny_request_def all_caps_def)
  have cost: "layer_cost (pr_dims tiny_request) (pr_ctx_len tiny_request) = 268435456"
    by (simp add: layer_cost_def kv)
  let ?cs = "req_cands (budget_v2 tiny_request) tiny_request"
  have len: "length ?cs = 2" by (simp add: tiny_request_def)
  then obtain c0 c1 where cs: "?cs = [c0, c1]" unfolding numeral_2_eq_2 length_Suc_conv length_0_conv by blast
  have "cd_caps c0 = pr_workers tiny_request ! 0"
    using build_cands_nth(1) [of 0 "all_caps tiny_request" "per_layer_cost (pr_dims tiny_request) (pr_ctx_len tiny_request)"
      "budget_v2 tiny_request", folded req_cands_def] cs
    by (simp add: all_caps_def tiny_request_def)
  then have u: "nc_usable (cd_caps c0) = 1879048192" by (simp add: tiny_request_def)
  have b: "budget_v2 tiny_request 1879048192 = 1073741824"
    by (simp add: budget_v2_def node_budget_v2_def tiny_request_def effective_n_ubatch_def sat_mul64_def sat_add64_def
        sat_sub_def OVERHEAD_RESERVE_BYTES_def u64_max_def Let_def)
  have "c0 \<in> set ?cs" by (simp add: cs)
  from req_cand_capacity [of tiny_request "budget_v2 tiny_request", OF m _ this]
  have "cd_cap_layers c0 = 4"
    by (simp add: cost u b u32_max_def budget_v2_def node_budget_v2_le)
      (simp add: b [unfolded budget_v2_def])
  then have "2 \<le> caps_of ?cs" by (simp add: caps_of_def cs)
  moreover have "required_bytes tiny_request = 536870912" "head_budget_of tiny_request = 0" "d_n_layers (pr_dims tiny_request) = 2"
    by (simp_all add: tiny_request_def total_required_bytes_def kv_bytes_per_layer_def mul64_def add64_def node_budget_def
        sat_sub_def)
  ultimately show thesis using v2.complete [OF ok f] that by (auto simp: v2.cands_of_def)
qed

lemma tiny_planned:
  obtains pn where "plan_load tiny_env ''m'' ''m.gguf'' 128 None {} xd st = (Ok pn, snd (next_epoch st))"
    "pl_strategy (pn_plan pn) = PipelineParallel" "pl_epoch (pn_plan pn) = fst (next_epoch st)"
proof -
  obtain p where p: "plan_v2 tiny_request = Ok p" "pl_strategy (pp_plan p) = PipelineParallel" by (rule tiny_placed)
  then show thesis
    using that by (simp add: plan_load_def tiny_plan_request place_request_def next_epoch_def Let_def)
qed


theorem plan_load_stamps_epochs_witness:
  "\<exists>pn st'. plan_load tiny_env ''m'' ''m.gguf'' 128 None {} True ClusterState_new = (Ok pn, st')
     \<and> pl_epoch (pn_plan pn) = Epoch 1 \<and> cs_epoch_counter st' = 1"
proof -
  obtain pn where pn: "plan_load tiny_env ''m'' ''m.gguf'' 128 None {} True ClusterState_new
      = (Ok pn, snd (next_epoch ClusterState_new))" "pl_strategy (pn_plan pn) = PipelineParallel"
    by (rule tiny_planned)
  have "cs_epoch_counter ClusterState_new + 1 < M64" by (simp add: ClusterState_new_def)
  from plan_load_stamps_epochs [OF this, of tiny_env "''m''" "''m.gguf''" 128 None "{}" True] pn show ?thesis
    by (simp add: ClusterState_new_def)
qed

definition tiny_load :: PlannedLoad where
  "tiny_load = \<lparr>pn_plan = (sample_plan 3)\<lparr>pl_assignments :=
       [\<lparr>as_node = ''w'', as_layers = \<lparr>lr_start = 0, lr_end = 2\<rparr>, as_stage = 0\<rparr>]\<rparr>,
     pn_tensor_split = [Fin 1], pn_explanation = [], pn_predicted_tpt_ms = None, pn_predicted_prefill_ms = None,
     pn_own_id = ''h''\<rparr>"

definition tiny_activation :: "host_reply \<Rightarrow> activation_env" where
  "tiny_activation reply = \<lparr>ae_peers = [tiny_peer], ae_send = (\<lambda>_. None), ae_acks = [Map.empty],
     ae_acks_final = [(''w'', 3) \<mapsto> \<lparr>ack_ready = True, ack_detail = None\<rparr>], ae_bridge = (\<lambda>_. None), ae_reply = reply\<rparr>"

text \<open>An activation that meets no obstacle.\<close>

definition calm :: activation_env where
  "calm = \<lparr>ae_peers = [], ae_send = (\<lambda>_. None), ae_acks = [], ae_acks_final =
     (\<lambda>_. Some \<lparr>ack_ready = True, ack_detail = None\<rparr>), ae_bridge = (\<lambda>_. None), ae_reply = HostReady\<rparr>"

lemma calm_activates:
  obtains st' where "activate calm reference loc pn draft st = (Ok (), st')"
proof -
  have f: "first_failure (\<lambda>_. None) ws = None" for ws by (induction ws) auto
  have c: "check_acks (\<lambda>_. Some \<lparr>ack_ready = True, ack_detail = None\<rparr>) ep None ws = AllReady" for ep ws
    by (induction ws) auto
  have "\<exists>st'. activate calm reference loc pn draft st = (Ok (), st')"
    by (simp add: activate_def activate_solo_plan_def activate_distributed_plan_def calm_def f c Let_def)
  with that show thesis by blast
qed

lemma tiny_activates:
  "\<exists>st'. activate (tiny_activation HostReady) ''m'' \<lparr>lm_paths = [''m.gguf''], lm_name = ''m'', lm_size_bytes = 128\<rparr>
     tiny_load None ClusterState_new = (Ok (), st')"
  by (simp add: activate_def activate_distributed_plan_def tiny_activation_def tiny_load_def sample_plan_def
      plan_workers_def label_of_def Let_def)

theorem activation_all_or_nothing_witness:
  "\<exists>st'. activate (tiny_activation HostReady) ''m'' \<lparr>lm_paths = [''m.gguf''], lm_name = ''m'', lm_size_bytes = 128\<rparr>
     tiny_load None ClusterState_new = (Ok (), st') \<and> cs_head_bridges st' = [Epoch 3]"
proof -
  obtain st' where st: "activate (tiny_activation HostReady) ''m''
      \<lparr>lm_paths = [''m.gguf''], lm_name = ''m'', lm_size_bytes = 128\<rparr> tiny_load None ClusterState_new = (Ok (), st')"
    using tiny_activates by blast
  from activation_all_or_nothing [OF st] st show ?thesis
    by (auto simp: installed_def tiny_load_def sample_plan_def worker_ids_def)
qed

end
