(* ===== verification/Generation.thy ===== *)
theory Generation
  imports Text "HOL-Library.Multiset"
begin

text \<open>
  The parts of the engine host (\<open>onebraind/src/engine_host.rs\<close>) that decide what a client
  receives around the engine: the stop-string scan over streamed pieces, the carried state of
  an interrupted generation, and the admission counter. The scan is shown to be exact for any
  cutting of the text into pieces; the counter never admits more than its limit however the
  calls interleave.
\<close>

section \<open>Stop strings\<close>

record StopScan =
  sc_stops :: "string list"
  sc_tail :: string
  sc_keep :: usize

definition StopScan_new :: "string list \<Rightarrow> StopScan" where
  "StopScan_new stops =
     (let stops = filter (\<lambda>s. s \<noteq> []) stops in
      \<lparr>sc_stops = stops, sc_tail = [], sc_keep = sat_sub (fold max (map length stops) 0) 1\<rparr>)"

text \<open>
  The loop that moves a cut to a character boundary; the length is one, and the cut is never
  past it.
\<close>

function next_boundary :: "string \<Rightarrow> usize \<Rightarrow> usize" where
  "next_boundary s pos =
     (if is_char_boundary s pos \<or> length s \<le> pos then pos else next_boundary s (pos + 1))"
  by pat_completeness auto
termination by (relation "measure (\<lambda>(s, pos). length s - pos)") auto

declare next_boundary.simps [simp del]

definition admit :: "StopScan \<Rightarrow> string \<Rightarrow> bool \<times> StopScan" where
  "admit sc piece =
     (if sc_stops sc = [] then (True, sc)
      else
        let tail = sc_tail sc @ piece in
        if list_ex (contains_str tail) (sc_stops sc) then (False, sc\<lparr>sc_tail := tail\<rparr>)
        else if sc_keep sc < length tail
        then (True, sc\<lparr>sc_tail := drop (next_boundary tail (length tail - sc_keep sc)) tail\<rparr>)
        else (True, sc\<lparr>sc_tail := tail\<rparr>))"

text \<open>Feeding pieces until one is held back: the pieces the client receives, and whether all passed.\<close>

fun admit_all :: "StopScan \<Rightarrow> string list \<Rightarrow> string list \<times> bool" where
  "admit_all sc [] = ([], True)"
| "admit_all sc (p # ps) = (case admit sc p of
     (False, _) \<Rightarrow> ([], False)
   | (True, sc') \<Rightarrow> (let (out, ok) = admit_all sc' ps in (p # out, ok)))"

section \<open>The carried state of an interrupted generation\<close>

datatype FinishKind = Stop | Length | Abort

record ResumeState =
  rs_prompt_tokens :: "int list"
  rs_generated_tokens :: "int list"
  rs_pieces_sent :: usize
  rs_scan :: StopScan
  rs_finish :: "FinishKind option"

text \<open>A job is named by the client stream it answers.\<close>

record InterruptedGen =
  ig_job :: nat
  ig_prompt_tokens :: "int list"
  ig_generated_tokens :: "int list"
  ig_pieces_sent :: usize
  ig_scan :: StopScan
  ig_finish :: "FinishKind option"
  ig_error :: string

definition into_retry :: "InterruptedGen \<Rightarrow> nat \<times> ResumeState" where
  "into_retry g = (ig_job g,
     \<lparr>rs_prompt_tokens = ig_prompt_tokens g, rs_generated_tokens = ig_generated_tokens g,
      rs_pieces_sent = ig_pieces_sent g, rs_scan = ig_scan g, rs_finish = ig_finish g\<rparr>)"

section \<open>Admission\<close>

text \<open>
  The counter is shared by all callers and \<open>try_start_job\<close> is two atomic operations when it
  refuses: the increment that shows the daemon full, and the decrement that takes it back.
  \<open>adm_backing_out\<close> are the callers between the two.
\<close>

record admission =
  adm_jobs :: usize
  adm_running :: "nat multiset"
  adm_backing_out :: "nat multiset"

definition fetch_add_job :: "usize \<Rightarrow> nat \<Rightarrow> admission \<Rightarrow> bool \<times> admission" where
  "fetch_add_job limit caller a =
     (let prev = adm_jobs a; a = a\<lparr>adm_jobs := adm_jobs a + 1\<rparr> in
      if limit \<le> prev then (False, a\<lparr>adm_backing_out := add_mset caller (adm_backing_out a)\<rparr>)
      else (True, a\<lparr>adm_running := add_mset caller (adm_running a)\<rparr>))"

definition back_out :: "nat \<Rightarrow> admission \<Rightarrow> admission" where
  "back_out caller a = a\<lparr>adm_jobs := adm_jobs a - 1, adm_backing_out := adm_backing_out a - {#caller#}\<rparr>"

definition job_finished :: "nat \<Rightarrow> admission \<Rightarrow> admission" where
  "job_finished caller a = a\<lparr>adm_jobs := adm_jobs a - 1, adm_running := adm_running a - {#caller#}\<rparr>"

definition is_idle :: "admission \<Rightarrow> bool" where
  "is_idle a = (adm_jobs a = 0)"

inductive adm_step :: "usize \<Rightarrow> admission \<Rightarrow> admission \<Rightarrow> bool" for limit where
  try_start: "adm_step limit a (snd (fetch_add_job limit caller a))"
| refuse: "caller \<in># adm_backing_out a \<Longrightarrow> adm_step limit a (back_out caller a)"
| finish: "caller \<in># adm_running a \<Longrightarrow> adm_step limit a (job_finished caller a)"

definition admission_new :: admission where
  "admission_new = \<lparr>adm_jobs = 0, adm_running = {#}, adm_backing_out = {#}\<rparr>"

inductive adm_reachable :: "usize \<Rightarrow> admission \<Rightarrow> bool" for limit where
  adm_start: "adm_reachable limit admission_new"
| adm_next: "adm_reachable limit a \<Longrightarrow> adm_step limit a b \<Longrightarrow> adm_reachable limit b"

section \<open>The scan is exact\<close>

lemma contains_str_iff: "contains_str t s \<longleftrightarrow> (\<exists>a b. t = a @ s @ b)"
proof
  assume "contains_str t s"
  then obtain k where "take (length s) (drop k t) = s"
    by (auto simp: contains_str_def starts_with_def list_ex_iff)
  then have "t = take k t @ s @ drop (length s) (drop k t)" by (metis append_take_drop_id)
  then show "\<exists>a b. t = a @ s @ b" by blast
next
  assume "\<exists>a b. t = a @ s @ b"
  then obtain a b where t: "t = a @ s @ b" by blast
  then have "starts_with (drop (length a) t) s" by (simp add: starts_with_def)
  moreover have "length a \<in> set [0..<Suc (length t)]" by (simp add: t)
  ultimately show "contains_str t s" unfolding contains_str_def list_ex_iff by blast
qed

lemma next_boundary_spec:
  "pos \<le> length s \<Longrightarrow> pos \<le> next_boundary s pos \<and> next_boundary s pos \<le> length s
     \<and> (\<forall>i. pos \<le> i \<and> i < next_boundary s pos \<longrightarrow> \<not> is_char_boundary s i)"
proof (induction s pos rule: next_boundary.induct)
  case (1 s pos)
  show ?case
  proof (cases "is_char_boundary s pos \<or> length s \<le> pos")
    case True
    then show ?thesis using 1(2) by (auto simp: next_boundary.simps [of s pos])
  next
    case False
    then have n: "next_boundary s pos = next_boundary s (pos + 1)" by (simp add: next_boundary.simps [of s pos])
    from 1(1) [OF False] False have ih: "pos + 1 \<le> next_boundary s (pos + 1)"
        "next_boundary s (pos + 1) \<le> length s"
        "\<forall>i. pos + 1 \<le> i \<and> i < next_boundary s (pos + 1) \<longrightarrow> \<not> is_char_boundary s i" by auto
    have "\<not> is_char_boundary s i" if "pos \<le> i" "i < next_boundary s (pos + 1)" for i
      using that ih(3) False by (cases "i = pos") auto
    with ih n show ?thesis by simp
  qed
qed

text \<open>The first byte of a non-empty \<open>str\<close> is never a continuation byte.\<close>

definition leads :: "string \<Rightarrow> bool" where
  "leads s \<longleftrightarrow> s \<noteq> [] \<and> \<not> (128 \<le> (of_char (hd s) :: nat) \<and> (of_char (hd s) :: nat) < 192)"

lemma dropped_bytes_irrelevant:
  assumes s: "leads s" "length s \<le> keep + 1" and x: "\<not> contains_str x s" "keep < length x"
  shows "contains_str (x @ u) s \<longleftrightarrow> contains_str (drop (next_boundary x (length x - keep)) x @ u) s"
proof
  let ?c = "next_boundary x (length x - keep)"
  have c: "length x - keep \<le> ?c" "?c \<le> length x" "\<forall>i. length x - keep \<le> i \<and> i < ?c \<longrightarrow> \<not> is_char_boundary x i"
    using next_boundary_spec [of "length x - keep" x] x(2) by auto
  assume "contains_str (x @ u) s"
  then obtain a b where ab: "x @ u = a @ s @ b" by (auto simp: contains_str_iff)
  have late: "length x < length a + length s"
  proof (rule ccontr)
    assume "\<not> length x < length a + length s"
    then have "x = take (length x) (a @ s @ b)" using ab by (metis append_eq_conv_conj)
    also have "\<dots> = a @ s @ take (length x - length a - length s) b"
      using \<open>\<not> length x < length a + length s\<close> by simp
    finally show False using x(1) by (auto simp: contains_str_iff)
  qed
  then have la: "length x - keep \<le> length a" using s(2) by linarith
  have "?c \<le> length a"
  proof (rule ccontr)
    assume "\<not> ?c \<le> length a"
    then have lt: "length a < ?c" by simp
    then have nb: "\<not> is_char_boundary x (length a)" using c(3) la by blast
    have "length a < length x" using lt c(2) by linarith
    then have "x ! length a = (a @ s @ b) ! length a" using ab by (metis nth_append)
    then have "x ! length a = hd s" using s(1) by (simp add: leads_def nth_append hd_conv_nth)
    with nb \<open>length a < length x\<close> s(1) show False by (simp add: is_char_boundary_def leads_def)
  qed
  then have "drop ?c x @ u = drop ?c a @ s @ b"
    using ab c(2) by (metis (no_types, opaque_lifting) diff_is_0_eq drop_0 drop_append)
  then show "contains_str (drop ?c x @ u) s" by (auto simp: contains_str_iff)
next
  let ?c = "next_boundary x (length x - keep)"
  assume "contains_str (drop ?c x @ u) s"
  then obtain a b where "drop ?c x @ u = a @ s @ b" by (auto simp: contains_str_iff)
  then have "x @ u = (take ?c x @ a) @ s @ b" by (metis append.assoc append_take_drop_id)
  then show "contains_str (x @ u) s" unfolding contains_str_iff by blast
qed

text \<open>
  What the scan knows after the text \<open>t\<close>: no stop string occurs in it, and for whatever follows
  the tail decides as the whole text does.
\<close>

definition scans :: "StopScan \<Rightarrow> string \<Rightarrow> bool" where
  "scans sc t \<longleftrightarrow> (\<forall>s \<in> set (sc_stops sc). leads s \<and> length s \<le> sc_keep sc + 1 \<and> \<not> contains_str t s
     \<and> (\<forall>u. contains_str (t @ u) s \<longleftrightarrow> contains_str (sc_tail sc @ u) s))"

lemma fold_max_ge: "(a :: nat) \<le> fold max xs a" "x \<in> set xs \<Longrightarrow> x \<le> fold max xs (a :: nat)"
proof (induction xs arbitrary: a)
  case (Cons y ys)
  {
    case 1
    then show ?case using Cons.IH(1) [of "max y a"] by simp
  next
    case 2
    then show ?case using Cons.IH(1) [of "max y a"] Cons.IH(2) [of "max y a"] by auto
  }
qed simp_all

lemma scans_new:
  assumes "\<forall>s \<in> set stops. s \<noteq> [] \<longrightarrow> leads s"
  shows "scans (StopScan_new stops) []"
proof -
  have "length s \<le> sat_sub (fold max (map length (filter (\<lambda>s. s \<noteq> []) stops)) 0) 1 + 1"
    if "s \<in> set stops" "s \<noteq> []" for s
    using fold_max_ge(2) [of "length s" "map length (filter (\<lambda>s. s \<noteq> []) stops)" 0] that
    by (auto simp: sat_sub_def)
  with assms show ?thesis by (auto simp: scans_def StopScan_new_def Let_def contains_str_iff leads_def)
qed

lemma admit_scans:
  assumes "scans sc t" "admit sc p = (ok, sc')"
  shows "ok \<longleftrightarrow> \<not> list_ex (contains_str (t @ p)) (sc_stops sc)" "ok \<Longrightarrow> scans sc' (t @ p)"
    "sc_stops sc' = sc_stops sc"
proof -
  have eq: "contains_str (t @ p @ u) s \<longleftrightarrow> contains_str ((sc_tail sc @ p) @ u) s" if "s \<in> set (sc_stops sc)" for s u
    using assms(1) that by (simp add: scans_def)
  have eq0: "contains_str (t @ p) s \<longleftrightarrow> contains_str (sc_tail sc @ p) s" if "s \<in> set (sc_stops sc)" for s
    using eq [OF that, of "[]"] by simp
  then have any: "list_ex (contains_str (t @ p)) (sc_stops sc) \<longleftrightarrow> list_ex (contains_str (sc_tail sc @ p)) (sc_stops sc)"
    by (auto simp: list_ex_iff)
  show "ok \<longleftrightarrow> \<not> list_ex (contains_str (t @ p)) (sc_stops sc)" "sc_stops sc' = sc_stops sc"
    using assms(2) any by (auto simp: admit_def Let_def split: if_splits)
  assume ok
  then have none: "\<forall>s \<in> set (sc_stops sc). \<not> contains_str (sc_tail sc @ p) s" "sc_stops sc \<noteq> [] \<longrightarrow> sc' =
      sc\<lparr>sc_tail := if sc_keep sc < length (sc_tail sc @ p)
        then drop (next_boundary (sc_tail sc @ p) (length (sc_tail sc @ p) - sc_keep sc)) (sc_tail sc @ p)
        else sc_tail sc @ p\<rparr>" "sc_stops sc = [] \<longrightarrow> sc' = sc"
    using assms(2) by (auto simp: admit_def Let_def list_ex_iff split: if_splits)
  show "scans sc' (t @ p)"
  proof (cases "sc_stops sc = []")
    case True
    then show ?thesis using none(3) by (simp add: scans_def)
  next
    case False
    note sc' = none(2) [rule_format, OF False]
    have "contains_str ((t @ p) @ u) s \<longleftrightarrow> contains_str (sc_tail sc' @ u) s" if s: "s \<in> set (sc_stops sc)" for s u
    proof -
      have "leads s" "length s \<le> sc_keep sc + 1" using assms(1) s by (simp_all add: scans_def)
      from dropped_bytes_irrelevant [OF this none(1) [rule_format, OF s], of u] eq [OF s, of u]
      show ?thesis by (simp add: sc')
    qed
    then show ?thesis using assms(1) none(1) eq0 by (auto simp: scans_def sc')
  qed
qed

lemma admit_all_scans:
  assumes "scans sc t"
  shows "snd (admit_all sc ps) \<longleftrightarrow> \<not> list_ex (contains_str (t @ concat ps)) (sc_stops sc)"
    and "\<exists>rest. ps = fst (admit_all sc ps) @ rest
      \<and> \<not> list_ex (contains_str (t @ concat (fst (admit_all sc ps)))) (sc_stops sc)
      \<and> (rest \<noteq> [] \<longrightarrow> list_ex (contains_str (t @ concat (fst (admit_all sc ps)) @ hd rest)) (sc_stops sc))"
proof -
  have "(snd (admit_all sc ps) \<longleftrightarrow> \<not> list_ex (contains_str (t @ concat ps)) (sc_stops sc))
    \<and> (\<exists>rest. ps = fst (admit_all sc ps) @ rest
      \<and> \<not> list_ex (contains_str (t @ concat (fst (admit_all sc ps)))) (sc_stops sc)
      \<and> (rest \<noteq> [] \<longrightarrow> list_ex (contains_str (t @ concat (fst (admit_all sc ps)) @ hd rest)) (sc_stops sc)))"
    using assms
  proof (induction ps arbitrary: sc t)
    case Nil
    then show ?case by (auto simp: scans_def list_ex_iff)
  next
    case (Cons p ps)
    obtain ok sc' where a: "admit sc p = (ok, sc')" by fastforce
    note ap = admit_scans [OF Cons.prems a]
    show ?case
    proof (cases ok)
      case True
      obtain out b where o: "admit_all sc' ps = (out, b)" by fastforce
      from Cons.IH [OF ap(2) [OF True]] o ap(3) True a show ?thesis by simp
    next
      case False
      have no: "\<not> list_ex (contains_str t) (sc_stops sc)" using Cons.prems by (auto simp: scans_def list_ex_iff)
      from False ap(1) obtain s where s: "s \<in> set (sc_stops sc)" "contains_str (t @ p) s" by (auto simp: list_ex_iff)
      then have "contains_str ((t @ p) @ concat ps) s" unfolding contains_str_iff by force
      with s False a no show ?thesis by (auto simp: list_ex_iff)
    qed
  qed
  then show "snd (admit_all sc ps) \<longleftrightarrow> \<not> list_ex (contains_str (t @ concat ps)) (sc_stops sc)"
    "\<exists>rest. ps = fst (admit_all sc ps) @ rest
      \<and> \<not> list_ex (contains_str (t @ concat (fst (admit_all sc ps)))) (sc_stops sc)
      \<and> (rest \<noteq> [] \<longrightarrow> list_ex (contains_str (t @ concat (fst (admit_all sc ps)) @ hd rest)) (sc_stops sc))"
    by blast+
qed

text \<open>C17: scanning pieces with a bounded tail finds exactly what a search of the whole text would:
  the pieces let through are the longest prefix of the pieces whose joined text holds no stop
  string, however the text is cut, and the scan stops at the piece that completes one.
\<close>

theorem stop_scan_exact:
  fixes ps stops :: "string list"
  assumes "\<forall>s \<in> set stops. s \<noteq> [] \<longrightarrow> leads s"
  defines "out \<equiv> admit_all (StopScan_new stops) ps" and "ss \<equiv> filter (\<lambda>s. s \<noteq> []) stops"
  shows "(snd out \<longleftrightarrow> \<not> list_ex (contains_str (concat ps)) ss)
    \<and> (\<exists>rest. ps = fst out @ rest \<and> \<not> list_ex (contains_str (concat (fst out))) ss
         \<and> (rest \<noteq> [] \<longrightarrow> list_ex (contains_str (concat (fst out @ [hd rest]))) ss))"
proof -
  have "sc_stops (StopScan_new stops) = ss" by (simp add: StopScan_new_def ss_def Let_def)
  then show ?thesis
    using admit_all_scans [OF scans_new [OF assms(1)], of ps] by (simp add: out_def)
qed

theorem stop_scan_exact_witness:
  "admit_all (StopScan_new [''lo w'']) [''hel'', ''lo'', '' wo'', ''rld''] = ([''hel'', ''lo''], False)"
proof -
  have "\<forall>s \<in> set [''lo w'']. s \<noteq> [] \<longrightarrow> leads s" by (simp add: leads_def)
  from stop_scan_exact [OF this, of "[''hel'', ''lo'', '' wo'', ''rld'']"]
  have "\<not> snd (admit_all (StopScan_new [''lo w'']) [''hel'', ''lo'', '' wo'', ''rld''])"
    by (simp add: contains_str_def starts_with_def)
  moreover have "fst (admit_all (StopScan_new [''lo w'']) [''hel'', ''lo'', '' wo'', ''rld'']) = [''hel'', ''lo'']"
    by (simp add: StopScan_new_def admit_def contains_str_def starts_with_def sat_sub_def next_boundary.simps
        is_char_boundary_def)
  ultimately show ?thesis by (simp add: prod_eq_iff)
qed

section \<open>The limit holds under every interleaving\<close>

lemma adm_invariant:
  assumes "adm_reachable limit a"
  shows "adm_jobs a = size (adm_running a) + size (adm_backing_out a) \<and> size (adm_running a) \<le> limit"
  using assms
proof (induction rule: adm_reachable.induct)
  case adm_start
  then show ?case by (simp add: admission_new_def)
next
  case (adm_next a b)
  from adm_next(2,3) show ?case
    by (cases rule: adm_step.cases)
      (auto simp: fetch_add_job_def back_out_def job_finished_def size_Diff_singleton Let_def
        dest: multi_member_split)
qed

text \<open>C22: however the calls interleave, no more generation jobs are admitted than the limit, a
  call that finds fewer than \<open>limit\<close> jobs counted is admitted, and the counter is zero again
  once every admitted job has finished and every refused call has returned.
\<close>

theorem admission_bounded:
  assumes "adm_reachable limit a"
  shows "size (adm_running a) \<le> limit
    \<and> (adm_jobs a < limit \<longleftrightarrow> fst (fetch_add_job limit caller a))
    \<and> (is_idle a \<longleftrightarrow> adm_running a = {#} \<and> adm_backing_out a = {#})"
  using adm_invariant [OF assms] by (auto simp: fetch_add_job_def is_idle_def Let_def)

theorem admission_bounded_witness:
  "size (adm_running (snd (fetch_add_job 2 7 admission_new))) \<le> 2"
proof -
  have "adm_reachable 2 (snd (fetch_add_job 2 7 admission_new))"
    by (rule adm_next [OF adm_start adm_step.try_start])
  from admission_bounded [OF this] show ?thesis by blast
qed

text \<open>
  A refused caller counts until it has backed out: with a limit of one, a call can be refused
  while no job is running at all.
\<close>

lemma refusal_while_empty:
  "\<exists>a. adm_reachable 1 a \<and> adm_running a = {#} \<and> \<not> fst (fetch_add_job 1 caller a)"
proof -
  let ?a1 = "snd (fetch_add_job 1 1 admission_new)"
  let ?a2 = "snd (fetch_add_job 1 2 ?a1)"
  have "adm_reachable 1 ?a2" by (intro adm_next [OF _ adm_step.try_start] adm_start)
  then have "adm_reachable 1 (job_finished 1 ?a2)"
    by (rule adm_next) (rule adm_step.finish, simp add: fetch_add_job_def admission_new_def Let_def)
  then show ?thesis
    by (rule_tac x = "job_finished 1 ?a2" in exI)
      (simp add: fetch_add_job_def job_finished_def admission_new_def Let_def)
qed

end
