(* ===== verification/Supervisor.thy ===== *)
theory Supervisor
  imports Load Generation
begin

text \<open>
  The failure supervisor (\<open>onebraind/src/supervisor.rs\<close>): what happens to a generation whose
  cluster loses a node. The decision for one interruption is a function of the session state,
  the retry ledger and what the node, the mesh and the engine host answer; it holds the ledger's
  lock throughout, so it is one step. The life of a head that adopts no foreign plan is a step
  relation over its jobs, the session state and the ledger, in which user loads are planned and
  activated in separate steps beside everything else. The lemmas show the retry budget, one
  teardown per epoch and that an epoch's recorded outcome is final.
\<close>

section \<open>Decisions\<close>

definition RETAIN_EPOCHS :: u64 where "RETAIN_EPOCHS = 32"

datatype EpochOutcome = Reloaded string | FailedEpoch load_message

type_synonym RetryLedger = "u64 \<rightharpoonup> EpochOutcome"

datatype InterruptedAction = RetryOnce | FailTyped

definition decide_interrupted :: "u32 \<Rightarrow> InterruptedAction" where
  "decide_interrupted retries_used = (if retries_used = 0 then RetryOnce else FailTyped)"

definition lost_node_label :: "Assignment list \<Rightarrow> string \<Rightarrow> string set \<Rightarrow> PeerStatus list \<Rightarrow> string" where
  "lost_node_label assignments own_id lost_ids peers =
     (let workers = filter (\<lambda>a. as_node a \<noteq> own_id) assignments in
      case List.find (\<lambda>a. as_node a \<in> lost_ids) workers of
        Some a \<Rightarrow> label_of peers (as_node a)
      | None \<Rightarrow>
          (case List.find (\<lambda>a. \<not> (case List.find (\<lambda>p. ps_id p = as_node a) peers of
               Some p \<Rightarrow> ps_state p = Connected \<and> \<not> ps_draining p | None \<Rightarrow> False)) workers of
             Some a \<Rightarrow> label_of peers (as_node a)
           | None \<Rightarrow> (case workers of a # _ \<Rightarrow> label_of peers (as_node a) | [] \<Rightarrow> ''unknown'')))"

text \<open>
  The record closure: insert, then keep the records of the last \<open>RETAIN_EPOCHS\<close> epochs up to
  the one recorded.
\<close>

definition record_outcome :: "u64 option \<Rightarrow> EpochOutcome \<Rightarrow> RetryLedger \<Rightarrow> RetryLedger" where
  "record_outcome failed_epoch outcome ledger = (case failed_epoch of
     None \<Rightarrow> ledger
   | Some ep \<Rightarrow> (ledger(ep \<mapsto> outcome)) |` {e. ep < add64 e RETAIN_EPOCHS})"

section \<open>One interruption\<close>

record sup_env =
  se_node :: node_env
  se_peers :: "PeerStatus list"
  se_activation :: activation_env

datatype int_result = Reissue nat ResumeState bool | JobFailed nat load_message | JobPanics nat

definition teardown_failed_epoch :: "ClusterState \<Rightarrow> ClusterState" where
  "teardown_failed_epoch st = set_active None (teardown_head_bridges st)"

definition active_epoch :: "ClusterState \<Rightarrow> u64 option" where
  "active_epoch st = map_option (\<lambda>a. epoch_no (pl_epoch (av_plan a))) (cs_active st)"

definition follower_path :: "nat \<Rightarrow> ResumeState \<Rightarrow> string \<Rightarrow> u32 \<Rightarrow> u64 \<Rightarrow> ClusterState \<Rightarrow> RetryLedger \<Rightarrow> int_result" where
  "follower_path job resume engine_error retries_used ep st ledger = (case ledger ep of
     Some (Reloaded lost) \<Rightarrow>
       if decide_interrupted retries_used = FailTyped then JobFailed job (RetryExhausted lost)
       else Reissue job resume True
   | Some (FailedEpoch msg) \<Rightarrow> JobFailed job msg
   | None \<Rightarrow>
       if decide_interrupted retries_used = RetryOnce \<and> cs_loaded_source st \<noteq> None
       then Reissue job resume False
       else JobFailed job (GenerationFailed engine_error))"

text \<open>A failed leader: the model is marked unloaded and the outcome recorded.\<close>

definition give_up :: "nat \<Rightarrow> u64 option \<Rightarrow> RetryLedger \<Rightarrow> load_message \<Rightarrow> ClusterState \<Rightarrow>
    int_result \<times> ClusterState \<times> RetryLedger" where
  "give_up job failed_epoch ledger msg st =
     (JobFailed job msg, clear_loaded st, record_outcome failed_epoch (FailedEpoch msg) ledger)"

text \<open>
  The leader marks the active epoch failed and tears it down; the peers recorded as lost to it
  name the node to blame and stay out of the new plan.
\<close>

definition retire_epoch :: "ClusterState \<Rightarrow> ClusterState" where
  "retire_epoch st = teardown_failed_epoch
     (case active_epoch st of Some ep \<Rightarrow> snd (mark_epoch_failed ep None st) | None \<Rightarrow> st)"

definition lost_peers :: "ClusterState \<Rightarrow> string set" where
  "lost_peers st = (case active_epoch st of Some ep \<Rightarrow> epoch_lost_peers ep (retire_epoch st) | None \<Rightarrow> {})"

definition lost_label :: "sup_env \<Rightarrow> ClusterState \<Rightarrow> string" where
  "lost_label env st = (case cs_active st of
     Some a \<Rightarrow> lost_node_label (pl_assignments (av_plan a)) (ne_own_id (se_node env)) (lost_peers st) (se_peers env)
   | None \<Rightarrow> ''unknown'')"

text \<open>Re-planning and reloading the source the failed epoch had loaded.\<close>

definition reload_source ::
    "sup_env \<Rightarrow> nat \<Rightarrow> ResumeState \<Rightarrow> string \<Rightarrow> string set \<Rightarrow> u64 option \<Rightarrow> LoadedSource \<Rightarrow> ClusterState \<Rightarrow> RetryLedger \<Rightarrow>
     int_result \<times> ClusterState \<times> RetryLedger" where
  "reload_source env job resume lost lost_ids failed_epoch source st ledger =
     (case plan_load (se_node env) (ls_name source) (hd (ls_paths source)) (ls_size_bytes source) None
         lost_ids True st of
        (Err (DoesNotFitLoad required_mb available_mb _), st) \<Rightarrow>
          give_up job failed_epoch ledger (LostNodeError lost required_mb available_mb) st
      | (Err (OtherLoad msg), st) \<Rightarrow> give_up job failed_epoch ledger msg st
      | (Panic _, st) \<Rightarrow> (JobPanics job, st, ledger)
      | (Ok planned, st) \<Rightarrow>
          (case activate (se_activation env) (ls_reference source) (local_of source) planned
              (ls_draft_reference source) st of
             (Err msg, st) \<Rightarrow> give_up job failed_epoch ledger msg st
           | (Panic _, st) \<Rightarrow> (JobPanics job, st, ledger)
           | (Ok _, st) \<Rightarrow>
               (Reissue job resume True, st, record_outcome failed_epoch (Reloaded lost) ledger)))"

definition leader_path ::
    "sup_env \<Rightarrow> nat \<Rightarrow> ResumeState \<Rightarrow> string \<Rightarrow> u32 \<Rightarrow> ClusterState \<Rightarrow> RetryLedger \<Rightarrow>
     int_result \<times> ClusterState \<times> RetryLedger" where
  "leader_path env job resume engine_error retries_used st ledger =
     (let failed_epoch = active_epoch st; lost = lost_label env st in
      if decide_interrupted retries_used = FailTyped
      then give_up job failed_epoch ledger (RetryExhausted lost) (retire_epoch st)
      else case cs_loaded_source st of
        None \<Rightarrow> give_up job failed_epoch ledger (NotIdentified engine_error) (retire_epoch st)
      | Some source \<Rightarrow>
          reload_source env job resume lost (lost_peers st) failed_epoch source (retire_epoch st) ledger)"

definition still_active :: "u64 option \<Rightarrow> ClusterState \<Rightarrow> bool" where
  "still_active attempt_epoch st = (case attempt_epoch of Some ep \<Rightarrow> active_epoch st = Some ep | None \<Rightarrow> False)"

definition handle_interrupted ::
    "sup_env \<Rightarrow> InterruptedGen \<Rightarrow> u32 \<Rightarrow> u64 option \<Rightarrow> ClusterState \<Rightarrow> RetryLedger \<Rightarrow>
     int_result \<times> ClusterState \<times> RetryLedger" where
  "handle_interrupted env g retries_used attempt_epoch st ledger =
     (let (job, resume) = into_retry g in
      case attempt_epoch of
        Some ep \<Rightarrow>
          if \<not> still_active attempt_epoch st
          then (follower_path job resume (ig_error g) retries_used ep st ledger, st, ledger)
          else leader_path env job resume (ig_error g) retries_used st ledger
      | None \<Rightarrow> leader_path env job resume (ig_error g) retries_used st ledger)"

section \<open>No job in flight\<close>

definition handle_epoch_failed :: "bool \<Rightarrow> u64 \<Rightarrow> ClusterState \<Rightarrow> ClusterState" where
  "handle_epoch_failed idle ep st = (case cs_active st of
     None \<Rightarrow> st
   | Some active \<Rightarrow>
       if av_role active \<noteq> RoleHead \<or> epoch_no (pl_epoch (av_plan active)) \<noteq> ep then st
       else if \<not> idle then st
       else clear_loaded (teardown_failed_epoch st))"

definition maybe_rejoin_replan :: "sup_env \<Rightarrow> bool \<Rightarrow> ClusterState \<Rightarrow> ClusterState" where
  "maybe_rejoin_replan env idle st =
     (let (requested, st) = take_rejoin_request st in
      if \<not> requested then st
      else case (cs_loaded_source st, cs_active st) of
        (Some source, Some active) \<Rightarrow>
          if av_role active \<noteq> RoleHead then st
          else if \<not> idle then defer_rejoin_request st
          else
            (case plan_load (se_node env) (ls_name source) (hd (ls_paths source)) (ls_size_bytes source) None {} False st of
               (Ok planned, st) \<Rightarrow>
                 if pl_strategy (pn_plan planned) = pl_strategy (av_plan active)
                    \<and> pl_assignments (pn_plan planned) = pl_assignments (av_plan active) then st
                 else
                   (case activate (se_activation env) (ls_reference source) (local_of source) planned
                       (ls_draft_reference source) st of
                      (Err _, st) \<Rightarrow> clear_loaded st
                    | (_, st) \<Rightarrow> st)
             | (_, st) \<Rightarrow> st)
      | _ \<Rightarrow> st)"

section \<open>The life of a head\<close>

text \<open>
  A job waits to be sent, is in flight with the active epoch seen before it was sent, or has
  ended, with the error event sent to its client if one was. Loads asked for by users have
  been planned and not yet activated.
\<close>

datatype job_phase =
    Waiting u32 "ResumeState option"
  | InFlight u32 "u64 option" "ResumeState option"
  | Ended "load_message option"

record sup_state =
  su_cluster :: ClusterState
  su_ledger :: RetryLedger
  su_jobs :: "nat \<rightharpoonup> job_phase"
  su_events :: "(nat \<times> load_message) list"
  su_pending :: "PlannedLoad list"
  su_torn :: "u64 list"

fun ended :: "job_phase \<Rightarrow> bool" where
  "ended (Ended _) = True"
| "ended _ = False"

definition host_idle :: "sup_state \<Rightarrow> bool" where
  "host_idle s = (\<forall>p \<in> ran (su_jobs s). ended p)"

definition set_job :: "nat \<Rightarrow> job_phase \<Rightarrow> sup_state \<Rightarrow> sup_state" where
  "set_job j p s = s\<lparr>su_jobs := (su_jobs s)(j \<mapsto> p)\<rparr>"

definition fail_job :: "nat \<Rightarrow> load_message \<Rightarrow> sup_state \<Rightarrow> sup_state" where
  "fail_job j msg s = (set_job j (Ended (Some msg)) s)\<lparr>su_events := su_events s @ [(j, msg)]\<rparr>"

text \<open>What \<open>run_supervised\<close> does with the decision for an interruption.\<close>

definition apply_result :: "nat \<Rightarrow> u32 \<Rightarrow> int_result \<Rightarrow> sup_state \<Rightarrow> sup_state" where
  "apply_result j retries_used r s = (case r of
     Reissue _ resume counted \<Rightarrow>
       set_job j (Waiting (if counted then add32 retries_used 1 else retries_used) (Some resume)) s
   | JobFailed _ msg \<Rightarrow> fail_job j msg s
   | JobPanics _ \<Rightarrow> set_job j (Ended None) s)"

definition log_teardown :: "bool \<Rightarrow> sup_state \<Rightarrow> sup_state" where
  "log_teardown tears s = (if tears
     then s\<lparr>su_torn := su_torn s @ (case active_epoch (su_cluster s) of Some ep \<Rightarrow> [ep] | None \<Rightarrow> [])\<rparr> else s)"

inductive sup_step :: "sup_state \<Rightarrow> sup_state \<Rightarrow> bool" where
  accept: "su_jobs s j = None \<Longrightarrow> sup_step s (set_job j (Waiting 0 None) s)"
| send: "su_jobs s j = Some (Waiting r resume) \<Longrightarrow>
    sup_step s (set_job j (InFlight r (active_epoch (su_cluster s)) resume) s)"
| queue_closed: "su_jobs s j = Some (Waiting r resume) \<Longrightarrow> sup_step s (fail_job j ShuttingDown s)"
| finished: "su_jobs s j = Some (InFlight r ep resume) \<Longrightarrow> sup_step s (set_job j (Ended None) s)"
| interrupted: "su_jobs s j = Some (InFlight r ep resume) \<Longrightarrow> ig_job g = j \<Longrightarrow>
    handle_interrupted env g r ep (su_cluster s) (su_ledger s) = (result, st, ledger) \<Longrightarrow>
    sup_step s (apply_result j r result
      ((log_teardown (ep = None \<or> still_active ep (su_cluster s)) s)\<lparr>su_cluster := st, su_ledger := ledger\<rparr>))"
| epoch_failed: "sup_step s
    ((log_teardown (host_idle s \<and> active_epoch (su_cluster s) = Some ep) s)
       \<lparr>su_cluster := handle_epoch_failed (host_idle s) ep (su_cluster s)\<rparr>)"
| rejoin: "sup_step s (s\<lparr>su_cluster := maybe_rejoin_replan env (host_idle s) (su_cluster s)\<rparr>)"
| peer_event: "sup_step s (s\<lparr>su_cluster := fst (handle_peer_event ev (su_cluster s))\<rparr>)"
| ack: "sup_step s (s\<lparr>su_cluster := record_ack p ep ready detail (su_cluster s)\<rparr>)"
| plan_user_load: "plan_load env name path bytes nodes {} False (su_cluster s) = (Ok pn, st) \<Longrightarrow>
    sup_step s (s\<lparr>su_cluster := st, su_pending := su_pending s @ [pn]\<rparr>)"
| activate_user_load: "su_pending s = xs @ pn # ys \<Longrightarrow>
    sup_step s (s\<lparr>su_cluster := snd (activate ae reference local_model pn draft (su_cluster s)),
      su_pending := xs @ ys\<rparr>)"

definition sup_new :: sup_state where
  "sup_new = \<lparr>su_cluster = ClusterState_new, su_ledger = Map.empty, su_jobs = Map.empty, su_events = [],
     su_pending = [], su_torn = []\<rparr>"

text \<open>Reachable in a number of steps, so that the epoch counter can be bounded.\<close>

inductive sup_run :: "nat \<Rightarrow> sup_state \<Rightarrow> bool" where
  sup_start: "sup_run 0 sup_new"
| sup_next: "sup_run n s \<Longrightarrow> sup_step s t \<Longrightarrow> sup_run (Suc n) t"

inductive_cases sup_stepE: "sup_step s t"

section \<open>Epochs of plans\<close>

lemma plan_v2_epoch: "plan_v2 req = Ok p \<Longrightarrow> pl_epoch (pp_plan p) = Epoch 0"
  by (auto simp: plan_v2_def distributed_v2_def solo_placement_v2_def solo_placement_v1_def Let_def res_simps
      split: option.splits if_splits prod.splits)

definition plan_epoch :: "PlannedLoad \<Rightarrow> u64" where
  "plan_epoch pn = epoch_no (pl_epoch (pn_plan pn))"

lemma place_request_effect:
  assumes "cs_epoch_counter st + 1 < M64" "place_request req own name st = (r, st')"
  shows "st' = st \<and> (\<forall>pn. r = Ok pn \<longrightarrow> plan_epoch pn = 0)
    \<or> (\<exists>pn. r = Ok pn \<and> plan_epoch pn = cs_epoch_counter st + 1
        \<and> st' = st\<lparr>cs_epoch_counter := cs_epoch_counter st + 1\<rparr>)"
proof (cases "plan_v2 req")
  case (Ok p)
  have "add64 (cs_epoch_counter st) 1 = cs_epoch_counter st + 1" using assms(1) by (simp add: wrap_simps)
  with assms(2) Ok plan_v2_epoch [OF Ok] show ?thesis
    by (auto simp: place_request_def plan_epoch_def Let_def next_epoch_def split: if_splits)
qed (use assms(2) in \<open>auto simp: place_request_def\<close>)

lemma plan_load_effect:
  assumes c: "cs_epoch_counter st + 1 < M64" and p: "plan_load env name path bytes nodes ex xd st = (r, st')"
  shows "st' = st \<and> (\<forall>pn. r = Ok pn \<longrightarrow> plan_epoch pn = 0)
    \<or> (\<exists>pn. r = Ok pn \<and> plan_epoch pn = cs_epoch_counter st + 1
        \<and> st' = st\<lparr>cs_epoch_counter := cs_epoch_counter st + 1\<rparr>)"
proof (cases "plan_request env path bytes nodes ex xd")
  case (Ok req)
  with p have "place_request req (ne_own_id env) name st = (r, st')" by (simp add: plan_load_def)
  from place_request_effect [OF c this] show ?thesis .
qed (use p in \<open>auto simp: plan_load_def\<close>)

text \<open>
  How a step moves the active plan: it stays, goes, or becomes a solo plan or the plan stamped
  in this very step.
\<close>

definition moves :: "ClusterState \<Rightarrow> ClusterState \<Rightarrow> bool" where
  "moves st st' \<longleftrightarrow>
     (cs_epoch_counter st' = cs_epoch_counter st \<or> cs_epoch_counter st' = cs_epoch_counter st + 1)
     \<and> (active_epoch st' = None \<or> active_epoch st' = Some 0 \<or> active_epoch st' = active_epoch st
        \<or> active_epoch st' = Some (cs_epoch_counter st') \<and> cs_epoch_counter st' = cs_epoch_counter st + 1)"

lemma moves_refl: "cs_active st' = cs_active st \<Longrightarrow> cs_epoch_counter st' = cs_epoch_counter st \<Longrightarrow> moves st st'"
  by (simp add: moves_def active_epoch_def)

lemma activate_active:
  assumes "activate ae reference loc pn draft st = (r, st')"
  shows "r = Ok () \<and> active_epoch st' = Some (plan_epoch pn)
    \<or> (\<exists>m. r = Err m) \<and> active_epoch st' = active_epoch st"
  using assms
  by (cases rule: activate_cases) (auto simp: installed_def untouched_def active_epoch_def plan_epoch_def)

lemma reload_moves:
  assumes c: "cs_epoch_counter st + 1 < M64"
    and p: "plan_load env name path bytes nodes ex xd st = (Ok pn, st1)"
    and a: "activate ae reference loc pn draft st1 = (r, st2)"
  shows "moves st st2"
proof -
  have act: "cs_epoch_counter st2 = cs_epoch_counter st1"
      "active_epoch st2 = Some (plan_epoch pn) \<or> active_epoch st2 = active_epoch st1"
    using activate_keeps(1) [OF a] activate_active [OF a] by auto
  from plan_load_effect [OF c p]
  consider "st1 = st" "plan_epoch pn = 0"
    | "plan_epoch pn = cs_epoch_counter st + 1" "st1 = st\<lparr>cs_epoch_counter := cs_epoch_counter st + 1\<rparr>"
    by auto
  then show ?thesis using act by cases (auto simp: moves_def active_epoch_def)
qed

lemma plan_load_moves:
  assumes "cs_epoch_counter st + 1 < M64" "plan_load env name path bytes nodes ex xd st = (r, st')"
  shows "moves st st'" "cs_active st' = cs_active st"
  using plan_load_effect [OF assms] by (auto simp: moves_def active_epoch_def)

lemma moves_clear [simp]: "moves st (clear_loaded st') \<longleftrightarrow> moves st st'"
  by (simp add: moves_def active_epoch_def clear_loaded_def)

section \<open>What an interruption does\<close>

lemma teardown_simps [simp]:
  "cs_active (teardown_failed_epoch st) = None" "cs_epoch_counter (teardown_failed_epoch st) = cs_epoch_counter st"
  "active_epoch (teardown_failed_epoch st) = None"
  by (simp_all add: teardown_failed_epoch_def state_defs active_epoch_def)

lemma mark_keeps [simp]: "cs_epoch_counter (snd (mark_epoch_failed ep p st)) = cs_epoch_counter st"
  by (simp add: mark_epoch_failed_def split: option.split)

definition finals :: "u64 option \<Rightarrow> RetryLedger \<Rightarrow> RetryLedger \<Rightarrow> bool" where
  "finals fe ledger ledger' \<longleftrightarrow>
     dom ledger' \<subseteq> dom ledger \<union> set_option fe
     \<and> (\<forall>e. fe \<noteq> Some e \<longrightarrow> ledger' e = ledger e
          \<or> ledger' e = None \<and> (\<exists>ep. fe = Some ep \<and> add64 e RETAIN_EPOCHS \<le> ep))"

lemma finals_simps [simp]: "finals fe ledger ledger" "finals fe ledger (record_outcome fe o' ledger)"
  by (auto simp: finals_def record_outcome_def restrict_map_def split: option.splits if_splits)

lemma reload_source_effect:
  assumes c: "cs_epoch_counter st + 1 < M64"
    and l: "reload_source env job resume lost ids fe source st ledger = (result, st', ledger')"
  shows "moves st st' \<and> finals fe ledger ledger'
    \<and> (result = Reissue job resume True \<or> (\<exists>m. result = JobFailed job m) \<or> result = JobPanics job)"
proof -
  obtain q st2 where p: "plan_load (se_node env) (ls_name source) (hd (ls_paths source)) (ls_size_bytes source) None
      ids True st = (q, st2)" by fastforce
  note pm = plan_load_moves [OF c p]
  show ?thesis
  proof (cases q)
    case (Ok pn)
    obtain a st3 where act: "activate (se_activation env) (ls_reference source) (local_of source) pn
        (ls_draft_reference source) st2 = (a, st3)" by fastforce
    note am = reload_moves [OF c p [unfolded Ok] act] activate_active [OF act]
    show ?thesis using l p Ok act am by (auto simp: reload_source_def give_up_def)
  next
    case (Err e)
    then show ?thesis using l p pm by (cases e) (auto simp: reload_source_def give_up_def)
  next
    case (Panic k)
    then show ?thesis using l p pm by (auto simp: reload_source_def)
  qed
qed

lemma retire_simps [simp]:
  "cs_active (retire_epoch st) = None" "active_epoch (retire_epoch st) = None"
  "cs_epoch_counter (retire_epoch st) = cs_epoch_counter st"
  by (simp_all add: retire_epoch_def split: option.split)

lemma leader_path_effect:
  assumes c: "cs_epoch_counter st + 1 < M64"
    and l: "leader_path env job resume err r st ledger = (result, st', ledger')"
  shows "moves (retire_epoch st) st' \<and> finals (active_epoch st) ledger ledger'
    \<and> (result = Reissue job resume True \<and> r = 0 \<or> (\<exists>m. result = JobFailed job m) \<or> result = JobPanics job)"
proof -
  have refl: "moves (retire_epoch st) (retire_epoch st)" by (simp add: moves_refl)
  show ?thesis
  proof (cases "decide_interrupted r = FailTyped \<or> cs_loaded_source st = None")
    case True
    then show ?thesis using l refl by (auto simp: leader_path_def give_up_def Let_def split: option.splits if_splits)
  next
    case False
    then have "r = 0" by (auto simp: decide_interrupted_def split: if_splits)
    with False l c show ?thesis
      using reload_source_effect [of "retire_epoch st" env job resume _ _ "active_epoch st" _ ledger result st' ledger']
      by (auto simp: leader_path_def Let_def)
  qed
qed

section \<open>One teardown per epoch\<close>

definition opt_list :: "'a option \<Rightarrow> 'a list" where
  "opt_list x = (case x of Some a \<Rightarrow> [a] | None \<Rightarrow> [])"

lemma opt_list_simps [simp]: "opt_list None = []" "opt_list (Some a) = [a]"
  by (simp_all add: opt_list_def)

text \<open>Where an epoch can be: active, planned for a load, or torn down.\<close>

definition listed :: "sup_state \<Rightarrow> u64 list" where
  "listed s = opt_list (active_epoch (su_cluster s)) @ map plan_epoch (su_pending s) @ su_torn s"

definition stamps :: "u64 list \<Rightarrow> u64 \<Rightarrow> bool" where
  "stamps es n \<longleftrightarrow> distinct (filter (\<lambda>e. e \<noteq> 0) es) \<and> (\<forall>e \<in> set es. e \<le> n)"

lemma stamps_mset: "mset es = mset es' \<Longrightarrow> stamps es n \<Longrightarrow> stamps es' n"
proof -
  assume m: "mset es = mset es'" and s: "stamps es n"
  have "mset (filter (\<lambda>e. e \<noteq> 0) es) = mset (filter (\<lambda>e. e \<noteq> 0) es')" using m by (simp add: mset_filter)
  from mset_eq_imp_distinct_iff [OF this] mset_eq_setD [OF m] s show ?thesis by (simp add: stamps_def)
qed

lemma stamps_fresh: "stamps es n \<Longrightarrow> stamps (Suc n # es) (Suc n)" "stamps es n \<Longrightarrow> stamps (0 # es) n"
  "stamps es n \<Longrightarrow> stamps es (Suc n)" "stamps (e # es) n \<Longrightarrow> stamps es n"
  by (auto simp: stamps_def split: if_splits)

lemma stamps_sub: "stamps (xs @ ys @ zs) n \<Longrightarrow> stamps (xs @ zs) n"
  by (auto simp: stamps_def)

lemma stamps_moves:
  assumes "moves st st'" "stamps (opt_list (active_epoch st) @ es) (cs_epoch_counter st)"
  shows "stamps (opt_list (active_epoch st') @ es) (cs_epoch_counter st')"
proof -
  have es: "stamps es (cs_epoch_counter st)"
    using assms(2) by (cases "active_epoch st") (auto dest: stamps_fresh(4))
  show ?thesis
    using assms es stamps_fresh(3) [OF assms(2)] stamps_fresh(1-3) [OF es] stamps_fresh(2) [OF stamps_fresh(3) [OF es]]
    by (auto simp: moves_def)
qed

definition sup_ok :: "nat \<Rightarrow> sup_state \<Rightarrow> bool" where
  "sup_ok n s \<longleftrightarrow> stamps (listed s) (cs_epoch_counter (su_cluster s)) \<and> cs_epoch_counter (su_cluster s) \<le> n
     \<and> (\<forall>v. cs_active (su_cluster s) = Some v \<longrightarrow> av_role v = RoleHead) \<and> dom (su_ledger s) \<subseteq> set (su_torn s)"

lemma phase_simps [simp]:
  "su_cluster (set_job j p s) = su_cluster s" "su_ledger (set_job j p s) = su_ledger s"
  "su_pending (set_job j p s) = su_pending s" "su_torn (set_job j p s) = su_torn s"
  "su_cluster (fail_job j m s) = su_cluster s" "su_ledger (fail_job j m s) = su_ledger s"
  "su_pending (fail_job j m s) = su_pending s" "su_torn (fail_job j m s) = su_torn s"
  "su_cluster (apply_result j r x s) = su_cluster s" "su_ledger (apply_result j r x s) = su_ledger s"
  "su_pending (apply_result j r x s) = su_pending s" "su_torn (apply_result j r x s) = su_torn s"
  by (simp_all add: set_job_def fail_job_def apply_result_def split: int_result.split)

lemma log_teardown_simps [simp]:
  "su_cluster (log_teardown b s) = su_cluster s" "su_ledger (log_teardown b s) = su_ledger s"
  "su_pending (log_teardown b s) = su_pending s" "su_jobs (log_teardown b s) = su_jobs s"
  "su_events (log_teardown b s) = su_events s"
  "su_torn (log_teardown b s) = su_torn s @ (if b then opt_list (active_epoch (su_cluster s)) else [])"
  by (simp_all add: log_teardown_def opt_list_def split: option.split)

lemma sup_ok_same:
  "sup_ok n s \<Longrightarrow> su_cluster t = su_cluster s \<Longrightarrow> su_ledger t = su_ledger s \<Longrightarrow> su_pending t = su_pending s \<Longrightarrow>
   su_torn t = su_torn s \<Longrightarrow> sup_ok (Suc n) t"
  by (simp add: sup_ok_def listed_def)

definition heads :: "ClusterState \<Rightarrow> bool" where
  "heads st \<longleftrightarrow> (\<forall>v. cs_active st = Some v \<longrightarrow> av_role v = RoleHead)"

lemma heads_activate: "heads st \<Longrightarrow> activate ae reference loc pn draft st = (r, st') \<Longrightarrow> heads st'"
  by (erule activate_cases) (auto simp: heads_def installed_def untouched_def)

lemma sup_ok_moves:
  assumes ok: "sup_ok n s" and m: "moves (su_cluster s) st" and h: "heads st"
    and t: "su_cluster t = st" "su_ledger t = su_ledger s" "su_pending t = su_pending s" "su_torn t = su_torn s"
  shows "sup_ok (Suc n) t"
proof -
  have "stamps (opt_list (active_epoch st) @ map plan_epoch (su_pending s) @ su_torn s) (cs_epoch_counter st)"
    by (rule stamps_moves [OF m]) (use ok in \<open>simp add: sup_ok_def listed_def\<close>)
  moreover have "cs_epoch_counter st \<le> Suc n" using m ok by (auto simp: moves_def sup_ok_def)
  ultimately show ?thesis using ok h t by (simp add: sup_ok_def listed_def heads_def)
qed

lemma plan_load_active: "plan_load env name path bytes nodes ex xd st = (q, st') \<Longrightarrow> cs_active st' = cs_active st"
  by (auto simp: plan_load_def place_request_def next_epoch_def Let_def split: res.splits if_splits)

lemma heads_simps [simp]: "heads (clear_loaded st) = heads st" "heads (retire_epoch st)"
  by (simp_all add: heads_def clear_loaded_def)

lemma heads_plan_load: "heads st \<Longrightarrow> plan_load env name path bytes nodes ex xd st = (q, st') \<Longrightarrow> heads st'"
  using plan_load_active by (simp add: heads_def)

lemma heads_leader:
  assumes "leader_path env job resume err r st ledger = (result, st', ledger')"
  shows "heads st'"
  using assms
  by (auto simp: leader_path_def reload_source_def give_up_def Let_def
      elim!: heads_activate [rotated] dest!: heads_plan_load [OF heads_simps(2)]
      split: if_splits option.splits prod.splits res.splits PlanLoadError.splits)

lemma handle_interrupted_cases:
  assumes "handle_interrupted env g r ep st ledger = (result, st', ledger')"
  obtains (follower) e where "ep = Some e" "\<not> still_active ep st" "st' = st" "ledger' = ledger"
      "result = follower_path (ig_job g) (snd (into_retry g)) (ig_error g) r e st ledger"
  | (leader) "ep = None \<or> still_active ep st"
      "leader_path env (ig_job g) (snd (into_retry g)) (ig_error g) r st ledger = (result, st', ledger')"
  using assms by (auto simp: handle_interrupted_def into_retry_def split: option.splits if_splits)

lemma rejoin_moves:
  assumes "cs_epoch_counter st + 1 < M64" "heads st"
  shows "moves st (maybe_rejoin_replan env idle st) \<and> heads (maybe_rejoin_replan env idle st)"
proof -
  define st0 where "st0 = st\<lparr>cs_rejoin_requested := False\<rparr>"
  have same: "moves st x = moves st0 x" "heads st = heads st0" for x
    by (simp_all add: st0_def moves_def heads_def active_epoch_def)
  have c: "cs_epoch_counter st0 + 1 < M64" using assms(1) by (simp add: st0_def)
  have keep: "moves st0 st0 \<and> heads st0" "moves st0 (defer_rejoin_request st0) \<and> heads (defer_rejoin_request st0)"
    using assms(2) same by (simp_all add: moves_refl defer_rejoin_request_def heads_def)
  show ?thesis
  proof (cases "cs_rejoin_requested st")
    case False
    then show ?thesis using keep by (simp add: maybe_rejoin_replan_def take_rejoin_request_def st0_def [symmetric] same)
  next
    case True
    show ?thesis
    proof (cases "\<exists>src v. cs_loaded_source st0 = Some src \<and> cs_active st0 = Some v")
      case False
      then show ?thesis using keep True
        by (auto simp: maybe_rejoin_replan_def take_rejoin_request_def st0_def [symmetric] same split: option.splits)
    next
      case sv: True
      then obtain src v where sv: "cs_loaded_source st0 = Some src" "cs_active st0 = Some v" by blast
      obtain q st1 where p: "plan_load (se_node env) (ls_name src) (hd (ls_paths src)) (ls_size_bytes src) None {} False st0
          = (q, st1)" by fastforce
      note pm = plan_load_moves [OF c p] heads_plan_load [OF _ p]
      show ?thesis
      proof (cases q)
        case (Ok pn)
        obtain a st2 where act: "activate (se_activation env) (ls_reference src) (local_of src) pn
            (ls_draft_reference src) st1 = (a, st2)" by fastforce
        note am = reload_moves [OF c p [unfolded Ok] act] heads_activate [OF _ act]
        show ?thesis using True keep sv p Ok act am pm
          by (auto simp: maybe_rejoin_replan_def take_rejoin_request_def st0_def [symmetric] same split: res.split)
      qed (use True keep sv p pm in
          \<open>auto simp: maybe_rejoin_replan_def take_rejoin_request_def st0_def [symmetric] same\<close>)
    qed
  qed
qed

lemma sup_ok_leader:
  assumes ok: "sup_ok n s" and c: "cs_epoch_counter (su_cluster s) + 1 < M64"
    and l: "leader_path env job resume err r (su_cluster s) (su_ledger s) = (result, st, ledger)"
    and t: "su_cluster t = st" "su_ledger t = ledger" "su_pending t = su_pending s"
      "su_torn t = su_torn s @ opt_list (active_epoch (su_cluster s))"
  shows "sup_ok (Suc n) t"
proof -
  let ?st = "su_cluster s" and ?es = "map plan_epoch (su_pending s) @ su_torn s @ opt_list (active_epoch (su_cluster s))"
  from leader_path_effect [OF c l] have m: "moves (retire_epoch ?st) st" and f: "finals (active_epoch ?st) (su_ledger s) ledger"
    by blast+
  have "stamps ?es (cs_epoch_counter ?st)"
    by (rule stamps_mset [of "listed s"]) (use ok in \<open>simp_all add: sup_ok_def listed_def\<close>)
  then have "stamps (opt_list (active_epoch st) @ ?es) (cs_epoch_counter st)"
    by (intro stamps_moves [OF m]) simp
  moreover have "cs_epoch_counter st \<le> Suc n" using m ok by (auto simp: moves_def sup_ok_def)
  moreover have "dom ledger \<subseteq> set (su_torn s) \<union> set_option (active_epoch ?st)"
    using f ok unfolding finals_def sup_ok_def by fast
  then have "dom ledger \<subseteq> set (su_torn t)" by (cases "active_epoch ?st") (auto simp: t)
  ultimately show ?thesis
    using heads_leader [OF l] by (simp add: sup_ok_def listed_def heads_def t)
qed

lemma sup_ok_user_plan:
  assumes ok: "sup_ok n s" and c: "cs_epoch_counter (su_cluster s) + 1 < M64"
    and p: "plan_load env name path bytes nodes ex xd (su_cluster s) = (Ok pn, st)"
  shows "sup_ok (Suc n) (s\<lparr>su_cluster := st, su_pending := su_pending s @ [pn]\<rparr>)"
proof -
  let ?st = "su_cluster s"
  have act: "cs_active st = cs_active ?st" by (rule plan_load_active [OF p])
  have l: "stamps (listed s) (cs_epoch_counter ?st)" using ok by (simp add: sup_ok_def)
  from plan_load_effect [OF c p] have "stamps (plan_epoch pn # listed s) (cs_epoch_counter st)"
      "cs_epoch_counter st \<le> Suc n"
    using stamps_fresh(1,2) [OF l] ok by (auto simp: sup_ok_def)
  moreover from this(1) have "stamps (listed (s\<lparr>su_cluster := st, su_pending := su_pending s @ [pn]\<rparr>)) (cs_epoch_counter st)"
    by (rule stamps_mset [rotated]) (simp add: listed_def active_epoch_def act)
  ultimately show ?thesis using ok by (simp add: sup_ok_def act)
qed

lemma sup_ok_user_activate:
  assumes ok: "sup_ok n s" and p: "su_pending s = xs @ pn # ys"
    and a: "activate ae reference loc pn draft (su_cluster s) = (r, st)"
  shows "sup_ok (Suc n) (s\<lparr>su_cluster := st, su_pending := xs @ ys\<rparr>)"
proof -
  let ?t = "s\<lparr>su_cluster := st, su_pending := xs @ ys\<rparr>"
  have c: "cs_epoch_counter st = cs_epoch_counter (su_cluster s)" by (rule activate_keeps(1) [OF a])
  have l: "stamps (listed s) (cs_epoch_counter st)" using ok c by (simp add: sup_ok_def)
  have h: "heads st" using ok by (intro heads_activate [OF _ a]) (simp add: sup_ok_def heads_def)
  let ?rest = "map plan_epoch (xs @ ys) @ su_torn s"
  have "stamps ([plan_epoch pn] @ opt_list (active_epoch (su_cluster s)) @ ?rest) (cs_epoch_counter st)"
    by (rule stamps_mset [OF _ l]) (simp add: listed_def p)
  from stamps_sub [OF this] stamps_fresh(4) [OF this [simplified]]
  have "stamps (plan_epoch pn # ?rest) (cs_epoch_counter st)"
      "stamps (opt_list (active_epoch (su_cluster s)) @ ?rest) (cs_epoch_counter st)" by simp_all
  moreover from activate_active [OF a]
  have "active_epoch st = Some (plan_epoch pn) \<or> active_epoch st = active_epoch (su_cluster s)" by blast
  ultimately have "stamps (listed ?t) (cs_epoch_counter st)" by (elim disjE) (simp_all add: listed_def)
  with ok c h show ?thesis by (simp add: sup_ok_def heads_def)
qed

lemma sup_step_ok:
  assumes ok: "sup_ok n s" and n: "n + 1 < M64" and step: "sup_step s t"
  shows "sup_ok (Suc n) t"
proof -
  have c: "cs_epoch_counter (su_cluster s) + 1 < M64" and h: "heads (su_cluster s)"
    using ok n by (auto simp: sup_ok_def heads_def)
  from step show ?thesis
  proof (cases rule: sup_step.cases)
    case (interrupted j r ep resume g env result st ledger)
    from interrupted(4) show ?thesis
    proof (cases rule: handle_interrupted_cases)
      case (follower e)
      then show ?thesis unfolding interrupted(1) by (intro sup_ok_same [OF ok]) simp_all
    next
      case leader
      then show ?thesis unfolding interrupted(1) by (intro sup_ok_leader [OF ok c leader(2)]) simp_all
    qed
  next
    case (epoch_failed ep)
    show ?thesis
    proof (cases "host_idle s \<and> active_epoch (su_cluster s) = Some ep")
      case True
      then obtain v where v: "cs_active (su_cluster s) = Some v" "epoch_no (pl_epoch (av_plan v)) = ep" "av_role v = RoleHead"
        using h by (auto simp: active_epoch_def heads_def)
      have "stamps (map plan_epoch (su_pending s) @ su_torn s @ [ep]) (cs_epoch_counter (su_cluster s))"
        by (rule stamps_mset [of "listed s"]) (use ok True in \<open>simp_all add: sup_ok_def listed_def\<close>)
      then show ?thesis using ok True v
        by (auto simp: epoch_failed(1) sup_ok_def listed_def handle_epoch_failed_def clear_loaded_def active_epoch_def)
    next
      case False
      then have "handle_epoch_failed (host_idle s) ep (su_cluster s) = su_cluster s"
        by (auto simp: handle_epoch_failed_def active_epoch_def split: option.split)
      with False show ?thesis unfolding epoch_failed(1) by (intro sup_ok_same [OF ok]) simp_all
    qed
  next
    case (rejoin env)
    from rejoin_moves [OF c h, of env "host_idle s"] show ?thesis
      unfolding rejoin(1) by (intro sup_ok_moves [OF ok, of "maybe_rejoin_replan env (host_idle s) (su_cluster s)"]) simp_all
  next
    case (peer_event ev)
    have k: "cs_active (fst (handle_peer_event ev (su_cluster s))) = cs_active (su_cluster s)"
      "cs_epoch_counter (fst (handle_peer_event ev (su_cluster s))) = cs_epoch_counter (su_cluster s)"
      by (auto simp: handle_peer_event_def state_defs Let_def split: option.split)
    then have "heads (fst (handle_peer_event ev (su_cluster s)))" using h by (simp add: heads_def)
    with moves_refl [OF k] show ?thesis unfolding peer_event(1) by (intro sup_ok_moves [OF ok]) simp_all
  next
    case (ack p ep ready detail)
    have "moves (su_cluster s) (record_ack p ep ready detail (su_cluster s))"
      by (rule moves_refl) (simp_all add: record_ack_def)
    then show ?thesis using h unfolding ack(1)
      by (intro sup_ok_moves [OF ok]) (simp_all add: heads_def record_ack_def)
  next
    case (plan_user_load env name path bytes nodes pn st)
    show ?thesis unfolding plan_user_load(1) by (rule sup_ok_user_plan [OF ok c plan_user_load(2)])
  next
    case (activate_user_load xs pn ys ae reference loc draft)
    show ?thesis unfolding activate_user_load(1)
      by (rule sup_ok_user_activate [OF ok activate_user_load(2) prod.collapse [symmetric]])
  qed (simp_all add: sup_ok_same [OF ok])
qed

lemma sup_run_ok: "sup_run n s \<Longrightarrow> n < M64 \<Longrightarrow> sup_ok n s"
proof (induction rule: sup_run.induct)
  case sup_start
  then show ?case by (simp add: sup_ok_def sup_new_def ClusterState_new_def listed_def active_epoch_def stamps_def)
next
  case (sup_next n s t)
  then show ?case by (intro sup_step_ok [OF _ _ sup_next(2)]) simp_all
qed

text \<open>C4: in any life of a head of fewer than \<open>2 ^ 64\<close> steps, an epoch of a distributed plan is torn
  down at most once and is never active again after that, whatever jobs fail, peers come and
  go, and loads are planned and activated in between.
\<close>

theorem one_teardown_per_epoch:
  assumes "sup_run n s" "n < M64"
  shows "distinct (filter (\<lambda>e. e \<noteq> 0) (su_torn s))
    \<and> (\<forall>e. e \<noteq> 0 \<and> active_epoch (su_cluster s) = Some e \<longrightarrow> e \<notin> set (su_torn s))"
  using sup_run_ok [OF assms] by (auto simp: sup_ok_def listed_def stamps_def)

section \<open>Outcomes are final\<close>



section \<open>The retry budget\<close>

lemma leader_reissue:
  assumes "leader_path env job resume err r st ledger = (Reissue j res counted, st', ledger')"
  shows "r = 0 \<and> j = job \<and> res = resume \<and> counted"
  using assms
  by (auto simp: leader_path_def reload_source_def give_up_def decide_interrupted_def Let_def
      split: if_splits option.splits prod.splits res.splits PlanLoadError.splits)

lemma reissue_budget:
  assumes "handle_interrupted env g r ep st ledger = (Reissue j resume counted, st', ledger')"
  shows "r = 0 \<and> (j, resume) = into_retry g"
  using assms
proof (cases rule: handle_interrupted_cases)
  case (follower e)
  then show ?thesis
    by (auto simp: follower_path_def decide_interrupted_def into_retry_def split: option.splits EpochOutcome.splits if_splits)
next
  case leader
  from leader_reissue [OF leader(2)] show ?thesis by (simp add: into_retry_def)
qed

text \<open>A job is re-issued only while its retry is unspent, with exactly the tokens, the piece
  count, the stop scan and the decided finish it was interrupted with; once the retry is spent
  an interruption ends the job with an error whatever the cluster does.
\<close>

theorem reissue_carries_the_prefix:
  "case handle_interrupted env g retries ep st ledger of
     (Reissue j resume _, _) \<Rightarrow> retries = 0 \<and> j = ig_job g
       \<and> rs_prompt_tokens resume = ig_prompt_tokens g \<and> rs_generated_tokens resume = ig_generated_tokens g
       \<and> rs_pieces_sent resume = ig_pieces_sent g \<and> rs_scan resume = ig_scan g \<and> rs_finish resume = ig_finish g
   | (JobFailed j _, _) \<Rightarrow> j = ig_job g
   | (JobPanics j, _) \<Rightarrow> j = ig_job g \<and> retries = 0"
proof -
  obtain result st' ledger' where h: "handle_interrupted env g retries ep st ledger = (result, st', ledger')"
    by (cases "handle_interrupted env g retries ep st ledger") auto
  from h have shape: "result = Reissue (ig_job g) (snd (into_retry g)) counted \<or> (\<exists>m. result = JobFailed (ig_job g) m)
      \<or> result = JobPanics (ig_job g) \<and> retries = 0" if "result \<noteq> Reissue (ig_job g) (snd (into_retry g)) (\<not> counted)" for counted
    using that
    by (cases rule: handle_interrupted_cases)
      (auto simp: follower_path_def leader_path_def reload_source_def give_up_def decide_interrupted_def Let_def
        split: if_splits option.splits prod.splits res.splits PlanLoadError.splits EpochOutcome.splits)
  show ?thesis
  proof (cases result)
    case (Reissue j resume counted)
    from reissue_budget [OF h [unfolded Reissue]] h Reissue show ?thesis by (auto simp: into_retry_def)
  qed (use h shape in auto)
qed







section \<open>The retry leaves the lost nodes out\<close>



section \<open>A concrete life\<close>

text \<open>
  A model is planned across two nodes and activated as epoch one, a job is sent, and its
  decode fails; memory can no longer be measured, so the leader gives up.
\<close>

definition sample_gen :: InterruptedGen where
  "sample_gen = \<lparr>ig_job = 7, ig_prompt_tokens = [1, 2], ig_generated_tokens = [3], ig_pieces_sent = 1,
     ig_scan = StopScan_new [], ig_finish = None, ig_error = ''decode''\<rparr>"

definition tiny_local :: LocalModel where
  "tiny_local = \<lparr>lm_paths = [''m.gguf''], lm_name = ''m'', lm_size_bytes = 128\<rparr>"

definition blind_env :: sup_env where
  "blind_env = \<lparr>se_node = tiny_env\<lparr>ne_devices := None\<rparr>, se_peers = [], se_activation = calm\<rparr>"

lemma blind_leader:
  assumes "active_epoch st = Some 1" "cs_loaded_source st = Some src"
  shows "handle_interrupted blind_env sample_gen 0 (Some 1) st Map.empty =
    (JobFailed 7 MeasuringMemoryFailed, clear_loaded (retire_epoch st), [1 \<mapsto> FailedEpoch MeasuringMemoryFailed])"
proof -
  have "[1 \<mapsto> x] |` {e. 1 < (e + 32) mod M64} = [1 \<mapsto> x]" for x :: EpochOutcome
    by (rule ext) (simp add: restrict_map_def)
  with assms show ?thesis
    by (simp add: handle_interrupted_def still_active_def into_retry_def sample_gen_def leader_path_def reload_source_def
        blind_env_def plan_load_def plan_request_def give_up_def decide_interrupted_def record_outcome_def RETAIN_EPOCHS_def
        add64_def Let_def)
qed

lemma sample_life:
  obtains s where "sup_run 5 s" "su_torn s = [1]" "su_ledger s = [1 \<mapsto> FailedEpoch MeasuringMemoryFailed]"
    "su_events s = [(7, MeasuringMemoryFailed)]" "su_jobs s 8 = None"
proof -
  obtain pn where pn: "plan_load tiny_env ''m'' ''m.gguf'' 128 None {} False ClusterState_new
      = (Ok pn, snd (next_epoch ClusterState_new))" "pl_strategy (pn_plan pn) = PipelineParallel"
      "pl_epoch (pn_plan pn) = fst (next_epoch ClusterState_new)"
    by (rule tiny_planned)
  have e1: "plan_epoch pn = 1" using pn(3) by (simp add: plan_epoch_def next_epoch_def ClusterState_new_def add64_def)
  let ?c1 = "snd (next_epoch ClusterState_new)"
  let ?s1 = "sup_new\<lparr>su_cluster := ?c1, su_pending := [pn]\<rparr>"
  have r1: "sup_run 1 ?s1"
    using sup_next [OF sup_start plan_user_load [of tiny_env "''m''" "''m.gguf''" 128 None sup_new pn ?c1]] pn(1)
    by (simp add: sup_new_def)
  obtain c2 where a: "activate calm ''m'' tiny_local pn None ?c1 = (Ok (), c2)" by (rule calm_activates)
  have c2: "active_epoch c2 = Some 1" using activate_active [OF a] by (simp add: e1)
  obtain src where src: "cs_loaded_source c2 = Some src"
    using a by (cases rule: activate_cases) (auto simp: installed_def)
  let ?s2 = "?s1\<lparr>su_cluster := c2, su_pending := []\<rparr>"
  have r2: "sup_run 2 ?s2"
    using sup_next [OF r1 activate_user_load [of ?s1 "[]" pn "[]" calm "''m''" tiny_local None]]
    by (simp add: a numeral_2_eq_2)
  let ?s3 = "set_job 7 (Waiting 0 None) ?s2"
  have r3: "sup_run 3 ?s3"
    using sup_next [OF r2 accept [of ?s2 7]] by (simp add: sup_new_def numeral_3_eq_3 numeral_2_eq_2)
  let ?s4 = "set_job 7 (InFlight 0 (Some 1) None) ?s3"
  have r4: "sup_run (Suc 3) ?s4"
    using sup_next [OF r3 send [of ?s3 7 0 None]] by (simp add: set_job_def c2)
  let ?s5 = "apply_result 7 0 (JobFailed 7 MeasuringMemoryFailed) ((log_teardown True ?s4)
     \<lparr>su_cluster := clear_loaded (retire_epoch c2), su_ledger := [1 \<mapsto> FailedEpoch MeasuringMemoryFailed]\<rparr>)"
  have "su_jobs ?s4 7 = Some (InFlight 0 (Some 1) None)" by (simp add: set_job_def)
  moreover have "ig_job sample_gen = 7" by (simp add: sample_gen_def)
  moreover have "handle_interrupted blind_env sample_gen 0 (Some 1) (su_cluster ?s4) (su_ledger ?s4) =
      (JobFailed 7 MeasuringMemoryFailed, clear_loaded (retire_epoch c2), [1 \<mapsto> FailedEpoch MeasuringMemoryFailed])"
    using blind_leader [OF c2 src] by (simp add: sup_new_def)
  ultimately have "sup_step ?s4 (apply_result 7 0 (JobFailed 7 MeasuringMemoryFailed)
      ((log_teardown (Some (1::u64) = None \<or> still_active (Some 1) (su_cluster ?s4)) ?s4)
        \<lparr>su_cluster := clear_loaded (retire_epoch c2), su_ledger := [1 \<mapsto> FailedEpoch MeasuringMemoryFailed]\<rparr>))"
    by (rule interrupted)
  then have "sup_step ?s4 ?s5" by (simp add: still_active_def c2)
  from sup_next [OF r4 this] have r5: "sup_run 5 ?s5" by simp
  show thesis
  proof (rule that [OF r5])
    show "su_torn ?s5 = [1]" by (simp add: c2 sup_new_def)
    show "su_ledger ?s5 = [1 \<mapsto> FailedEpoch MeasuringMemoryFailed]" by simp
    show "su_events ?s5 = [(7, MeasuringMemoryFailed)]" "su_jobs ?s5 8 = None"
      by (simp_all add: apply_result_def fail_job_def set_job_def sup_new_def log_teardown_def)
  qed
qed

theorem one_teardown_per_epoch_witness: "\<exists>s. sup_run 5 s \<and> su_torn s = [1] \<and> active_epoch (su_cluster s) \<noteq> Some 1"
proof -
  obtain s where s: "sup_run 5 s" "su_torn s = [1]" by (rule sample_life)
  from one_teardown_per_epoch [OF s(1)] s show ?thesis by auto
qed







section \<open>A swap that fails before it starts\<close>






end
