(* ===== verification/PeerStore.thy ===== *)
theory PeerStore
  imports TextOrder
begin

text \<open>
  The persistent peer store (\<open>onebrain-mesh/src/store.rs\<close>) and the errors of the mesh
  (\<open>onebrain-mesh/src/lib.rs\<close>). A \<open>BTreeMap\<close> from endpoint ids is a list of entries in the
  order of the keys. The file is its text; the TOML reader and writer, the outcome of each
  file operation and the clock are fields of an environment. Every operation reads the file,
  changes the peers and writes them through a temporary file and a rename, and returns the
  disk it leaves behind. The lemmas show that the store stays well formed (ids in order, no
  two peers of one name), what each operation changes, that a failed one leaves the stored
  peers alone, and that the search for a free name ends.
\<close>

section \<open>Errors of the mesh\<close>

datatype MeshError =
    IdentityRead string
  | IdentityMalformed
  | IdentityWrite string
  | Rng string
  | StoreRead
  | StoreParse
  | StoreWrite
  | UnknownPeerName string "string list"
  | BindFailed string
  | ConnectFailed string string
  | PairRejected string
  | WindowAlreadyOpen
  | CodeRequired
  | BadPairTarget string
  | NoCandidates
  | NotConnected string
  | StreamFailed string
  | ProtoFailed string
  | Timeout string u64
  | ServiceStopped
  | ConsumerTaken string
  | BlobStoreFailed string
  | BlobFetchFailed string

section \<open>Socket addresses\<close>

text \<open>\<open>Ord\<close> puts every IPv4 address before every IPv6 one and compares the fields in order.\<close>

datatype SocketAddr = V4 u32 u16 | V6 u128 u16 u32 u32

fun addr_key :: "SocketAddr \<Rightarrow> nat list" where
  "addr_key (V4 ip port) = [0, ip, port]"
| "addr_key (V6 ip port flow scope) = [1, ip, port, flow, scope]"

lemma addr_key_inj: "addr_key a = addr_key b \<Longrightarrow> a = b"
  by (cases a; cases b) simp_all

instantiation SocketAddr :: linorder
begin

definition less_eq_SocketAddr :: "SocketAddr \<Rightarrow> SocketAddr \<Rightarrow> bool" where
  "a \<le> b \<longleftrightarrow> addr_key a \<le> addr_key b"

definition less_SocketAddr :: "SocketAddr \<Rightarrow> SocketAddr \<Rightarrow> bool" where
  "a < b \<longleftrightarrow> addr_key a < addr_key b"

instance
  by standard (auto simp: less_eq_SocketAddr_def less_SocketAddr_def intro: addr_key_inj)

end

text \<open>\<open>Vec::dedup\<close> drops an element equal to the one before it.\<close>

definition sort_dedup :: "SocketAddr list \<Rightarrow> SocketAddr list" where
  "sort_dedup xs = remdups_adj (sort xs)"

section \<open>Maps ordered by key\<close>

type_synonym 'v btree = "(string \<times> 'v) list"

fun bt_insert :: "string \<Rightarrow> 'v \<Rightarrow> 'v btree \<Rightarrow> 'v btree" where
  "bt_insert k v [] = [(k, v)]"
| "bt_insert k v ((k', v') # m) = (case str_cmp k k' of
     Less \<Rightarrow> (k, v) # (k', v') # m
   | Equal \<Rightarrow> (k, v) # m
   | Greater \<Rightarrow> (k', v') # bt_insert k v m)"

definition bt_remove :: "string \<Rightarrow> 'v btree \<Rightarrow> 'v btree" where
  "bt_remove k m = filter (\<lambda>e. fst e \<noteq> k) m"

text \<open>What a write through \<open>get_mut\<close> leaves.\<close>

definition bt_modify :: "string \<Rightarrow> ('v \<Rightarrow> 'v) \<Rightarrow> 'v btree \<Rightarrow> 'v btree" where
  "bt_modify k f m = map (\<lambda>e. if fst e = k then (k, f (snd e)) else e) m"

definition bt_ok :: "'v btree \<Rightarrow> bool" where
  "bt_ok m = sorted_wrt (\<lambda>a b. str_key (fst a) < str_key (fst b)) m"

lemma map_of_bt_insert [simp]: "map_of (bt_insert k v m) = (map_of m)(k \<mapsto> v)"
proof (induction m)
  case (Cons e m)
  then show ?case
    by (cases e) (auto simp: fun_eq_iff str_cmp_key split: ordering.split)
qed simp

lemma set_bt_insert: "set (bt_insert k v m) \<subseteq> insert (k, v) (set m)"
  by (induction m) (auto split: ordering.splits)

lemma bt_ok_insert: "bt_ok m \<Longrightarrow> bt_ok (bt_insert k v m)"
proof (induction m)
  case (Cons e m)
  have lt: "str_key (fst e) < str_key k" if "str_cmp k (fst e) = Greater"
    using that by (simp add: str_cmp_key)
  show ?case
    using Cons set_bt_insert [of k v m] lt
    by (cases e) (fastforce simp: bt_ok_def str_cmp_key cmp_def split: ordering.split if_splits
        dest: less_trans)
qed (simp add: bt_ok_def)

lemma bt_ok_remove [simp]: "bt_ok m \<Longrightarrow> bt_ok (bt_remove k m)"
  by (simp add: bt_ok_def bt_remove_def sorted_wrt_filter)

lemma bt_ok_modify [simp]: "bt_ok (bt_modify k f m) = bt_ok m"
proof -
  have "fst (if fst e = k then (k, f (snd e)) else e) = fst e" for e by simp
  then show ?thesis unfolding bt_ok_def bt_modify_def sorted_wrt_map by simp
qed

lemma bt_ok_distinct: "bt_ok m \<Longrightarrow> distinct (map fst m)"
  by (induction m) (fastforce simp: bt_ok_def)+

lemma map_of_bt_remove [simp]: "map_of (bt_remove k m) = (map_of m)(k := None)"
  by (induction m) (auto simp: bt_remove_def fun_eq_iff)

lemma map_of_bt_modify:
  "map_of (bt_modify k f m) = (case map_of m k of None \<Rightarrow> map_of m | Some v \<Rightarrow> (map_of m)(k \<mapsto> f v))"
proof (induction m)
  case (Cons e m)
  then show ?case
    by (cases e) (auto simp: bt_modify_def fun_eq_iff split: option.splits)
qed (simp add: bt_modify_def)

lemma keys_bt_modify [simp]: "map fst (bt_modify k f m) = map fst m"
  by (simp add: bt_modify_def)

section \<open>The store\<close>

record PeerRecord =
  pk_name :: string
  pk_added_unix :: u64
  pk_direct_addrs :: "SocketAddr list"
  pk_relay_url :: "string option"
  pk_product_version :: "string option"
  pk_engine_build :: "string option"

type_synonym peers = "PeerRecord btree"

text \<open>
  The TOML reader and writer are the \<open>toml\<close> crate's. A write that fails may leave anything
  in the temporary file.
\<close>

record store_env =
  se_from_toml :: "string \<Rightarrow> peers option"
  se_to_toml :: "peers \<Rightarrow> string option"
  se_read_fails :: bool
  se_mkdir_fails :: bool
  se_write_fails :: bool
  se_torn :: "string option"
  se_rename_fails :: bool
  se_now :: u64

record disk =
  dk_store :: "string option"
  dk_tmp :: "string option"

definition load :: "store_env \<Rightarrow> disk \<Rightarrow> (peers, MeshError) res" where
  "load env dk =
     (if se_read_fails env then Err StoreRead
      else case dk_store dk of
        None \<Rightarrow> Ok []
      | Some raw \<Rightarrow> (case se_from_toml env raw of None \<Rightarrow> Err StoreParse | Some ps \<Rightarrow> Ok ps))"

definition save :: "store_env \<Rightarrow> peers \<Rightarrow> disk \<Rightarrow> (unit, MeshError) res \<times> disk" where
  "save env ps dk = (case se_to_toml env ps of
     None \<Rightarrow> (Err StoreWrite, dk)
   | Some body \<Rightarrow>
       if se_mkdir_fails env then (Err StoreWrite, dk)
       else if se_write_fails env then (Err StoreWrite, dk\<lparr>dk_tmp := se_torn env\<rparr>)
       else if se_rename_fails env then (Err StoreWrite, dk\<lparr>dk_tmp := Some body\<rparr>)
       else (Ok (), \<lparr>dk_store = Some body, dk_tmp = None\<rparr>))"

definition contains :: "store_env \<Rightarrow> string \<Rightarrow> disk \<Rightarrow> (bool, MeshError) res" where
  "contains env endpoint_id dk =
     res_bind (load env dk) (\<lambda>ps. Ok (endpoint_id \<in> fst ` set ps))"

text \<open>
  Read, decide, and write when something changed. The decision returns the value and the peers
  to write, if any.
\<close>

definition load_modify_save ::
    "store_env \<Rightarrow> (peers \<Rightarrow> ('a \<times> peers option, MeshError) res) \<Rightarrow> disk \<Rightarrow> ('a, MeshError) res \<times> disk" where
  "load_modify_save env decide dk = (case res_bind (load env dk) decide of
     Err e \<Rightarrow> (Err e, dk)
   | Panic k \<Rightarrow> (Panic k, dk)
   | Ok (v, None) \<Rightarrow> (Ok v, dk)
   | Ok (v, Some ps) \<Rightarrow> (case save env ps dk of
       (Ok _, dk) \<Rightarrow> (Ok v, dk) | (Err e, dk) \<Rightarrow> (Err e, dk) | (Panic k, dk) \<Rightarrow> (Panic k, dk)))"

text \<open>
  The search for a name no peer has: the wanted one, then with the suffixes \<open>-2\<close>, \<open>-3\<close>
  and so on. The counter is a \<open>u32\<close> in the source; it passes at most one value per stored
  peer.
\<close>

definition suffixed :: "string \<Rightarrow> nat \<Rightarrow> string" where
  "suffixed base n = base @ ''-'' @ dec n"

lemma dec_inj: "dec a = dec b \<Longrightarrow> a = b"
  by (metis digits_value_dec option.inject)

lemma suffixed_inj [simp]: "suffixed base a = suffixed base b \<longleftrightarrow> a = b"
  by (auto simp: suffixed_def dest: dec_inj)

lemma suffixed_not_base [simp]: "suffixed base n \<noteq> base"
  by (simp add: suffixed_def)

definition suffixes_taken :: "string list \<Rightarrow> string \<Rightarrow> nat \<Rightarrow> nat set" where
  "suffixes_taken taken base n = {m. n \<le> m \<and> suffixed base m \<in> set taken}"

lemma finite_suffixes_taken [simp]: "finite (suffixes_taken taken base n)"
proof (rule finite_subset)
  show "suffixes_taken taken base n \<subseteq> suffixed base -` set taken" by (auto simp: suffixes_taken_def)
  show "finite (suffixed base -` set taken)" by (rule finite_vimageI) (auto simp: inj_on_def)
qed

lemma suffixes_taken_Suc:
  "suffixes_taken taken base n =
     (if suffixed base n \<in> set taken then insert n (suffixes_taken taken base (Suc n))
      else suffixes_taken taken base (Suc n))"
  by (auto simp: suffixes_taken_def Suc_le_eq le_less)

lemma card_suffixes_taken_Suc:
  "card (suffixes_taken taken base n) =
     (if suffixed base n \<in> set taken then Suc (card (suffixes_taken taken base (Suc n)))
      else card (suffixes_taken taken base (Suc n)))"
  by (subst suffixes_taken_Suc) (simp add: suffixes_taken_def [of _ _ "Suc n"] card_insert_if
      finite_suffixes_taken [unfolded suffixes_taken_def])

function free_name :: "string list \<Rightarrow> string \<Rightarrow> string \<Rightarrow> nat \<Rightarrow> string" where
  "free_name taken base name n =
     (if name \<in> set taken then free_name taken base (suffixed base n) (n + 1) else name)"
  by pat_completeness auto
termination
  by (relation "measure (\<lambda>(taken, base, name, n).
      card (suffixes_taken taken base n) + (if name \<in> set taken then 1 else 0))")
    (auto simp: card_suffixes_taken_Suc)

declare free_name.simps [simp del]

definition names_of :: "peers \<Rightarrow> string list" where
  "names_of ps = map (pk_name \<circ> snd) ps"

definition add_peer :: "store_env \<Rightarrow> string \<Rightarrow> string \<Rightarrow> disk \<Rightarrow> (string, MeshError) res \<times> disk" where
  "add_peer env endpoint_id wanted_name =
     load_modify_save env (\<lambda>ps. Ok (case map_of ps endpoint_id of
         Some existing \<Rightarrow> (pk_name existing, None)
       | None \<Rightarrow>
           let base = (let trimmed = trim wanted_name in if trimmed = [] then ''peer'' else trimmed);
               name = free_name (names_of ps) base base 2 in
           (name, Some (bt_insert endpoint_id
             \<lparr>pk_name = name, pk_added_unix = se_now env, pk_direct_addrs = [], pk_relay_url = None,
              pk_product_version = None, pk_engine_build = None\<rparr> ps))))"

definition update_addrs ::
    "store_env \<Rightarrow> string \<Rightarrow> SocketAddr list \<Rightarrow> string option \<Rightarrow> disk \<Rightarrow> (bool, MeshError) res \<times> disk" where
  "update_addrs env endpoint_id direct_addrs relay_url =
     load_modify_save env (\<lambda>ps. Ok (case map_of ps endpoint_id of
         None \<Rightarrow> (False, None)
       | Some r \<Rightarrow>
           let direct = sort_dedup direct_addrs;
               new_direct = (direct \<noteq> [] \<and> pk_direct_addrs r \<noteq> direct);
               new_relay = (relay_url \<noteq> None \<and> pk_relay_url r \<noteq> relay_url);
               r = (if new_direct then r\<lparr>pk_direct_addrs := direct\<rparr> else r);
               r = (if new_relay then r\<lparr>pk_relay_url := relay_url\<rparr> else r) in
           if new_direct \<or> new_relay then (True, Some (bt_modify endpoint_id (\<lambda>_. r) ps)) else (False, None)))"

definition update_hello ::
    "store_env \<Rightarrow> string \<Rightarrow> string \<Rightarrow> string \<Rightarrow> disk \<Rightarrow> (bool, MeshError) res \<times> disk" where
  "update_hello env endpoint_id product_version engine_build =
     load_modify_save env (\<lambda>ps. Ok (case map_of ps endpoint_id of
         None \<Rightarrow> (False, None)
       | Some r \<Rightarrow>
           if pk_product_version r = Some product_version \<and> pk_engine_build r = Some engine_build
           then (False, None)
           else (True, Some (bt_modify endpoint_id (\<lambda>r. r\<lparr>pk_product_version := Some product_version,
             pk_engine_build := Some engine_build\<rparr>) ps))))"

definition sorted_names :: "peers \<Rightarrow> string list" where
  "sorted_names ps = sort_by str_cmp (names_of ps)"

definition remove_by_name :: "store_env \<Rightarrow> string \<Rightarrow> disk \<Rightarrow> (string, MeshError) res \<times> disk" where
  "remove_by_name env name =
     load_modify_save env (\<lambda>ps. case find (\<lambda>e. pk_name (snd e) = name) ps of
         Some (endpoint_id, _) \<Rightarrow> Ok (endpoint_id, Some (bt_remove endpoint_id ps))
       | None \<Rightarrow> Err (UnknownPeerName name (sorted_names ps)))"

section \<open>Names\<close>

lemma free_name_found:
  "free_name taken base name n \<notin> set taken
   \<and> (free_name taken base name n = name \<and> name \<notin> set taken
      \<or> name \<in> set taken \<and> (\<exists>k \<ge> n. free_name taken base name n = suffixed base k
           \<and> (\<forall>m. n \<le> m \<and> m < k \<longrightarrow> suffixed base m \<in> set taken)))"
proof (induction taken base name n rule: free_name.induct)
  case (1 taken base name n)
  show ?case
  proof (cases "name \<in> set taken")
    case True
    then have e: "free_name taken base name n = free_name taken base (suffixed base n) (n + 1)"
      by (simp add: free_name.simps [of taken base name])
    from 1 [OF True] show ?thesis
    proof (elim conjE disjE exE)
      assume a: "free_name taken base (suffixed base n) (n + 1) \<notin> set taken"
        "free_name taken base (suffixed base n) (n + 1) = suffixed base n"
      then show ?thesis unfolding e using True by auto
    next
      fix k
      assume a: "free_name taken base (suffixed base n) (n + 1) \<notin> set taken" "suffixed base n \<in> set taken"
        "n + 1 \<le> k" "free_name taken base (suffixed base n) (n + 1) = suffixed base k"
        "\<forall>m. n + 1 \<le> m \<and> m < k \<longrightarrow> suffixed base m \<in> set taken"
      have "suffixed base m \<in> set taken" if "n \<le> m" "m < k" for m
        using a(2,5) that by (cases "m = n") auto
      then show ?thesis unfolding e using True a by (intro conjI disjI2 exI [of _ k]) auto
    qed
  qed (simp add: free_name.simps [of taken base name])
qed

lemma suffix_counter_bound:
  assumes "base \<in> set taken" "\<forall>m. 2 \<le> m \<and> m < k \<longrightarrow> suffixed base m \<in> set taken"
  shows "k \<le> length taken + 1"
proof -
  have "card (insert base (suffixed base ` {2..<k})) \<le> card (set taken)"
    using assms by (intro card_mono) auto
  moreover have "card (insert base (suffixed base ` {2..<k})) = Suc (k - 2)"
    by (subst card_insert_disjoint) (auto simp: card_image inj_on_def suffixed_not_base [symmetric] simp del: suffixed_not_base)
  ultimately show ?thesis using card_length [of taken] by linarith
qed

text \<open>The search for a free peer name ends with a name no stored peer has: the wanted one if it
  is free, otherwise the wanted one with a suffix between 2 and one more than the number of
  stored peers, so the 32-bit counter never wraps.
\<close>

theorem free_name_bounded:
  "free_name taken base base 2 \<notin> set taken
   \<and> (if base \<in> set taken
      then \<exists>k. free_name taken base base 2 = suffixed base k \<and> 2 \<le> k \<and> k \<le> length taken + 1
      else free_name taken base base 2 = base)"
  using free_name_found [of taken base base 2] suffix_counter_bound [of base taken]
  by (auto split: if_splits)

section \<open>The store stays well formed\<close>

definition store_ok :: "peers \<Rightarrow> bool" where
  "store_ok ps \<longleftrightarrow> bt_ok ps \<and> distinct (names_of ps)"

text \<open>
  The TOML crate reads back what it wrote; a record map is written in key order and read into
  key order.
\<close>

definition toml_round_trips :: "store_env \<Rightarrow> bool" where
  "toml_round_trips env \<longleftrightarrow>
     (\<forall>ps s. bt_ok ps \<and> se_to_toml env ps = Some s \<longrightarrow> se_from_toml env s = Some ps)"

lemma store_ok_Nil [simp]: "store_ok []"
  by (simp add: store_ok_def bt_ok_def names_of_def)

lemma names_of_insert:
  "map_of ps k = None \<Longrightarrow> mset (names_of (bt_insert k r ps)) = add_mset (pk_name r) (mset (names_of ps))"
  by (induction ps) (auto simp: names_of_def str_cmp_key split: ordering.splits if_splits)

lemma store_ok_insert:
  "store_ok ps \<Longrightarrow> map_of ps k = None \<Longrightarrow> pk_name r \<notin> set (names_of ps) \<Longrightarrow> store_ok (bt_insert k r ps)"
  unfolding store_ok_def
  by (metis bt_ok_insert distinct.simps(2) mset.simps(2) mset_eq_imp_distinct_iff names_of_insert)

lemma names_of_modify [simp]:
  "(\<And>r. map_of ps k = Some r \<Longrightarrow> pk_name (f r) = pk_name r) \<Longrightarrow> bt_ok ps \<Longrightarrow>
    names_of (bt_modify k f ps) = names_of ps"
  using bt_ok_distinct [of ps] by (force simp: names_of_def bt_modify_def)

lemma store_ok_modify:
  "store_ok ps \<Longrightarrow> (\<And>r. map_of ps k = Some r \<Longrightarrow> pk_name (f r) = pk_name r) \<Longrightarrow> store_ok (bt_modify k f ps)"
  by (simp add: store_ok_def)

lemma store_ok_remove: "store_ok ps \<Longrightarrow> store_ok (bt_remove k ps)"
  by (auto simp: store_ok_def names_of_def bt_remove_def comp_def bt_ok_remove [unfolded bt_remove_def]
      intro: distinct_map_filter)

text \<open>One operation of the store, with the environment it runs in.\<close>

datatype store_op =
    AddPeer string string
  | UpdateAddrs string "SocketAddr list" "string option"
  | UpdateHello string string string
  | RemoveByName string

fun run_op :: "store_env \<times> store_op \<Rightarrow> disk \<Rightarrow> disk" where
  "run_op (env, AddPeer i w) dk = snd (add_peer env i w dk)"
| "run_op (env, UpdateAddrs i d r) dk = snd (update_addrs env i d r dk)"
| "run_op (env, UpdateHello i p e) dk = snd (update_hello env i p e dk)"
| "run_op (env, RemoveByName n) dk = snd (remove_by_name env n dk)"

text \<open>What the file holds, for a given TOML reader.\<close>

definition stored :: "(string \<Rightarrow> peers option) \<Rightarrow> disk \<Rightarrow> peers option" where
  "stored from dk = (case dk_store dk of None \<Rightarrow> Some [] | Some raw \<Rightarrow> from raw)"

lemma load_stored:
  "load env dk = Ok ps \<longleftrightarrow> \<not> se_read_fails env \<and> stored (se_from_toml env) dk = Some ps"
  by (auto simp: load_def stored_def split: option.splits)

lemma save_cases:
  assumes "save env ps dk = (r, dk')"
  obtains "r = Ok ()" "\<exists>s. se_to_toml env ps = Some s \<and> dk_store dk' = Some s"
  | "r = Err StoreWrite" "dk_store dk' = dk_store dk"
  using assms by (auto simp: save_def split: option.splits if_splits)

lemma save_stored:
  assumes "save env ps dk = (Ok (), dk')" "toml_round_trips env" "bt_ok ps"
  shows "stored (se_from_toml env) dk' = Some ps"
  using assms by (auto simp: toml_round_trips_def stored_def elim!: save_cases)

text \<open>The only ways an operation can end.\<close>

lemma load_modify_save_cases:
  assumes "load_modify_save env decide dk = (r, dk')"
  obtains (kept) "dk_store dk' = dk_store dk" "\<And>v. r = Ok v \<Longrightarrow> (\<exists>ps. load env dk = Ok ps \<and> decide ps = Ok (v, None))"
  | (written) v ps ps' where "r = Ok v" "load env dk = Ok ps" "decide ps = Ok (v, Some ps')"
      "save env ps' dk = (Ok (), dk')"
proof (cases "res_bind (load env dk) decide")
  case (Ok x)
  then obtain ps v w where l: "load env dk = Ok ps" "decide ps = Ok (v, w)"
    by (cases x) (auto simp: res_simps)
  show ?thesis
  proof (cases w)
    case None
    with l assms Ok show ?thesis by (auto simp: load_modify_save_def intro!: kept)
  next
    case (Some ps')
    obtain q dk'' where s: "save env ps' dk = (q, dk'')" by (cases "save env ps' dk")
    from s show ?thesis
    proof (cases rule: save_cases)
      case 1
      with l assms Some s show ?thesis by (auto simp: load_modify_save_def intro!: written)
    next
      case 2
      with l assms Some s show ?thesis by (auto simp: load_modify_save_def intro!: kept)
    qed
  qed
qed (use assms in \<open>auto simp: load_modify_save_def intro!: kept\<close>)

text \<open>What is stored after an operation: the peers from before, or those it decided to write.\<close>

lemma load_modify_save_stored:
  assumes "toml_round_trips env" "stored (se_from_toml env) dk = Some ps" "store_ok ps" and "Q ps"
    and "\<And>v ps'. decide ps = Ok (v, Some ps') \<Longrightarrow> store_ok ps' \<and> Q ps'"
  shows "\<exists>ps'. stored (se_from_toml env) (snd (load_modify_save env decide dk)) = Some ps' \<and> store_ok ps' \<and> Q ps'"
proof -
  obtain r dk' where r: "load_modify_save env decide dk = (r, dk')" by fastforce
  then show ?thesis
  proof (cases rule: load_modify_save_cases)
    case kept
    then show ?thesis using assms(2-4) r by (auto simp: stored_def)
  next
    case (written v qs ps')
    then have "store_ok ps' \<and> Q ps'" using assms(2,5) by (auto simp: load_stored)
    moreover have "stored (se_from_toml env) dk' = Some ps'"
      using written(4) assms(1) calculation by (auto simp: store_ok_def intro: save_stored)
    ultimately show ?thesis using r by auto
  qed
qed

lemma decisions_ok:
  assumes "store_ok ps"
  shows "store_ok (bt_remove k ps)"
    "map_of ps k = None \<Longrightarrow> store_ok (bt_insert k \<lparr>pk_name = free_name (names_of ps) base base 2,
       pk_added_unix = t, pk_direct_addrs = d, pk_relay_url = u, pk_product_version = v, pk_engine_build = b\<rparr> ps)"
  using assms free_name_found [of "names_of ps" base base 2] by (auto intro: store_ok_remove store_ok_insert)

text \<open>Who is paired after an operation, given who was.\<close>

definition members_after :: "store_op \<Rightarrow> peers \<Rightarrow> peers \<Rightarrow> bool" where
  "members_after op ps ps' = (case op of
     AddPeer i w \<Rightarrow> ps' = ps \<or> i \<notin> fst ` set ps \<and> fst ` set ps' = insert i (fst ` set ps)
       \<and> (\<forall>j. j \<noteq> i \<longrightarrow> map_of ps' j = map_of ps j)
   | RemoveByName n \<Rightarrow> ps' = ps \<or> (\<exists>i r. map_of ps i = Some r \<and> pk_name r = n \<and> ps' = bt_remove i ps)
   | _ \<Rightarrow> map fst ps' = map fst ps \<and> names_of ps' = names_of ps)"

lemma dom_bt_insert: "fst ` set (bt_insert k v m) = insert k (fst ` set m)"
  by (metis dom_fun_upd dom_map_of_conv_image_fst map_of_bt_insert option.distinct(1))

lemma run_op_stored:
  assumes "toml_round_trips env" "stored (se_from_toml env) dk = Some ps" "store_ok ps"
  shows "\<exists>ps'. stored (se_from_toml env) (run_op (env, op) dk) = Some ps' \<and> store_ok ps' \<and> members_after op ps ps'"
proof -
  note stored_rule = load_modify_save_stored [OF assms]
  have b: "bt_ok ps" using assms(3) by (simp add: store_ok_def)
  show ?thesis
  proof (cases op)
    case (AddPeer i w)
    show ?thesis
      unfolding AddPeer run_op.simps add_peer_def
      by (rule stored_rule)
        (auto simp: Let_def members_after_def dom_bt_insert map_of_eq_None_iff decisions_ok [OF assms(3)]
          split: option.splits)
  next
    case (UpdateAddrs i d r)
    show ?thesis
      unfolding UpdateAddrs run_op.simps update_addrs_def
      by (rule stored_rule)
        (auto simp: Let_def members_after_def split: option.splits if_splits
          intro!: store_ok_modify [OF assms(3)] names_of_modify [OF _ b])
  next
    case (UpdateHello i p e)
    show ?thesis
      unfolding UpdateHello run_op.simps update_hello_def
      by (rule stored_rule)
        (auto simp: members_after_def split: option.splits if_splits
          intro!: store_ok_modify [OF assms(3)] names_of_modify [OF _ b])
  next
    case (RemoveByName n)
    have f: "map_of ps i = Some r \<and> pk_name r = n" if "find (\<lambda>e. pk_name (snd e) = n) ps = Some (i, r)" for i r
    proof -
      from that obtain k where k: "k < length ps" "pk_name (snd (ps ! k)) = n" "(i, r) = ps ! k"
        by (auto simp: find_Some_iff)
      then have "(i, r) \<in> set ps" by simp
      with k bt_ok_distinct [OF b] show ?thesis by (metis map_of_is_SomeI snd_conv)
    qed
    show ?thesis
      unfolding RemoveByName run_op.simps remove_by_name_def
      by (rule stored_rule)
        (auto simp: members_after_def decisions_ok [OF assms(3)] dest: f split: option.splits)
  qed
qed

text \<open>A reader and writer for two stores: the empty one and one with a single peer.\<close>

definition sample_peers :: peers where
  "sample_peers = [(''aa'', \<lparr>pk_name = ''laptop'', pk_added_unix = 7, pk_direct_addrs = [], pk_relay_url = None,
     pk_product_version = None, pk_engine_build = None\<rparr>)]"

definition sample_store_env :: store_env where
  "sample_store_env =
    \<lparr>se_from_toml = (\<lambda>s. if s = [] then Some [] else if s = ''p'' then Some sample_peers else None),
     se_to_toml = (\<lambda>ps. if ps = [] then Some [] else if ps = sample_peers then Some ''p'' else None),
     se_read_fails = False, se_mkdir_fails = False, se_write_fails = False, se_torn = None,
     se_rename_fails = False, se_now = 7\<rparr>"

definition empty_disk :: disk where
  "empty_disk = \<lparr>dk_store = None, dk_tmp = None\<rparr>"

lemma sample_store_env_round_trips: "toml_round_trips sample_store_env"
  by (simp add: toml_round_trips_def sample_store_env_def)

lemma sample_run:
  "run_op (sample_store_env, AddPeer ''aa'' ''laptop'') empty_disk = \<lparr>dk_store = Some ''p'', dk_tmp = None\<rparr>"
  by (simp add: add_peer_def load_modify_save_def load_def save_def sample_store_env_def names_of_def trim_def
      is_ws_def free_name.simps sample_peers_def empty_disk_def Let_def)

text \<open>C40: whatever operations run on a new peer store, and whichever of their file operations fail,
  the file always reads back as a well-formed store: its ids are in order and no two peers have
  one name.
\<close>

theorem store_stays_well_formed:
  assumes "\<forall>e \<in> set ops. se_from_toml (fst e) = from \<and> toml_round_trips (fst e)"
  shows "\<exists>ps. stored from (fold run_op ops empty_disk) = Some ps \<and> store_ok ps"
  using assms
proof (induction ops rule: rev_induct)
  case Nil
  then show ?case by (simp add: stored_def empty_disk_def)
next
  case (snoc e ops)
  then obtain ps where "stored from (fold run_op ops empty_disk) = Some ps" "store_ok ps"
    by auto
  with run_op_stored [of "fst e" _ ps "snd e"] snoc.prems show ?case by fastforce
qed

theorem store_stays_well_formed_witness:
  "\<exists>ps. stored (se_from_toml sample_store_env) (fold run_op
      [(sample_store_env, AddPeer ''aa'' ''laptop''),
       (sample_store_env\<lparr>se_rename_fails := True\<rparr>, RemoveByName ''laptop'')] empty_disk) = Some ps \<and> store_ok ps"
proof -
  have "toml_round_trips (sample_store_env\<lparr>se_rename_fails := True\<rparr>)"
    using sample_store_env_round_trips by (simp add: toml_round_trips_def)
  then show ?thesis
    by (intro store_stays_well_formed) (simp add: sample_store_env_round_trips)
qed

text \<open>Pairing adds one peer and changes no other, unpairing by name removes the one peer of that
  name, and address and version updates never add a peer, remove one or rename one, so an
  update that races an unpair cannot bring the peer back.
\<close>

theorem store_members:
  assumes "toml_round_trips env" "stored (se_from_toml env) dk = Some ps" "store_ok ps"
    "stored (se_from_toml env) (run_op (env, op) dk) = Some ps'"
  shows "members_after op ps ps'"
  using run_op_stored [OF assms(1-3), of op] assms(4) by auto

theorem store_members_witness:
  "stored (se_from_toml sample_store_env) (run_op (sample_store_env, AddPeer ''aa'' ''laptop'') empty_disk) =
     Some sample_peers
   \<and> members_after (AddPeer ''aa'' ''laptop'') [] sample_peers"
proof -
  have s: "stored (se_from_toml sample_store_env) (run_op (sample_store_env, AddPeer ''aa'' ''laptop'') empty_disk) =
      Some sample_peers"
    unfolding sample_run by (simp add: stored_def sample_store_env_def)
  with store_members [OF sample_store_env_round_trips _ store_ok_Nil s] show ?thesis
    by (simp add: stored_def empty_disk_def)
qed

text \<open>A failed operation leaves the stored peers as they were: the file is replaced by the rename only.\<close>

lemma load_modify_save_failed:
  "load_modify_save env decide dk = (Err e, dk') \<Longrightarrow> dk_store dk' = dk_store dk"
  by (auto elim: load_modify_save_cases)

lemma failed_store_op_changes_nothing:
  "add_peer env i w dk = (Err e, dk') \<or> update_addrs env i d u dk = (Err e, dk')
   \<or> update_hello env i p b dk = (Err e, dk') \<or> remove_by_name env n dk = (Err e, dk')
   \<Longrightarrow> dk_store dk' = dk_store dk"
  by (auto simp: add_peer_def update_addrs_def update_hello_def remove_by_name_def dest: load_modify_save_failed)

end
