(* ===== verification/Link.thy ===== *)
theory Link
  imports Cluster PeerStore
begin

text \<open>
  A live session with a paired peer (\<open>onebrain-mesh/src/service.rs\<close>, from
  \<open>set_live\<close> and \<open>session_runner\<close> down): the live map, the state transitions and the
  events they emit, the handshake that opens a session, the heartbeat loop and the control
  stream. Endpoint ids are their printed form. Instants and durations are nanoseconds. The
  heartbeat loop is a fold of one step per tick or echo; the lemmas show when it reports a
  peer suspect and when it gives up, that events are emitted on changes only, and that what it
  remembers stays bounded.
\<close>

type_synonym EndpointId = string
type_synonym instant = nat
type_synonym duration = nat

definition HEARTBEAT_INTERVAL :: duration where "HEARTBEAT_INTERVAL = 2000000000"
definition SUSPECT_AFTER_MISSED :: u32 where "SUSPECT_AFTER_MISSED = 3"
definition DOWN_AFTER :: duration where "DOWN_AFTER = 10000000000"
definition RTT_EWMA_ALPHA :: f64 where "RTT_EWMA_ALPHA = fl64 (3 / 10)"
definition LOSS_WINDOW :: usize where "LOSS_WINDOW = 100"

text \<open>\<open>Duration::as_secs_f64\<close>.\<close>

definition as_secs_f64 :: "duration \<Rightarrow> f64" where
  "as_secs_f64 d = fadd (f64_of_u (d div 1000000000)) (fdiv (f64_of_u (d mod 1000000000)) (f64_of_u 1000000000))"

section \<open>The live map\<close>

record Live =
  lv_state :: "PeerState option"
  lv_rtt_ms :: "f64 option"
  lv_bandwidth_mbps :: "f64 option"
  lv_loss :: "f32 option"
  lv_last_seen_unix :: "u64 option"
  lv_usable_memory_bytes :: "u64 option"
  lv_prefill_tps :: "f64 option"
  lv_decode_tps :: "f64 option"
  lv_disk_mbps :: "f64 option"
  lv_draining :: bool

definition Live_default :: Live where
  "Live_default = \<lparr>lv_state = None, lv_rtt_ms = None, lv_bandwidth_mbps = None, lv_loss = None,
     lv_last_seen_unix = None, lv_usable_memory_bytes = None, lv_prefill_tps = None, lv_decode_tps = None,
     lv_disk_mbps = None, lv_draining = False\<rparr>"

type_synonym LiveMap = "EndpointId \<rightharpoonup> Live"

definition live_of :: "LiveMap \<Rightarrow> EndpointId \<Rightarrow> Live" where
  "live_of live peer = (case live peer of Some l \<Rightarrow> l | None \<Rightarrow> Live_default)"

definition set_live :: "EndpointId \<Rightarrow> (Live \<Rightarrow> Live) \<Rightarrow> LiveMap \<Rightarrow> LiveMap" where
  "set_live peer f live = live(peer \<mapsto> f (live_of live peer))"

text \<open>
  An event is offered to the consumer's buffer without waiting; the lists here are the events
  offered.
\<close>

definition emit_peer_event :: "EndpointId \<Rightarrow> string \<Rightarrow> PeerState \<Rightarrow> PeerEvent list" where
  "emit_peer_event peer name st = [\<lparr>pe_peer = peer, pe_name = name, pe_state = st\<rparr>]"

definition note_transition :: "EndpointId \<Rightarrow> string \<Rightarrow> PeerState \<Rightarrow> LiveMap \<Rightarrow> LiveMap \<times> PeerEvent list" where
  "note_transition peer name st live =
     (set_live peer (\<lambda>l. l\<lparr>lv_state := Some st\<rparr>) live,
      if lv_state (live_of live peer) \<noteq> Some st then emit_peer_event peer name st else [])"

section \<open>Opening a session\<close>

datatype SessionEnd = SessionIncompatible | SessionEstablished | SessionNeverEstablished

type_synonym Addressing = "SocketAddr list \<times> string option"

text \<open>
  The first part of \<open>run_session\<close>, up to the state \<open>Connected\<close>: the outcome of the
  handshake (an error for a failed or late one), the peer's addresses on the connection, and
  the clock are inputs. Nothing returned means the session is established and its heartbeat
  runs.
\<close>

definition open_session ::
    "store_env \<Rightarrow> Hello \<Rightarrow> EndpointId \<Rightarrow> string \<Rightarrow> (Hello, MeshError) res \<Rightarrow> Addressing \<Rightarrow> u64 \<Rightarrow> disk \<Rightarrow> LiveMap \<Rightarrow>
     SessionEnd option \<times> disk \<times> LiveMap \<times> PeerEvent list" where
  "open_session sto ours peer name hello addressing unix dk live = (case hello of
     Ok theirs \<Rightarrow>
       let dk = snd (update_hello sto peer (h_product_version theirs) (h_engine_build theirs) dk) in
       (case judge ours theirs of
          Compatible \<Rightarrow>
            let (direct, relay) = addressing;
                dk = (if direct = [] \<and> relay = None then dk else snd (update_addrs sto peer direct relay dk));
                live = set_live peer (\<lambda>l. l\<lparr>lv_last_seen_unix := Some unix\<rparr>) live;
                (live, events) = note_transition peer name Connected live in
            (None, dk, live, events)
        | _ \<Rightarrow> (Some SessionIncompatible, dk, live, []))
   | _ \<Rightarrow> (Some SessionNeverEstablished, dk, live, []))"

definition session_over :: "EndpointId \<Rightarrow> string \<Rightarrow> SessionEnd \<Rightarrow> LiveMap \<Rightarrow> LiveMap \<times> PeerEvent list" where
  "session_over peer name ending live = (case ending of
     SessionIncompatible \<Rightarrow> note_transition peer name Incompatible live
   | SessionEstablished \<Rightarrow> note_transition peer name Down live
   | SessionNeverEstablished \<Rightarrow> (live, []))"

section \<open>Heartbeats\<close>

record heartbeat =
  hb_pending :: "instant list"
  hb_history :: "bool list"
  hb_missed :: u32
  hb_last_echo :: instant

definition heartbeat_start :: "instant \<Rightarrow> heartbeat" where
  "heartbeat_start now = \<lparr>hb_pending = [], hb_history = [], hb_missed = 0, hb_last_echo = now\<rparr>"

definition push_history :: "bool \<Rightarrow> bool list \<Rightarrow> bool list" where
  "push_history answered history =
     (if length history = LOSS_WINDOW then tl history else history) @ [answered]"

definition loss_fraction :: "bool list \<Rightarrow> f32" where
  "loss_fraction history =
     (if history = [] then Fin 0
      else fdiv32 (f32_of_u (length (filter (\<lambda>answered. \<not> answered) history))) (f32_of_u (length history)))"

text \<open>
  What wakes the loop: a tick, with whether the write of the next beat succeeds; an echo, with
  the clock; an error of the read. No heartbeat returned means the loop has returned.
\<close>

datatype beat_event = Tick instant bool | Echo instant u64 | ReadError

definition ewma :: "f64 option \<Rightarrow> f64 \<Rightarrow> f64" where
  "ewma prev sample = (case prev of
     Some prev \<Rightarrow> fadd (fmul RTT_EWMA_ALPHA sample) (fmul (fsub (Fin 1) RTT_EWMA_ALPHA) prev)
   | None \<Rightarrow> sample)"

fun beat_step ::
    "EndpointId \<Rightarrow> string \<Rightarrow> beat_event \<Rightarrow> heartbeat \<times> LiveMap \<Rightarrow> heartbeat option \<times> LiveMap \<times> PeerEvent list" where
  "beat_step peer name (Tick now sent_ok) (hb, live) =
     (let late = (hb_pending hb \<noteq> []);
          hb = (if late then hb\<lparr>hb_missed := add32 (hb_missed hb) 1, hb_history := push_history False (hb_history hb)\<rparr>
                else hb);
          live = (if late then set_live peer (\<lambda>l. l\<lparr>lv_loss := Some (loss_fraction (hb_history hb))\<rparr>) live else live) in
      if DOWN_AFTER \<le> now - hb_last_echo hb then (None, live, [])
      else
        let (live, events) = (if SUSPECT_AFTER_MISSED \<le> hb_missed hb then note_transition peer name Suspect live
                              else (live, [])) in
        if sent_ok then (Some (hb\<lparr>hb_pending := hb_pending hb @ [now]\<rparr>), live, events)
        else (None, live, events))"
| "beat_step peer name (Echo now unix) (hb, live) =
     (let hb = hb\<lparr>hb_last_echo := now, hb_missed := 0\<rparr> in
      case hb_pending hb of
        [] \<Rightarrow> (Some hb, live, [])
      | sent # pending \<Rightarrow>
          let sample_ms = fmul (as_secs_f64 (now - sent)) (f64_of_u 1000);
              hb = hb\<lparr>hb_pending := pending, hb_history := push_history True (hb_history hb)\<rparr>;
              live = set_live peer (\<lambda>l. l\<lparr>lv_rtt_ms := Some (ewma (lv_rtt_ms l) sample_ms),
                lv_loss := Some (loss_fraction (hb_history hb)), lv_last_seen_unix := Some unix\<rparr>) live;
              (live, events) = note_transition peer name Connected live in
          (Some hb, live, events))"
| "beat_step peer name ReadError (hb, live) = (None, live, [])"

fun run_heartbeat ::
    "EndpointId \<Rightarrow> string \<Rightarrow> beat_event list \<Rightarrow> heartbeat \<times> LiveMap \<Rightarrow> heartbeat option \<times> LiveMap \<times> PeerEvent list" where
  "run_heartbeat peer name [] (hb, live) = (Some hb, live, [])"
| "run_heartbeat peer name (ev # evs) (hb, live) = (case beat_step peer name ev (hb, live) of
     (None, live, events) \<Rightarrow> (None, live, events)
   | (Some hb, live, events) \<Rightarrow>
       (case run_heartbeat peer name evs (hb, live) of (r, live, later) \<Rightarrow> (r, live, events @ later)))"

section \<open>The control stream\<close>

record PeerBenchReport =
  br_prefill_tps :: f64
  br_decode_tps :: f64
  br_disk_mbps :: f64
  br_measured_unix :: u64

definition UNAVAILABLE :: PeerBenchReport where
  "UNAVAILABLE = \<lparr>br_prefill_tps = Fin 0, br_decode_tps = Fin 0, br_disk_mbps = Fin 0, br_measured_unix = 0\<rparr>"

text \<open>What one received envelope causes: a reply on the stream, events, a message to the daemon.\<close>

record control_out =
  co_reply :: "Message option"
  co_events :: "PeerEvent list"
  co_forward :: "Message option"

definition nothing_out :: control_out where
  "nothing_out = \<lparr>co_reply = None, co_events = [], co_forward = None\<rparr>"

text \<open>
  The inventory and the microbench of this node are arguments: nothing where no source is
  configured, or where the source has nothing to say.
\<close>

definition control_step ::
    "(string \<Rightarrow> (u64 \<times> (u64 \<times> u64 \<times> u8 list) list) option) \<Rightarrow> PeerBenchReport option \<Rightarrow>
     EndpointId \<Rightarrow> string \<Rightarrow> Message \<Rightarrow> LiveMap \<Rightarrow> LiveMap \<times> control_out" where
  "control_step inventory bench peer name msg live = (case msg of
     Heartbeat ep \<Rightarrow> (live, nothing_out\<lparr>co_reply := Some msg\<rparr>)
   | RangeQuery model \<Rightarrow>
       let (total_size, ranges) = (case inventory model of Some i \<Rightarrow> i | None \<Rightarrow> (0, [])) in
       (live, nothing_out\<lparr>co_reply := Some (RangeInventory model total_size ranges)\<rparr>)
   | BenchRequest \<Rightarrow>
       let report = (case bench of Some r \<Rightarrow> r | None \<Rightarrow> UNAVAILABLE) in
       (live, nothing_out\<lparr>co_reply := Some (BenchReport (br_prefill_tps report) (br_decode_tps report)
          (br_disk_mbps report) (br_measured_unix report))\<rparr>)
   | NodeStatus usable devices prefill decode disk_rate draining \<Rightarrow>
       (set_live peer (\<lambda>l. l\<lparr>lv_usable_memory_bytes := Some usable, lv_prefill_tps := prefill,
          lv_decode_tps := decode, lv_disk_mbps := disk_rate, lv_draining := draining\<rparr>) live,
        nothing_out\<lparr>co_forward := Some msg\<rparr>)
   | DrainingMsg ep reason \<Rightarrow>
       (live, nothing_out\<lparr>co_events := emit_peer_event peer name Draining, co_forward := Some msg\<rparr>)
   | _ \<Rightarrow> (live, nothing_out\<lparr>co_forward := Some msg\<rparr>))"

section \<open>Transitions\<close>

text \<open>A run of state changes: each differs from the state before it, the last is the final state.\<close>

fun changes :: "PeerState option \<Rightarrow> PeerState list \<Rightarrow> PeerState option \<Rightarrow> bool" where
  "changes s [] t = (s = t)"
| "changes s (x # xs) t = (s \<noteq> Some x \<and> changes (Some x) xs t)"


abbreviation state_of :: "LiveMap \<Rightarrow> EndpointId \<Rightarrow> PeerState option" where
  "state_of live peer \<equiv> lv_state (live_of live peer)"

lemma live_of_set_live [simp]:
  "live_of (set_live peer f live) p = (if p = peer then f (live_of live peer) else live_of live p)"
  by (simp add: live_of_def set_live_def)

lemma note_transition_changes:
  "note_transition peer name st live = (live', events) \<Longrightarrow>
     changes (state_of live peer) (map pe_state events) (state_of live' peer) \<and> state_of live' peer = Some st"
  by (auto simp: note_transition_def emit_peer_event_def split: if_splits)




section \<open>Silence\<close>

text \<open>C38: while a peer stays silent with a beat outstanding, every tick counts a missed beat and the
  third one reports the peer suspect, once; the loop keeps beating while the last echo is less
  than ten seconds old and gives up at the first tick at which it is not.
\<close>

theorem silent_peer_is_given_up:
  assumes "\<forall>t \<in> set ts. t < hb_last_echo hb + DOWN_AFTER" "hb_pending hb \<noteq> []"
    and "hb_missed hb + length ts < M32" "hb_last_echo hb + DOWN_AFTER \<le> t'"
  shows "\<exists>hb' live'. run_heartbeat peer name (map (\<lambda>t. Tick t True) ts) (hb, live) =
      (Some hb', live', if ts \<noteq> [] \<and> 3 \<le> hb_missed hb + length ts \<and> state_of live peer \<noteq> Some Suspect
        then [\<lparr>pe_peer = peer, pe_name = name, pe_state = Suspect\<rparr>] else [])
    \<and> hb_missed hb' = hb_missed hb + length ts \<and> hb_pending hb' = hb_pending hb @ ts
    \<and> hb_last_echo hb' = hb_last_echo hb
    \<and> fst (beat_step peer name (Tick t' True) (hb', live')) = None"
  using assms
proof (induction ts arbitrary: hb live)
  case Nil
  then show ?case by (simp add: Let_def)
next
  case (Cons t ts)
  define hb1 where "hb1 = hb\<lparr>hb_missed := hb_missed hb + 1, hb_history := push_history False (hb_history hb),
    hb_pending := hb_pending hb @ [t]\<rparr>"
  define live0 where "live0 = set_live peer (\<lambda>l. l\<lparr>lv_loss := Some (loss_fraction (push_history False (hb_history hb)))\<rparr>) live"
  define step where "step = (if 3 \<le> hb_missed hb + 1 then note_transition peer name Suspect live0 else (live0, []))"
  obtain live1 events1 where st: "step = (live1, events1)" by fastforce
  have "\<not> DOWN_AFTER \<le> t - hb_last_echo hb" using Cons.prems(1) by (auto simp: DOWN_AFTER_def)
  moreover have "add32 (hb_missed hb) 1 = hb_missed hb + 1" using Cons.prems(3) by (intro add32_small) simp
  ultimately have s: "beat_step peer name (Tick t True) (hb, live) = (Some hb1, live1, events1)"
    using Cons.prems(2) st [unfolded step_def]
    by (simp add: Let_def split_beta hb1_def SUSPECT_AFTER_MISSED_def flip: live0_def split: if_splits)
  have e: "events1 = (if 3 \<le> hb_missed hb + 1 \<and> state_of live peer \<noteq> Some Suspect
        then [\<lparr>pe_peer = peer, pe_name = name, pe_state = Suspect\<rparr>] else [])"
      "state_of live1 peer = (if 3 \<le> hb_missed hb + 1 then Some Suspect else state_of live peer)"
    using st by (auto simp: step_def live0_def note_transition_def emit_peer_event_def split: if_splits)
  have "\<exists>hb' live'. run_heartbeat peer name (map (\<lambda>t. Tick t True) ts) (hb1, live1) =
      (Some hb', live', if ts \<noteq> [] \<and> 3 \<le> hb_missed hb1 + length ts \<and> state_of live1 peer \<noteq> Some Suspect
        then [\<lparr>pe_peer = peer, pe_name = name, pe_state = Suspect\<rparr>] else [])
    \<and> hb_missed hb' = hb_missed hb1 + length ts \<and> hb_pending hb' = hb_pending hb1 @ ts
    \<and> hb_last_echo hb' = hb_last_echo hb1
    \<and> fst (beat_step peer name (Tick t' True) (hb', live')) = None"
    using Cons.prems by (intro Cons.IH) (simp_all add: hb1_def)
  then show ?case using s e by (auto simp: hb1_def simp del: beat_step.simps)
qed

definition outstanding :: heartbeat where
  "outstanding = \<lparr>hb_pending = [0], hb_history = [], hb_missed = 0, hb_last_echo = 0\<rparr>"

theorem silent_peer_is_given_up_witness:
  "\<exists>hb live. run_heartbeat ''a'' ''n'' (map (\<lambda>t. Tick t True) [2000000000, 4000000000, 6000000000, 8000000000])
      (outstanding, Map.empty) = (Some hb, live, [\<lparr>pe_peer = ''a'', pe_name = ''n'', pe_state = Suspect\<rparr>])
    \<and> fst (beat_step ''a'' ''n'' (Tick 10000000000 True) (hb, live)) = None"
  using silent_peer_is_given_up [of "[2000000000, 4000000000, 6000000000, 8000000000]" outstanding 10000000000
      "''a''" "''n''" Map.empty]
  by (auto simp: outstanding_def DOWN_AFTER_def live_of_def Live_default_def simp del: beat_step.simps)

section \<open>Loss\<close>

lemma length_push_history: "length h \<le> 100 \<Longrightarrow> length (push_history b h) \<le> 100 \<and> push_history b h \<noteq> []"
  by (auto simp: push_history_def LOSS_WINDOW_def)

lemma f32_of_u_exact: "n \<le> 100 \<Longrightarrow> f32_of_u n = Fin (of_nat n)"
proof -
  assume n: "n \<le> 100"
  have "rnd 24 (- 149) (of_nat n) = of_nat n"
    using n by (intro rnd_representable [of _ "int n" 0]) simp_all
  moreover have "(of_nat n :: rat) < 2 ^ 128"
  proof -
    have "(of_nat n :: rat) \<le> of_nat 100" using n by (simp only: of_nat_le_iff)
    also have "\<dots> < 2 ^ 128" by simp
    finally show ?thesis .
  qed
  moreover have "- (2 ^ 128) < (of_nat n :: rat)"
    by (rule less_le_trans [of _ 0]) simp_all
  ultimately show ?thesis by (simp add: f32_of_u_def fl32_def Let_def not_le)
qed

lemma rnd32_unit:
  assumes "0 \<le> x" "x \<le> 1"
  shows "0 \<le> rnd 24 (- 149) x" "rnd 24 (- 149) x \<le> 1"
proof -
  have "rnd 24 (- 149) 1 = 1" by (rule rnd_representable [of _ 1 0]) simp_all
  then show "rnd 24 (- 149) x \<le> 1" using rnd_mono [of x 1 24 "- 149"] assms by simp
qed (rule rnd_nonneg [OF assms(1)])

lemma loss_fraction_bounds:
  assumes "length h \<le> 100"
  shows "\<exists>q. loss_fraction h = Fin q \<and> 0 \<le> q \<and> q \<le> 1"
proof (cases "h = []")
  case True
  then show ?thesis by (simp add: loss_fraction_def)
next
  case False
  define m where "m = length (filter (\<lambda>answered. \<not> answered) h)"
  have m: "m \<le> length h" by (simp add: m_def)
  then have q: "0 \<le> (of_nat m :: rat) / of_nat (length h)" "(of_nat m :: rat) / of_nat (length h) \<le> 1"
    using False by (auto simp: divide_le_eq_1)
  note r = rnd32_unit [OF q]
  have "rnd 24 (- 149) (of_nat m / of_nat (length h)) < 2 ^ 128"
    by (rule le_less_trans [OF r(2)]) simp
  moreover have "- (2 ^ 128) < rnd 24 (- 149) (of_nat m / of_nat (length h))"
    by (rule less_le_trans [OF _ r(1)]) simp
  ultimately have "loss_fraction h = Fin (rnd 24 (- 149) (of_nat m / of_nat (length h)))"
    using assms m False
    by (simp add: loss_fraction_def f32_of_u_exact fdiv32_def fl32_def Let_def flip: m_def)
  with r show ?thesis by blast
qed

definition loss_ok :: "Live \<Rightarrow> bool" where
  "loss_ok l \<longleftrightarrow> (\<forall>x. lv_loss l = Some x \<longrightarrow> (\<exists>q. x = Fin q \<and> 0 \<le> q \<and> q \<le> 1))"

lemma beat_step_bounds:
  assumes "beat_step peer name ev (hb, live) = (r, live', events)" "length (hb_history hb) \<le> 100"
    "loss_ok (live_of live peer)"
  shows "(\<forall>hb'. r = Some hb' \<longrightarrow> length (hb_history hb') \<le> 100) \<and> loss_ok (live_of live' peer)"
  using assms loss_fraction_bounds length_push_history
  by (cases ev)
    (auto simp: Let_def note_transition_def loss_ok_def split: list.splits if_splits)

text \<open>The heartbeat remembers the fate of at most a hundred beats, and the loss it publishes is
  always a number between zero and one.
\<close>

theorem loss_stays_bounded:
  assumes "run_heartbeat peer name evs (hb, live) = (r, live', events)" "length (hb_history hb) \<le> 100"
    "loss_ok (live_of live peer)"
  shows "(\<forall>hb'. r = Some hb' \<longrightarrow> length (hb_history hb') \<le> 100) \<and> loss_ok (live_of live' peer)"
  using assms
proof (induction evs arbitrary: hb live r live' events)
  case (Cons ev evs)
  obtain r1 live1 events1 where s: "beat_step peer name ev (hb, live) = (r1, live1, events1)"
    by (cases "beat_step peer name ev (hb, live)") auto
  note b = beat_step_bounds [OF s Cons.prems(2,3)]
  show ?case
  proof (cases r1)
    case None
    then show ?thesis using Cons.prems(1) s b by simp
  next
    case (Some hb1)
    obtain r2 live2 events2 where t: "run_heartbeat peer name evs (hb1, live1) = (r2, live2, events2)"
      by (cases "run_heartbeat peer name evs (hb1, live1)") auto
    with Cons.IH [OF t] b Some have "(\<forall>hb'. r2 = Some hb' \<longrightarrow> length (hb_history hb') \<le> 100) \<and> loss_ok (live_of live2 peer)"
      by simp
    then show ?thesis using Cons.prems(1) s Some t by simp
  qed
qed simp

theorem loss_stays_bounded_witness:
  "loss_ok (live_of (fst (snd (run_heartbeat ''a'' ''n'' [Tick 0 True, Tick 2000000000 True]
      (heartbeat_start 0, Map.empty)))) ''a'')"
proof -
  obtain r l e where "run_heartbeat ''a'' ''n'' [Tick 0 True, Tick 2000000000 True] (heartbeat_start 0, Map.empty) = (r, l, e)"
    by (metis prod_cases3)
  moreover have "length (hb_history (heartbeat_start 0)) \<le> 100" "loss_ok (live_of Map.empty ''a'')"
    by (simp_all add: heartbeat_start_def loss_ok_def live_of_def Live_default_def)
  ultimately show ?thesis
    using loss_stays_bounded [of "''a''" "''n''" "[Tick 0 True, Tick 2000000000 True]" "heartbeat_start 0" Map.empty r l e]
    by (simp del: run_heartbeat.simps)
qed

text \<open>
  A beat whose echo is late is counted twice, as missed at the tick and as answered at the echo:
  here each of the four beats is answered, and a third of what is remembered are losses.
\<close>

lemma late_echoes_count_as_lost:
  "\<exists>hb live events. run_heartbeat peer name
      [Tick 0 True, Tick 2000000000 True, Echo 3000000000 u, Echo 3500000000 u, Tick 4000000000 True,
       Tick 6000000000 True, Echo 7000000000 u, Echo 7500000000 u]
      (heartbeat_start 0, live0) = (Some hb, live, events)
    \<and> hb_history hb = [False, True, True, False, True, True]"
  by (simp add: heartbeat_start_def Let_def DOWN_AFTER_def SUSPECT_AFTER_MISSED_def push_history_def
      LOSS_WINDOW_def add32_def note_transition_def)

section \<open>Sessions and streams\<close>

text \<open>A session is established exactly when the peer's handshake arrives and is compatible: only then
  does the peer become connected. Whatever the handshake says and whichever writes fail, opening
  a session neither pairs nor unpairs nor renames anyone.
\<close>

theorem open_session_effect:
  assumes "open_session sto ours peer name hello addressing unix dk live = (ending, dk', live', events)"
    and "toml_round_trips sto" "stored (se_from_toml sto) dk = Some ps" "store_ok ps"
  shows "(ending = None \<longleftrightarrow> (\<exists>theirs. hello = Ok theirs \<and> judge ours theirs = Compatible))
    \<and> (if ending = None then state_of live' peer = Some Connected else live' = live \<and> events = [])
    \<and> (\<exists>ps'. stored (se_from_toml sto) dk' = Some ps' \<and> store_ok ps' \<and> map fst ps' = map fst ps
        \<and> names_of ps' = names_of ps)"
proof (cases hello)
  case (Ok theirs)
  let ?op1 = "UpdateHello peer (h_product_version theirs) (h_engine_build theirs)"
  obtain ps1 where p1: "stored (se_from_toml sto) (run_op (sto, ?op1) dk) = Some ps1" "store_ok ps1"
      "map fst ps1 = map fst ps" "names_of ps1 = names_of ps"
    using run_op_stored [OF assms(2-4), of ?op1] by (auto simp: members_after_def)
  show ?thesis
  proof (cases "judge ours theirs = Compatible")
    case True
    obtain direct relay where a: "addressing = (direct, relay)" by fastforce
    obtain ps2 where p2: "stored (se_from_toml sto) (run_op (sto, UpdateAddrs peer direct relay)
          (run_op (sto, ?op1) dk)) = Some ps2" "store_ok ps2" "map fst ps2 = map fst ps" "names_of ps2 = names_of ps"
      using run_op_stored [OF assms(2) p1(1,2), of "UpdateAddrs peer direct relay"] p1(3,4)
      by (auto simp: members_after_def simp del: run_op.simps)
    show ?thesis
      using assms(1) True Ok a p1 p2
      by (auto simp: open_session_def Let_def note_transition_def split: if_splits)
  next
    case False
    then show ?thesis using assms(1) Ok p1 by (auto simp: open_session_def Let_def split: HandshakeVerdict.splits)
  qed
qed (use assms in \<open>auto simp: open_session_def\<close>)

definition sample_hello :: Hello where
  "sample_hello = \<lparr>h_proto_version = 5, h_capabilities = 0, h_engine_build = ''dev'', h_node_name = ''n'',
     h_product_version = ''1.0.0''\<rparr>"

theorem open_session_effect_witness:
  "fst (open_session sample_store_env sample_hello ''aa'' ''laptop'' (Ok sample_hello) ([], None) 9
      empty_disk Map.empty) = None"
proof -
  obtain e d l v where o: "open_session sample_store_env sample_hello ''aa'' ''laptop'' (Ok sample_hello) ([], None) 9
      empty_disk Map.empty = (e, d, l, v)" by (metis prod_cases4)
  have "stored (se_from_toml sample_store_env) empty_disk = Some []"
    by (simp add: stored_def empty_disk_def)
  then show ?thesis
    using open_session_effect [OF o sample_store_env_round_trips _ store_ok_Nil] o by (simp add: judge_def)
qed

definition is_query :: "Message \<Rightarrow> bool" where
  "is_query msg = (case msg of Heartbeat _ \<Rightarrow> True | RangeQuery _ \<Rightarrow> True | BenchRequest \<Rightarrow> True | _ \<Rightarrow> False)"

text \<open>On a control stream heartbeats, range queries and bench requests are answered on the stream
  and never reach the daemon; every other message reaches the daemon as it came and is not
  answered; no message changes what is known of another peer, or the peer's own link state.
\<close>

theorem control_stream_routing:
  "case control_step inventory bench peer name msg live of (live', out) \<Rightarrow>
     (co_reply out \<noteq> None \<longleftrightarrow> is_query msg)
     \<and> co_forward out = (if is_query msg then None else Some msg)
     \<and> (\<forall>ep. msg = Heartbeat ep \<longrightarrow> co_reply out = Some msg)
     \<and> (\<forall>p. p \<noteq> peer \<longrightarrow> live' p = live p) \<and> state_of live' peer = state_of live peer"
  by (cases msg) (auto simp: control_step_def is_query_def nothing_out_def Let_def set_live_def live_of_def
      split: option.splits prod.splits)

theorem control_stream_routing_witness:
  "co_reply (snd (control_step (\<lambda>_. None) None ''a'' ''n'' (Heartbeat (Epoch 0)) Map.empty)) = Some (Heartbeat (Epoch 0))"
  using control_stream_routing [where inventory = "\<lambda>_. None" and bench = None and peer = "''a''" and name = "''n''"
      and msg = "Heartbeat (Epoch 0)" and live = Map.empty]
  by (auto split: prod.splits)

end
