(* ===== verification/Pairing.thy ===== *)
theory Pairing
  imports PeerStore Gguf
begin

unbundle bit_operations_syntax

text \<open>
  Pairing two devices (\<open>onebrain-proto/src/pair.rs\<close>, \<open>onebrain-mesh/src/pairing.rs\<close>): the
  frame codec, the six-digit code, and the two sides of the exchange as programs that read the
  other side's messages and write their own. The SPAKE2 key exchange, the keyed BLAKE3 hash,
  the message codec and the random source belong to other crates and are arguments; what the
  theorems need of them is stated where they need it. The lemmas show that frames are read
  back as written and are bounded, that codes are uniform, that the host reveals nothing and
  stores nobody without a proof of the code, that two honest sides agree exactly when their
  codes do, and that a side never accepts its own messages mirrored back.
\<close>

section \<open>Frames\<close>

definition MAX_FRAME_BYTES :: u32 where "MAX_FRAME_BYTES = push_bit 20 1"

text \<open>\<open>to_le_bytes\<close> of a value of \<open>w\<close> bytes.\<close>

fun le_bytes :: "nat \<Rightarrow> nat \<Rightarrow> u8 list" where
  "le_bytes 0 n = []"
| "le_bytes (Suc w) n = (n mod 256) # le_bytes w (n div 256)"

definition write_frame :: "('m \<Rightarrow> u8 list option) \<Rightarrow> 'm \<Rightarrow> (u8 list, MeshError) res" where
  "write_frame encode msg = (case encode msg of
     None \<Rightarrow> Err (ProtoFailed ''failed to encode message'')
   | Some bytes \<Rightarrow>
       if MAX_FRAME_BYTES < as_u64 (length bytes)
       then Err (StreamFailed (''refusing to send oversized frame ('' @ dec (length bytes) @ '' bytes)''))
       else Ok (le_bytes 4 (as_u32 (length bytes)) @ bytes))"

text \<open>\<open>read_exact\<close> on the bytes the stream delivers before it ends.\<close>

definition read_exact :: "nat \<Rightarrow> u8 list \<Rightarrow> (u8 list, MeshError) res \<times> u8 list" where
  "read_exact n rx = (if length rx < n then (Err (StreamFailed ''stream finished early''), [])
     else (Ok (take n rx), drop n rx))"

definition read_frame :: "(u8 list \<Rightarrow> 'm option) \<Rightarrow> u8 list \<Rightarrow> ('m, MeshError) res \<times> u8 list" where
  "read_frame decode rx = (case read_exact 4 rx of
     (Ok len_buf, rx) \<Rightarrow>
       let len = le_value len_buf in
       if MAX_FRAME_BYTES < len
       then (Err (StreamFailed (''peer sent oversized frame ('' @ dec len @ '' bytes)'')), rx)
       else (case read_exact len rx of
         (Ok buf, rx) \<Rightarrow> (case decode buf of
            None \<Rightarrow> (Err (ProtoFailed ''failed to decode message''), rx) | Some msg \<Rightarrow> (Ok msg, rx))
       | (Err e, rx) \<Rightarrow> (Err e, rx) | (Panic k, rx) \<Rightarrow> (Panic k, rx))
   | (Err e, rx) \<Rightarrow> (Err e, rx) | (Panic k, rx) \<Rightarrow> (Panic k, rx))"

lemma length_le_bytes [simp]: "length (le_bytes w n) = w"
  by (induction w arbitrary: n) simp_all

lemma le_value_le_bytes: "le_value (le_bytes w n) = n mod 256 ^ w"
proof (induction w arbitrary: n)
  case (Suc w)
  then show ?case by (simp add: mod_mult2_eq [of n 256 "256 ^ w"] add.commute)
qed simp

lemma MAX_FRAME_BYTES_eq: "MAX_FRAME_BYTES = 1048576"
  by (simp add: MAX_FRAME_BYTES_def push_bit_eq_mult)

text \<open>A frame is read back as the message it was written from and the bytes after it are left
  for the next read; writing refuses a message of more than a mebibyte, and reading one whose
  length prefix says more than that fails before any of its payload is read.
\<close>

theorem frame_round_trip:
  assumes "\<forall>m bytes. encode m = Some bytes \<longrightarrow> decode bytes = Some m \<and> length bytes < 2 ^ 63"
  shows "(\<forall>frame. write_frame encode msg = Ok frame \<longrightarrow>
      length frame \<le> 1048580 \<and> read_frame decode (frame @ rest) = (Ok msg, rest))
    \<and> (\<forall>bytes. encode msg = Some bytes \<longrightarrow>
        ((\<exists>e. write_frame encode msg = Err e) \<longleftrightarrow> 1048576 < length bytes))
    \<and> (\<forall>len \<le> u32_max. 1048576 < len \<longrightarrow>
        (\<exists>e. read_frame decode (le_bytes 4 len @ rest) = (Err (StreamFailed e), rest)))"
proof (intro conjI allI impI)
  fix frame
  assume "write_frame encode msg = Ok frame"
  then obtain bytes where b: "encode msg = Some bytes" "as_u64 (length bytes) \<le> 1048576"
      "frame = le_bytes 4 (as_u32 (length bytes)) @ bytes"
    by (auto simp: write_frame_def MAX_FRAME_BYTES_eq split: option.splits if_splits)
  then have d: "decode bytes = Some msg" "length bytes < 2 ^ 63" using assms by auto
  then have "as_u64 (length bytes) = length bytes" by (intro as_u64_small) simp
  with b d have l: "length bytes \<le> 1048576" "decode bytes = Some msg" by simp_all
  then show "length frame \<le> 1048580" using b by simp
  have "le_value (le_bytes 4 (as_u32 (length bytes))) = length bytes"
    using l by (simp add: le_value_le_bytes as_u32_small)
  then show "read_frame decode (frame @ rest) = (Ok msg, rest)"
    using b l by (simp add: read_frame_def read_exact_def MAX_FRAME_BYTES_eq)
next
  fix bytes
  assume b: "encode msg = Some bytes"
  then have "length bytes < 2 ^ 63" using assms by auto
  then have "as_u64 (length bytes) = length bytes" by (intro as_u64_small) simp
  with b show "(\<exists>e. write_frame encode msg = Err e) \<longleftrightarrow> 1048576 < length bytes"
    by (simp add: write_frame_def MAX_FRAME_BYTES_eq)
next
  fix len
  assume "len \<le> u32_max" "1048576 < len"
  moreover from this(1) have "le_value (le_bytes 4 len) = len"
    by (simp add: le_value_le_bytes u32_max_def)
  ultimately show "\<exists>e. read_frame decode (le_bytes 4 len @ rest) = (Err (StreamFailed e), rest)"
    by (simp add: read_frame_def read_exact_def MAX_FRAME_BYTES_eq)
qed

theorem frame_round_trip_witness:
  "\<exists>frame. write_frame (\<lambda>b :: bool. Some [if b then 1 else 0]) True = Ok frame
     \<and> read_frame (\<lambda>bs. Some (bs = [1])) (frame @ [9]) = (Ok True, [9])"
  using frame_round_trip [of "\<lambda>b. Some [if b then 1 else 0]" "\<lambda>bs. Some (bs = [1])" True "[9]"]
  by (simp add: write_frame_def MAX_FRAME_BYTES_eq as_u64_def)

section \<open>Codes\<close>

text \<open>The draws are the results of successive calls of the random source.\<close>

definition CODE_LIMIT :: u32 where "CODE_LIMIT = u32_max div 1000000 * 1000000"

definition pad6 :: "nat \<Rightarrow> string" where
  "pad6 n = replicate (6 - length (dec n)) (CHR ''0'') @ dec n"

fun generate_code :: "(u32, string) res list \<Rightarrow> (string, MeshError) res option" where
  "generate_code [] = None"
| "generate_code (draw # draws) = (case draw of
     Err e \<Rightarrow> Some (Err (Rng e))
   | Panic k \<Rightarrow> Some (Panic k)
   | Ok v \<Rightarrow> if v < CODE_LIMIT then Some (Ok (pad6 (v mod 1000000))) else generate_code draws)"

text \<open>
  The start of each character of a string, and the bytes of the one that starts with a given
  byte.
\<close>

definition char_starts :: "string \<Rightarrow> nat list" where
  "char_starts s = filter (is_char_boundary s) [0..<length s]"

definition len_utf8 :: "char \<Rightarrow> nat" where
  "len_utf8 c = (let v = of_char c :: nat in if v < 128 then 1 else if v < 224 then 2 else if v < 240 then 3 else 4)"

definition truncate_for_display :: "string \<Rightarrow> string" where
  "truncate_for_display input =
     (if length input \<le> 48 then input
      else
        let starts = takeWhile (\<lambda>i. i < 48) (char_starts input);
            cut = (if starts = [] then 0 else last starts + len_utf8 (input ! last starts)) in
        take cut input @ [char_of (226 :: nat), char_of (128 :: nat), char_of (166 :: nat)])"

definition validate_code :: "string \<Rightarrow> (string, MeshError) res" where
  "validate_code code =
     (let trimmed = trim code in
      if length trimmed = 6 \<and> list_all is_ascii_digit trimmed then Ok trimmed
      else Err (BadPairTarget (truncate_for_display code)))"

lemma pad6_value [simp]: "digits_value 0 (pad6 n) = Some n"
  by (simp add: pad6_def digits_value_zeros)

lemma length_pad6 [simp]: "n < 1000000 \<Longrightarrow> length (pad6 n) = 6"
  using length_dec [of n 6] by (simp add: pad6_def)

lemma pad6_digits: "list_all is_ascii_digit (pad6 n)"
  using dec_digits [of n] by (auto simp: pad6_def list_all_iff)

lemma pad6_of_digits:
  assumes "length c = 6" "list_all is_ascii_digit c"
  obtains n where "n < 1000000" "c = pad6 n"
proof -
  have "\<exists>v. digits_value acc c = Some v" if "list_all is_ascii_digit c" for acc c
    using that by (induction c arbitrary: acc) (auto simp: is_ascii_digit_def)
  then obtain n where n: "digits_value 0 c = Some n" using assms(2) by blast
  then have "n < 1000000" using digits_value_bound [OF n] assms(1) by simp
  moreover have "c = pad6 n" using n assms(1) calculation by (intro digits_value_inj [of c "pad6 n" n]) simp_all
  ultimately show ?thesis by (rule that)
qed

lemma trim_digits: "list_all is_ascii_digit c \<Longrightarrow> trim c = c"
proof -
  assume d: "list_all is_ascii_digit c"
  have "\<not> is_ws x" if "is_ascii_digit x" for x
    using that by (auto simp: is_ws_def is_ascii_digit_def digit_of_def Let_def split: if_splits)
  then have "dropWhile is_ws ys = ys" if "list_all is_ascii_digit ys" for ys
    using that by (cases ys) auto
  with d show ?thesis by (simp add: trim_def list_all_rev)
qed

lemma CODE_LIMIT_eq: "CODE_LIMIT = 4294000000"
  by (simp add: CODE_LIMIT_def u32_max_def)

lemma generate_code_Ok:
  "generate_code draws = Some (Ok c) \<Longrightarrow> \<exists>n < 1000000. c = pad6 n"
  by (induction draws) (auto split: res.splits if_splits intro!: exI [of _ "_ mod 1000000"])

lemma card_residues:
  assumes "k < m"
  shows "card {v. v < q * m \<and> v mod m = k} = (q :: nat)"
proof -
  have "{v. v < q * m \<and> v mod m = k} = (\<lambda>i. i * m + k) ` {..<q}"
  proof (intro equalityI subsetI)
    fix v
    assume "v \<in> {v. v < q * m \<and> v mod m = k}"
    then have "v = (v div m) * m + k" "v div m < q"
      using assms by (auto simp: less_mult_imp_div_less mult.commute)
    then show "v \<in> (\<lambda>i. i * m + k) ` {..<q}" by blast
  next
    fix v
    assume "v \<in> (\<lambda>i. i * m + k) ` {..<q}"
    then obtain i where i: "i < q" "v = i * m + k" by auto
    have "i * m + k < Suc i * m" using assms by simp
    also have "\<dots> \<le> q * m" using i(1) by (intro mult_right_mono) simp_all
    finally show "v \<in> {v. v < q * m \<and> v mod m = k}" using i assms by simp
  qed
  moreover have "inj_on (\<lambda>i. i * m + k) {..<q}" using assms by (auto simp: inj_on_def)
  ultimately show ?thesis by (simp add: card_image)
qed

text \<open>Every code the host generates is one the joiner's check accepts, and the codes are uniform:
  each of the million six-digit codes comes from exactly 4294 of the random values the
  generator does not reject.
\<close>

theorem codes_are_uniform:
  "(generate_code draws = Some (Ok c) \<longrightarrow> validate_code c = Ok c)
   \<and> (validate_code c = Ok c \<longrightarrow> card {v. generate_code [Ok v] = Some (Ok c)} = 4294)"
proof (intro conjI impI)
  assume "generate_code draws = Some (Ok c)"
  then obtain n where "n < 1000000" "c = pad6 n" using generate_code_Ok by blast
  then show "validate_code c = Ok c"
    using trim_digits [OF pad6_digits] by (simp add: validate_code_def pad6_digits)
next
  assume "validate_code c = Ok c"
  then have "length c = 6" "list_all is_ascii_digit c"
    by (auto simp: validate_code_def Let_def split: if_splits)
  then obtain n where n: "n < 1000000" "c = pad6 n" by (rule pad6_of_digits)
  have inj: "pad6 a = pad6 b \<longleftrightarrow> a = b" for a b
    by (metis option.inject pad6_value)
  have "{v. generate_code [Ok v] = Some (Ok c)} = {v. v < 4294 * 1000000 \<and> v mod 1000000 = n}"
    by (auto simp: CODE_LIMIT_eq n inj)
  then show "card {v. generate_code [Ok v] = Some (Ok c)} = 4294"
    using card_residues [OF n(1), of 4294] by simp
qed

theorem codes_are_uniform_witness:
  "generate_code [Ok u32_max, Ok 7000042] = Some (Ok ''000042'') \<and> validate_code ''000042'' = Ok ''000042''
   \<and> card {v. generate_code [Ok v] = Some (Ok ''000042'')} = 4294"
proof -
  have "generate_code [Ok u32_max, Ok 7000042] = Some (Ok ''000042'')"
    by (simp add: CODE_LIMIT_eq u32_max_def pad6_def dec.simps digit_char_def char_of_def bit_iff_odd)
      (simp add: eval_nat_numeral)
  with codes_are_uniform [of "[Ok u32_max, Ok 7000042]" "''000042''"] show ?thesis by blast
qed

section \<open>The exchange\<close>

datatype PairMessage =
    Pake "u8 list"
  | Confirm "u8 list"
  | Introduce string string
  | Rejected string

datatype PairRole = Host | Joiner

definition PAIR_CONFIRM_CONTEXT :: string where "PAIR_CONFIRM_CONTEXT = ''onebrain-pair-v1''"

fun role_tag :: "PairRole \<Rightarrow> string" where
  "role_tag Host = ''host''"
| "role_tag Joiner = ''joiner''"

text \<open>The keyed BLAKE3 hash is an argument, from a key and the text to a 32-byte value.\<close>

definition mac_text :: "PairRole \<Rightarrow> string \<Rightarrow> string \<Rightarrow> string" where
  "mac_text sender id_a id_b =
     (let (lo, hi) = (if str_cmp id_a id_b \<noteq> Greater then (id_a, id_b) else (id_b, id_a)) in
      PAIR_CONFIRM_CONTEXT @ role_tag sender @ lo @ hi)"

definition confirm_mac ::
    "(u8 list \<Rightarrow> string \<Rightarrow> u8 list) \<Rightarrow> u8 list \<Rightarrow> PairRole \<Rightarrow> string \<Rightarrow> string \<Rightarrow> u8 list" where
  "confirm_mac keyed_hash shared_key sender id_a id_b = keyed_hash shared_key (mac_text sender id_a id_b)"

definition ct_eq :: "u8 list \<Rightarrow> u8 list \<Rightarrow> bool" where
  "ct_eq a b = (foldl (\<lambda>diff (x, y). diff OR (x XOR y)) 0 (zip a b) = 0)"

text \<open>
  A SPAKE2 run of one side: the message it sends for a password and an identity, and the key it
  derives from the message it receives.
\<close>

record pake =
  pk_start :: "string \<Rightarrow> string \<Rightarrow> u8 list"
  pk_finish :: "string \<Rightarrow> string \<Rightarrow> u8 list \<Rightarrow> u8 list option"

record party =
  pt_id :: string
  pt_node_name :: string
  pt_version :: string
  pt_pake :: pake

record PairOutcome =
  po_peer_id :: string
  po_node_name :: string
  po_product_version :: string

text \<open>
  The stream of an exchange: whether it opens, the results of the successive reads (past them it
  has ended), what was written, and how many writes it takes before it fails.
\<close>

record wire =
  wi_open :: bool
  wi_in :: "(PairMessage, MeshError) res list"
  wi_out :: "PairMessage list"
  wi_room :: nat
  wi_error :: string

type_synonym 'a pair_io = "wire \<Rightarrow> ('a, MeshError) res \<times> wire"

definition io_ret :: "'a \<Rightarrow> 'a pair_io" where "io_ret x w = (Ok x, w)"

definition io_fail :: "MeshError \<Rightarrow> 'a pair_io" where "io_fail e w = (Err e, w)"

definition io_bind :: "'a pair_io \<Rightarrow> ('a \<Rightarrow> 'b pair_io) \<Rightarrow> 'b pair_io" where
  "io_bind m f w = (case m w of
     (Ok x, w) \<Rightarrow> f x w | (Err e, w) \<Rightarrow> (Err e, w) | (Panic k, w) \<Rightarrow> (Panic k, w))"

text \<open>\<open>let _ = ...\<close>: the outcome is dropped.\<close>

definition io_ignore :: "'a pair_io \<Rightarrow> unit pair_io" where
  "io_ignore m w = (Ok (), snd (m w))"

definition open_bi :: "unit pair_io" where
  "open_bi w = (if wi_open w then (Ok (), w) else (Err (StreamFailed (wi_error w)), w))"

definition write_msg :: "PairMessage \<Rightarrow> unit pair_io" where
  "write_msg m w = (if wi_room w = 0 then (Err (StreamFailed (wi_error w)), w)
     else (Ok (), w\<lparr>wi_out := wi_out w @ [m], wi_room := wi_room w - 1\<rparr>))"

definition read_msg :: "PairMessage pair_io" where
  "read_msg w = (case wi_in w of
     [] \<Rightarrow> (Err (StreamFailed (wi_error w)), w) | r # rs \<Rightarrow> (r, w\<lparr>wi_in := rs\<rparr>))"

definition pake_exchange :: "pake \<Rightarrow> string \<Rightarrow> u8 list pair_io" where
  "pake_exchange pk code =
     io_bind (write_msg (Pake (pk_start pk code PAIR_CONFIRM_CONTEXT))) (\<lambda>_.
     io_bind read_msg (\<lambda>m. case m of
       Pake inbound \<Rightarrow> (case pk_finish pk code PAIR_CONFIRM_CONTEXT inbound of
           None \<Rightarrow> io_fail (PairRejected ''peer sent an invalid key-exchange message'')
         | Some key \<Rightarrow> if length key = 32 then io_ret key
             else io_fail (PairRejected ''key exchange produced an unexpected key length''))
     | Rejected reason \<Rightarrow> io_fail (PairRejected reason)
     | _ \<Rightarrow> io_fail (PairRejected ''peer broke the pairing protocol (expected a key-exchange message)'')))"

definition read_confirm :: "u8 list pair_io" where
  "read_confirm = io_bind read_msg (\<lambda>m. case m of
     Confirm mac \<Rightarrow> io_ret mac
   | Rejected reason \<Rightarrow> io_fail (PairRejected reason)
   | _ \<Rightarrow> io_fail (PairRejected ''peer broke the pairing protocol (expected a confirm)''))"

definition read_introduce :: "(string \<times> string) pair_io" where
  "read_introduce = io_bind read_msg (\<lambda>m. case m of
     Introduce node_name product_version \<Rightarrow> io_ret (node_name, product_version)
   | Rejected reason \<Rightarrow> io_fail (PairRejected reason)
   | _ \<Rightarrow> io_fail (PairRejected ''peer broke the pairing protocol (expected an introduction)''))"

definition outcome_of :: "string \<Rightarrow> string \<times> string \<Rightarrow> PairOutcome" where
  "outcome_of peer_id intro = \<lparr>po_peer_id = peer_id, po_node_name = fst intro, po_product_version = snd intro\<rparr>"

definition host_attempt ::
    "(u8 list \<Rightarrow> string \<Rightarrow> u8 list) \<Rightarrow> party \<Rightarrow> string \<Rightarrow> string \<Rightarrow> PairOutcome pair_io" where
  "host_attempt kh me peer_id code =
     io_bind open_bi (\<lambda>_.
     io_bind (pake_exchange (pt_pake me) code) (\<lambda>key.
       let mine = confirm_mac kh key Host (pt_id me) peer_id;
           expected = confirm_mac kh key Joiner (pt_id me) peer_id in
       io_bind read_confirm (\<lambda>their_mac.
       if \<not> ct_eq their_mac expected
       then io_bind (io_ignore (write_msg (Rejected ''wrong pairing code''))) (\<lambda>_.
         io_fail (PairRejected ''wrong pairing code''))
       else
         io_bind (write_msg (Confirm mine)) (\<lambda>_.
         io_bind (write_msg (Introduce (pt_node_name me) (pt_version me))) (\<lambda>_.
         io_bind read_introduce (\<lambda>intro. io_ret (outcome_of peer_id intro)))))))"

definition joiner_attempt ::
    "(u8 list \<Rightarrow> string \<Rightarrow> u8 list) \<Rightarrow> party \<Rightarrow> string \<Rightarrow> string \<Rightarrow> PairOutcome pair_io" where
  "joiner_attempt kh me peer_id code =
     io_bind open_bi (\<lambda>_.
     io_bind (pake_exchange (pt_pake me) code) (\<lambda>key.
       let mine = confirm_mac kh key Joiner (pt_id me) peer_id;
           expected = confirm_mac kh key Host (pt_id me) peer_id in
       io_bind (write_msg (Confirm mine)) (\<lambda>_.
       io_bind read_confirm (\<lambda>their_mac.
       if \<not> ct_eq their_mac expected
       then io_bind (io_ignore (write_msg (Rejected ''host failed key confirmation''))) (\<lambda>_.
         io_fail (PairRejected ''the host failed key confirmation; check the code and try again''))
       else
         io_bind (write_msg (Introduce (pt_node_name me) (pt_version me))) (\<lambda>_.
         io_bind read_introduce (\<lambda>intro. io_ret (outcome_of peer_id intro)))))))"

section \<open>Inversion of the exchange\<close>

lemmas io_defs = io_bind_def io_ret_def io_fail_def open_bi_def read_msg_def write_msg_def

lemma io_bind_Ok:
  "io_bind m f w = (Ok y, w') \<longleftrightarrow> (\<exists>x v. m w = (Ok x, v) \<and> f x v = (Ok y, w'))"
  by (auto simp: io_bind_def split: prod.splits res.splits)

lemma io_simple_Ok:
  "io_ret x w = (Ok y, w') \<longleftrightarrow> y = x \<and> w' = w"
  "io_fail e w \<noteq> (Ok y, w')"
  "open_bi w = (Ok u, w') \<longleftrightarrow> wi_open w \<and> w' = w"
  "write_msg m w = (Ok u, w') \<longleftrightarrow> wi_room w \<noteq> 0 \<and> w' = w\<lparr>wi_out := wi_out w @ [m], wi_room := wi_room w - 1\<rparr>"
  "read_msg w = (Ok m, w') \<longleftrightarrow> (\<exists>rs. wi_in w = Ok m # rs \<and> w' = w\<lparr>wi_in := rs\<rparr>)"
  by (auto simp: io_ret_def io_fail_def open_bi_def write_msg_def read_msg_def split: list.splits)

lemma read_confirm_Ok:
  "read_confirm w = (Ok mac, w') \<longleftrightarrow> (\<exists>rs. wi_in w = Ok (Confirm mac) # rs \<and> w' = w\<lparr>wi_in := rs\<rparr>)"
  by (auto simp: read_confirm_def io_defs split: list.splits res.splits PairMessage.splits)

lemma read_introduce_Ok:
  "read_introduce w = (Ok nv, w') \<longleftrightarrow>
     (\<exists>rs. wi_in w = Ok (Introduce (fst nv) (snd nv)) # rs \<and> w' = w\<lparr>wi_in := rs\<rparr>)"
  by (cases nv) (auto simp: read_introduce_def io_defs split: list.splits res.splits PairMessage.splits)

lemma pake_exchange_Ok:
  "pake_exchange pk code w = (Ok key, w') \<longleftrightarrow>
     (\<exists>body rs. wi_room w \<noteq> 0 \<and> wi_in w = Ok (Pake body) # rs
        \<and> pk_finish pk code PAIR_CONFIRM_CONTEXT body = Some key \<and> length key = 32
        \<and> w' = w\<lparr>wi_in := rs, wi_out := wi_out w @ [Pake (pk_start pk code PAIR_CONFIRM_CONTEXT)],
                  wi_room := wi_room w - 1\<rparr>)"
  by (auto simp: pake_exchange_def io_defs
      split: list.splits res.splits PairMessage.splits option.splits if_splits)

lemmas io_Ok = io_bind_Ok io_simple_Ok read_confirm_Ok read_introduce_Ok pake_exchange_Ok

text \<open>Reading writes nothing; the key exchange writes its own message at most.\<close>

lemma io_outs:
  "wi_out (snd (open_bi w)) = wi_out w"
  "wi_out (snd (read_msg w)) = wi_out w"
  "wi_out (snd (read_confirm w)) = wi_out w"
  "wi_out (snd (read_introduce w)) = wi_out w"
  "set (wi_out (snd (write_msg m w))) \<subseteq> insert m (set (wi_out w))"
  "set (wi_out (snd (pake_exchange pk code w))) \<subseteq>
     insert (Pake (pk_start pk code PAIR_CONFIRM_CONTEXT)) (set (wi_out w))"
  by (auto simp: read_confirm_def read_introduce_def pake_exchange_def io_defs split: list.splits res.splits PairMessage.splits option.splits if_splits)

lemma ct_eq_iff:
  assumes "length a = length b"
  shows "ct_eq a b \<longleftrightarrow> a = b"
proof -
  have x: "x XOR y = 0 \<longleftrightarrow> x = y" for x y :: nat
    by (metis xor.assoc xor.left_neutral xor.right_neutral xor_self_eq)
  have "foldl (\<lambda>diff (x, y). diff OR (x XOR y)) d (zip a b) = 0 \<longleftrightarrow> d = 0 \<and> a = b" for d :: nat
    using assms by (induction a b arbitrary: d rule: list_induct2) (auto simp: or_eq_0_iff x)
  then show ?thesis by (simp add: ct_eq_def)
qed

lemma mac_text_commute: "mac_text role a b = mac_text role b a"
  by (auto simp: mac_text_def str_cmp_key Let_def)

lemma mac_text_roles: "mac_text Host a b \<noteq> mac_text Joiner c d"
  by (auto simp: mac_text_def Let_def split: if_splits)

section \<open>The host demands a proof of the code\<close>

definition bytes32 :: "u8 list \<Rightarrow> bool" where
  "bytes32 bs \<longleftrightarrow> length bs = 32 \<and> (\<forall>b \<in> set bs. b < 256)"

definition hash_ok :: "(u8 list \<Rightarrow> string \<Rightarrow> u8 list) \<Rightarrow> bool" where
  "hash_ok kh \<longleftrightarrow> (\<forall>key t. bytes32 key \<longrightarrow> bytes32 (kh key t))"

text \<open>A derived key is a string of bytes.\<close>

definition pake_ok :: "pake \<Rightarrow> bool" where
  "pake_ok p \<longleftrightarrow> (\<forall>c i m k. pk_finish p c i m = Some k \<longrightarrow> (\<forall>b \<in> set k. b < 256))"

definition macs_ok :: "(PairMessage, MeshError) res list \<Rightarrow> bool" where
  "macs_ok ms \<longleftrightarrow> (\<forall>mac. Ok (Confirm mac) \<in> set ms \<longrightarrow> length mac = 32)"

definition proof_presented ::
    "(u8 list \<Rightarrow> string \<Rightarrow> u8 list) \<Rightarrow> party \<Rightarrow> string \<Rightarrow> string \<Rightarrow> (PairMessage, MeshError) res list \<Rightarrow> bool" where
  "proof_presented kh me peer_id code ms \<longleftrightarrow>
     (\<exists>body mac rs key. ms = Ok (Pake body) # Ok (Confirm mac) # rs
        \<and> pk_finish (pt_pake me) code PAIR_CONFIRM_CONTEXT body = Some key
        \<and> mac = confirm_mac kh key Joiner (pt_id me) peer_id)"

lemma ct_eq_mac:
  "hash_ok kh \<Longrightarrow> bytes32 key \<Longrightarrow> length mac = 32 \<Longrightarrow> ct_eq mac (confirm_mac kh key role a b) \<longleftrightarrow> mac = confirm_mac kh key role a b"
  by (simp add: ct_eq_iff hash_ok_def bytes32_def confirm_mac_def)

text \<open>An attempt that ends before the proof is checked has written its key-exchange message at most.\<close>

lemma host_attempt_cases:
  assumes "host_attempt kh me peer_id code w = (r, w')" "hash_ok kh" "macs_ok (wi_in w)" "pake_ok (pt_pake me)"
  obtains (early) "set (wi_out w') \<subseteq> {Pake (pk_start (pt_pake me) code PAIR_CONFIRM_CONTEXT),
        Rejected ''wrong pairing code''} \<union> set (wi_out w)" "\<And>x. r \<noteq> Ok x"
  | (proved) "proof_presented kh me peer_id code (wi_in w)" "\<And>x. r = Ok x \<Longrightarrow> po_peer_id x = peer_id"
proof -
  obtain r0 w0 where o: "open_bi w = (r0, w0)" by fastforce
  note o' = io_outs(1) [of w, unfolded o snd_conv]
  show ?thesis
  proof (cases r0)
    case (Ok u)
    then have w0: "w0 = w" using o by (simp add: io_simple_Ok)
    obtain r1 w1 where k: "pake_exchange (pt_pake me) code w = (r1, w1)" by fastforce
    note k' = io_outs(6) [of "pt_pake me" code w, unfolded k snd_conv]
    show ?thesis
    proof (cases r1)
      case (Ok key)
      obtain r2 w2 where c: "read_confirm w1 = (r2, w2)" by fastforce
      note c' = io_outs(3) [of w1, unfolded c snd_conv]
      show ?thesis
      proof (cases r2)
        case (Ok mac)
        from k c \<open>r1 = Ok key\<close> Ok obtain body rs where m: "wi_in w = Ok (Pake body) # Ok (Confirm mac) # rs"
            "pk_finish (pt_pake me) code PAIR_CONFIRM_CONTEXT body = Some key"
          by (auto simp: pake_exchange_Ok read_confirm_Ok)
        then have l: "length mac = 32" using assms(3) by (simp add: macs_ok_def)
        show ?thesis
        proof (cases "mac = confirm_mac kh key Joiner (pt_id me) peer_id")
          case True
          then have "proof_presented kh me peer_id code (wi_in w)" using m by (auto simp: proof_presented_def)
          moreover have "po_peer_id x = peer_id" if "r = Ok x" for x
            using assms(1) that by (auto simp: host_attempt_def io_Ok Let_def outcome_of_def split: if_splits)
          ultimately show ?thesis by (rule proved)
        next
          case False
          have key: "bytes32 key"
            using assms(4) m(2) k \<open>r1 = Ok key\<close> by (auto simp: pake_ok_def bytes32_def pake_exchange_Ok)
          from False have e: "host_attempt kh me peer_id code w =
              (Err (PairRejected ''wrong pairing code''), snd (write_msg (Rejected ''wrong pairing code'') w2))"
            using o k c w0 \<open>r0 = Ok u\<close> \<open>r1 = Ok key\<close> \<open>r2 = Ok mac\<close> ct_eq_mac [OF assms(2) key l]
            by (simp add: host_attempt_def io_bind_def io_ignore_def io_fail_def Let_def)
          show ?thesis
            using assms(1) k' c' io_outs(5) [of "Rejected ''wrong pairing code''" w2] unfolding e
            by (intro early) auto
        qed
      qed (use assms(1) o k c k' c' w0 \<open>r0 = Ok u\<close> \<open>r1 = Ok key\<close> in
        \<open>auto simp: host_attempt_def io_bind_def Let_def intro!: early\<close>)
    qed (use assms(1) o k k' w0 \<open>r0 = Ok u\<close> in \<open>auto simp: host_attempt_def io_bind_def intro!: early\<close>)
  qed (use assms(1) o o' in \<open>auto simp: host_attempt_def io_bind_def intro!: early\<close>)
qed

text \<open>Whatever a dialing device sends, the host writes its own confirmation or its introduction, and
  the attempt succeeds, only after the device has presented the joiner's code of the key that
  the host derived from the pairing code; the peer to store is then the device the connection
  authenticated.
\<close>

theorem host_demands_the_code:
  assumes "hash_ok kh" "pake_ok (pt_pake me)" "macs_ok (wi_in w)" "wi_out w = []" "host_attempt kh me peer_id code w = (r, w')"
  shows "((\<exists>mac. Confirm mac \<in> set (wi_out w')) \<or> (\<exists>n v. Introduce n v \<in> set (wi_out w')) \<or> (\<exists>x. r = Ok x)
      \<longrightarrow> proof_presented kh me peer_id code (wi_in w))
    \<and> (\<forall>x. r = Ok x \<longrightarrow> po_peer_id x = peer_id)"
  using assms(5,1,3,2)
proof (cases rule: host_attempt_cases)
  case early
  then show ?thesis using assms(4) by auto
next
  case proved
  then show ?thesis by blast
qed

section \<open>Two honest sides\<close>

text \<open>
  What SPAKE2 promises for two honest runs on six-digit codes: with one code both derive one
  32-byte key, with two codes two different ones.
\<close>

definition spake_agrees :: "pake \<Rightarrow> pake \<Rightarrow> bool" where
  "spake_agrees p q \<longleftrightarrow> (\<forall>c d. validate_code c = Ok c \<and> validate_code d = Ok d \<longrightarrow> (\<exists>k l.
     pk_finish p c PAIR_CONFIRM_CONTEXT (pk_start q d PAIR_CONFIRM_CONTEXT) = Some k \<and> bytes32 k
     \<and> pk_finish q d PAIR_CONFIRM_CONTEXT (pk_start p c PAIR_CONFIRM_CONTEXT) = Some l \<and> bytes32 l
     \<and> (k = l \<longleftrightarrow> c = d)))"

text \<open>Two keys give the same text different hashes.\<close>

definition separates_keys :: "(u8 list \<Rightarrow> string \<Rightarrow> u8 list) \<Rightarrow> string \<Rightarrow> bool" where
  "separates_keys kh t \<longleftrightarrow> (\<forall>k l. bytes32 k \<and> bytes32 l \<and> kh k t = kh l t \<longrightarrow> k = l)"

definition wire_of :: "nat \<Rightarrow> PairMessage list \<Rightarrow> wire" where
  "wire_of room ms = \<lparr>wi_open = True, wi_in = map Ok ms, wi_out = [], wi_room = room, wi_error = []\<rparr>"

lemmas attempt_defs = host_attempt_def joiner_attempt_def pake_exchange_def read_confirm_def read_introduce_def
  io_defs io_ignore_def wire_of_def Let_def

lemma host_writes_pake:
  assumes "0 < room"
  shows "\<exists>xs. wi_out (snd (host_attempt kh me p c (wire_of room ms))) =
    Pake (pk_start (pt_pake me) c PAIR_CONFIRM_CONTEXT) # xs"
  using assms by (auto simp: attempt_defs split: list.splits PairMessage.splits option.splits if_splits)

lemma joiner_writes_confirm:
  assumes "1 < room" "pk_finish (pt_pake me) c PAIR_CONFIRM_CONTEXT body = Some key" "length key = 32"
  shows "\<exists>xs. wi_out (snd (joiner_attempt kh me p c (wire_of room (Pake body # ms)))) =
    Pake (pk_start (pt_pake me) c PAIR_CONFIRM_CONTEXT) # Confirm (confirm_mac kh key Joiner (pt_id me) p) # xs"
  using assms by (auto simp: attempt_defs split: list.splits PairMessage.splits option.splits if_splits)

lemma host_answers:
  assumes "2 < room" "pk_finish (pt_pake me) c PAIR_CONFIRM_CONTEXT body = Some key" "length key = 32"
  shows "wi_out (snd (host_attempt kh me p c (wire_of room (Pake body # Confirm mac # ms)))) =
    Pake (pk_start (pt_pake me) c PAIR_CONFIRM_CONTEXT) #
      (if ct_eq mac (confirm_mac kh key Joiner (pt_id me) p)
       then [Confirm (confirm_mac kh key Host (pt_id me) p), Introduce (pt_node_name me) (pt_version me)]
       else [Rejected ''wrong pairing code''])"
  using assms by (auto simp: attempt_defs split: list.splits PairMessage.splits option.splits if_splits)

text \<open>C13: when a host and a joiner each read exactly what the other wrote, they pair if and only if
  they were given the same code: then each learns the other's id, name and version, and
  otherwise both attempts end with a wrong-code rejection and neither learns a peer.
\<close>

theorem pairing_agreement:
  assumes "hash_ok kh" "spake_agrees (pt_pake h) (pt_pake j)"
    and "separates_keys kh (mac_text Joiner (pt_id h) (pt_id j))" "2 < room"
    and "validate_code ch = Ok ch" "validate_code cj = Ok cj"
    and h: "host_attempt kh h (pt_id j) ch (wire_of room (wi_out wj)) = (rh, wh)"
    and j: "joiner_attempt kh j (pt_id h) cj (wire_of room (wi_out wh)) = (rj, wj)"
  shows "if ch = cj
    then rh = Ok \<lparr>po_peer_id = pt_id j, po_node_name = pt_node_name j, po_product_version = pt_version j\<rparr>
      \<and> rj = Ok \<lparr>po_peer_id = pt_id h, po_node_name = pt_node_name h, po_product_version = pt_version h\<rparr>
    else rh = Err (PairRejected ''wrong pairing code'') \<and> rj = Err (PairRejected ''wrong pairing code'')"
proof -
  let ?bh = "pk_start (pt_pake h) ch PAIR_CONFIRM_CONTEXT"
  let ?bj = "pk_start (pt_pake j) cj PAIR_CONFIRM_CONTEXT"
  obtain k l where k0: "pk_finish (pt_pake h) ch PAIR_CONFIRM_CONTEXT ?bj = Some k" "bytes32 k"
      and l0: "pk_finish (pt_pake j) cj PAIR_CONFIRM_CONTEXT ?bh = Some l" "bytes32 l"
      and kl: "k = l \<longleftrightarrow> ch = cj"
    using assms(2,5,6) unfolding spake_agrees_def by blast
  then have k: "pk_finish (pt_pake h) ch PAIR_CONFIRM_CONTEXT ?bj = Some k" "length k = 32"
      and l: "pk_finish (pt_pake j) cj PAIR_CONFIRM_CONTEXT ?bh = Some l" "length l = 32"
    by (simp_all add: bytes32_def)
  define mj where "mj = confirm_mac kh l Joiner (pt_id j) (pt_id h)"
  define mh where "mh = confirm_mac kh k Host (pt_id h) (pt_id j)"
  obtain xs where wh: "wi_out wh = Pake ?bh # xs"
    using host_writes_pake [of room kh h "pt_id j" ch "wi_out wj"] h assms(4) by auto
  obtain ys where wj: "wi_out wj = Pake ?bj # Confirm mj # ys"
    using joiner_writes_confirm [OF _ l, of room kh "pt_id h" xs] j assms(4) by (auto simp: wh mj_def)
  have eq: "ct_eq mj (confirm_mac kh k Joiner (pt_id h) (pt_id j)) \<longleftrightarrow> ch = cj"
    using assms(1,3) k0(2) l0(2) kl mac_text_commute [of Joiner "pt_id j" "pt_id h"]
    by (auto simp: ct_eq_iff mj_def confirm_mac_def hash_ok_def separates_keys_def bytes32_def)
  have wh: "wi_out wh = Pake ?bh # (if ch = cj then [Confirm mh, Introduce (pt_node_name h) (pt_version h)]
      else [Rejected ''wrong pairing code''])"
    using host_answers [OF assms(4) k, of kh "pt_id j" mj ys] h unfolding eq by (auto simp: wj mh_def)
  show ?thesis
  proof (cases "ch = cj")
    case True
    then have "ct_eq mh (confirm_mac kh l Host (pt_id j) (pt_id h))"
      using kl mac_text_commute [of Host "pt_id j" "pt_id h"] by (simp add: ct_eq_iff mh_def confirm_mac_def)
    with j wh True l assms(4) have rj: "rj = Ok \<lparr>po_peer_id = pt_id h, po_node_name = pt_node_name h,
          po_product_version = pt_version h\<rparr>"
        "wi_out wj = [Pake ?bj, Confirm mj, Introduce (pt_node_name j) (pt_version j)]"
      by (auto simp: attempt_defs outcome_of_def mj_def)
    with h True k eq assms(4) show ?thesis by (auto simp: attempt_defs outcome_of_def)
  next
    case False
    then show ?thesis using h j wh wj k l eq assms(4) by (auto simp: attempt_defs split: list.splits)
  qed
qed

section \<open>Mirrors\<close>

text \<open>C33: a joiner never pairs with its own messages sent back to it: the two roles hash different
  texts, so where the hash tells those apart the mirrored confirmation is refused.
\<close>

theorem mirrored_joiner_fails:
  assumes "hash_ok kh" "pake_ok (pt_pake me)"
    and "\<forall>key. bytes32 key \<longrightarrow> kh key (mac_text Host (pt_id me) peer_id) \<noteq> kh key (mac_text Joiner (pt_id me) peer_id)"
    and "joiner_attempt kh me peer_id code (wire_of room (wi_out w')) = (r, w')"
  shows "r \<noteq> Ok x"
proof
  assume "r = Ok x"
  with assms(4) obtain key body rs mac ms where
      "pk_finish (pt_pake me) code PAIR_CONFIRM_CONTEXT body = Some key" "length key = 32"
      "ct_eq mac (confirm_mac kh key Host (pt_id me) peer_id)"
      "map Ok (wi_out w') = Ok (Pake body) # Ok (Confirm mac) # ms"
      "wi_out w' = Pake (pk_start (pt_pake me) code PAIR_CONFIRM_CONTEXT)
         # Confirm (confirm_mac kh key Joiner (pt_id me) peer_id) # rs"
    by (auto simp: joiner_attempt_def io_Ok Let_def wire_of_def split: if_splits)
  moreover from this have "bytes32 key" using assms(2) by (auto simp: pake_ok_def bytes32_def)
  ultimately show False
    using assms(1,3) by (auto simp: ct_eq_iff confirm_mac_def hash_ok_def bytes32_def)
qed

section \<open>A sample exchange\<close>

definition sample_pake :: pake where
  "sample_pake = \<lparr>pk_start = (\<lambda>_ _. []),
     pk_finish = (\<lambda>c _ _. if length c = 6 then Some (map of_char c @ replicate 26 0) else None)\<rparr>"

definition sample_hash :: "u8 list \<Rightarrow> string \<Rightarrow> u8 list" where
  "sample_hash key t = (if t ! 16 = CHR ''h'' then map (\<lambda>b. 255 - b) key else key)"

definition sample_party :: "string \<Rightarrow> party" where
  "sample_party i = \<lparr>pt_id = i, pt_node_name = ''laptop-'' @ i, pt_version = ''1.0.0'', pt_pake = sample_pake\<rparr>"

lemma of_char_less [simp]: "(of_char c :: nat) < 256"
  by (metis mod_less_divisor of_char_mod_256 zero_less_numeral)

lemma sample_pake_ok: "pake_ok sample_pake"
  by (auto simp: pake_ok_def sample_pake_def split: if_splits)

lemma sample_hash_ok: "hash_ok sample_hash"
  by (auto simp: hash_ok_def sample_hash_def bytes32_def)

lemma mac_text_tag: "mac_text role a b ! 16 = hd (role_tag role)"
  by (cases role) (simp_all add: mac_text_def PAIR_CONFIRM_CONTEXT_def Let_def)

lemma sample_spake_agrees: "spake_agrees sample_pake sample_pake"
  by (auto simp: spake_agrees_def sample_pake_def validate_code_def bytes32_def Let_def split: if_splits)

lemma sample_separates: "separates_keys sample_hash (mac_text Joiner a b)"
  by (simp add: separates_keys_def sample_hash_def mac_text_tag)

lemma sample_roles_differ:
  "bytes32 key \<Longrightarrow> sample_hash key (mac_text Host a b) \<noteq> sample_hash key (mac_text Joiner c d)"
  by (cases key) (auto simp: sample_hash_def mac_text_tag bytes32_def, presburger)

definition sample_mac :: "PairRole \<Rightarrow> u8 list" where
  "sample_mac role = confirm_mac sample_hash (map of_char ''000042'' @ replicate 26 0) role ''a'' ''b''"

definition sample_out :: "PairRole \<Rightarrow> PairMessage list" where
  "sample_out role = [Pake [], Confirm (sample_mac role),
     Introduce (''laptop-'' @ (case role of Host \<Rightarrow> ''a'' | Joiner \<Rightarrow> ''b'')) ''1.0.0'']"

lemma sample_exchange:
  "host_attempt sample_hash (sample_party ''a'') ''b'' ''000042'' (wire_of 3 (sample_out Joiner)) =
     (Ok \<lparr>po_peer_id = ''b'', po_node_name = ''laptop-b'', po_product_version = ''1.0.0''\<rparr>,
      \<lparr>wi_open = True, wi_in = [], wi_out = sample_out Host, wi_room = 0, wi_error = []\<rparr>)"
  "joiner_attempt sample_hash (sample_party ''b'') ''a'' ''000042'' (wire_of 3 (sample_out Host)) =
     (Ok \<lparr>po_peer_id = ''a'', po_node_name = ''laptop-a'', po_product_version = ''1.0.0''\<rparr>,
      \<lparr>wi_open = True, wi_in = [], wi_out = sample_out Joiner, wi_room = 0, wi_error = []\<rparr>)"
  using mac_text_commute [of Host "''a''" "''b''"] mac_text_commute [of Joiner "''a''" "''b''"]
  by (simp_all add: attempt_defs sample_party_def sample_pake_def sample_out_def sample_mac_def
      confirm_mac_def ct_eq_iff outcome_of_def)

lemma sample_macs_ok: "macs_ok (map Ok (sample_out role))"
  by (auto simp: macs_ok_def sample_out_def sample_mac_def confirm_mac_def sample_hash_def)

theorem host_demands_the_code_witness:
  "proof_presented sample_hash (sample_party ''a'') ''b'' ''000042'' (map Ok (sample_out Joiner))"
proof -
  have p: "pake_ok (pt_pake (sample_party ''a''))" by (simp add: sample_party_def sample_pake_ok)
  have m: "macs_ok (wi_in (wire_of 3 (sample_out Joiner)))" "wi_out (wire_of 3 (sample_out Joiner)) = []"
    by (simp_all add: wire_of_def sample_macs_ok)
  show ?thesis
    using host_demands_the_code [OF sample_hash_ok p m sample_exchange(1)] by (simp add: wire_of_def)
qed

theorem pairing_agreement_witness:
  "fst (host_attempt sample_hash (sample_party ''a'') ''b'' ''000042'' (wire_of 3 (sample_out Joiner))) =
     Ok \<lparr>po_peer_id = ''b'', po_node_name = ''laptop-b'', po_product_version = ''1.0.0''\<rparr>"
proof -
  have c: "validate_code ''000042'' = Ok ''000042''"
    by (simp add: validate_code_def trim_def is_ws_def is_ascii_digit_def digit_of_def)
  obtain rh wh where h: "host_attempt sample_hash (sample_party ''a'') (pt_id (sample_party ''b'')) ''000042''
      (wire_of 3 (sample_out Joiner)) = (rh, wh)" by fastforce
  obtain rj wj where j: "joiner_attempt sample_hash (sample_party ''b'') (pt_id (sample_party ''a'')) ''000042''
      (wire_of 3 (sample_out Host)) = (rj, wj)" by fastforce
  have o: "wi_out wh = sample_out Host" "wi_out wj = sample_out Joiner"
    using h j sample_exchange by (auto simp: sample_party_def)
  have "rh = Ok \<lparr>po_peer_id = ''b'', po_node_name = ''laptop-b'', po_product_version = ''1.0.0''\<rparr>"
    using pairing_agreement [OF sample_hash_ok _ _ _ c c h [folded o(2)] j [folded o(1)]]
      sample_spake_agrees sample_separates by (simp add: sample_party_def)
  with h show ?thesis by (simp add: sample_party_def)
qed

theorem mirrored_joiner_fails_witness:
  "\<not> (\<exists>x. fst (joiner_attempt sample_hash (sample_party ''b'') ''a'' ''000042''
      (wire_of 3 [Pake [], Confirm (sample_mac Joiner), Rejected ''host failed key confirmation''])) = Ok x)"
proof -
  obtain r w where j: "joiner_attempt sample_hash (sample_party ''b'') ''a'' ''000042''
      (wire_of 3 [Pake [], Confirm (sample_mac Joiner), Rejected ''host failed key confirmation'']) = (r, w)"
    by fastforce
  have "\<not> ct_eq (sample_mac Joiner) (confirm_mac sample_hash (map of_char ''000042'' @ replicate 26 0) Host ''b'' ''a'')"
    by (subst ct_eq_iff) (simp_all add: sample_mac_def confirm_mac_def sample_hash_def mac_text_tag)
  then have o: "wi_out w = [Pake [], Confirm (sample_mac Joiner), Rejected ''host failed key confirmation'']"
    using j mac_text_commute [of Joiner "''b''" "''a''"]
    by (auto simp: attempt_defs sample_party_def sample_pake_def sample_mac_def confirm_mac_def)
  have "r \<noteq> Ok x" for x
    using mirrored_joiner_fails [OF sample_hash_ok _ _ j [folded o]] sample_pake_ok sample_roles_differ
    by (simp add: sample_party_def)
  with j show ?thesis by simp
qed

end
