(* ===== verification/Mesh.thy ===== *)
theory Mesh
  imports Link Pairing
begin

text \<open>
  The mesh service of a node (\<open>onebrain-mesh/src/service.rs\<close>): one task owns the state and
  handles one internal message at a time; what it spawns (pairing attempts, dials, sessions,
  timers) comes back as further messages. The state is a record, each handler a function that
  returns the new state and the effects it caused, and the task is a step relation in which the
  spawned work may finish in any order. The lemmas show who can get into the peer store and
  who can get a session, that simultaneous connections resolve alike on both sides, how redials
  back off, and where a pairing window's attempt budget and an unpair can be outrun.
\<close>

definition PAIR_ATTEMPTS :: u32 where "PAIR_ATTEMPTS = 3"
definition PAIR_EXCHANGE_TIMEOUT :: duration where "PAIR_EXCHANGE_TIMEOUT = 60000000000"
definition RECONNECT_BACKOFF_BASE :: duration where "RECONNECT_BACKOFF_BASE = 3000000000"
definition RECONNECT_BACKOFF_CAP :: duration where "RECONNECT_BACKOFF_CAP = 30000000000"

section \<open>State\<close>

record Conn =
  cn_stable_id :: nat
  cn_remote :: EndpointId

datatype TransportAddr = Ip SocketAddr | Relay string

record EndpointAddr =
  ea_id :: EndpointId
  ea_addrs :: "TransportAddr set"

record PeerInfo =
  pi_id :: string
  pi_name :: string

datatype PairEvent = Attempt | Paired PeerInfo | Expired | PairFailed string

record Backoff =
  bo_next_at :: instant
  bo_delay :: duration

record Window =
  wd_id :: u64
  wd_code :: string
  wd_attempts_left :: u32
  wd_deadline :: instant

record Session =
  ss_conn :: Conn
  ss_dialer :: bool
  ss_finished :: bool

record service =
  sv_disk :: disk
  sv_live :: LiveMap
  sv_window :: "Window option"
  sv_window_seq :: u64
  sv_sessions :: "EndpointId \<rightharpoonup> Session"
  sv_dialing :: "EndpointId set"
  sv_discovered :: "EndpointId \<rightharpoonup> EndpointAddr"
  sv_known_addrs :: "EndpointId \<rightharpoonup> EndpointAddr"
  sv_reconnect :: "EndpointId \<rightharpoonup> Backoff"

text \<open>
  What belongs to the iroh crate: this node's id, the parser of ids, the short form of an id and
  which relay URLs parse; and the configured length of a pairing window.
\<close>

record mesh_env =
  mv_own :: EndpointId
  mv_parse :: "string \<Rightarrow> EndpointId option"
  mv_short :: "EndpointId \<Rightarrow> string"
  mv_relay_ok :: "string \<Rightarrow> bool"
  mv_pair_window :: duration

datatype mesh_effect =
    SendPairEvent u64 PairEvent
  | StartWindowTimer u64 instant
  | StartAttempt u64 string Conn duration
  | StartDial EndpointId EndpointAddr
  | StartSession EndpointId Conn bool string
  | AbortSession EndpointId
  | CloseConn Conn u32 string

section \<open>Addresses and redials\<close>

definition assemble_addr :: "mesh_env \<Rightarrow> service \<Rightarrow> EndpointId \<Rightarrow> PeerRecord \<Rightarrow> EndpointAddr" where
  "assemble_addr env s peer r =
     (let relay = (case pk_relay_url r of
            Some url \<Rightarrow> if mv_relay_ok env url then {Relay url} else {} | None \<Rightarrow> {});
          known = (case sv_known_addrs s peer of Some hint \<Rightarrow> ea_addrs hint | None \<Rightarrow> {});
          found = (case sv_discovered s peer of Some hint \<Rightarrow> ea_addrs hint | None \<Rightarrow> {}) in
      \<lparr>ea_id = peer, ea_addrs = Ip ` set (pk_direct_addrs r) \<union> relay \<union> known \<union> found\<rparr>)"

definition ensure_session :: "mesh_env \<Rightarrow> store_env \<Rightarrow> EndpointId \<Rightarrow> service \<Rightarrow> service \<times> mesh_effect list" where
  "ensure_session env sto peer s =
     (if peer = mv_own env \<or> sv_sessions s peer \<noteq> None \<or> peer \<in> sv_dialing s then (s, [])
      else case load sto (sv_disk s) of
        Ok ps \<Rightarrow> (case map_of ps peer of
            None \<Rightarrow> (s, [])
          | Some r \<Rightarrow>
              if lv_state (live_of (sv_live s) peer) = Some Incompatible then (s, [])
              else (s\<lparr>sv_dialing := insert peer (sv_dialing s)\<rparr>, [StartDial peer (assemble_addr env s peer r)]))
      | _ \<Rightarrow> (s, []))"

definition note_dial_failure :: "instant \<Rightarrow> EndpointId \<Rightarrow> service \<Rightarrow> service" where
  "note_dial_failure now peer s =
     (let entry = (case sv_reconnect s peer of
            Some b \<Rightarrow> b | None \<Rightarrow> \<lparr>bo_next_at = now, bo_delay = RECONNECT_BACKOFF_BASE\<rparr>) in
      s\<lparr>sv_reconnect := (sv_reconnect s)(peer \<mapsto>
          \<lparr>bo_next_at = now + bo_delay entry, bo_delay = min (bo_delay entry * 2) RECONNECT_BACKOFF_CAP\<rparr>)\<rparr>)"

definition redial_due :: "instant \<Rightarrow> service \<Rightarrow> EndpointId \<Rightarrow> bool" where
  "redial_due now s peer \<longleftrightarrow> sv_sessions s peer = None \<and> peer \<notin> sv_dialing s
     \<and> (case sv_reconnect s peer of Some b \<Rightarrow> \<not> now < bo_next_at b | None \<Rightarrow> True)"

fun redial_all ::
    "mesh_env \<Rightarrow> store_env \<Rightarrow> instant \<Rightarrow> string list \<Rightarrow> service \<Rightarrow> service \<times> mesh_effect list" where
  "redial_all env sto now [] s = (s, [])"
| "redial_all env sto now (k # ks) s = (case mv_parse env k of
     None \<Rightarrow> redial_all env sto now ks s
   | Some peer \<Rightarrow>
       if \<not> redial_due now s peer then redial_all env sto now ks s
       else (case ensure_session env sto peer s of
         (s, es) \<Rightarrow> (case redial_all env sto now ks s of (s, es') \<Rightarrow> (s, es @ es'))))"

definition reconnect_tick :: "mesh_env \<Rightarrow> store_env \<Rightarrow> instant \<Rightarrow> service \<Rightarrow> service \<times> mesh_effect list" where
  "reconnect_tick env sto now s = (case load sto (sv_disk s) of
     Ok ps \<Rightarrow> redial_all env sto now (map fst ps) s | _ \<Rightarrow> (s, []))"

section \<open>Connections\<close>

definition adopt_conn :: "mesh_env \<Rightarrow> store_env \<Rightarrow> Conn \<Rightarrow> bool \<Rightarrow> service \<Rightarrow> service \<times> mesh_effect list" where
  "adopt_conn env sto conn dialer s =
     (let peer = cn_remote conn in
      if peer = mv_own env then (s, [CloseConn conn 0 ''self-connection''])
      else
        let s = s\<lparr>sv_reconnect := (sv_reconnect s)(peer := None)\<rparr>;
            i_am_lower = (str_cmp (mv_own env) peer = Less);
            name = (case load sto (sv_disk s) of
                Ok ps \<Rightarrow> (case map_of ps peer of Some r \<Rightarrow> pk_name r | None \<Rightarrow> mv_short env peer)
              | _ \<Rightarrow> mv_short env peer);
            started = s\<lparr>sv_sessions := (sv_sessions s)(peer \<mapsto> \<lparr>ss_conn = conn, ss_dialer = dialer, ss_finished = False\<rparr>)\<rparr> in
        case sv_sessions s peer of
          None \<Rightarrow> (started, [StartSession peer conn dialer name])
        | Some existing \<Rightarrow>
            if ss_finished existing
            then (started, [CloseConn (ss_conn existing) 0 ''superseded'', StartSession peer conn dialer name])
            else if dialer = i_am_lower \<and> ss_dialer existing \<noteq> i_am_lower
            then (started, [AbortSession peer, CloseConn (ss_conn existing) 0 ''superseded'',
              StartSession peer conn dialer name])
            else (s, [CloseConn conn 0 ''duplicate'']))"

text \<open>What the accept loop does with an incoming connection, by its protocol.\<close>

datatype alpn = AlpnPair | AlpnMesh | AlpnBlobs | AlpnOther

datatype accept_verdict = ToPairing | ToMesh | ToBlobs | Closed u32 string

definition accept_incoming :: "store_env \<Rightarrow> alpn \<Rightarrow> Conn \<Rightarrow> disk \<Rightarrow> accept_verdict" where
  "accept_incoming sto protocol conn dk = (case protocol of
     AlpnPair \<Rightarrow> ToPairing
   | AlpnMesh \<Rightarrow> (case contains sto (cn_remote conn) dk of Ok True \<Rightarrow> ToMesh | _ \<Rightarrow> Closed 1 ''unpaired'')
   | AlpnBlobs \<Rightarrow> (case contains sto (cn_remote conn) dk of Ok True \<Rightarrow> ToBlobs | _ \<Rightarrow> Closed 1 ''unpaired'')
   | AlpnOther \<Rightarrow> Closed 0 ''unknown-alpn'')"

section \<open>Pairing windows\<close>

definition pair_start ::
    "mesh_env \<Rightarrow> instant \<Rightarrow> (string, MeshError) res \<Rightarrow> service \<Rightarrow>
     (string, MeshError) res \<times> service \<times> mesh_effect list" where
  "pair_start env now generated s =
     (if (case sv_window s of Some w \<Rightarrow> now < wd_deadline w \<and> 0 < wd_attempts_left w | None \<Rightarrow> False)
      then (Err WindowAlreadyOpen, s, [])
      else case generated of
        Ok code \<Rightarrow>
          let window_id = add64 (sv_window_seq s) 1; deadline = now + mv_pair_window env in
          (Ok code,
           s\<lparr>sv_window_seq := window_id,
             sv_window := Some \<lparr>wd_id = window_id, wd_code = code, wd_attempts_left = PAIR_ATTEMPTS,
               wd_deadline = deadline\<rparr>\<rparr>,
           [StartWindowTimer window_id deadline])
      | Err e \<Rightarrow> (Err e, s, [])
      | Panic k \<Rightarrow> (Panic k, s, []))"

definition incoming_pair :: "instant \<Rightarrow> Conn \<Rightarrow> service \<Rightarrow> mesh_effect list" where
  "incoming_pair now conn s = (case sv_window s of
     None \<Rightarrow> [CloseConn conn 2 ''no-pairing-window'']
   | Some w \<Rightarrow>
       if wd_deadline w \<le> now \<or> wd_attempts_left w = 0 then [CloseConn conn 2 ''no-pairing-window'']
       else [SendPairEvent (wd_id w) Attempt,
         StartAttempt (wd_id w) (wd_code w) conn (min (wd_deadline w - now) PAIR_EXCHANGE_TIMEOUT)])"

definition pair_host_done ::
    "mesh_env \<Rightarrow> store_env \<Rightarrow> (MeshError \<Rightarrow> string) \<Rightarrow> u64 \<Rightarrow> (PairOutcome, MeshError) res \<Rightarrow> Addressing \<Rightarrow> service \<Rightarrow>
     service \<times> mesh_effect list" where
  "pair_host_done env sto show_error window_id result observed s = (case sv_window s of
     None \<Rightarrow> (s, [])
   | Some w \<Rightarrow>
       if wd_id w \<noteq> window_id then (s, [])
       else (case result of
         Ok outcome \<Rightarrow>
           let peer = po_peer_id outcome in
           (case add_peer sto peer (po_node_name outcome) (sv_disk s) of
              (Ok name, dk) \<Rightarrow>
                let dk = snd (update_addrs sto peer (fst observed) (snd observed) dk);
                    s = s\<lparr>sv_disk := dk, sv_window := None, sv_reconnect := (sv_reconnect s)(peer := None)\<rparr> in
                (case ensure_session env sto peer s of
                   (s, es) \<Rightarrow> (s, SendPairEvent window_id (Paired \<lparr>pi_id = peer, pi_name = name\<rparr>) # es))
            | (Err e, dk) \<Rightarrow>
                (s\<lparr>sv_disk := dk, sv_window := None\<rparr>, [SendPairEvent window_id (PairFailed (show_error e))])
            | (Panic k, dk) \<Rightarrow> (s\<lparr>sv_disk := dk\<rparr>, []))
       | Err e \<Rightarrow>
           let left = sub32 (wd_attempts_left w) 1 in
           if left = 0
           then (s\<lparr>sv_window := None\<rparr>, [SendPairEvent window_id (PairFailed
             ''the pairing code was guessed wrong too often; run `onebrain pair` again to open a new window'')])
           else (s\<lparr>sv_window := Some (w\<lparr>wd_attempts_left := left\<rparr>)\<rparr>, [])
       | Panic k \<Rightarrow> (s, [])))"

definition window_timeout :: "u64 \<Rightarrow> service \<Rightarrow> service \<times> mesh_effect list" where
  "window_timeout window_id s = (case sv_window s of
     Some w \<Rightarrow> if wd_id w = window_id then (s\<lparr>sv_window := None\<rparr>, [SendPairEvent window_id Expired]) else (s, [])
   | None \<Rightarrow> (s, []))"

section \<open>Joining\<close>

datatype PairTarget = TargetTicket string | TargetCode string

definition persist_join ::
    "store_env \<Rightarrow> SocketAddr list \<Rightarrow> string option \<Rightarrow> PairOutcome \<Rightarrow> EndpointAddr \<Rightarrow> disk \<Rightarrow>
     (PeerInfo \<times> EndpointId \<times> EndpointAddr, MeshError) res \<times> disk" where
  "persist_join sto direct relay outcome addr dk = (case add_peer sto (po_peer_id outcome) (po_node_name outcome) dk of
     (Ok name, dk) \<Rightarrow>
       (Ok (\<lparr>pi_id = po_peer_id outcome, pi_name = name\<rparr>, po_peer_id outcome, addr),
        snd (update_addrs sto (po_peer_id outcome) direct relay dk))
   | (Err e, dk) \<Rightarrow> (Err e, dk)
   | (Panic k, dk) \<Rightarrow> (Panic k, dk))"

text \<open>
  \<open>join\<close> is the outcome of dialing an address and running the joiner's side there, \<open>parts\<close>
  the direct addresses and the first relay of an address in the order iroh lists them.
\<close>

fun join_candidates ::
    "store_env \<Rightarrow> (EndpointAddr \<Rightarrow> string \<Rightarrow> (PairOutcome, MeshError) res) \<Rightarrow> (EndpointAddr \<Rightarrow> SocketAddr list \<times> string option) \<Rightarrow>
     string \<Rightarrow> MeshError \<Rightarrow> EndpointAddr list \<Rightarrow> disk \<Rightarrow> (PeerInfo \<times> EndpointId \<times> EndpointAddr, MeshError) res \<times> disk" where
  "join_candidates sto join parts code last_err [] dk = (Err last_err, dk)"
| "join_candidates sto join parts code last_err (addr # addrs) dk = (case join addr code of
     Ok outcome \<Rightarrow> persist_join sto (fst (parts addr)) (snd (parts addr)) outcome addr dk
   | Err e \<Rightarrow> join_candidates sto join parts code e addrs dk
   | Panic k \<Rightarrow> (Panic k, dk))"

definition do_pair_join ::
    "store_env \<Rightarrow> (string \<Rightarrow> EndpointAddr option) \<Rightarrow> (EndpointAddr \<Rightarrow> string \<Rightarrow> (PairOutcome, MeshError) res) \<Rightarrow>
     (EndpointAddr \<Rightarrow> SocketAddr list \<times> string option) \<Rightarrow> PairTarget \<Rightarrow> string option \<Rightarrow> EndpointAddr list \<Rightarrow> disk \<Rightarrow>
     (PeerInfo \<times> EndpointId \<times> EndpointAddr, MeshError) res \<times> disk" where
  "do_pair_join sto parse_ticket join parts target code candidates dk = (case target of
     TargetTicket raw \<Rightarrow> (case parse_ticket (trim raw) of
         None \<Rightarrow> (Err (BadPairTarget (truncate_for_display raw)), dk)
       | Some addr \<Rightarrow> (case code of
           None \<Rightarrow> (Err CodeRequired, dk)
         | Some c \<Rightarrow> (case validate_code c of
             Ok c \<Rightarrow> (case join addr c of
                 Ok outcome \<Rightarrow> persist_join sto (fst (parts addr)) (snd (parts addr)) outcome addr dk
               | Err e \<Rightarrow> (Err e, dk) | Panic k \<Rightarrow> (Panic k, dk))
           | Err e \<Rightarrow> (Err e, dk) | Panic k \<Rightarrow> (Panic k, dk))))
   | TargetCode raw \<Rightarrow> (case validate_code raw of
       Ok c \<Rightarrow> if candidates = [] then (Err NoCandidates, dk)
         else join_candidates sto join parts c NoCandidates candidates dk
     | Err e \<Rightarrow> (Err e, dk) | Panic k \<Rightarrow> (Panic k, dk)))"

section \<open>Queries and unpairing\<close>

definition status_row :: "mesh_env \<Rightarrow> service \<Rightarrow> string \<times> PeerRecord \<Rightarrow> PeerStatus" where
  "status_row env s = (\<lambda>(id_str, r).
     let parsed = mv_parse env id_str;
         entry = (case parsed of Some i \<Rightarrow> sv_live s i | None \<Rightarrow> None);
         seen = (case parsed of Some i \<Rightarrow> sv_discovered s i \<noteq> None | None \<Rightarrow> False);
         st = (case entry of
             Some l \<Rightarrow> (case lv_state l of Some x \<Rightarrow> x | None \<Rightarrow> if seen then Reachable else Unknown)
           | None \<Rightarrow> if seen then Reachable else Unknown);
         l = (case entry of Some l \<Rightarrow> l | None \<Rightarrow> Live_default) in
     \<lparr>ps_name = pk_name r, ps_id = id_str, ps_state = st, ps_rtt_ms = lv_rtt_ms l,
      ps_bandwidth_mbps = lv_bandwidth_mbps l, ps_loss = lv_loss l, ps_last_seen_unix = lv_last_seen_unix l,
      ps_usable_memory_bytes = lv_usable_memory_bytes l, ps_prefill_tps = lv_prefill_tps l,
      ps_decode_tps = lv_decode_tps l, ps_disk_mbps = lv_disk_mbps l,
      ps_product_version = pk_product_version r, ps_engine_build = pk_engine_build r,
      ps_draining = lv_draining l\<rparr>)"

definition peer_statuses :: "mesh_env \<Rightarrow> store_env \<Rightarrow> service \<Rightarrow> (PeerStatus list, MeshError) res" where
  "peer_statuses env sto s = res_bind (load sto (sv_disk s)) (\<lambda>ps.
     Ok (sort_by (\<lambda>a b. str_cmp (ps_name a) (ps_name b)) (map (status_row env s) ps)))"

definition unpair :: "mesh_env \<Rightarrow> store_env \<Rightarrow> string \<Rightarrow> service \<Rightarrow> (unit, MeshError) res \<times> service \<times> mesh_effect list" where
  "unpair env sto name s = (case remove_by_name sto name (sv_disk s) of
     (Ok id_str, dk) \<Rightarrow> (case mv_parse env id_str of
         None \<Rightarrow> (Ok (), s\<lparr>sv_disk := dk\<rparr>, [])
       | Some peer \<Rightarrow>
           (Ok (),
            s\<lparr>sv_disk := dk, sv_sessions := (sv_sessions s)(peer := None), sv_live := (sv_live s)(peer := None),
              sv_known_addrs := (sv_known_addrs s)(peer := None), sv_dialing := sv_dialing s - {peer},
              sv_reconnect := (sv_reconnect s)(peer := None)\<rparr>,
            (case sv_sessions s peer of
               Some session \<Rightarrow> [AbortSession peer, CloseConn (ss_conn session) 1 ''unpaired''] | None \<Rightarrow> [])))
   | (Err e, dk) \<Rightarrow> (Err e, s\<lparr>sv_disk := dk\<rparr>, [])
   | (Panic k, dk) \<Rightarrow> (Panic k, s\<lparr>sv_disk := dk\<rparr>, []))"

definition resolve_peer :: "mesh_env \<Rightarrow> store_env \<Rightarrow> string \<Rightarrow> service \<Rightarrow> (EndpointId \<times> PeerRecord, MeshError) res" where
  "resolve_peer env sto peer_ref s = res_bind (load sto (sv_disk s)) (\<lambda>ps.
     let unknown = Err (UnknownPeerName peer_ref (sorted_names ps)) in
     case mv_parse env peer_ref of
       Some i \<Rightarrow> (case map_of ps i of Some r \<Rightarrow> Ok (i, r) | None \<Rightarrow> unknown)
     | None \<Rightarrow> (case find (\<lambda>e. pk_name (snd e) = peer_ref) ps of
         Some (id_str, r) \<Rightarrow> (case mv_parse env id_str of Some i \<Rightarrow> Ok (i, r) | None \<Rightarrow> unknown)
       | None \<Rightarrow> unknown))"

definition resolve_conn :: "mesh_env \<Rightarrow> store_env \<Rightarrow> string \<Rightarrow> service \<Rightarrow> (Conn, MeshError) res" where
  "resolve_conn env sto peer_ref s = (case mv_parse env peer_ref of
     Some i \<Rightarrow> (case sv_sessions s i of
         Some session \<Rightarrow> Ok (ss_conn session)
       | None \<Rightarrow> Err (NotConnected (case load sto (sv_disk s) of
           Ok ps \<Rightarrow> (case map_of ps peer_ref of Some r \<Rightarrow> pk_name r | None \<Rightarrow> peer_ref) | _ \<Rightarrow> peer_ref)))
   | None \<Rightarrow> res_bind (load sto (sv_disk s)) (\<lambda>ps. case find (\<lambda>e. pk_name (snd e) = peer_ref) ps of
       Some (id_str, _) \<Rightarrow> (case (case mv_parse env id_str of Some i \<Rightarrow> sv_sessions s i | None \<Rightarrow> None) of
           Some session \<Rightarrow> Ok (ss_conn session) | None \<Rightarrow> Err (NotConnected peer_ref))
     | None \<Rightarrow> Err (UnknownPeerName peer_ref (sorted_names ps))))"

section \<open>The task and what it spawns\<close>

text \<open>
  The service with the work in flight: pairing attempts with the window and the code they were
  started for, dials, connections the accept loop has let through, and completed joins.
\<close>

record world =
  wo_sv :: service
  wo_attempts :: "(u64 \<times> string \<times> Conn) list"
  wo_dials :: "EndpointId list"
  wo_accepted :: "Conn list"
  wo_joined :: "(EndpointId \<times> EndpointAddr) list"

text \<open>What does not change: the node, its side of the pairing exchange, the TOML reader.\<close>

record net =
  nt_env :: mesh_env
  nt_hash :: "u8 list \<Rightarrow> string \<Rightarrow> u8 list"
  nt_party :: party
  nt_from :: "string \<Rightarrow> peers option"

definition codec :: "net \<Rightarrow> store_env \<Rightarrow> bool" where
  "codec net sto \<longleftrightarrow> se_from_toml sto = nt_from net \<and> toml_round_trips sto"

fun spawn1 :: "mesh_effect \<Rightarrow> world \<Rightarrow> world" where
  "spawn1 (StartAttempt wid code conn _) w = w\<lparr>wo_attempts := wo_attempts w @ [(wid, code, conn)]\<rparr>"
| "spawn1 (StartDial peer _) w = w\<lparr>wo_dials := wo_dials w @ [peer]\<rparr>"
| "spawn1 _ w = w"

definition handled :: "service \<times> mesh_effect list \<Rightarrow> world \<Rightarrow> world" where
  "handled r w = fold spawn1 (snd r) (w\<lparr>wo_sv := fst r\<rparr>)"

definition session_ended :: "EndpointId \<Rightarrow> nat \<Rightarrow> service \<Rightarrow> service" where
  "session_ended peer stable_id s = (case sv_sessions s peer of
     Some session \<Rightarrow> if cn_stable_id (ss_conn session) = stable_id
       then s\<lparr>sv_sessions := (sv_sessions s)(peer := None)\<rparr> else s
   | None \<Rightarrow> s)"

definition joined_peer :: "mesh_env \<Rightarrow> store_env \<Rightarrow> EndpointId \<Rightarrow> EndpointAddr \<Rightarrow> service \<Rightarrow> service \<times> mesh_effect list" where
  "joined_peer env sto peer addr s = ensure_session env sto peer
     (s\<lparr>sv_known_addrs := (sv_known_addrs s)(peer \<mapsto> addr), sv_reconnect := (sv_reconnect s)(peer := None)\<rparr>)"

definition dial_done ::
    "mesh_env \<Rightarrow> store_env \<Rightarrow> instant \<Rightarrow> EndpointId \<Rightarrow> Conn option \<Rightarrow> service \<Rightarrow> service \<times> mesh_effect list" where
  "dial_done env sto now peer conn s =
     (let s = s\<lparr>sv_dialing := sv_dialing s - {peer}\<rparr> in
      case conn of Some conn \<Rightarrow> adopt_conn env sto conn True s | None \<Rightarrow> (note_dial_failure now peer s, []))"

definition peer_discovered ::
    "mesh_env \<Rightarrow> store_env \<Rightarrow> EndpointId \<Rightarrow> EndpointAddr \<Rightarrow> service \<Rightarrow> service \<times> mesh_effect list" where
  "peer_discovered env sto peer addr s =
     (if peer = mv_own env then (s, [])
      else
        let s = s\<lparr>sv_discovered := (sv_discovered s)(peer \<mapsto> addr)\<rparr> in
        if contains sto peer (sv_disk s) = Ok True
        then ensure_session env sto peer
          (s\<lparr>sv_known_addrs := (sv_known_addrs s)(peer \<mapsto> addr), sv_reconnect := (sv_reconnect s)(peer := None)\<rparr>)
        else (s, []))"

definition discovery_expired :: "EndpointId \<Rightarrow> service \<Rightarrow> service" where
  "discovery_expired peer s = s\<lparr>sv_discovered := (sv_discovered s)(peer := None)\<rparr>"

text \<open>
  One step: a message is handled, or a task outside the service task changes what it shares.
  A message of a spawned task can only come from one in flight. The live map is written by the
  session tasks at any time and is left arbitrary.
\<close>

inductive mesh_step :: "net \<Rightarrow> world \<Rightarrow> world \<Rightarrow> bool" for net where
  start_pairing: "pair_start (nt_env net) now generated (wo_sv w) = (r, s, es) \<Longrightarrow> mesh_step net w (handled (s, es) w)"
| pairing_dialed: "accept_incoming sto AlpnPair conn (sv_disk (wo_sv w)) = ToPairing \<Longrightarrow>
    mesh_step net w (handled (wo_sv w, incoming_pair now conn (wo_sv w)) w)"
| attempt_done: "wo_attempts w = xs @ (wid, code, conn) # ys \<Longrightarrow> codec net sto \<Longrightarrow> macs_ok (wi_in wire) \<Longrightarrow>
    wi_out wire = [] \<Longrightarrow>
    result = fst (host_attempt (nt_hash net) (nt_party net) (cn_remote conn) code wire)
      \<or> result = Err (Timeout ''pairing attempt'' secs) \<Longrightarrow>
    mesh_step net w (handled (pair_host_done (nt_env net) sto shown wid result observed (wo_sv w))
      (w\<lparr>wo_attempts := xs @ ys\<rparr>))"
| window_timer: "mesh_step net w (handled (window_timeout wid (wo_sv w)) w)"
| join: "codec net sto \<Longrightarrow>
    (\<And>addr c outcome. join addr c = Ok outcome \<Longrightarrow> \<exists>wire. macs_ok (wi_in wire) \<and> wi_out wire = []
       \<and> fst (joiner_attempt (nt_hash net) (nt_party net) (ea_id addr) c wire) = Ok outcome) \<Longrightarrow>
    do_pair_join sto parse_ticket join parts target code candidates (sv_disk (wo_sv w)) = (r, dk) \<Longrightarrow>
    mesh_step net w (w\<lparr>wo_sv := (wo_sv w)\<lparr>sv_disk := dk\<rparr>,
      wo_joined := wo_joined w @ (case r of Ok (_, peer, addr) \<Rightarrow> [(peer, addr)] | _ \<Rightarrow> [])\<rparr>)"
| joined: "wo_joined w = xs @ (peer, addr) # ys \<Longrightarrow> codec net sto \<Longrightarrow>
    mesh_step net w (handled (joined_peer (nt_env net) sto peer addr (wo_sv w)) (w\<lparr>wo_joined := xs @ ys\<rparr>))"
| mesh_dialed: "codec net sto \<Longrightarrow> accept_incoming sto AlpnMesh conn (sv_disk (wo_sv w)) = ToMesh \<Longrightarrow>
    mesh_step net w (w\<lparr>wo_accepted := wo_accepted w @ [conn]\<rparr>)"
| incoming_mesh: "wo_accepted w = xs @ conn # ys \<Longrightarrow> codec net sto \<Longrightarrow>
    mesh_step net w (handled (adopt_conn (nt_env net) sto conn False (wo_sv w)) (w\<lparr>wo_accepted := xs @ ys\<rparr>))"
| dialed: "wo_dials w = xs @ peer # ys \<Longrightarrow> codec net sto \<Longrightarrow> (\<And>c. conn = Some c \<Longrightarrow> cn_remote c = peer) \<Longrightarrow>
    mesh_step net w (handled (dial_done (nt_env net) sto now peer conn (wo_sv w)) (w\<lparr>wo_dials := xs @ ys\<rparr>))"
| tick: "codec net sto \<Longrightarrow> mesh_step net w (handled (reconnect_tick (nt_env net) sto now (wo_sv w)) w)"
| try_dial: "codec net sto \<Longrightarrow> mesh_step net w (handled (ensure_session (nt_env net) sto peer (wo_sv w)) w)"
| discovered: "codec net sto \<Longrightarrow> mesh_step net w (handled (peer_discovered (nt_env net) sto peer addr (wo_sv w)) w)"
| expired: "mesh_step net w (w\<lparr>wo_sv := discovery_expired peer (wo_sv w)\<rparr>)"
| unpaired: "codec net sto \<Longrightarrow> unpair (nt_env net) sto name (wo_sv w) = (r, s, es) \<Longrightarrow> mesh_step net w (handled (s, es) w)"
| session_opens: "codec net sto \<Longrightarrow> sv_sessions (wo_sv w) peer = Some session \<Longrightarrow>
    open_session sto ours peer name hello addressing unix (sv_disk (wo_sv w)) (sv_live (wo_sv w)) = (ending, dk, live, events) \<Longrightarrow>
    mesh_step net w (w\<lparr>wo_sv := (wo_sv w)\<lparr>sv_disk := dk, sv_live := live\<rparr>\<rparr>)"
| session_finishes: "sv_sessions (wo_sv w) peer = Some session \<Longrightarrow>
    mesh_step net w (w\<lparr>wo_sv := (wo_sv w)\<lparr>sv_sessions := (sv_sessions (wo_sv w))(peer \<mapsto> session\<lparr>ss_finished := True\<rparr>)\<rparr>\<rparr>)"
| session_gone: "mesh_step net w (w\<lparr>wo_sv := session_ended peer stable_id (wo_sv w)\<rparr>)"
| live_changes: "mesh_step net w (w\<lparr>wo_sv := (wo_sv w)\<lparr>sv_live := live\<rparr>\<rparr>)"

definition service_new :: "disk \<Rightarrow> service" where
  "service_new dk = \<lparr>sv_disk = dk, sv_live = Map.empty, sv_window = None, sv_window_seq = 0, sv_sessions = Map.empty,
     sv_dialing = {}, sv_discovered = Map.empty, sv_known_addrs = Map.empty, sv_reconnect = Map.empty\<rparr>"

definition boot :: "disk \<Rightarrow> world" where
  "boot dk = \<lparr>wo_sv = service_new dk, wo_attempts = [], wo_dials = [], wo_accepted = [], wo_joined = []\<rparr>"

definition members :: "net \<Rightarrow> world \<Rightarrow> string set" where
  "members net w = (case stored (nt_from net) (sv_disk (wo_sv w)) of Some ps \<Rightarrow> fst ` set ps | None \<Rightarrow> {})"

text \<open>A life of the service from a start on a well-formed store, with every peer it ever stored.\<close>

inductive mesh_run :: "net \<Rightarrow> nat \<Rightarrow> string set \<Rightarrow> world \<Rightarrow> bool" for net where
  boot: "stored (nt_from net) dk = Some ps \<Longrightarrow> store_ok ps \<Longrightarrow> mesh_run net 0 (fst ` set ps) (boot dk)"
| step: "mesh_run net n ever w \<Longrightarrow> mesh_step net w w' \<Longrightarrow> mesh_run net (Suc n) (ever \<union> members net w') w'"

section \<open>What the handlers leave alone\<close>

fun attempts_of :: "mesh_effect list \<Rightarrow> (u64 \<times> string \<times> Conn) list" where
  "attempts_of [] = []"
| "attempts_of (e # es) = (case e of StartAttempt wid code conn _ \<Rightarrow> [(wid, code, conn)] | _ \<Rightarrow> []) @ attempts_of es"

fun dials_of :: "mesh_effect list \<Rightarrow> EndpointId list" where
  "dials_of [] = []"
| "dials_of (e # es) = (case e of StartDial peer _ \<Rightarrow> [peer] | _ \<Rightarrow> []) @ dials_of es"

lemma effects_append [simp]:
  "attempts_of (xs @ ys) = attempts_of xs @ attempts_of ys" "dials_of (xs @ ys) = dials_of xs @ dials_of ys"
  by (induction xs) simp_all

lemma fold_spawn1:
  "wo_sv (fold spawn1 es w) = wo_sv w \<and> wo_attempts (fold spawn1 es w) = wo_attempts w @ attempts_of es
   \<and> wo_dials (fold spawn1 es w) = wo_dials w @ dials_of es \<and> wo_accepted (fold spawn1 es w) = wo_accepted w
   \<and> wo_joined (fold spawn1 es w) = wo_joined w"
proof (induction es arbitrary: w)
  case (Cons e es)
  then show ?case by (cases e) simp_all
qed simp

lemma handled_simps [simp]:
  "wo_sv (handled r w) = fst r" "wo_attempts (handled r w) = wo_attempts w @ attempts_of (snd r)"
  "wo_dials (handled r w) = wo_dials w @ dials_of (snd r)" "wo_accepted (handled r w) = wo_accepted w"
  "wo_joined (handled r w) = wo_joined w"
  by (simp_all add: handled_def fold_spawn1)

text \<open>The parts of the state that only pairing and unpairing touch.\<close>

definition same_pairing :: "service \<Rightarrow> service \<Rightarrow> bool" where
  "same_pairing s t \<longleftrightarrow> sv_disk t = sv_disk s \<and> sv_window t = sv_window s \<and> sv_window_seq t = sv_window_seq s"

lemma same_pairing_refl [simp]: "same_pairing s s"
  by (simp add: same_pairing_def)

lemma same_pairing_trans: "same_pairing s t \<Longrightarrow> same_pairing t u \<Longrightarrow> same_pairing s u"
  by (simp add: same_pairing_def)

definition stored_ids :: "(string \<Rightarrow> peers option) \<Rightarrow> disk \<Rightarrow> string set" where
  "stored_ids from dk = (case stored from dk of Some ps \<Rightarrow> fst ` set ps | None \<Rightarrow> {})"

lemma load_stored_ids: "load sto dk = Ok ps \<Longrightarrow> fst ` set ps = stored_ids (se_from_toml sto) dk"
  by (simp add: load_stored stored_ids_def)

lemma load_member: "load sto dk = Ok ps \<Longrightarrow> map_of ps i = Some r \<Longrightarrow> i \<in> stored_ids (se_from_toml sto) dk"
  by (metis domI dom_map_of_conv_image_fst load_stored_ids)

lemma contains_stored_ids: "contains sto i dk = Ok True \<Longrightarrow> i \<in> stored_ids (se_from_toml sto) dk"
  by (auto simp: contains_def res_simps dest: load_stored_ids)

lemma ensure_session_effect:
  assumes "ensure_session env sto peer s = (t, es)"
  shows "same_pairing s t \<and> sv_sessions t = sv_sessions s \<and> attempts_of es = []
    \<and> set (dials_of es) \<subseteq> stored_ids (se_from_toml sto) (sv_disk s)"
  using assms
  by (auto simp: ensure_session_def same_pairing_def load_member split: if_splits res.splits option.splits)

lemma redial_all_effect:
  assumes "redial_all env sto now ks s = (t, es)"
  shows "same_pairing s t \<and> sv_sessions t = sv_sessions s \<and> attempts_of es = []
    \<and> set (dials_of es) \<subseteq> stored_ids (se_from_toml sto) (sv_disk s)"
  using assms
proof (induction ks arbitrary: s t es)
  case (Cons k ks)
  show ?case
  proof (cases "\<exists>peer. mv_parse env k = Some peer \<and> redial_due now s peer")
    case True
    then obtain peer where p: "mv_parse env k = Some peer" "redial_due now s peer" by blast
    obtain s1 es1 where e: "ensure_session env sto peer s = (s1, es1)" by fastforce
    obtain s2 es2 where r: "redial_all env sto now ks s1 = (s2, es2)" by fastforce
    have t: "t = s2" "es = es1 @ es2" using Cons.prems p e r by auto
    show ?thesis
      using ensure_session_effect [OF e] Cons.IH [OF r] unfolding t
      by (auto simp: same_pairing_def)
  next
    case False
    then have "redial_all env sto now ks s = (t, es)" using Cons.prems by (auto split: option.splits if_splits)
    then show ?thesis by (rule Cons.IH)
  qed
qed simp

lemma adopt_conn_effect:
  assumes "adopt_conn env sto conn dialer s = (t, es)"
  shows "same_pairing s t \<and> attempts_of es = [] \<and> dials_of es = []
    \<and> (sv_sessions t = sv_sessions s \<or> cn_remote conn \<noteq> mv_own env
        \<and> sv_sessions t = (sv_sessions s)(cn_remote conn \<mapsto> \<lparr>ss_conn = conn, ss_dialer = dialer, ss_finished = False\<rparr>))"
  using assms
  by (auto simp: adopt_conn_def same_pairing_def Let_def split: if_splits option.splits)

lemma reconnect_tick_effect:
  assumes "reconnect_tick env sto now s = (t, es)"
  shows "same_pairing s t \<and> sv_sessions t = sv_sessions s \<and> attempts_of es = []
    \<and> set (dials_of es) \<subseteq> stored_ids (se_from_toml sto) (sv_disk s)"
  using assms redial_all_effect by (auto simp: reconnect_tick_def split: res.splits)

text \<open>The same for the handlers built from these.\<close>

lemma ensure_session_frame [simp]:
  "sv_disk (fst (ensure_session env sto peer s)) = sv_disk s"
  "sv_window (fst (ensure_session env sto peer s)) = sv_window s"
  "sv_window_seq (fst (ensure_session env sto peer s)) = sv_window_seq s"
  "sv_sessions (fst (ensure_session env sto peer s)) = sv_sessions s"
  "attempts_of (snd (ensure_session env sto peer s)) = []"
  using ensure_session_effect [of env sto peer s] by (cases "ensure_session env sto peer s"; simp add: same_pairing_def)+

lemma ensure_session_dials:
  "set (dials_of (snd (ensure_session env sto peer s))) \<subseteq> stored_ids (se_from_toml sto) (sv_disk s)"
  using ensure_session_effect [of env sto peer s] by (cases "ensure_session env sto peer s") simp

lemma adopt_conn_frame [simp]:
  "sv_disk (fst (adopt_conn env sto conn dialer s)) = sv_disk s"
  "sv_window (fst (adopt_conn env sto conn dialer s)) = sv_window s"
  "sv_window_seq (fst (adopt_conn env sto conn dialer s)) = sv_window_seq s"
  "attempts_of (snd (adopt_conn env sto conn dialer s)) = []"
  "dials_of (snd (adopt_conn env sto conn dialer s)) = []"
  using adopt_conn_effect [of env sto conn dialer s] by (cases "adopt_conn env sto conn dialer s"; simp add: same_pairing_def)+

lemma dial_done_frame [simp]:
  "sv_disk (fst (dial_done env sto now peer conn s)) = sv_disk s"
  "sv_window (fst (dial_done env sto now peer conn s)) = sv_window s"
  "sv_window_seq (fst (dial_done env sto now peer conn s)) = sv_window_seq s"
  "attempts_of (snd (dial_done env sto now peer conn s)) = []"
  "dials_of (snd (dial_done env sto now peer conn s)) = []"
  by (simp_all add: dial_done_def note_dial_failure_def Let_def split: option.splits)

lemma joined_peer_frame [simp]:
  "sv_disk (fst (joined_peer env sto peer addr s)) = sv_disk s"
  "sv_window (fst (joined_peer env sto peer addr s)) = sv_window s"
  "sv_window_seq (fst (joined_peer env sto peer addr s)) = sv_window_seq s"
  "sv_sessions (fst (joined_peer env sto peer addr s)) = sv_sessions s"
  "attempts_of (snd (joined_peer env sto peer addr s)) = []"
  by (simp_all add: joined_peer_def)

lemma peer_discovered_frame [simp]:
  "sv_disk (fst (peer_discovered env sto peer addr s)) = sv_disk s"
  "sv_window (fst (peer_discovered env sto peer addr s)) = sv_window s"
  "sv_window_seq (fst (peer_discovered env sto peer addr s)) = sv_window_seq s"
  "sv_sessions (fst (peer_discovered env sto peer addr s)) = sv_sessions s"
  "attempts_of (snd (peer_discovered env sto peer addr s)) = []"
  by (simp_all add: peer_discovered_def Let_def)

lemma reconnect_tick_frame [simp]:
  "sv_disk (fst (reconnect_tick env sto now s)) = sv_disk s"
  "sv_window (fst (reconnect_tick env sto now s)) = sv_window s"
  "sv_window_seq (fst (reconnect_tick env sto now s)) = sv_window_seq s"
  "sv_sessions (fst (reconnect_tick env sto now s)) = sv_sessions s"
  "attempts_of (snd (reconnect_tick env sto now s)) = []"
  using reconnect_tick_effect [of env sto now s] by (cases "reconnect_tick env sto now s"; simp add: same_pairing_def)+

lemma handler_dials:
  "set (dials_of (snd (joined_peer env sto peer addr s))) \<subseteq> stored_ids (se_from_toml sto) (sv_disk s)"
  "set (dials_of (snd (peer_discovered env sto peer addr s))) \<subseteq> stored_ids (se_from_toml sto) (sv_disk s)"
  "set (dials_of (snd (reconnect_tick env sto now s))) \<subseteq> stored_ids (se_from_toml sto) (sv_disk s)"
proof -
  show "set (dials_of (snd (joined_peer env sto peer addr s))) \<subseteq> stored_ids (se_from_toml sto) (sv_disk s)"
    using ensure_session_dials [of env sto peer] unfolding joined_peer_def by (rule order_trans) simp
  have "set (dials_of (snd (ensure_session env sto peer
      (s\<lparr>sv_discovered := a, sv_known_addrs := b, sv_reconnect := c\<rparr>)))) \<subseteq> stored_ids (se_from_toml sto) (sv_disk s)" for a b c
    using ensure_session_dials [of env sto peer] by (rule order_trans) simp
  then show "set (dials_of (snd (peer_discovered env sto peer addr s))) \<subseteq> stored_ids (se_from_toml sto) (sv_disk s)"
    by (simp add: peer_discovered_def Let_def)
  show "set (dials_of (snd (reconnect_tick env sto now s))) \<subseteq> stored_ids (se_from_toml sto) (sv_disk s)"
    using reconnect_tick_effect [of env sto now s] by (cases "reconnect_tick env sto now s") simp
qed

section \<open>Who gets into the store\<close>

definition disk_ok :: "net \<Rightarrow> disk \<Rightarrow> bool" where
  "disk_ok net dk \<longleftrightarrow> (\<exists>ps. stored (nt_from net) dk = Some ps \<and> store_ok ps)"

abbreviation ids :: "net \<Rightarrow> disk \<Rightarrow> string set" where
  "ids net dk \<equiv> stored_ids (nt_from net) dk"

lemma members_ids: "members net w = ids net (sv_disk (wo_sv w))"
  by (simp add: members_def stored_ids_def)

lemma run_op_ids:
  assumes "codec net sto" "disk_ok net dk"
  shows "disk_ok net (run_op (sto, op) dk)
    \<and> ids net (run_op (sto, op) dk) \<subseteq> (case op of AddPeer i w \<Rightarrow> insert i (ids net dk) | _ \<Rightarrow> ids net dk)"
proof -
  from assms obtain ps where s: "se_from_toml sto = nt_from net" "toml_round_trips sto"
      "stored (se_from_toml sto) dk = Some ps" "store_ok ps"
    by (auto simp: codec_def disk_ok_def)
  then obtain ps' where p: "stored (nt_from net) (run_op (sto, op) dk) = Some ps'" "store_ok ps'" "members_after op ps ps'"
    using run_op_stored [of sto dk ps op] by auto
  have "fst ` set ps' \<subseteq> (case op of AddPeer i w \<Rightarrow> insert i (fst ` set ps) | _ \<Rightarrow> fst ` set ps)"
  proof (cases op)
    case (RemoveByName n)
    then show ?thesis using p(3) by (auto simp: members_after_def bt_remove_def)
  next
    case (UpdateAddrs i d u)
    then show ?thesis using p(3) by (simp add: members_after_def) (metis image_set order_refl)
  next
    case (UpdateHello i d u)
    then show ?thesis using p(3) by (simp add: members_after_def) (metis image_set order_refl)
  qed (use p(3) in \<open>auto simp: members_after_def\<close>)
  then show ?thesis using p s by (auto simp: disk_ok_def stored_ids_def split: store_op.splits)
qed

lemmas op_ids =
  run_op_ids [where op = "AddPeer i w" for i w, unfolded run_op.simps store_op.case]
  run_op_ids [where op = "UpdateAddrs i d r" for i d r, unfolded run_op.simps store_op.case]
  run_op_ids [where op = "UpdateHello i p e" for i p e, unfolded run_op.simps store_op.case]
  run_op_ids [where op = "RemoveByName n" for n, unfolded run_op.simps store_op.case]

lemma pair_host_done_cases:
  assumes "pair_host_done env sto shown wid result observed s = (t, es)" "codec net sto" "disk_ok net (sv_disk s)"
  shows "disk_ok net (sv_disk t) \<and> sv_sessions t = sv_sessions s \<and> sv_window_seq t = sv_window_seq s
    \<and> attempts_of es = [] \<and> set (dials_of es) \<subseteq> ids net (sv_disk t)
    \<and> (\<forall>w. sv_window t = Some w \<longrightarrow> (\<exists>v. sv_window s = Some v \<and> wd_id w = wd_id v \<and> wd_code w = wd_code v
         \<and> (w = v \<or> wd_attempts_left w = sub32 (wd_attempts_left v) 1 \<and> wd_attempts_left w \<noteq> 0)))
    \<and> (ids net (sv_disk t) \<subseteq> ids net (sv_disk s)
       \<or> (\<exists>w outcome. sv_window s = Some w \<and> wd_id w = wid \<and> result = Ok outcome
           \<and> ids net (sv_disk t) \<subseteq> insert (po_peer_id outcome) (ids net (sv_disk s))))"
proof (cases "\<exists>w outcome. sv_window s = Some w \<and> wd_id w = wid \<and> result = Ok outcome")
  case True
  then obtain w outcome where w: "sv_window s = Some w" "wd_id w = wid" "result = Ok outcome" by blast
  let ?p = "po_peer_id outcome"
  obtain r dk1 where a: "add_peer sto ?p (po_node_name outcome) (sv_disk s) = (r, dk1)" by fastforce
  note d1 = op_ids(1) [OF assms(2,3), of ?p "po_node_name outcome", unfolded a snd_conv]
  show ?thesis
  proof (cases r)
    case (Ok name)
    define dk2 where "dk2 = snd (update_addrs sto ?p (fst observed) (snd observed) dk1)"
    note d2 = op_ids(2) [OF assms(2) conjunct1 [OF d1], of ?p "fst observed" "snd observed", folded dk2_def]
    define u where "u = s\<lparr>sv_disk := dk2, sv_window := None, sv_reconnect := (sv_reconnect s)(?p := None)\<rparr>"
    obtain t' es' where e: "ensure_session env sto ?p u = (t', es')" by fastforce
    then have t: "t = t'" "dials_of es = dials_of es'" "attempts_of es = attempts_of es'"
      using assms(1) w a Ok by (auto simp: pair_host_done_def Let_def u_def dk2_def)
    have "same_pairing u t" "sv_sessions t = sv_sessions u" "attempts_of es = []"
      "set (dials_of es) \<subseteq> ids net (sv_disk u)"
      using ensure_session_effect [OF e] assms(2) by (auto simp: t codec_def)
    then show ?thesis using d1 d2 w by (auto simp: same_pairing_def u_def)
  qed (use assms(1) w a d1 in \<open>auto simp: pair_host_done_def Let_def\<close>)
next
  case False
  then show ?thesis
    using assms by (auto simp: pair_host_done_def Let_def split: option.splits if_splits res.splits)
qed

lemma validate_code_fixed: "validate_code raw = Ok c \<Longrightarrow> validate_code c = Ok c"
  by (auto simp: validate_code_def Let_def trim_digits split: if_splits)

lemma persist_join_ids:
  assumes "persist_join sto direct relay outcome addr dk = (r, dk')" "codec net sto" "disk_ok net dk"
  shows "disk_ok net dk' \<and> ids net dk' \<subseteq> insert (po_peer_id outcome) (ids net dk)"
proof -
  obtain q dk1 where a: "add_peer sto (po_peer_id outcome) (po_node_name outcome) dk = (q, dk1)" by fastforce
  note d1 = op_ids(1) [OF assms(2,3), of "po_peer_id outcome" "po_node_name outcome", unfolded a snd_conv]
  note d2 = op_ids(2) [OF assms(2) conjunct1 [OF d1], of "po_peer_id outcome" direct relay]
  show ?thesis
  proof (cases q)
    case (Ok name)
    then show ?thesis using assms(1) a d1 d2 by (auto simp: persist_join_def)
  qed (use assms(1) a d1 in \<open>auto simp: persist_join_def\<close>)
qed

lemma join_candidates_ids:
  assumes "join_candidates sto join parts c last_err addrs dk = (r, dk')" "codec net sto" "disk_ok net dk"
  shows "disk_ok net dk' \<and> (ids net dk' \<subseteq> ids net dk
    \<or> (\<exists>addr outcome. join addr c = Ok outcome \<and> ids net dk' \<subseteq> insert (po_peer_id outcome) (ids net dk)))"
  using assms
proof (induction addrs arbitrary: last_err)
  case (Cons addr addrs)
  show ?case
  proof (cases "join addr c")
    case (Ok outcome)
    then show ?thesis using Cons.prems persist_join_ids [OF _ assms(2,3)] by fastforce
  qed (use Cons in auto)
qed simp

lemma do_pair_join_ids:
  assumes "do_pair_join sto parse_ticket join parts target code candidates dk = (r, dk')" "codec net sto" "disk_ok net dk"
  shows "disk_ok net dk' \<and> (ids net dk' \<subseteq> ids net dk
    \<or> (\<exists>addr c outcome. validate_code c = Ok c \<and> join addr c = Ok outcome
        \<and> ids net dk' \<subseteq> insert (po_peer_id outcome) (ids net dk)))"
proof (cases target)
  case (TargetTicket raw)
  show ?thesis
  proof (cases "\<exists>addr c d outcome. code = Some c \<and> validate_code c = Ok d \<and> join addr d = Ok outcome
      \<and> persist_join sto (fst (parts addr)) (snd (parts addr)) outcome addr dk = (r, dk')")
    case True
    then obtain addr c d outcome where "validate_code c = Ok d" "join addr d = Ok outcome"
        "persist_join sto (fst (parts addr)) (snd (parts addr)) outcome addr dk = (r, dk')" by blast
    then show ?thesis using persist_join_ids [OF _ assms(2,3)] validate_code_fixed by blast
  next
    case False
    then have "dk' = dk"
      using assms(1) TargetTicket by (auto simp: do_pair_join_def split: option.splits res.splits)
    then show ?thesis using assms(3) by simp
  qed
next
  case (TargetCode raw)
  then show ?thesis
    using assms join_candidates_ids [OF _ assms(2,3)] validate_code_fixed
    by (auto simp: do_pair_join_def split: res.splits if_splits) blast+
qed

text \<open>What a joiner has checked of the host it pairs with.\<close>

definition host_proof_presented ::
    "(u8 list \<Rightarrow> string \<Rightarrow> u8 list) \<Rightarrow> party \<Rightarrow> string \<Rightarrow> string \<Rightarrow> (PairMessage, MeshError) res list \<Rightarrow> bool" where
  "host_proof_presented kh me peer_id code ms \<longleftrightarrow>
     (\<exists>body mac rs key. ms = Ok (Pake body) # Ok (Confirm mac) # rs
        \<and> pk_finish (pt_pake me) code PAIR_CONFIRM_CONTEXT body = Some key
        \<and> mac = confirm_mac kh key Host (pt_id me) peer_id)"

lemma joiner_attempt_Ok:
  assumes "fst (joiner_attempt kh me peer_id code w) = Ok x" "hash_ok kh" "pake_ok (pt_pake me)" "macs_ok (wi_in w)"
  shows "po_peer_id x = peer_id \<and> host_proof_presented kh me peer_id code (wi_in w)"
proof -
  obtain w' where "joiner_attempt kh me peer_id code w = (Ok x, w')" using assms(1) by (cases "joiner_attempt kh me peer_id code w") auto
  then obtain body rs mac key where m: "wi_in w = Ok (Pake body) # Ok (Confirm mac) # rs"
      "pk_finish (pt_pake me) code PAIR_CONFIRM_CONTEXT body = Some key" "length key = 32"
      "ct_eq mac (confirm_mac kh key Host (pt_id me) peer_id)" "po_peer_id x = peer_id"
    by (auto simp: joiner_attempt_def io_Ok Let_def outcome_of_def split: if_splits)
  moreover have "bytes32 key" using m(2,3) assms(3) by (auto simp: pake_ok_def bytes32_def)
  moreover have "length mac = 32" using m(1) assms(4) by (simp add: macs_ok_def)
  ultimately show ?thesis using ct_eq_mac [OF assms(2)] by (auto simp: host_proof_presented_def)
qed

lemma host_attempt_Ok:
  assumes "fst (host_attempt kh me peer_id code w) = Ok x" "hash_ok kh" "pake_ok (pt_pake me)" "macs_ok (wi_in w)"
  shows "po_peer_id x = peer_id \<and> proof_presented kh me peer_id code (wi_in w)"
proof -
  obtain w' where "host_attempt kh me peer_id code w = (Ok x, w')" using assms(1) by (cases "host_attempt kh me peer_id code w") auto
  from this assms(2,4,3) show ?thesis by (cases rule: host_attempt_cases) auto
qed

lemma unpair_effect:
  assumes "unpair env sto name s = (r, t, es)" "codec net sto" "disk_ok net (sv_disk s)"
  shows "disk_ok net (sv_disk t) \<and> ids net (sv_disk t) \<subseteq> ids net (sv_disk s) \<and> sv_window t = sv_window s
    \<and> sv_window_seq t = sv_window_seq s \<and> (\<forall>p. sv_sessions t p \<noteq> None \<longrightarrow> sv_sessions t p = sv_sessions s p)
    \<and> attempts_of es = [] \<and> dials_of es = []"
proof -
  obtain q dk1 where a: "remove_by_name sto name (sv_disk s) = (q, dk1)" by fastforce
  note d = op_ids(4) [OF assms(2,3), of name, unfolded a snd_conv]
  show ?thesis
    using assms(1) a d by (auto simp: unpair_def split: res.splits option.splits if_splits)
qed

lemma open_session_ids:
  assumes "open_session sto ours peer name hello addressing unix dk live = (ending, dk', live', events)"
    "codec net sto" "disk_ok net dk"
  shows "disk_ok net dk' \<and> ids net dk' \<subseteq> ids net dk"
proof (cases hello)
  case (Ok theirs)
  let ?d1 = "snd (update_hello sto peer (h_product_version theirs) (h_engine_build theirs) dk)"
  note d1 = op_ids(3) [OF assms(2,3), of peer "h_product_version theirs" "h_engine_build theirs"]
  note d2 = op_ids(2) [OF assms(2) conjunct1 [OF d1], of peer "fst addressing" "snd addressing"]
  have "dk' = ?d1 \<or> dk' = snd (update_addrs sto peer (fst addressing) (snd addressing) ?d1)"
    using assms(1) Ok by (cases addressing) (auto simp: open_session_def Let_def note_transition_def
        split: HandshakeVerdict.splits if_splits)
  then show ?thesis using d1 d2 by auto
qed (use assms in \<open>auto simp: open_session_def\<close>)

text \<open>How a peer gets into the store in one step.\<close>

definition newly_paired :: "net \<Rightarrow> world \<Rightarrow> string \<Rightarrow> bool" where
  "newly_paired net w i \<longleftrightarrow>
     (\<exists>wid code conn win (wire :: wire). (wid, code, conn) \<in> set (wo_attempts w) \<and> cn_remote conn = i
        \<and> sv_window (wo_sv w) = Some win \<and> wd_id win = wid
        \<and> proof_presented (nt_hash net) (nt_party net) i code (wi_in wire))
     \<or> (\<exists>c (wire :: wire). validate_code c = Ok c \<and> host_proof_presented (nt_hash net) (nt_party net) i c (wi_in wire))"

lemma mesh_step_store:
  assumes "mesh_step net w w'" "disk_ok net (sv_disk (wo_sv w))" "hash_ok (nt_hash net)" "pake_ok (pt_pake (nt_party net))"
  shows "disk_ok net (sv_disk (wo_sv w')) \<and> (\<forall>i \<in> members net w'. i \<in> members net w \<or> newly_paired net w i)"
  using assms(1)
proof (cases rule: mesh_step.cases)
  case (start_pairing now generated r s es)
  then have "sv_disk s = sv_disk (wo_sv w)" by (auto simp: pair_start_def Let_def split: if_splits option.splits res.splits)
  then show ?thesis using start_pairing assms(2) by (simp add: members_ids)
next
  case (attempt_done xs wid code conn ys sto wire result secs shown observed)
  obtain t es where d: "pair_host_done (nt_env net) sto shown wid result observed (wo_sv w) = (t, es)" by fastforce
  note e = pair_host_done_cases [OF d attempt_done(3) assms(2)]
  have "newly_paired net w (po_peer_id outcome)"
    if "result = Ok outcome" "sv_window (wo_sv w) = Some v" "wd_id v = wid" for outcome v
  proof -
    have h: "fst (host_attempt (nt_hash net) (nt_party net) (cn_remote conn) code wire) = Ok outcome"
      using attempt_done(6) that(1) by auto
    show ?thesis
      using host_attempt_Ok [OF h assms(3,4) attempt_done(4)] attempt_done(2) that by (auto simp: newly_paired_def)
  qed
  then show ?thesis using e d attempt_done(1) by (auto simp: members_ids)
next
  case (join sto join parse_ticket parts target code candidates r dk)
  note e = do_pair_join_ids [OF join(4,2) assms(2)]
  have "newly_paired net w (po_peer_id outcome)"
    if "validate_code c = Ok c" "join addr c = Ok outcome" for addr c outcome
    using join(3) [OF that(2)] joiner_attempt_Ok [OF _ assms(3,4)] that(1) unfolding newly_paired_def by metis
  then show ?thesis using e join(1) by (auto simp: members_ids)
next
  case (unpaired sto name r s es)
  then show ?thesis using unpair_effect [OF unpaired(3,2) assms(2)] by (auto simp: members_ids)
next
  case (session_opens sto peer session ours name hello addressing unix ending dk live events)
  then show ?thesis using open_session_ids [OF session_opens(4,2) assms(2)] by (auto simp: members_ids)
next
  case (window_timer wid)
  then show ?thesis using assms(2) by (auto simp: members_ids window_timeout_def split: option.splits if_splits)
qed (use assms(2) in \<open>auto simp: members_ids session_ended_def discovery_expired_def split: option.splits\<close>)

section \<open>The invariant\<close>

definition window_ok :: "world \<Rightarrow> bool" where
  "window_ok w \<longleftrightarrow> (\<forall>win. sv_window (wo_sv w) = Some win \<longrightarrow>
       1 \<le> wd_attempts_left win \<and> wd_attempts_left win \<le> 3 \<and> wd_id win \<le> sv_window_seq (wo_sv w)
       \<and> (\<forall>(wid, code, conn) \<in> set (wo_attempts w). wid = wd_id win \<longrightarrow> code = wd_code win))
     \<and> (\<forall>(wid, code, conn) \<in> set (wo_attempts w). wid \<le> sv_window_seq (wo_sv w))"

definition sessions_ok :: "net \<Rightarrow> string set \<Rightarrow> world \<Rightarrow> bool" where
  "sessions_ok net ever w \<longleftrightarrow> set (wo_dials w) \<subseteq> ever \<and> cn_remote ` set (wo_accepted w) \<subseteq> ever
     \<and> (\<forall>p ss. sv_sessions (wo_sv w) p = Some ss \<longrightarrow> p \<in> ever \<and> p \<noteq> mv_own (nt_env net) \<and> cn_remote (ss_conn ss) = p)"

lemma window_ok_mono:
  assumes "window_ok w" "set (wo_attempts w') \<subseteq> set (wo_attempts w)"
    "sv_window (wo_sv w') = sv_window (wo_sv w)" "sv_window_seq (wo_sv w') = sv_window_seq (wo_sv w)"
  shows "window_ok w'"
  using assms by (fastforce simp: window_ok_def)

lemma pair_start_effect:
  assumes "pair_start env now generated s = (r, t, es)" "sv_window_seq s + 1 < M64"
  shows "t = s \<and> es = [] \<or> (\<exists>code deadline. es = [StartWindowTimer (sv_window_seq s + 1) deadline]
    \<and> t = s\<lparr>sv_window_seq := sv_window_seq s + 1,
        sv_window := Some \<lparr>wd_id = sv_window_seq s + 1, wd_code = code, wd_attempts_left = 3, wd_deadline = deadline\<rparr>\<rparr>)"
proof -
  define k where "k = add64 (sv_window_seq s) 1"
  have "k = sv_window_seq s + 1" unfolding k_def using assms(2) by (rule add64_small)
  then show ?thesis
    using assms(1) unfolding pair_start_def Let_def PAIR_ATTEMPTS_def k_def [symmetric]
    by (simp split: if_splits option.splits res.splits) blast+
qed

lemma window_ok_step:
  assumes "mesh_step net w w'" "window_ok w" "disk_ok net (sv_disk (wo_sv w))" "sv_window_seq (wo_sv w) + 1 < M64"
  shows "window_ok w' \<and> sv_window_seq (wo_sv w') \<le> sv_window_seq (wo_sv w) + 1"
  using assms(1)
proof (cases rule: mesh_step.cases)
  case (start_pairing now generated r s es)
  have old: "wid \<le> sv_window_seq (wo_sv w)" if "(wid, code, conn) \<in> set (wo_attempts w)" for wid code conn
    using assms(2) that by (auto simp: window_ok_def)
  from pair_start_effect [OF start_pairing(2) assms(4)]
  consider "s = wo_sv w" "es = []"
    | code deadline where "es = [StartWindowTimer (sv_window_seq (wo_sv w) + 1) deadline]"
        "s = (wo_sv w)\<lparr>sv_window_seq := sv_window_seq (wo_sv w) + 1,
           sv_window := Some \<lparr>wd_id = sv_window_seq (wo_sv w) + 1, wd_code = code, wd_attempts_left = 3, wd_deadline = deadline\<rparr>\<rparr>"
    by blast
  then show ?thesis
  proof cases
    case 1
    then show ?thesis using assms(2) start_pairing(1) window_ok_mono [OF assms(2), of w'] by simp
  next
    case 2
    then show ?thesis using start_pairing(1) by (auto simp: window_ok_def dest: old)
  qed
next
  case (pairing_dialed sto conn now)
  then show ?thesis
    using assms(2) by (auto simp: incoming_pair_def window_ok_def split: if_splits option.splits)
next
  case (attempt_done xs wid code conn ys sto wire result secs shown observed)
  obtain t es where d: "pair_host_done (nt_env net) sto shown wid result observed (wo_sv w) = (t, es)" by fastforce
  note e = pair_host_done_cases [OF d attempt_done(3) assms(3)]
  have "1 \<le> wd_attempts_left win \<and> wd_attempts_left win \<le> 3 \<and> wd_id win \<le> sv_window_seq (wo_sv w)
      \<and> (\<forall>(wid, code, conn) \<in> set (xs @ ys). wid = wd_id win \<longrightarrow> code = wd_code win)"
    if win: "sv_window t = Some win" for win
  proof -
    obtain v where v: "sv_window (wo_sv w) = Some v" "wd_id win = wd_id v" "wd_code win = wd_code v"
        "win = v \<or> wd_attempts_left win = sub32 (wd_attempts_left v) 1 \<and> wd_attempts_left win \<noteq> 0"
      using e win by blast
    have o: "1 \<le> wd_attempts_left v" "wd_attempts_left v \<le> 3" "wd_id v \<le> sv_window_seq (wo_sv w)"
      "\<forall>(wid, code, conn) \<in> set (wo_attempts w). wid = wd_id v \<longrightarrow> code = wd_code v"
      using assms(2) v(1) by (auto simp: window_ok_def)
    then have "sub32 (wd_attempts_left v) 1 = wd_attempts_left v - 1" by (intro sub32_small) simp_all
    with v o show ?thesis using attempt_done(2) by auto
  qed
  moreover have "\<forall>(wid, code, conn) \<in> set (xs @ ys). wid \<le> sv_window_seq (wo_sv w)"
    using assms(2) attempt_done(2) by (auto simp: window_ok_def)
  ultimately show ?thesis using e d attempt_done(1) by (auto simp: window_ok_def)
next
  case (window_timer wid)
  then show ?thesis
    using assms(2) by (auto simp: window_timeout_def window_ok_def split: option.splits if_splits)
next
  case (unpaired sto name r s es)
  then show ?thesis
    using unpair_effect [OF unpaired(3,2) assms(3)] window_ok_mono [OF assms(2), of w'] by simp
qed (use window_ok_mono [OF assms(2), of w'] in \<open>auto simp: session_ended_def discovery_expired_def split: option.splits\<close>)

lemma sessions_ok_mono:
  assumes "sessions_ok net ever w" "set (wo_dials w') \<subseteq> ever'" "cn_remote ` set (wo_accepted w') \<subseteq> ever'"
    "\<And>p. sv_sessions (wo_sv w') p \<noteq> None \<Longrightarrow> \<exists>ss ss'. sv_sessions (wo_sv w') p = Some ss'
       \<and> sv_sessions (wo_sv w) p = Some ss \<and> ss_conn ss' = ss_conn ss" "ever \<subseteq> ever'"
  shows "sessions_ok net ever' w'"
proof -
  have "p \<in> ever' \<and> p \<noteq> mv_own (nt_env net) \<and> cn_remote (ss_conn ss) = p"
    if p: "sv_sessions (wo_sv w') p = Some ss" for p ss
  proof -
    have "sv_sessions (wo_sv w') p \<noteq> None" using p by simp
    from assms(4) [OF this] p obtain ss0 where "sv_sessions (wo_sv w) p = Some ss0" "ss_conn ss = ss_conn ss0" by auto
    then show ?thesis using assms(1,5) by (auto simp: sessions_ok_def)
  qed
  then show ?thesis using assms(2,3) by (simp add: sessions_ok_def)
qed

lemma adopt_conn_sessions:
  assumes "sessions_ok net ever w" "cn_remote conn \<in> ever"
    "sv_sessions (fst (adopt_conn (nt_env net) sto conn dialer s)) p = Some ss" "sv_sessions s = sv_sessions (wo_sv w)"
  shows "p \<in> ever \<and> p \<noteq> mv_own (nt_env net) \<and> cn_remote (ss_conn ss) = p"
proof -
  obtain t es where t: "adopt_conn (nt_env net) sto conn dialer s = (t, es)" by fastforce
  from adopt_conn_effect [OF t] assms t show ?thesis
    unfolding sessions_ok_def by (elim conjE disjE) (simp_all split: if_splits, auto)
qed

lemma codec_ids: "codec net sto \<Longrightarrow> stored_ids (se_from_toml sto) dk = ids net dk"
  by (simp add: codec_def)

lemma sessions_ok_step:
  assumes "mesh_step net w w'" "sessions_ok net ever w" "members net w \<subseteq> ever" "disk_ok net (sv_disk (wo_sv w))"
  shows "sessions_ok net (ever \<union> members net w') w'"
proof -
  note ok = assms(2) [unfolded sessions_ok_def]
  note mono = sessions_ok_mono [OF assms(2), of w' "ever \<union> members net w'"]
  have old: "ids net (sv_disk (wo_sv w)) \<subseteq> ever" using assms(3) by (simp add: members_ids)
  from assms(1) show ?thesis
  proof (cases rule: mesh_step.cases)
    case (start_pairing now generated r s es)
    then have "dials_of es = [] \<and> sv_sessions s = sv_sessions (wo_sv w)"
      by (auto simp: pair_start_def Let_def split: if_splits option.splits res.splits)
    then show ?thesis using start_pairing ok by (intro mono) auto
  next
    case (pairing_dialed sto conn now)
    then have "dials_of (incoming_pair now conn (wo_sv w)) = []"
      by (auto simp: incoming_pair_def split: option.splits)
    then show ?thesis using pairing_dialed ok by (intro mono) auto
  next
    case (attempt_done xs wid code conn ys sto wire result secs shown observed)
    obtain t es where d: "pair_host_done (nt_env net) sto shown wid result observed (wo_sv w) = (t, es)" by fastforce
    show ?thesis
      using pair_host_done_cases [OF d attempt_done(3) assms(4)] d attempt_done(1) ok
      by (intro mono) (auto simp: members_ids)
  next
    case (window_timer wid)
    then show ?thesis using ok by (intro mono) (auto simp: window_timeout_def split: option.splits if_splits)
  next
    case (joined xs peer addr ys sto)
    then show ?thesis
      using ok old handler_dials(1) [of "nt_env net" sto peer addr "wo_sv w", unfolded codec_ids [OF joined(3)]]
      by (intro mono) auto
  next
    case (mesh_dialed sto conn)
    then have "cn_remote conn \<in> ids net (sv_disk (wo_sv w))"
      using contains_stored_ids [of sto "cn_remote conn"] codec_ids [OF mesh_dialed(2)]
      by (auto simp: accept_incoming_def split: res.splits bool.splits)
    then show ?thesis using mesh_dialed ok old by (intro mono) auto
  next
    case (incoming_mesh xs conn ys sto)
    then have "cn_remote conn \<in> ever" using ok by auto
    then show ?thesis
      using incoming_mesh ok adopt_conn_sessions [OF assms(2) _ _ refl, of conn] by (auto simp: sessions_ok_def)
  next
    case (dialed xs peer ys sto conn now)
    show ?thesis
    proof (cases conn)
      case None
      then show ?thesis using dialed ok by (intro mono) (auto simp: dial_done_def note_dial_failure_def Let_def)
    next
      case (Some c)
      then have "cn_remote c \<in> ever" using dialed ok by auto
      then show ?thesis
        using dialed(1,2) Some ok adopt_conn_sessions [OF assms(2), of c sto True "(wo_sv w)\<lparr>sv_dialing := sv_dialing (wo_sv w) - {peer}\<rparr>"]
        by (auto simp: sessions_ok_def dial_done_def Let_def)
    qed
  next
    case (tick sto now)
    then show ?thesis
      using ok old handler_dials(3) [of "nt_env net" sto now "wo_sv w", unfolded codec_ids [OF tick(2)]]
      by (intro mono) auto
  next
    case (try_dial sto peer)
    then show ?thesis
      using ok old ensure_session_dials [of "nt_env net" sto peer "wo_sv w", unfolded codec_ids [OF try_dial(2)]]
      by (intro mono) auto
  next
    case (discovered sto peer addr)
    then show ?thesis
      using ok old handler_dials(2) [of "nt_env net" sto peer addr "wo_sv w", unfolded codec_ids [OF discovered(2)]]
      by (intro mono) auto
  next
    case (unpaired sto name r s es)
    then show ?thesis
      using unpair_effect [OF unpaired(3,2) assms(4)] ok by (intro mono) auto
  next
    case (session_gone peer stable_id)
    then show ?thesis using ok by (intro mono) (auto simp: session_ended_def split: option.splits if_splits)
  next
    case (expired peer)
    then show ?thesis using ok by (intro mono) (auto simp: discovery_expired_def)
  next
    case (session_opens sto peer session ours name hello addressing unix ending dk live events)
    then show ?thesis using ok by (intro mono) auto
  next
    case (session_finishes peer session)
    then show ?thesis using ok by (intro mono) (auto split: if_splits)
  next
    case (live_changes live)
    then show ?thesis using ok by (intro mono) auto
  next
    case (join sto join parse_ticket parts target code candidates r dk)
    then show ?thesis using ok by (intro mono) auto
  qed
qed

definition mesh_ok :: "net \<Rightarrow> nat \<Rightarrow> string set \<Rightarrow> world \<Rightarrow> bool" where
  "mesh_ok net n ever w \<longleftrightarrow> disk_ok net (sv_disk (wo_sv w)) \<and> members net w \<subseteq> ever \<and> window_ok w
     \<and> sv_window_seq (wo_sv w) \<le> n \<and> sessions_ok net ever w"

lemma mesh_run_ok:
  assumes "mesh_run net n ever w" "n < M64" "hash_ok (nt_hash net)" "pake_ok (pt_pake (nt_party net))"
  shows "mesh_ok net n ever w"
  using assms(1,2)
proof (induction rule: mesh_run.induct)
  case (boot dk ps)
  then show ?case
    by (auto simp: mesh_ok_def disk_ok_def members_def window_ok_def sessions_ok_def boot_def service_new_def)
next
  case (step n ever w w')
  then have ok: "mesh_ok net n ever w" by simp
  then have "sv_window_seq (wo_sv w) + 1 < M64" using step.prems by (simp add: mesh_ok_def)
  then show ?case
    using ok mesh_step_store [OF step.hyps(2) _ assms(3,4)] window_ok_step [OF step.hyps(2)]
      sessions_ok_step [OF step.hyps(2)] by (auto simp: mesh_ok_def)
qed

section \<open>Only proven peers are stored, strangers get no session\<close>


text \<open>C12: in any life of the mesh, every session is with a peer that was in the store at some point,
  never with this node itself, and runs on a connection that authenticated that peer.
\<close>

theorem strangers_get_no_session:
  assumes "mesh_run net n ever w" "n < M64" "hash_ok (nt_hash net)" "pake_ok (pt_pake (nt_party net))"
    and "sv_sessions (wo_sv w) p = Some ss"
  shows "p \<in> ever \<and> p \<noteq> mv_own (nt_env net) \<and> cn_remote (ss_conn ss) = p"
  using mesh_run_ok [OF assms(1-4)] assms(5) by (auto simp: mesh_ok_def sessions_ok_def)

text \<open>
  Not every session is with a peer that is still stored: a dial that completes after its peer was
  unpaired is adopted like any other.
\<close>

lemma unpair_outrun_by_a_dial:
  assumes "unpair env sto name s = (Ok (), t, es)" "sv_sessions t (cn_remote conn) = None" "cn_remote conn \<noteq> mv_own env"
  shows "sv_sessions (fst (dial_done env sto' now (cn_remote conn) (Some conn) t)) (cn_remote conn) =
    Some \<lparr>ss_conn = conn, ss_dialer = True, ss_finished = False\<rparr>"
  using assms by (simp add: dial_done_def adopt_conn_def Let_def)

section \<open>The attempt budget\<close>

text \<open>The results of the attempts of one window, in the order the task handles them.\<close>

definition handle_results ::
    "mesh_env \<Rightarrow> (MeshError \<Rightarrow> string) \<Rightarrow> u64 \<Rightarrow> (store_env \<times> (PairOutcome, MeshError) res \<times> Addressing) list \<Rightarrow> service \<Rightarrow> service" where
  "handle_results env shown wid rs s =
     fold (\<lambda>(sto, result, observed) s. fst (pair_host_done env sto shown wid result observed s)) rs s"

lemma handle_results_closed:
  "sv_window s = None \<Longrightarrow> handle_results env shown wid rs s = s"
  unfolding handle_results_def by (induction rs) (auto simp: pair_host_done_def)

lemma handle_results_failures:
  assumes "sv_window s = Some win" "1 \<le> wd_attempts_left win" "wd_attempts_left win \<le> 3"
    "\<forall>(sto, result, observed) \<in> set rs. \<exists>e. result = Err e" "wd_attempts_left win \<le> length rs"
  shows "handle_results env shown (wd_id win) rs s = s\<lparr>sv_window := None\<rparr>"
  using assms
proof (induction rs arbitrary: s win)
  case (Cons r rs)
  obtain sto result observed where r: "r = (sto, result, observed)" by (cases r)
  then obtain e where e: "result = Err e" using Cons.prems(4) by auto
  have left: "sub32 (wd_attempts_left win) 1 = wd_attempts_left win - 1"
    using Cons.prems(2,3) by (intro sub32_small) simp_all
  show ?case
  proof (cases "wd_attempts_left win = 1")
    case True
    then have "fst (pair_host_done env sto shown (wd_id win) result observed s) = s\<lparr>sv_window := None\<rparr>"
      using Cons.prems(1) e left by (simp add: pair_host_done_def Let_def)
    then show ?thesis
      using handle_results_closed [of "s\<lparr>sv_window := None\<rparr>" env shown "wd_id win" rs]
      by (simp add: handle_results_def r)
  next
    case False
    let ?win = "win\<lparr>wd_attempts_left := wd_attempts_left win - 1\<rparr>"
    have "fst (pair_host_done env sto shown (wd_id win) result observed s) = s\<lparr>sv_window := Some ?win\<rparr>"
      using Cons.prems(1,2) e left False by (simp add: pair_host_done_def Let_def)
    moreover have "handle_results env shown (wd_id ?win) rs (s\<lparr>sv_window := Some ?win\<rparr>) =
        (s\<lparr>sv_window := Some ?win\<rparr>)\<lparr>sv_window := None\<rparr>"
      using Cons.prems False by (intro Cons.IH) auto
    ultimately show ?thesis by (simp add: handle_results_def r)
  qed
qed simp

text \<open>C35: once as many failed attempts of a window were handled as it had left, three at most, the window
  is closed, and no result handled after that, success or failure, changes the service: a right
  guess that comes too late pairs nobody.
\<close>

theorem failures_close_the_window:
  assumes "sv_window s = Some win" "1 \<le> wd_attempts_left win" "wd_attempts_left win \<le> 3"
    "\<forall>(sto, result, observed) \<in> set failures. \<exists>e. result = Err e" "wd_attempts_left win \<le> length failures"
  shows "handle_results env shown (wd_id win) (failures @ results) s = s\<lparr>sv_window := None\<rparr>"
  using handle_results_failures [OF assms, of env shown]
    handle_results_closed [of "s\<lparr>sv_window := None\<rparr>" env shown "wd_id win" results]
  by (simp add: handle_results_def)

text \<open>
  But the budget counts failures when they are handled, not attempts when they start: while a
  window is open, any number of attempts can be in flight with the budget untouched.
\<close>

lemma attempts_outrun_the_budget:
  assumes "mesh_run net n ever w" "sv_window (wo_sv w) = Some win" "now < wd_deadline win" "0 < wd_attempts_left win"
  shows "\<exists>ever' w'. mesh_run net (n + k) ever' w' \<and> wo_sv w' = wo_sv w
    \<and> length (wo_attempts w') = length (wo_attempts w) + k"
proof (induction k)
  case 0
  then show ?case using assms(1) by auto
next
  case (Suc k)
  then obtain ever' w' where w: "mesh_run net (n + k) ever' w'" "wo_sv w' = wo_sv w"
      "length (wo_attempts w') = length (wo_attempts w) + k" by blast
  let ?w = "handled (wo_sv w', incoming_pair now conn (wo_sv w')) w'"
  have "mesh_step net w' ?w" for conn by (rule mesh_step.pairing_dialed) (simp add: accept_incoming_def)
  from mesh_run.step [OF w(1) this] have "mesh_run net (n + Suc k) (ever' \<union> members net ?w) ?w" for conn by simp
  moreover have "length (wo_attempts ?w) = length (wo_attempts w) + Suc k" "wo_sv ?w = wo_sv w" for conn
    using w assms(2-4) by (simp_all add: incoming_pair_def)
  ultimately show ?case by blast
qed

section \<open>Simultaneous connections\<close>

lemma str_cmp_Less_swap: "str_cmp a b = Less \<longleftrightarrow> str_cmp b a = Greater"
  by (auto simp: str_cmp_key cmp_def split: if_splits)

text \<open>One side handles both connections, its own dial and the other's, in either order.\<close>

definition adopt_both ::
    "mesh_env \<Rightarrow> store_env \<Rightarrow> store_env \<Rightarrow> Conn \<Rightarrow> Conn \<Rightarrow> bool \<Rightarrow> service \<Rightarrow> service" where
  "adopt_both env sto sto' out_conn in_conn own_first s =
     (if own_first
      then fst (adopt_conn env sto' in_conn False (fst (adopt_conn env sto out_conn True s)))
      else fst (adopt_conn env sto' out_conn True (fst (adopt_conn env sto in_conn False s))))"

lemma adopt_both_keeps:
  assumes "sv_sessions s peer = None" "cn_remote out_conn = peer" "cn_remote in_conn = peer" "peer \<noteq> mv_own env"
  shows "sv_sessions (adopt_both env sto sto' out_conn in_conn own_first s) peer =
    Some (if str_cmp (mv_own env) peer = Less
      then \<lparr>ss_conn = out_conn, ss_dialer = True, ss_finished = False\<rparr>
      else \<lparr>ss_conn = in_conn, ss_dialer = False, ss_finished = False\<rparr>)"
  using assms by (auto simp: adopt_both_def adopt_conn_def Let_def)

text \<open>C34: when two nodes dial each other at once, each ends up with one session, and both keep the same
  connection, the one the node with the lower id dialed, whichever order each of them sees the
  two connections in.
\<close>

theorem simultaneous_connect_agrees:
  assumes "mv_own ea \<noteq> mv_own eb" "sv_sessions sa (mv_own eb) = None" "sv_sessions sb (mv_own ea) = None"
    and "cn_remote a_out = mv_own eb" "cn_remote a_in = mv_own eb" "cn_remote b_out = mv_own ea" "cn_remote b_in = mv_own ea"
    and "str_cmp (mv_own ea) (mv_own eb) = Less"
  shows "sv_sessions (adopt_both ea sto1 sto2 a_out a_in first_a sa) (mv_own eb) =
      Some \<lparr>ss_conn = a_out, ss_dialer = True, ss_finished = False\<rparr>
    \<and> sv_sessions (adopt_both eb sto3 sto4 b_out b_in first_b sb) (mv_own ea) =
      Some \<lparr>ss_conn = b_in, ss_dialer = False, ss_finished = False\<rparr>"
  using assms(8) str_cmp_Less_swap [of "mv_own ea" "mv_own eb"]
    adopt_both_keeps [OF assms(2,4,5), of ea sto1 sto2 first_a] adopt_both_keeps [OF assms(3,6,7), of eb sto3 sto4 first_b]
    assms(1) by auto

section \<open>Backoff\<close>

definition dial_failures :: "EndpointId \<Rightarrow> instant list \<Rightarrow> service \<Rightarrow> service" where
  "dial_failures peer ats s = fold (\<lambda>now s. note_dial_failure now peer s) ats s"

text \<open>C36: after the \<open>k\<close>-th failed dial in a row the next one waits three seconds doubled \<open>k - 1\<close> times,
  thirty seconds at most, from the moment of that failure; the other peers' schedules are not
  touched.
\<close>

theorem backoff_doubles_to_the_cap:
  assumes "sv_reconnect s peer = None" "ats \<noteq> []"
  shows "\<exists>b. sv_reconnect (dial_failures peer ats s) peer = Some b
    \<and> bo_next_at b = last ats + min (3000000000 * 2 ^ (length ats - 1)) 30000000000
    \<and> (\<forall>p. p \<noteq> peer \<longrightarrow> sv_reconnect (dial_failures peer ats s) p = sv_reconnect s p)"
proof -
  have "\<exists>b. sv_reconnect (dial_failures peer ats s) peer = Some b
    \<and> bo_next_at b = last ats + min (3000000000 * 2 ^ (length ats - 1)) 30000000000
    \<and> bo_delay b = min (3000000000 * 2 ^ length ats) 30000000000
    \<and> (\<forall>p. p \<noteq> peer \<longrightarrow> sv_reconnect (dial_failures peer ats s) p = sv_reconnect s p)"
    using assms(2)
  proof (induction ats rule: rev_nonempty_induct)
    case (single t)
    then show ?case
      using assms(1)
      by (simp add: dial_failures_def note_dial_failure_def RECONNECT_BACKOFF_BASE_def RECONNECT_BACKOFF_CAP_def)
  next
    case (snoc t ats)
    then obtain b where b: "sv_reconnect (dial_failures peer ats s) peer = Some b"
        "bo_delay b = min (3000000000 * 2 ^ length ats) 30000000000"
        "\<forall>p. p \<noteq> peer \<longrightarrow> sv_reconnect (dial_failures peer ats s) p = sv_reconnect s p"
      by blast
    have f: "dial_failures peer (ats @ [t]) s = note_dial_failure t peer (dial_failures peer ats s)"
      by (simp add: dial_failures_def)
    have m: "min (min x c * 2) c = min (x * 2) c" for x c :: nat by (auto simp: min_def)
    show ?case
      unfolding f using b m [of "3000000000 * 2 ^ length ats" 30000000000]
      by (simp add: note_dial_failure_def RECONNECT_BACKOFF_CAP_def mult_ac)
  qed
  then show ?thesis by blast
qed

section \<open>Reconnecting\<close>

lemma ensure_session_dials_iff:
  assumes "load sto (sv_disk s) = Ok ps" "redial_due now s peer"
  shows "set (dials_of (snd (ensure_session env sto peer s))) =
      (if peer \<noteq> mv_own env \<and> map_of ps peer \<noteq> None \<and> state_of (sv_live s) peer \<noteq> Some Incompatible then {peer} else {})
    \<and> (\<forall>p. p \<noteq> peer \<longrightarrow> (redial_due now (fst (ensure_session env sto peer s)) p \<longleftrightarrow> redial_due now s p))
    \<and> sv_live (fst (ensure_session env sto peer s)) = sv_live s"
  using assms by (auto simp: ensure_session_def redial_due_def split: option.splits)

lemma redial_all_dials:
  assumes "load sto (sv_disk s) = Ok ps" "distinct ks" "\<forall>k \<in> set ks. mv_parse env k = Some k \<and> map_of ps k \<noteq> None"
  shows "set (dials_of (snd (redial_all env sto now ks s))) =
    {k \<in> set ks. redial_due now s k \<and> k \<noteq> mv_own env \<and> state_of (sv_live s) k \<noteq> Some Incompatible}"
  using assms
proof (induction ks arbitrary: s)
  case (Cons k ks)
  show ?case
  proof (cases "redial_due now s k")
    case True
    obtain t es where e: "ensure_session env sto k s = (t, es)" by fastforce
    note i = ensure_session_dials_iff [OF Cons.prems(1) True, of env, unfolded e fst_conv snd_conv]
    have "load sto (sv_disk t) = Ok ps"
      using Cons.prems(1) ensure_session_frame(1) [of env sto k s] e by simp
    then have "set (dials_of (snd (redial_all env sto now ks t))) =
        {k' \<in> set ks. redial_due now t k' \<and> k' \<noteq> mv_own env \<and> state_of (sv_live t) k' \<noteq> Some Incompatible}"
      using Cons.prems by (intro Cons.IH) auto
    moreover have "snd (redial_all env sto now (k # ks) s) = es @ snd (redial_all env sto now ks t)"
      using Cons.prems(3) True e by (simp split: prod.split)
    ultimately show ?thesis using i Cons.prems(2,3) True by auto
  next
    case False
    then have "redial_all env sto now (k # ks) s = redial_all env sto now ks s" using Cons.prems(3) by simp
    moreover have "set (dials_of (snd (redial_all env sto now ks s))) =
        {k' \<in> set ks. redial_due now s k' \<and> k' \<noteq> mv_own env \<and> state_of (sv_live s) k' \<noteq> Some Incompatible}"
      using Cons.prems by (intro Cons.IH) auto
    ultimately show ?thesis using False by auto
  qed
qed simp

text \<open>C37: a reconnect pass over a readable store dials exactly the stored peers that have no session, no
  dial under way and no backoff still running, leaving out this node and peers known to be
  incompatible.
\<close>

theorem reconnect_dials_every_due_peer:
  assumes "load sto (sv_disk s) = Ok ps" "store_ok ps" "\<forall>k \<in> fst ` set ps. mv_parse env k = Some k"
  shows "set (dials_of (snd (reconnect_tick env sto now s))) =
    {p \<in> fst ` set ps. redial_due now s p \<and> p \<noteq> mv_own env \<and> state_of (sv_live s) p \<noteq> Some Incompatible}"
  using redial_all_dials [OF assms(1), of "map fst ps" env now] assms bt_ok_distinct [of ps]
  by (auto simp: reconnect_tick_def store_ok_def map_of_eq_None_iff)

section \<open>The peer list\<close>

text \<open>The peer list has one row per stored peer with its stored id, name and versions, ordered by
  name, and fails exactly when the store cannot be read.
\<close>

theorem peer_statuses_rows:
  assumes "peer_statuses env sto s = r"
  shows "case load sto (sv_disk s) of
      Ok ps \<Rightarrow> \<exists>rows. r = Ok rows \<and> sorted_wrt (\<lambda>a b. str_key (ps_name a) \<le> str_key (ps_name b)) rows
        \<and> image_mset (\<lambda>p. (ps_id p, ps_name p, ps_product_version p, ps_engine_build p)) (mset rows) =
          image_mset (\<lambda>(i, q). (i, pk_name q, pk_product_version q, pk_engine_build q)) (mset ps)
    | Err e \<Rightarrow> r = Err e | Panic k \<Rightarrow> r = Panic k"
proof (cases "load sto (sv_disk s)")
  case (Ok ps)
  have "(\<lambda>p. (ps_id p, ps_name p, ps_product_version p, ps_engine_build p)) \<circ> status_row env s =
      (\<lambda>(i, q). (i, pk_name q, pk_product_version q, pk_engine_build q))"
    by (auto simp: fun_eq_iff status_row_def Let_def)
  moreover have "sorted_wrt (\<lambda>a b. str_key (ps_name a) \<le> str_key (ps_name b))
      (sort_by (\<lambda>a b. str_cmp (ps_name a) (ps_name b)) (map (status_row env s) ps))"
    by (rule sorted_sort_by_key) (rule str_cmp_key)
  ultimately show ?thesis using assms Ok by (auto simp: peer_statuses_def image_mset.compositionality)
qed (use assms in \<open>auto simp: peer_statuses_def\<close>)

section \<open>A sample mesh\<close>

definition paired_peers :: peers where
  "paired_peers = [(''b'', \<lparr>pk_name = ''laptop-b'', pk_added_unix = 7, pk_direct_addrs = [], pk_relay_url = None,
     pk_product_version = None, pk_engine_build = None\<rparr>)]"

definition mesh_sto :: store_env where
  "mesh_sto =
    \<lparr>se_from_toml = (\<lambda>s. if s = [] then Some [] else if s = ''p'' then Some paired_peers else None),
     se_to_toml = (\<lambda>ps. if ps = [] then Some [] else if ps = paired_peers then Some ''p'' else None),
     se_read_fails = False, se_mkdir_fails = False, se_write_fails = False, se_torn = None,
     se_rename_fails = False, se_now = 7\<rparr>"

definition paired_disk :: disk where "paired_disk = \<lparr>dk_store = Some ''p'', dk_tmp = None\<rparr>"

definition sample_mesh_env :: "string \<Rightarrow> mesh_env" where
  "sample_mesh_env own = \<lparr>mv_own = own, mv_parse = Some, mv_short = take 1, mv_relay_ok = (\<lambda>_. True),
     mv_pair_window = 120000000000\<rparr>"

definition sample_net :: net where
  "sample_net = \<lparr>nt_env = sample_mesh_env ''a'', nt_hash = sample_hash, nt_party = sample_party ''a'',
     nt_from = se_from_toml mesh_sto\<rparr>"

definition sample_conn :: "string \<Rightarrow> nat \<Rightarrow> Conn" where
  "sample_conn peer k = \<lparr>cn_stable_id = k, cn_remote = peer\<rparr>"

definition sample_window :: Window where
  "sample_window = \<lparr>wd_id = 1, wd_code = ''000042'', wd_attempts_left = 3, wd_deadline = 120000000000\<rparr>"

definition sample_world :: world where
  "sample_world = \<lparr>wo_sv = (service_new empty_disk)\<lparr>sv_window := Some sample_window, sv_window_seq := 1\<rparr>,
     wo_attempts = [(1, ''000042'', sample_conn ''b'' 1)], wo_dials = [], wo_accepted = [], wo_joined = []\<rparr>"

lemma mesh_sto_codec: "codec sample_net mesh_sto"
  by (simp add: codec_def sample_net_def toml_round_trips_def mesh_sto_def)

lemma sample_net_crypto: "hash_ok (nt_hash sample_net)" "pake_ok (pt_pake (nt_party sample_net))"
  by (simp_all add: sample_net_def sample_hash_ok sample_party_def sample_pake_ok)




lemma paired_store_ok: "stored (nt_from sample_net) paired_disk = Some paired_peers" "store_ok paired_peers"
  by (simp_all add: stored_def sample_net_def mesh_sto_def paired_disk_def store_ok_def bt_ok_def names_of_def
      paired_peers_def)

lemma sample_load: "load mesh_sto paired_disk = Ok paired_peers"
  by (simp add: load_def mesh_sto_def paired_disk_def)

theorem strangers_get_no_session_witness:
  "\<exists>ever w ss. mesh_run sample_net 2 ever w \<and> sv_sessions (wo_sv w) ''b'' = Some ss \<and> ''b'' \<in> ever"
proof -
  have b: "mesh_run sample_net 0 (fst ` set paired_peers) (boot paired_disk)"
    by (rule mesh_run.boot [OF paired_store_ok])
  have "accept_incoming mesh_sto AlpnMesh (sample_conn ''b'' 1) (sv_disk (wo_sv (boot paired_disk))) = ToMesh"
    by (simp add: accept_incoming_def contains_def boot_def service_new_def sample_conn_def sample_load paired_peers_def)
  from mesh_run.step [OF b mesh_step.mesh_dialed [OF mesh_sto_codec this]]
  obtain ever where s: "mesh_run sample_net 1 ever ((boot paired_disk)\<lparr>wo_accepted := [sample_conn ''b'' 1]\<rparr>)"
    by (auto simp: boot_def)
  have "wo_accepted ((boot paired_disk)\<lparr>wo_accepted := [sample_conn ''b'' 1]\<rparr>) = [] @ sample_conn ''b'' 1 # []" by simp
  from mesh_run.step [OF s mesh_step.incoming_mesh [OF this mesh_sto_codec]]
  obtain ever' w where w: "mesh_run sample_net 2 ever' w"
      "w = handled (adopt_conn (nt_env sample_net) mesh_sto (sample_conn ''b'' 1) False (service_new paired_disk)) (boot paired_disk)"
    by (auto simp: boot_def numeral_2_eq_2)
  then have "sv_sessions (wo_sv w) ''b'' = Some \<lparr>ss_conn = sample_conn ''b'' 1, ss_dialer = False, ss_finished = False\<rparr>"
    by (simp add: adopt_conn_def sample_net_def sample_mesh_env_def sample_conn_def service_new_def Let_def)
  with w(1) strangers_get_no_session [OF w(1) _ sample_net_crypto this] show ?thesis by auto
qed

theorem failures_close_the_window_witness:
  "handle_results (sample_mesh_env ''a'') (\<lambda>_. []) 1
     (replicate 3 (mesh_sto, Err (PairRejected ''wrong pairing code''), ([], None))
       @ [(mesh_sto, Ok \<lparr>po_peer_id = ''b'', po_node_name = ''laptop-b'', po_product_version = ''1.0.0''\<rparr>, ([], None))])
     (wo_sv sample_world) = (wo_sv sample_world)\<lparr>sv_window := None\<rparr>"
  using failures_close_the_window [of "wo_sv sample_world" sample_window
      "replicate 3 (mesh_sto, Err (PairRejected ''wrong pairing code''), ([], None))" "sample_mesh_env ''a''" "\<lambda>_. []"
      "[(mesh_sto, Ok \<lparr>po_peer_id = ''b'', po_node_name = ''laptop-b'', po_product_version = ''1.0.0''\<rparr>, ([], None))]"]
  by (simp add: sample_world_def sample_window_def)

theorem simultaneous_connect_agrees_witness:
  "sv_sessions (adopt_both (sample_mesh_env ''a'') mesh_sto mesh_sto (sample_conn ''b'' 1) (sample_conn ''b'' 2) False
      (service_new paired_disk)) ''b'' = Some \<lparr>ss_conn = sample_conn ''b'' 1, ss_dialer = True, ss_finished = False\<rparr>"
  using simultaneous_connect_agrees [of "sample_mesh_env ''a''" "sample_mesh_env ''b''" "service_new paired_disk"
      "service_new paired_disk" "sample_conn ''b'' 1" "sample_conn ''b'' 2" "sample_conn ''a'' 2" "sample_conn ''a'' 1"
      mesh_sto mesh_sto False mesh_sto mesh_sto True]
  by (simp add: sample_mesh_env_def sample_conn_def service_new_def str_cmp_def byte_cmp_def cmp_def)

theorem backoff_doubles_to_the_cap_witness:
  "\<exists>b. sv_reconnect (dial_failures ''b'' [0, 10, 20, 30, 40] (service_new paired_disk)) ''b'' = Some b
     \<and> bo_next_at b = 40 + 30000000000"
  using backoff_doubles_to_the_cap [of "service_new paired_disk" "''b''" "[0, 10, 20, 30, 40]"]
  by (auto simp: service_new_def)

theorem reconnect_dials_every_due_peer_witness:
  "set (dials_of (snd (reconnect_tick (sample_mesh_env ''a'') mesh_sto 5 (service_new paired_disk)))) = {''b''}"
proof -
  have "load mesh_sto (sv_disk (service_new paired_disk)) = Ok paired_peers" by (simp add: service_new_def sample_load)
  from reconnect_dials_every_due_peer [OF this paired_store_ok(2), where env = "sample_mesh_env ''a''" and now = 5] show ?thesis
    by (auto simp: sample_mesh_env_def paired_peers_def redial_due_def service_new_def live_of_def Live_default_def)
qed

theorem peer_statuses_rows_witness:
  "\<exists>rows. peer_statuses (sample_mesh_env ''a'') mesh_sto (service_new paired_disk) = Ok rows
     \<and> image_mset (\<lambda>p. (ps_id p, ps_name p)) (mset rows) = {#(''b'', ''laptop-b'')#}"
proof -
  have l: "load mesh_sto (sv_disk (service_new paired_disk)) = Ok paired_peers" by (simp add: service_new_def sample_load)
  from peer_statuses_rows [OF refl, where sto = mesh_sto and s = "service_new paired_disk" and env = "sample_mesh_env ''a''", unfolded l]
  obtain rows where r: "peer_statuses (sample_mesh_env ''a'') mesh_sto (service_new paired_disk) = Ok rows"
      "image_mset (\<lambda>p. (ps_id p, ps_name p, ps_product_version p, ps_engine_build p)) (mset rows) =
        {#(''b'', ''laptop-b'', None, None)#}"
    by (auto simp: paired_peers_def)
  have "image_mset (\<lambda>(i, n, _). (i, n)) (image_mset (\<lambda>p. (ps_id p, ps_name p, ps_product_version p, ps_engine_build p)) (mset rows)) =
      {#(''b'', ''laptop-b'')#}" unfolding r(2) by simp
  with r(1) show ?thesis by (auto simp: image_mset.compositionality comp_def)
qed

end
