(* ===== verification/Engine.thy ===== *)
theory Engine
  imports Generation Float64
begin

text \<open>
  The session interface of the inference engine (\<open>onebrain-engine/src/lib.rs\<close>): token batches,
  the key-value memory of a session by sequence, sampling, and the single-stream generation
  loop. The engine behind the interface is llama.cpp; what it computes is a parameter, the
  record \<open>engine\<close>. Its documented contract is built into the operations: the logits of a
  position depend on the tokens of its own sequence up to there, a batch must continue each
  sequence at its next position, removing a whole sequence never fails, and a sampler chain
  is a deterministic machine over the logits it was asked about.
\<close>

type_synonym Token = int
type_synonym SeqId = nat

datatype EngineError =
    BadPath string | ModelLoad string | SessionCreate | Tokenize | Decode int | BadUtf8 | ChatTemplate
  | BadEndpoint string | RpcConnect string | RpcServerLimit u32 | RpcDeviceIndex int int | SocketPair string
  | TensorSplit usize usize | DistributedLoad string usize | NoSplitParts | SplitLoad string usize
  | BatchAlloc usize usize | BatchFull usize | BatchSeqId SeqId usize | SeqRemove SeqId int int
  | NotEmbeddingSession | EmbedEmptyInput | EmbedInputTooLong usize usize | EmbedOutput | SamplerAlloc
  | BadCacheDir string | RpcCacheDir string string

text \<open>A fallible call of the engine gives an error or a value; none of them panics.\<close>

type_synonym 'a engine_res = "EngineError + 'a"

record SamplerParams =
  sp_temperature :: f32
  sp_top_p :: f32
  sp_top_k :: int
  sp_seed :: u32

text \<open>\<open>temperature <= 0\<close> selects greedy decoding.\<close>

definition greedy :: "SamplerParams \<Rightarrow> bool" where
  "greedy p = flt_le (sp_temperature p) (Fin 0)"

text \<open>
  A sampler chain: what it was built from, the source of its randomness, and the contexts
  whose logits it has sampled so far. Any chain is a function of these.
\<close>

record Sampler =
  sa_params :: SamplerParams
  sa_draw :: "nat \<times> bool"
  sa_seen :: "Token list list"

text \<open>
  The engine. \<open>en_pick\<close> is the token a chain picks from the logits of a context, \<open>en_partial_rm\<close>
  whether the memory of the model can drop a part of a sequence, \<open>en_template\<close> the chat template
  if the model has one.
\<close>

record engine =
  en_pick :: "SamplerParams \<Rightarrow> nat \<times> bool \<Rightarrow> Token list list \<Rightarrow> Token list \<Rightarrow> Token"
  en_is_eog :: "Token \<Rightarrow> bool"
  en_piece :: "Token \<Rightarrow> string engine_res"
  en_tokenize :: "string \<Rightarrow> (Token list) engine_res"
  en_template :: "(string \<times> string) list \<Rightarrow> (string option) engine_res"
  en_sampler_alloc :: "SamplerParams \<Rightarrow> bool"
  en_partial_rm :: bool

definition Sampler_new :: "engine \<Rightarrow> SamplerParams \<Rightarrow> nat \<times> bool \<Rightarrow> Sampler engine_res" where
  "Sampler_new E params draw =
     (if en_sampler_alloc E params then Inr \<lparr>sa_params = params, sa_draw = draw, sa_seen = []\<rparr> else Inl SamplerAlloc)"

text \<open>Greedy decoding keeps no state: the pick depends on the logits alone.\<close>

definition greedy_stateless :: "engine \<Rightarrow> bool" where
  "greedy_stateless E = (\<forall>params draw draw' seen seen' ctx. greedy params \<longrightarrow>
     en_pick E params draw seen ctx = en_pick E params draw' seen' ctx)"

section \<open>Batches\<close>

record batch_entry =
  be_token :: Token
  be_pos :: nat
  be_seq :: SeqId
  be_logits :: bool

record Batch =
  ba_capacity :: usize
  ba_n_seq_max :: usize
  ba_entries :: "batch_entry list"

definition I32_MAX :: nat where "I32_MAX = 2147483647"

definition Batch_new :: "bool \<Rightarrow> usize \<Rightarrow> usize \<Rightarrow> Batch engine_res" where
  "Batch_new alloc_ok capacity n_seq_max =
     (if capacity = 0 \<or> n_seq_max = 0 \<or> I32_MAX < capacity \<or> I32_MAX < n_seq_max \<or> \<not> alloc_ok
      then Inl (BatchAlloc capacity n_seq_max)
      else Inr \<lparr>ba_capacity = capacity, ba_n_seq_max = n_seq_max, ba_entries = []\<rparr>)"

definition ba_push :: "Token \<Rightarrow> nat \<Rightarrow> SeqId \<Rightarrow> bool \<Rightarrow> Batch \<Rightarrow> (usize \<times> Batch) engine_res" where
  "ba_push token pos seq_id logits b =
     (let index = length (ba_entries b) in
      if ba_capacity b \<le> index then Inl (BatchFull (ba_capacity b))
      else if ba_n_seq_max b \<le> seq_id then Inl (BatchSeqId seq_id (ba_n_seq_max b))
      else Inr (index, b\<lparr>ba_entries := ba_entries b @
        [\<lparr>be_token = token, be_pos = pos, be_seq = seq_id, be_logits = logits\<rparr>]\<rparr>))"

definition ba_clear :: "Batch \<Rightarrow> Batch" where
  "ba_clear b = b\<lparr>ba_entries := []\<rparr>"

section \<open>Sessions\<close>

text \<open>
  The memory of a session holds a token per position of each sequence; \<open>se_rows\<close> is, for each
  token of the batch decoded last, the context its logits belong to.
\<close>

type_synonym kv = "SeqId \<Rightarrow> Token list"

record Session =
  se_kv :: kv
  se_rows :: "Token list list"

definition Session_new :: Session where
  "Session_new = \<lparr>se_kv = (\<lambda>_. []), se_rows = []\<rparr>"

text \<open>The position rule: each token goes to the next position of its sequence.\<close>

fun feed :: "kv \<Rightarrow> batch_entry list \<Rightarrow> (kv \<times> Token list list) option" where
  "feed kv [] = Some (kv, [])"
| "feed kv (e # es) =
     (let ctx = kv (be_seq e) @ [be_token e] in
      if be_pos e \<noteq> length (kv (be_seq e)) then None
      else map_option (\<lambda>(kv, rows). (kv, ctx # rows)) (feed (kv(be_seq e := ctx)) es))"

text \<open>
  A decode that fails for a reason of its own (\<open>fault\<close>) leaves the memory in any state; one that
  breaks the position rule is rejected.
\<close>

type_synonym fault = "(EngineError \<times> kv) option"

definition decode_batch :: "fault \<Rightarrow> Batch \<Rightarrow> Session \<Rightarrow> unit engine_res \<times> Session" where
  "decode_batch fault b s = (case fault of
     Some (e, kv) \<Rightarrow> (Inl e, \<lparr>se_kv = kv, se_rows = []\<rparr>)
   | None \<Rightarrow> (case feed (se_kv s) (ba_entries b) of
       None \<Rightarrow> (Inl (Decode (- 1)), s)
     | Some (kv, rows) \<Rightarrow> (Inr (), \<lparr>se_kv = kv, se_rows = rows\<rparr>)))"

definition logits_row :: "Session \<Rightarrow> usize \<Rightarrow> Token list" where
  "logits_row s i = (if i < length (se_rows s) then se_rows s ! i else [])"

definition sample_ctx :: "engine \<Rightarrow> Sampler \<Rightarrow> Token list \<Rightarrow> Token \<times> Sampler" where
  "sample_ctx E chain ctx =
     (en_pick E (sa_params chain) (sa_draw chain) (sa_seen chain) ctx, chain\<lparr>sa_seen := sa_seen chain @ [ctx]\<rparr>)"

definition sample_ith_with :: "engine \<Rightarrow> Session \<Rightarrow> Sampler \<Rightarrow> usize \<Rightarrow> Token \<times> Sampler" where
  "sample_ith_with E s chain i = sample_ctx E chain (logits_row s i)"

text \<open>
  Removal to the end of a sequence; a negative or zero start removes the whole sequence, which
  never fails.
\<close>

definition seq_rm :: "engine \<Rightarrow> SeqId \<Rightarrow> int \<Rightarrow> Session \<Rightarrow> unit engine_res \<times> Session" where
  "seq_rm E seq p0 s =
     (if p0 \<le> 0 then (Inr (), s\<lparr>se_kv := (se_kv s)(seq := [])\<rparr>)
      else if en_partial_rm E then (Inr (), s\<lparr>se_kv := (se_kv s)(seq := take (nat p0) (se_kv s seq))\<rparr>)
      else (Inl (SeqRemove seq p0 (- 1)), s))"

definition seq_pos_max :: "Session \<Rightarrow> SeqId \<Rightarrow> nat option" where
  "seq_pos_max s seq = (if se_kv s seq = [] then None else Some (length (se_kv s seq) - 1))"

section \<open>The single-stream loop\<close>

datatype FinishReason = ReasonStop | ReasonLength | ReasonAborted

record GenerationStats =
  gs_prompt_tokens :: usize
  gs_generated_tokens :: usize
  gs_finished :: FinishReason

text \<open>
  \<open>generate\<close> works on the one sequence of its session, kept here as the decoded context.
  \<open>fails\<close> gives the outcome of the decode calls by their number, \<open>on_token\<close> is the callback with
  its own state; it answers whether to break out.
\<close>

fun generate_loop :: "engine \<Rightarrow> bool \<Rightarrow> (nat \<Rightarrow> EngineError option) \<Rightarrow> (Token \<Rightarrow> string \<Rightarrow> 's \<Rightarrow> bool \<times> 's)
    \<Rightarrow> nat \<Rightarrow> nat \<Rightarrow> Sampler \<Rightarrow> Token list \<Rightarrow> 's \<Rightarrow> (nat \<times> FinishReason) engine_res \<times> 's" where
  "generate_loop E distributed fails on_token 0 made chain ctx st = (Inr (made, ReasonLength), st)"
| "generate_loop E distributed fails on_token (Suc n) made chain ctx st =
     (let (tok, chain) = sample_ctx E chain ctx in
      if en_is_eog E tok then (Inr (made, ReasonStop), st)
      else (case en_piece E tok of
          Inl e \<Rightarrow> (Inl e, st)
        | Inr piece \<Rightarrow>
            if distributed then
              (case fails (Suc made) of
                 Some e \<Rightarrow> (Inl e, st)
               | None \<Rightarrow> (let (brk, st) = on_token tok piece st in
                   if brk then (Inr (Suc made, ReasonAborted), st)
                   else generate_loop E distributed fails on_token n (Suc made) chain (ctx @ [tok]) st))
            else
              (let (brk, st) = on_token tok piece st in
               if brk then (Inr (Suc made, ReasonAborted), st)
               else (case fails (Suc made) of
                  Some e \<Rightarrow> (Inl e, st)
                | None \<Rightarrow> generate_loop E distributed fails on_token n (Suc made) chain (ctx @ [tok]) st))))"

definition generate :: "engine \<Rightarrow> bool \<Rightarrow> (nat \<Rightarrow> EngineError option) \<Rightarrow> (Token \<Rightarrow> string \<Rightarrow> 's \<Rightarrow> bool \<times> 's)
    \<Rightarrow> Sampler \<Rightarrow> Token list \<Rightarrow> Token list \<Rightarrow> nat \<Rightarrow> 's \<Rightarrow> GenerationStats engine_res \<times> 's" where
  "generate E distributed fails on_token chain ctx prompt_tokens max_new st = (case fails 0 of
     Some e \<Rightarrow> (Inl e, st)
   | None \<Rightarrow> (case generate_loop E distributed fails on_token max_new 0 chain (ctx @ prompt_tokens) st of
       (r, st) \<Rightarrow> (map_sum id (\<lambda>(made, finished). \<lparr>gs_prompt_tokens = length prompt_tokens,
          gs_generated_tokens = made, gs_finished = finished\<rparr>) r, st)))"

section \<open>A generation on its own\<close>

text \<open>
  What a request generates when it has the engine to itself: the tokens, the pieces the client
  gets, and how it ends. The piece that completes a stop string is withheld, its token counts.
\<close>

datatype gen_end = Finishes FinishKind | Fails EngineError

fun alone :: "engine \<Rightarrow> Sampler \<Rightarrow> Token list \<Rightarrow> StopScan \<Rightarrow> nat \<Rightarrow> Token list \<times> string list \<times> gen_end" where
  "alone E chain ctx scan 0 = ([], [], Finishes Length)"
| "alone E chain ctx scan (Suc n) =
     (let (tok, chain) = sample_ctx E chain ctx in
      if en_is_eog E tok then ([], [], Finishes Stop)
      else (case en_piece E tok of
          Inl e \<Rightarrow> ([], [], Fails e)
        | Inr piece \<Rightarrow>
            (let (ok, scan) = admit scan piece in
             if \<not> ok then ([tok], [], Finishes Stop)
             else (let (toks, pieces, e) = alone E chain (ctx @ [tok]) scan n in (tok # toks, piece # pieces, e)))))"

end
