(* ===== verification/Serve.thy ===== *)
theory Serve
  imports Engine
begin

text \<open>
  The serve loop of the engine host (\<open>onebraind/src/engine_host.rs\<close>, \<open>serve_model\<close> and its
  helpers): requests are prepared, queued, admitted to a sequence slot with room in the shared
  key-value memory, prefilled in chunks, decoded together one batch per pass, possibly several
  tokens at a time with a draft model, and finished, failed, cancelled or interrupted. A pass of
  the loop is split at the points where clients and the supervisor can act; \<open>serve_step\<close> is the
  loop, interleaved with them.

  Clients are channels that record what was delivered to them. A message is sent with
  \<open>try_send\<close>, which fails on a full or a closed channel; a client makes room by reading and may
  close at any time. The outcome senders of the attempts are numbers, and \<open>pl_outcomes\<close> is what was
  sent on them. Log output and the sleeps of the loop have no effect on the state.
\<close>

section \<open>Jobs and events\<close>

datatype PromptInput = Raw string | Chat "(string \<times> string) list"

record GenParams =
  gp_max_tokens :: u32
  gp_temperature :: f32
  gp_top_p :: f32
  gp_top_k :: int
  gp_seed :: "u32 option"
  gp_stop :: "string list"

record DoneStats =
  ds_prompt_tokens :: u32
  ds_completion_tokens :: u32
  ds_finish :: FinishKind
  ds_prefill_ms :: u64
  ds_decode_ms :: u64
  ds_ttft_ms :: u64
  ds_drafted :: u32
  ds_accepted :: u32

definition DoneStats_default :: DoneStats where
  "DoneStats_default = \<lparr>ds_prompt_tokens = 0, ds_completion_tokens = 0, ds_finish = Stop, ds_prefill_ms = 0,
     ds_decode_ms = 0, ds_ttft_ms = 0, ds_drafted = 0, ds_accepted = 0\<rparr>"

text \<open>The error texts the loop sends, as data.\<close>

datatype error_text =
    EngineText EngineError
  | ModelNotLoaded string
  | PromptNoTokens
  | ContextExceeded nat nat nat
  | RollbackText EngineError
  | TrimText EngineError

datatype TokenEvent = TokenEv string | Done DoneStats | ErrorEv error_text

datatype ApiDialect = Openai | Ollama

record GenerateJob =
  jb_model :: string
  jb_prompt :: PromptInput
  jb_params :: GenParams
  jb_dialect :: ApiDialect
  jb_tx :: nat

record SupervisedGenerate =
  sg_job :: GenerateJob
  sg_resume :: "ResumeState option"
  sg_outcome :: nat

datatype GenOutcome = Finished | Interrupted InterruptedGen

record LoadedModel =
  lm_name :: string
  lm_size_bytes :: u64
  lm_n_layer :: int
  lm_n_ctx :: u32

record DraftRequest =
  dr_reference :: string
  dr_cache_root :: string

text \<open>Reply channels are numbers.\<close>

datatype HostMsg =
    LoadMsg string string u32 "DraftRequest option" nat
  | LoadDistributed "string list" string string u32 "string list" "f32 list" bool "DraftRequest option" nat
  | Generate SupervisedGenerate
  | Embed string "string list" nat
  | Models nat
  | ServeShard u64
  | Unload nat
  | Shutdown

record HostPerf =
  hp_max_concurrent :: u32
  hp_n_batch :: u32
  hp_n_ubatch :: u32
  hp_prefill_overlap :: bool
  hp_kv_reuse :: bool
  hp_n_threads :: int
  hp_n_threads_batch :: int

section \<open>Client channels\<close>

record channel =
  ch_room :: nat
  ch_closed :: bool
  ch_log :: "TokenEvent list"

type_synonym chans = "nat \<Rightarrow> channel"

datatype sent = SendOk | SendFull | SendClosed

definition try_send :: "nat \<Rightarrow> TokenEvent \<Rightarrow> chans \<Rightarrow> sent \<times> chans" where
  "try_send tx ev cs =
     (let c = cs tx in
      if ch_closed c then (SendClosed, cs)
      else if ch_room c = 0 then (SendFull, cs)
      else (SendOk, cs(tx := c\<lparr>ch_room := ch_room c - 1, ch_log := ch_log c @ [ev]\<rparr>)))"

section \<open>The state of the loop\<close>

definition REUSE_FLOOR :: nat where "REUSE_FLOOR = 64"
definition SPEC_K :: nat where "SPEC_K = 8"

text \<open>Instants and durations are nanoseconds.\<close>

definition SWAP_STALL_GRACE :: nat where "SWAP_STALL_GRACE = 10000000000"
definition SEED_RANDOM :: u32 where "SEED_RANDOM = 4294967295"

definition duration_ms :: "nat \<Rightarrow> u64" where
  "duration_ms d = as_u64 (d div 1000000)"

record PreparedGen =
  pg_job :: GenerateJob
  pg_outcome :: "nat option"
  pg_prompt_tokens :: "Token list"
  pg_prior_generated :: "Token list"
  pg_prior_pieces :: usize
  pg_scan :: StopScan
  pg_remaining :: usize
  pg_budget :: usize
  pg_resumed :: bool
  pg_unsent :: "string list"
  pg_finish :: "FinishKind option"
  pg_arrived :: nat

record RetainedSlot =
  rt_seq :: SeqId
  rt_history :: "Token list"

text \<open>The draft session decodes a single sequence.\<close>

record DraftCtx =
  dx_kv :: "Token list"
  dx_synced :: "(u64 \<times> usize) option"

record SpecStep =
  st_indexes :: "usize list"
  st_drafts :: "Token list"
  st_draft_kv :: usize

datatype PendingTok = Unsent Token string | Sent Token bool

fun tok_of :: "PendingTok \<Rightarrow> Token" where
  "tok_of (Unsent t _) = t"
| "tok_of (Sent t _) = t"

datatype DeferredTerminal = DeferFinish FinishKind | DeferError error_text

record ActiveGen =
  ag_seq :: SeqId
  ag_uid :: u64
  ag_job :: GenerateJob
  ag_outcome :: "nat option"
  ag_prompt_tokens :: "Token list"
  ag_prior_generated :: "Token list"
  ag_scan :: StopScan
  ag_prefix :: "Token list"
  ag_prefill_done :: usize
  ag_reused :: usize
  ag_kv_len :: usize
  ag_attempt_tokens :: "Token list"
  ag_pending :: "PendingTok option"
  ag_held :: "string list"
  ag_terminal_after_drain :: "DeferredTerminal option"
  ag_remaining :: usize
  ag_budget :: usize
  ag_pieces_sent :: usize
  ag_sampler :: SamplerParams
  ag_chain :: Sampler
  ag_drafted :: u32
  ag_accepted :: u32
  ag_arrived :: nat
  ag_admitted :: nat
  ag_prefill_finished :: "nat option"
  ag_ttft_ms :: "u64 option"
  ag_kv_suspect :: bool
  ag_stalled_since :: "nat option"
  ag_done :: bool

abbreviation ag_tx :: "ActiveGen \<Rightarrow> nat" where "ag_tx g \<equiv> jb_tx (ag_job g)"
abbreviation pg_tx :: "PreparedGen \<Rightarrow> nat" where "pg_tx p \<equiv> jb_tx (pg_job p)"

record PendingTerminal =
  pt_tx :: nat
  pt_event :: TokenEvent

text \<open>
  The state the helpers of the loop share. \<open>pl_panicked\<close> records that an \<open>expect\<close> of the source
  would have failed.
\<close>

record pool =
  pl_session :: Session
  pl_free :: "SeqId list"
  pl_outbox :: "PendingTerminal list"
  pl_retained :: "RetainedSlot list"
  pl_chans :: chans
  pl_outcomes :: "(nat \<times> GenOutcome) list"
  pl_panicked :: bool

record serve =
  sm_pool :: pool
  sm_active :: "ActiveGen list"
  sm_queue :: "PreparedGen list"
  sm_next_uid :: u64
  sm_spec_disabled :: bool
  sm_ctrl :: "HostMsg option"
  sm_draft :: "DraftCtx option"

text \<open>
  What stays fixed during a phase: the engines, the loaded model and the levers. \<open>sx_alloc\<close> is
  whether the one batch of the phase could be allocated, \<open>sx_shown\<close> the text of an engine error.
\<close>

record serve_env =
  sx_engine :: engine
  sx_draft_engine :: engine
  sx_info :: LoadedModel
  sx_reference :: string
  sx_distributed :: bool
  sx_perf :: HostPerf
  sx_session_seqs :: u32
  sx_alloc :: bool
  sx_shown :: "EngineError \<Rightarrow> string"

definition n_seq_max :: "serve_env \<Rightarrow> nat" where
  "n_seq_max env = max (sx_session_seqs env) 1"

definition n_batch :: "serve_env \<Rightarrow> nat" where
  "n_batch env = max (hp_n_batch (sx_perf env)) 1"

definition n_ctx :: "serve_env \<Rightarrow> nat" where
  "n_ctx env = lm_n_ctx (sx_info env)"

definition phase_batch :: "serve_env \<Rightarrow> Batch engine_res" where
  "phase_batch env = Batch_new (sx_alloc env) (n_batch env) (n_seq_max env)"

section \<open>Delivery and the ends of a generation\<close>

definition note_sent :: "nat \<Rightarrow> ActiveGen \<Rightarrow> ActiveGen" where
  "note_sent now g = g\<lparr>ag_pieces_sent := ag_pieces_sent g + 1, ag_stalled_since := None,
     ag_ttft_ms := (case ag_ttft_ms g of None \<Rightarrow> Some (duration_ms (now - ag_arrived g)) | Some t \<Rightarrow> Some t)\<rparr>"

definition note_stall :: "nat \<Rightarrow> ActiveGen \<Rightarrow> ActiveGen" where
  "note_stall now g = g\<lparr>ag_stalled_since := (case ag_stalled_since g of None \<Rightarrow> Some now | Some t \<Rightarrow> Some t)\<rparr>"

definition deliver_piece :: "nat \<Rightarrow> string \<Rightarrow> ActiveGen \<Rightarrow> chans \<Rightarrow> ActiveGen \<times> chans" where
  "deliver_piece now piece g cs =
     (if ag_held g \<noteq> [] then (g\<lparr>ag_held := ag_held g @ [piece]\<rparr>, cs)
      else (case try_send (ag_tx g) (TokenEv piece) cs of
          (SendOk, cs) \<Rightarrow> (note_sent now g, cs)
        | (SendFull, cs) \<Rightarrow> (note_stall now (g\<lparr>ag_held := ag_held g @ [piece]\<rparr>), cs)
        | (SendClosed, cs) \<Rightarrow> (g, cs)))"

definition stage_pending :: "nat \<Rightarrow> bool \<Rightarrow> Token \<Rightarrow> string \<Rightarrow> ActiveGen \<Rightarrow> chans \<Rightarrow> ActiveGen \<times> chans" where
  "stage_pending now distributed t piece g cs =
     (if distributed then (g\<lparr>ag_pending := Some (Unsent t piece)\<rparr>, cs)
      else
        let (admitted, scan) = admit (ag_scan g) piece;
            g = g\<lparr>ag_scan := scan\<rparr>;
            (g, cs) = (if admitted then deliver_piece now piece g cs else (g, cs)) in
        (g\<lparr>ag_pending := Some (Sent t admitted)\<rparr>, cs))"

definition deliver_terminal :: "nat \<Rightarrow> TokenEvent \<Rightarrow> pool \<Rightarrow> pool" where
  "deliver_terminal tx ev p = (case try_send tx ev (pl_chans p) of
     (SendFull, cs) \<Rightarrow> p\<lparr>pl_chans := cs, pl_outbox := pl_outbox p @ [\<lparr>pt_tx = tx, pt_event = ev\<rparr>]\<rparr>
   | (_, cs) \<Rightarrow> p\<lparr>pl_chans := cs\<rparr>)"

definition send_outcome :: "nat option \<Rightarrow> GenOutcome \<Rightarrow> pool \<Rightarrow> pool" where
  "send_outcome outcome oc p = (case outcome of
     None \<Rightarrow> p | Some i \<Rightarrow> p\<lparr>pl_outcomes := pl_outcomes p @ [(i, oc)]\<rparr>)"

definition seq_clear :: "engine \<Rightarrow> SeqId \<Rightarrow> pool \<Rightarrow> pool" where
  "seq_clear E seq p = p\<lparr>pl_session := snd (seq_rm E seq (- 1) (pl_session p))\<rparr>"

definition release_seq :: "engine \<Rightarrow> ActiveGen \<Rightarrow> pool \<Rightarrow> ActiveGen \<times> pool" where
  "release_seq E g p =
     (let p = seq_clear E (ag_seq g) p in
      (g\<lparr>ag_done := True\<rparr>, p\<lparr>pl_free := pl_free p @ [ag_seq g]\<rparr>))"

definition done_stats :: "nat \<Rightarrow> FinishKind \<Rightarrow> ActiveGen \<Rightarrow> DoneStats" where
  "done_stats now finish g =
     \<lparr>ds_prompt_tokens = as_u32 (length (ag_prompt_tokens g)),
      ds_completion_tokens = as_u32 (length (ag_prior_generated g) + length (ag_attempt_tokens g)),
      ds_finish = finish,
      ds_prefill_ms = (case ag_prefill_finished g of
          Some t \<Rightarrow> duration_ms (t - ag_admitted g) | None \<Rightarrow> duration_ms (now - ag_admitted g)),
      ds_decode_ms = (case ag_prefill_finished g of Some t \<Rightarrow> duration_ms (now - t) | None \<Rightarrow> 0),
      ds_ttft_ms = (case ag_ttft_ms g of Some t \<Rightarrow> t | None \<Rightarrow> 0),
      ds_drafted = ag_drafted g,
      ds_accepted = ag_accepted g\<rparr>"

definition finish_seq :: "engine \<Rightarrow> nat \<Rightarrow> FinishKind \<Rightarrow> bool \<Rightarrow> ActiveGen \<Rightarrow> pool \<Rightarrow> ActiveGen \<times> pool" where
  "finish_seq E now finish retain g p =
     (let p = deliver_terminal (ag_tx g) (Done (done_stats now finish g)) p;
          p = send_outcome (ag_outcome g) Finished p;
          g = g\<lparr>ag_outcome := None\<rparr> in
      if retain then
        let history = ag_prefix g @ ag_attempt_tokens g in
        (g\<lparr>ag_prefix := [], ag_done := True\<rparr>,
         p\<lparr>pl_retained := pl_retained p @ [\<lparr>rt_seq = ag_seq g, rt_history = history\<rparr>],
           pl_free := pl_free p @ [ag_seq g]\<rparr>)
      else release_seq E g p)"

definition fail_seq :: "engine \<Rightarrow> error_text \<Rightarrow> ActiveGen \<Rightarrow> pool \<Rightarrow> ActiveGen \<times> pool" where
  "fail_seq E message g p =
     (if ag_held g \<noteq> [] then
        (if ag_terminal_after_drain g = None then g\<lparr>ag_terminal_after_drain := Some (DeferError message)\<rparr> else g, p)
      else
        let p = deliver_terminal (ag_tx g) (ErrorEv message) p;
            p = send_outcome (ag_outcome g) Finished p in
        release_seq E (g\<lparr>ag_outcome := None\<rparr>) p)"

definition cancel_seq :: "engine \<Rightarrow> ActiveGen \<Rightarrow> pool \<Rightarrow> ActiveGen \<times> pool" where
  "cancel_seq E g p = release_seq E (g\<lparr>ag_outcome := None\<rparr>) (send_outcome (ag_outcome g) Finished p)"

section \<open>Retries and sweeps\<close>

fun retry_outbox :: "PendingTerminal list \<Rightarrow> chans \<Rightarrow> PendingTerminal list \<times> chans" where
  "retry_outbox [] cs = ([], cs)"
| "retry_outbox (t # ts) cs = (case try_send (pt_tx t) (pt_event t) cs of
     (SendFull, cs) \<Rightarrow> (let (ts, cs) = retry_outbox ts cs in (t # ts, cs))
   | (_, cs) \<Rightarrow> retry_outbox ts cs)"

fun drain_held :: "nat \<Rightarrow> string list \<Rightarrow> ActiveGen \<Rightarrow> chans \<Rightarrow> ActiveGen \<times> chans" where
  "drain_held now [] g cs = (g\<lparr>ag_held := []\<rparr>, cs)"
| "drain_held now (piece # ps) g cs = (case try_send (ag_tx g) (TokenEv piece) cs of
     (SendOk, cs) \<Rightarrow> drain_held now ps (note_sent now g) cs
   | (SendFull, cs) \<Rightarrow> (note_stall now (g\<lparr>ag_held := piece # ps\<rparr>), cs)
   | (SendClosed, cs) \<Rightarrow> (g\<lparr>ag_held := ps\<rparr>, cs))"

definition retry_held :: "serve_env \<Rightarrow> nat \<Rightarrow> ActiveGen \<Rightarrow> pool \<Rightarrow> ActiveGen \<times> pool" where
  "retry_held env now g p =
     (let (g, cs) = drain_held now (ag_held g) g (pl_chans p);
          p = p\<lparr>pl_chans := cs\<rparr> in
      if ag_held g = [] \<and> \<not> ag_done g then
        (case ag_terminal_after_drain g of
           Some (DeferFinish finish) \<Rightarrow>
             (let kv_complete = (length (ag_prefix g) \<le> ag_prefill_done g) in
              finish_seq (sx_engine env) now finish
                (hp_kv_reuse (sx_perf env) \<and> kv_complete \<and> \<not> ag_kv_suspect g)
                (g\<lparr>ag_terminal_after_drain := None\<rparr>) p)
         | Some (DeferError message) \<Rightarrow>
             fail_seq (sx_engine env) message (g\<lparr>ag_terminal_after_drain := None\<rparr>) p
         | None \<Rightarrow> (g, p))
      else (g, p))"

text \<open>A loop over the active generations that updates them and the shared state.\<close>

fun over_active :: "(ActiveGen \<Rightarrow> pool \<Rightarrow> ActiveGen \<times> pool) \<Rightarrow> ActiveGen list \<Rightarrow> pool \<Rightarrow> ActiveGen list \<times> pool" where
  "over_active f [] p = ([], p)"
| "over_active f (g # gs) p = (let (g, p) = f g p; (gs, p) = over_active f gs p in (g # gs, p))"

definition retain_live :: "ActiveGen list \<Rightarrow> ActiveGen list" where
  "retain_live gs = filter (\<lambda>g. \<not> ag_done g) gs"

definition phase_retry :: "serve_env \<Rightarrow> nat \<Rightarrow> serve \<Rightarrow> serve" where
  "phase_retry env now s =
     (let (outbox, cs) = retry_outbox (pl_outbox (sm_pool s)) (pl_chans (sm_pool s));
          (active, p) = over_active (retry_held env now) (sm_active s)
            ((sm_pool s)\<lparr>pl_outbox := outbox, pl_chans := cs\<rparr>) in
      s\<lparr>sm_active := retain_live active, sm_pool := p\<rparr>)"

definition sweep_closed :: "serve_env \<Rightarrow> ActiveGen \<Rightarrow> pool \<Rightarrow> ActiveGen \<times> pool" where
  "sweep_closed env g p =
     (if \<not> ag_done g \<and> ch_closed (pl_chans p (ag_tx g)) then cancel_seq (sx_engine env) g p else (g, p))"

fun sweep_queue :: "PreparedGen list \<Rightarrow> pool \<Rightarrow> PreparedGen list \<times> pool" where
  "sweep_queue [] p = ([], p)"
| "sweep_queue (q # qs) p =
     (if ch_closed (pl_chans p (pg_tx q)) then sweep_queue qs (send_outcome (pg_outcome q) Finished p)
      else (let (qs, p) = sweep_queue qs p in (q # qs, p)))"

definition stalled_out :: "nat \<Rightarrow> ActiveGen \<Rightarrow> bool" where
  "stalled_out now g = (\<not> ag_done g \<and> (case ag_stalled_since g of Some t \<Rightarrow> SWAP_STALL_GRACE \<le> now - t | None \<Rightarrow> False))"

definition sweep_stalled :: "serve_env \<Rightarrow> nat \<Rightarrow> ActiveGen \<Rightarrow> pool \<Rightarrow> ActiveGen \<times> pool" where
  "sweep_stalled env now g p =
     (if stalled_out now g then
        (let (g, p) = cancel_seq (sx_engine env) g p in
         (g, p\<lparr>pl_outbox := filter (\<lambda>t. pt_tx t \<noteq> ag_tx g) (pl_outbox p)\<rparr>))
      else (g, p))"

definition phase_sweep :: "serve_env \<Rightarrow> nat \<Rightarrow> serve \<Rightarrow> serve" where
  "phase_sweep env now s =
     (let (active, p) = over_active (sweep_closed env) (sm_active s) (sm_pool s);
          active = retain_live active;
          (queue, p) = sweep_queue (sm_queue s) p;
          (active, p) = (if sm_ctrl s = None then (active, p)
             else let (active, p) = over_active (sweep_stalled env now) active p in (retain_live active, p)) in
      s\<lparr>sm_active := active, sm_queue := queue, sm_pool := p\<rparr>)"

section \<open>Preparing and pumping\<close>

definition render_prompt :: "engine \<Rightarrow> PromptInput \<Rightarrow> string engine_res" where
  "render_prompt E prompt = (case prompt of
     Raw text \<Rightarrow> Inr text
   | Chat turns \<Rightarrow> (case en_template E turns of
       Inl e \<Rightarrow> Inl e
     | Inr (Some rendered) \<Rightarrow> Inr rendered
     | Inr None \<Rightarrow> Inr (concat (map (\<lambda>(role, content). ''<|'' @ role @ ''|>\<newline>'' @ content @ ''\<newline>'') turns)
         @ ''<|assistant|>\<newline>'')))"

fun render_pieces :: "engine \<Rightarrow> Token list \<Rightarrow> (string list) engine_res" where
  "render_pieces E [] = Inr []"
| "render_pieces E (t # ts) = (case en_piece E t of
     Inl e \<Rightarrow> Inl e
   | Inr piece \<Rightarrow> map_sum id (\<lambda>ps. piece # ps) (render_pieces E ts))"

definition finish_error :: "SupervisedGenerate \<Rightarrow> error_text \<Rightarrow> pool \<Rightarrow> PreparedGen option \<times> pool" where
  "finish_error sg message p =
     (None, send_outcome (Some (sg_outcome sg)) Finished
        (p\<lparr>pl_chans := snd (try_send (jb_tx (sg_job sg)) (ErrorEv message) (pl_chans p))\<rparr>))"

definition finish_now :: "SupervisedGenerate \<Rightarrow> Token list \<Rightarrow> Token list \<Rightarrow> FinishKind \<Rightarrow> pool \<Rightarrow> PreparedGen option \<times> pool" where
  "finish_now sg prompt_tokens prior kind p =
     (None, send_outcome (Some (sg_outcome sg)) Finished
        (p\<lparr>pl_chans := snd (try_send (jb_tx (sg_job sg))
          (Done (DoneStats_default\<lparr>ds_prompt_tokens := as_u32 (length prompt_tokens),
             ds_completion_tokens := as_u32 (length prior), ds_finish := kind\<rparr>)) (pl_chans p))\<rparr>))"

text \<open>The validated start of an attempt: its tokens, what was generated and sent before, and the scan.\<close>

record start =
  sr_prompt_tokens :: "Token list"
  sr_prior_generated :: "Token list"
  sr_prior_pieces :: usize
  sr_scan :: StopScan
  sr_unsent :: "string list"
  sr_finish :: "FinishKind option"

definition start_resumed :: "engine \<Rightarrow> ResumeState \<Rightarrow> error_text + start" where
  "start_resumed E state = (case render_pieces E (drop (rs_pieces_sent state) (rs_generated_tokens state)) of
     Inl e \<Rightarrow> Inl (EngineText e)
   | Inr unsent \<Rightarrow> Inr \<lparr>sr_prompt_tokens = rs_prompt_tokens state, sr_prior_generated = rs_generated_tokens state,
       sr_prior_pieces = rs_pieces_sent state, sr_scan = rs_scan state, sr_unsent = unsent,
       sr_finish = rs_finish state\<rparr>)"

definition start_fresh :: "serve_env \<Rightarrow> GenerateJob \<Rightarrow> error_text + start" where
  "start_fresh env job = (case render_prompt (sx_engine env) (jb_prompt job) of
     Inl e \<Rightarrow> Inl (EngineText e)
   | Inr text \<Rightarrow> (case en_tokenize (sx_engine env) text of
       Inl e \<Rightarrow> Inl (EngineText e)
     | Inr toks \<Rightarrow>
         if toks = [] then Inl PromptNoTokens
         else if n_ctx env < length toks + gp_max_tokens (jb_params job)
         then Inl (ContextExceeded (length toks) (gp_max_tokens (jb_params job)) (n_ctx env))
         else Inr \<lparr>sr_prompt_tokens = toks, sr_prior_generated = [], sr_prior_pieces = 0,
           sr_scan = StopScan_new (gp_stop (jb_params job)), sr_unsent = [], sr_finish = None\<rparr>))"

definition prepare_generation :: "serve_env \<Rightarrow> nat \<Rightarrow> SupervisedGenerate \<Rightarrow> pool \<Rightarrow> PreparedGen option \<times> pool" where
  "prepare_generation env now sg p =
     (let job = sg_job sg; max_tokens = gp_max_tokens (jb_params job) in
      case phase_batch env of
        Inl e \<Rightarrow> finish_error sg (EngineText e) p
      | Inr _ \<Rightarrow>
          if ch_closed (pl_chans p (jb_tx job)) then (None, send_outcome (Some (sg_outcome sg)) Finished p)
          else if jb_model job \<noteq> lm_name (sx_info env) \<and> jb_model job \<noteq> sx_reference env
          then finish_error sg (ModelNotLoaded (jb_model job)) p
          else (case (case sg_resume sg of Some state \<Rightarrow> start_resumed (sx_engine env) state
                      | None \<Rightarrow> start_fresh env job) of
              Inl message \<Rightarrow> finish_error sg message p
            | Inr st \<Rightarrow>
                let remaining = sat_sub max_tokens (length (sr_prior_generated st));
                    prepared = \<lparr>pg_job = job, pg_outcome = Some (sg_outcome sg), pg_prompt_tokens = sr_prompt_tokens st,
                      pg_prior_generated = sr_prior_generated st, pg_prior_pieces = sr_prior_pieces st,
                      pg_scan = sr_scan st, pg_remaining = remaining,
                      pg_budget = length (sr_prompt_tokens st) + max_tokens,
                      pg_resumed = (sg_resume sg \<noteq> None), pg_unsent = sr_unsent st, pg_finish = sr_finish st,
                      pg_arrived = now\<rparr> in
                (case sr_finish st of
                   Some kind \<Rightarrow>
                     if sr_unsent st = [] then finish_now sg (sr_prompt_tokens st) (sr_prior_generated st) kind p
                     else (Some prepared, p)
                 | None \<Rightarrow>
                     if remaining = 0 \<and> sr_unsent st = []
                     then finish_now sg (sr_prompt_tokens st) (sr_prior_generated st) Length p
                     else (Some prepared, p))))"

datatype Pumped = Handled | Ctrl HostMsg | Exit

text \<open>
  Status queries and embeddings are answered on channels of their own, by a session of their own.
\<close>

definition pump_msg :: "serve_env \<Rightarrow> nat \<Rightarrow> HostMsg \<Rightarrow> serve \<Rightarrow> Pumped \<times> serve" where
  "pump_msg env now msg s = (case msg of
     Models _ \<Rightarrow> (Handled, s)
   | Generate sg \<Rightarrow>
       (case prepare_generation env now sg (sm_pool s) of
          (Some prepared, p) \<Rightarrow> (Handled, s\<lparr>sm_pool := p, sm_queue := sm_queue s @ [prepared]\<rparr>)
        | (None, p) \<Rightarrow> (Handled, s\<lparr>sm_pool := p\<rparr>))
   | Embed _ _ _ \<Rightarrow> (Handled, s)
   | Shutdown \<Rightarrow> (Exit, s)
   | LoadMsg _ _ _ _ _ \<Rightarrow> (Ctrl msg, s)
   | LoadDistributed _ _ _ _ _ _ _ _ _ \<Rightarrow> (Ctrl msg, s)
   | Unload _ \<Rightarrow> (Ctrl msg, s)
   | ServeShard _ \<Rightarrow> (Ctrl msg, s))"

section \<open>Admission\<close>

fun common_prefix_len :: "Token list \<Rightarrow> Token list \<Rightarrow> nat" where
  "common_prefix_len (a # as) (b # bs) = (if a = b then Suc (common_prefix_len as bs) else 0)"
| "common_prefix_len _ _ = 0"

definition reuse_lcp :: "Token list \<Rightarrow> RetainedSlot \<Rightarrow> nat" where
  "reuse_lcp prompt slot = min (common_prefix_len (rt_history slot) prompt) (sat_sub (length prompt) 1)"

fun best_reuse :: "Token list \<Rightarrow> nat \<Rightarrow> RetainedSlot list \<Rightarrow> (nat \<times> nat) option \<Rightarrow> (nat \<times> nat) option" where
  "best_reuse prompt idx [] reuse = reuse"
| "best_reuse prompt idx (slot # slots) reuse =
     (let lcp = reuse_lcp prompt slot in
      best_reuse prompt (idx + 1) slots
        (if REUSE_FLOOR \<le> lcp \<and> (case reuse of None \<Rightarrow> True | Some (_, best) \<Rightarrow> best < lcp) then Some (idx, lcp) else reuse))"

text \<open>\<open>Iterator::position\<close>, \<open>rposition\<close>, \<open>Vec::remove\<close> and \<open>Vec::swap_remove\<close>.\<close>

fun position :: "('a \<Rightarrow> bool) \<Rightarrow> 'a list \<Rightarrow> nat option" where
  "position P [] = None"
| "position P (x # xs) = (if P x then Some 0 else map_option Suc (position P xs))"

definition rposition :: "('a \<Rightarrow> bool) \<Rightarrow> 'a list \<Rightarrow> nat option" where
  "rposition P xs = map_option (\<lambda>i. length xs - 1 - i) (position P (rev xs))"

definition remove_at :: "nat \<Rightarrow> 'a list \<Rightarrow> 'a list" where
  "remove_at i xs = take i xs @ drop (Suc i) xs"

definition swap_remove :: "nat \<Rightarrow> 'a list \<Rightarrow> 'a list" where
  "swap_remove i xs = (if Suc i = length xs then butlast xs else (butlast xs)[i := last xs])"

lemma position_Some: "position P xs = Some i \<Longrightarrow> i < length xs \<and> P (xs ! i)"
  by (induction xs arbitrary: i) (auto split: if_splits)

lemma position_None: "position P xs = None \<longleftrightarrow> (\<forall>x \<in> set xs. \<not> P x)"
  by (induction xs) auto

definition reuse_seq :: "RetainedSlot list \<Rightarrow> (nat \<times> nat) option \<Rightarrow> SeqId option" where
  "reuse_seq retained reuse = map_option (\<lambda>(idx, _). rt_seq (retained ! idx)) reuse"

definition cached_tokens :: "RetainedSlot list \<Rightarrow> (nat \<times> nat) option \<Rightarrow> nat" where
  "cached_tokens retained reuse =
     sum_list (map (\<lambda>r. length (rt_history r)) (filter (\<lambda>r. Some (rt_seq r) \<noteq> reuse_seq retained reuse) retained))"

function evict :: "engine \<Rightarrow> nat \<Rightarrow> nat \<Rightarrow> RetainedSlot list \<Rightarrow> (nat \<times> nat) option \<Rightarrow> Session
    \<Rightarrow> RetainedSlot list \<times> (nat \<times> nat) option \<times> Session" where
  "evict E room need retained reuse session =
     (if need + cached_tokens retained reuse \<le> room then (retained, reuse, session)
      else (case position (\<lambda>r. Some (rt_seq r) \<noteq> reuse_seq retained reuse) retained of
          None \<Rightarrow> (retained, reuse, session)
        | Some victim_pos \<Rightarrow>
            evict E room need (remove_at victim_pos retained)
              (case reuse of Some (idx, lcp) \<Rightarrow> if victim_pos < idx then Some (idx - 1, lcp) else reuse | None \<Rightarrow> None)
              (snd (seq_rm E (rt_seq (retained ! victim_pos)) (- 1) session))))"
  by pat_completeness auto
termination
  by (relation "measure (\<lambda>(_, _, _, retained, _, _). length retained)")
    (auto simp: remove_at_def dest!: position_Some)

declare evict.simps [simp del]

definition sampler_of :: "GenParams \<Rightarrow> SamplerParams" where
  "sampler_of params = \<lparr>sp_temperature = gp_temperature params, sp_top_p = gp_top_p params, sp_top_k = gp_top_k params,
     sp_seed = (case gp_seed params of Some seed \<Rightarrow> seed | None \<Rightarrow> SEED_RANDOM)\<rparr>"

text \<open>The slot of an admitted request, with the tokens of its memory that are reused.\<close>

definition reuse_slot :: "engine \<Rightarrow> nat \<Rightarrow> nat \<Rightarrow> pool \<Rightarrow> SeqId \<times> nat \<times> pool" where
  "reuse_slot E idx lcp p =
     (let slot = pl_retained p ! idx;
          p = p\<lparr>pl_retained := remove_at idx (pl_retained p), pl_free := filter (\<lambda>s. s \<noteq> rt_seq slot) (pl_free p)\<rparr> in
      case seq_rm E (rt_seq slot) (int lcp) (pl_session p) of
        (Inr _, session) \<Rightarrow> (rt_seq slot, lcp, p\<lparr>pl_session := session\<rparr>)
      | (Inl _, session) \<Rightarrow> (rt_seq slot, 0, seq_clear E (rt_seq slot) (p\<lparr>pl_session := session\<rparr>)))"

definition free_pos :: "pool \<Rightarrow> nat option \<times> RetainedSlot list" where
  "free_pos p = (case rposition (\<lambda>s. \<not> list_ex (\<lambda>r. rt_seq r = s) (pl_retained p)) (pl_free p) of
     Some pos \<Rightarrow> (Some pos, pl_retained p)
   | None \<Rightarrow> (case pl_retained p of
       [] \<Rightarrow> (None, [])
     | oldest # rest \<Rightarrow> (position (\<lambda>s. s = rt_seq oldest) (pl_free p), rest)))"

definition cold_slot :: "engine \<Rightarrow> pool \<Rightarrow> (SeqId \<times> nat \<times> pool) option" where
  "cold_slot E p = (case free_pos p of
     (None, _) \<Rightarrow> None
   | (Some pos, retained) \<Rightarrow>
       (let seq = pl_free p ! pos in
        Some (seq, 0, seq_clear E seq
          (p\<lparr>pl_free := swap_remove pos (pl_free p), pl_retained := filter (\<lambda>r. rt_seq r \<noteq> seq) retained\<rparr>))))"

definition admit_gen :: "nat \<Rightarrow> PreparedGen \<Rightarrow> Sampler \<Rightarrow> SeqId \<Rightarrow> nat \<Rightarrow> u64 \<Rightarrow> ActiveGen" where
  "admit_gen now p chain seq reused uid =
     \<lparr>ag_seq = seq, ag_uid = uid, ag_job = pg_job p, ag_outcome = pg_outcome p,
      ag_prompt_tokens = pg_prompt_tokens p, ag_prior_generated = pg_prior_generated p, ag_scan = pg_scan p,
      ag_prefix = pg_prompt_tokens p @ pg_prior_generated p, ag_prefill_done = reused, ag_reused = reused,
      ag_kv_len = reused, ag_attempt_tokens = [], ag_pending = None, ag_held = pg_unsent p,
      ag_terminal_after_drain = (case pg_finish p of
          Some kind \<Rightarrow> Some (DeferFinish kind)
        | None \<Rightarrow> if pg_remaining p = 0 then Some (DeferFinish Length) else None),
      ag_remaining = pg_remaining p, ag_budget = pg_budget p, ag_pieces_sent = pg_prior_pieces p,
      ag_sampler = sa_params chain, ag_chain = chain, ag_drafted = 0, ag_accepted = 0, ag_arrived = pg_arrived p,
      ag_admitted = now, ag_prefill_finished = None, ag_ttft_ms = None, ag_kv_suspect = False,
      ag_stalled_since = None, ag_done = False\<rparr>"

fun admissions :: "serve_env \<Rightarrow> nat \<Rightarrow> PreparedGen list \<Rightarrow> serve \<Rightarrow> serve" where
  "admissions env now [] s = s\<lparr>sm_queue := []\<rparr>"
| "admissions env now (q # qs) s =
     (let E = sx_engine env; p = sm_pool s;
          used = sum_list (map ag_budget (sm_active s));
          reuse = (if hp_kv_reuse (sx_perf env) \<and> \<not> pg_resumed q
                   then best_reuse (pg_prompt_tokens q) 0 (pl_retained p) None else None);
          (retained, reuse, session) = evict E (n_ctx env) (used + pg_budget q) (pl_retained p) reuse (pl_session p);
          p = p\<lparr>pl_retained := retained, pl_session := session\<rparr> in
      if n_seq_max env \<le> length (sm_active s) then s\<lparr>sm_queue := q # qs\<rparr>
      else if n_ctx env < used + pg_budget q + cached_tokens retained reuse
      then s\<lparr>sm_pool := p, sm_queue := q # qs\<rparr>
      else (case Sampler_new E (sampler_of (jb_params (pg_job q))) (pg_tx q, pg_resumed q) of
          Inl e \<Rightarrow> admissions env now qs (s\<lparr>sm_pool :=
            send_outcome (pg_outcome q) Finished (deliver_terminal (pg_tx q) (ErrorEv (EngineText e)) p)\<rparr>)
        | Inr chain \<Rightarrow>
            (case (case reuse of Some (idx, lcp) \<Rightarrow> Some (reuse_slot E idx lcp p) | None \<Rightarrow> cold_slot E p) of
               None \<Rightarrow> s\<lparr>sm_pool := p\<lparr>pl_panicked := True\<rparr>, sm_queue := qs\<rparr>
             | Some (seq, reused, p) \<Rightarrow>
                 admissions env now qs (s\<lparr>sm_pool := p, sm_next_uid := add64 (sm_next_uid s) 1,
                   sm_active := sm_active s @ [admit_gen now q chain seq reused (sm_next_uid s)]\<rparr>))))"

definition phase_admit :: "serve_env \<Rightarrow> nat \<Rightarrow> serve \<Rightarrow> serve" where
  "phase_admit env now s = admissions env now (sm_queue s) s"

definition barrier_done :: "serve \<Rightarrow> bool" where
  "barrier_done s = (sm_ctrl s \<noteq> None \<and> sm_active s = [] \<and> sm_queue s = [])"

section \<open>Speculative rounds\<close>

definition GREEDY :: SamplerParams where
  "GREEDY = \<lparr>sp_temperature = Fin 0, sp_top_p = Fin 1, sp_top_k = 0, sp_seed = 0\<rparr>"

definition sample_greedy :: "engine \<Rightarrow> Token list \<Rightarrow> Token" where
  "sample_greedy E ctx = en_pick E GREEDY (0, False) [] ctx"

text \<open>
  \<open>fails\<close> gives, by number, the decode calls of a round on the draft session that fail, with the
  state they leave.
\<close>

type_synonym draft_faults = "nat \<Rightarrow> (EngineError \<times> Token list) option"

fun draft_loop :: "engine \<Rightarrow> draft_faults \<Rightarrow> nat \<Rightarrow> nat \<Rightarrow> Token list \<Rightarrow> Token list
    \<Rightarrow> (Token list \<times> nat) engine_res \<times> Token list" where
  "draft_loop D fails 0 calls kv drafts = (Inr (drafts, calls), kv)"
| "draft_loop D fails (Suc room) calls kv drafts =
     (let t = sample_greedy D kv in
      if en_is_eog D t then (Inr (drafts, calls), kv)
      else if room = 0 then (Inr (drafts @ [t], calls), kv)
      else (case fails (Suc calls) of
          Some (e, kv) \<Rightarrow> (Inl e, kv)
        | None \<Rightarrow> draft_loop D fails room (Suc calls) (kv @ [t]) (drafts @ [t])))"

fun push_tokens :: "Token list \<Rightarrow> nat \<Rightarrow> SeqId \<Rightarrow> Batch \<Rightarrow> usize list \<Rightarrow> (usize list \<times> Batch) engine_res" where
  "push_tokens [] pos seq b indexes = Inr (indexes, b)"
| "push_tokens (t # ts) pos seq b indexes = (case ba_push t pos seq True b of
     Inl e \<Rightarrow> Inl e
   | Inr (index, b) \<Rightarrow> push_tokens ts (pos + 1) seq b (indexes @ [index]))"

definition draft_start :: "ActiveGen \<Rightarrow> DraftCtx \<Rightarrow> nat \<times> Token list" where
  "draft_start g d = (case dx_synced d of
     Some (uid, n) \<Rightarrow> if uid = ag_uid g \<and> n \<le> ag_kv_len g then (n, dx_kv d) else (0, [])
   | None \<Rightarrow> (0, []))"

definition stream :: "ActiveGen \<Rightarrow> Token list" where
  "stream g = ag_prefix g @ ag_attempt_tokens g"

definition spec_room :: "ActiveGen \<Rightarrow> Batch \<Rightarrow> nat" where
  "spec_room g b = min (min SPEC_K (sat_sub (ag_remaining g) 1)) (sat_sub (ba_capacity b) 1)"

definition build_spec_step :: "engine \<Rightarrow> draft_faults \<Rightarrow> Token \<Rightarrow> ActiveGen \<Rightarrow> Batch \<Rightarrow> DraftCtx
    \<Rightarrow> (SpecStep \<times> Batch) engine_res \<times> DraftCtx" where
  "build_spec_step D fails t g b d =
     (let confirmed = ag_kv_len g;
          (synced, kv) = draft_start g d;
          catchup = map (\<lambda>i. stream g ! i) [synced..<confirmed] @ [t] in
      case fails 0 of
        Some (e, kv) \<Rightarrow> (Inl e, \<lparr>dx_kv = kv, dx_synced = None\<rparr>)
      | None \<Rightarrow>
          (case draft_loop D fails (spec_room g b) 0 (kv @ catchup) [] of
             (Inl e, kv) \<Rightarrow> (Inl e, \<lparr>dx_kv = kv, dx_synced = None\<rparr>)
           | (Inr (drafts, calls), kv) \<Rightarrow>
               let draft_kv = confirmed + 1 + calls;
                   d = \<lparr>dx_kv = kv, dx_synced = Some (ag_uid g, draft_kv)\<rparr> in
               (case push_tokens (t # drafts) confirmed (ag_seq g) (ba_clear b) [] of
                  Inl e \<Rightarrow> (Inl e, d)
                | Inr (indexes, b) \<Rightarrow>
                    (Inr (\<lparr>st_indexes = indexes, st_drafts = drafts, st_draft_kv = draft_kv\<rparr>, b), d))))"

record walked =
  wk_confirmed :: "(Token \<times> string) list"
  wk_next :: "Token option"
  wk_error :: "EngineError option"
  wk_chain :: Sampler

fun accept_walk :: "engine \<Rightarrow> Session \<Rightarrow> (Token \<times> usize) list \<Rightarrow> walked \<Rightarrow> walked" where
  "accept_walk E s [] w = w"
| "accept_walk E s ((d, index) # ds) w =
     (let (t, chain) = sample_ith_with E s (wk_chain w) index; w = w\<lparr>wk_chain := chain\<rparr> in
      if t \<noteq> d then w\<lparr>wk_next := Some t\<rparr>
      else (case en_piece E t of
          Inl e \<Rightarrow> w\<lparr>wk_error := Some e\<rparr>
        | Inr piece \<Rightarrow> accept_walk E s ds (w\<lparr>wk_confirmed := wk_confirmed w @ [(t, piece)]\<rparr>)))"

fun emit_confirmed :: "nat \<Rightarrow> (Token \<times> string) list \<Rightarrow> nat \<Rightarrow> ActiveGen \<Rightarrow> chans
    \<Rightarrow> FinishKind option \<times> nat \<times> ActiveGen \<times> chans" where
  "emit_confirmed now [] kept g cs = (None, kept, g, cs)"
| "emit_confirmed now ((t, piece) # rest) kept g cs =
     (let g = g\<lparr>ag_attempt_tokens := ag_attempt_tokens g @ [t], ag_remaining := ag_remaining g - 1\<rparr>;
          (ok, scan) = admit (ag_scan g) piece;
          g = g\<lparr>ag_scan := scan\<rparr> in
      if \<not> ok then (Some Stop, kept + 1, g, cs)
      else
        let (g, cs) = deliver_piece now piece g cs in
        if ag_remaining g = 0 then (Some Length, kept + 1, g, cs)
        else emit_confirmed now rest (kept + 1) g cs)"

definition emit_round :: "nat \<Rightarrow> PendingTok \<Rightarrow> (Token \<times> string) list \<Rightarrow> ActiveGen \<Rightarrow> chans
    \<Rightarrow> FinishKind option \<times> nat \<times> ActiveGen \<times> chans" where
  "emit_round now pending confirmed g cs =
     (let g = g\<lparr>ag_attempt_tokens := ag_attempt_tokens g @ [tok_of pending], ag_remaining := ag_remaining g - 1\<rparr>;
          (finish, g, cs) = (case pending of
             Sent _ admitted \<Rightarrow> (if admitted then None else Some Stop, g, cs)
           | Unsent _ piece \<Rightarrow>
               (let (ok, scan) = admit (ag_scan g) piece; g = g\<lparr>ag_scan := scan\<rparr> in
                if \<not> ok then (Some Stop, g, cs)
                else let (g, cs) = deliver_piece now piece g cs in (None, g, cs))) in
      if finish = None then emit_confirmed now confirmed 1 g cs else (finish, 1, g, cs))"

definition reset_draft :: "DraftCtx option \<Rightarrow> DraftCtx option" where
  "reset_draft draft = map_option (\<lambda>d. \<lparr>dx_kv = [], dx_synced = None\<rparr>) draft"

definition resync_draft :: "engine \<Rightarrow> SpecStep \<Rightarrow> ActiveGen \<Rightarrow> DraftCtx \<Rightarrow> DraftCtx" where
  "resync_draft D step g d =
     (let matched = min (st_draft_kv step) (ag_kv_len g) in
      if matched < st_draft_kv step then
        (if en_partial_rm D \<or> matched = 0 then \<lparr>dx_kv = take matched (dx_kv d), dx_synced = Some (ag_uid g, matched)\<rparr>
         else \<lparr>dx_kv = [], dx_synced = None\<rparr>)
      else d\<lparr>dx_synced := Some (ag_uid g, matched)\<rparr>)"

text \<open>The end of a round: the next token is staged, or the decided finish applied or deferred.\<close>

definition apply_finish :: "serve_env \<Rightarrow> nat \<Rightarrow> FinishKind \<Rightarrow> ActiveGen \<Rightarrow> pool \<Rightarrow> ActiveGen \<times> pool" where
  "apply_finish env now kind g p =
     (if ag_held g = [] then finish_seq (sx_engine env) now kind (hp_kv_reuse (sx_perf env)) g p
      else (g\<lparr>ag_terminal_after_drain := Some (DeferFinish kind)\<rparr>, p))"

definition stage_next :: "serve_env \<Rightarrow> nat \<Rightarrow> Token \<Rightarrow> ActiveGen \<Rightarrow> pool \<Rightarrow> ActiveGen \<times> pool" where
  "stage_next env now next g p =
     (if en_is_eog (sx_engine env) next then apply_finish env now Stop g p
      else (case en_piece (sx_engine env) next of
          Inl e \<Rightarrow> fail_seq (sx_engine env) (EngineText e) g p
        | Inr piece \<Rightarrow>
            let (g, cs) = stage_pending now (sx_distributed env) next piece g (pl_chans p) in (g, p\<lparr>pl_chans := cs\<rparr>)))"

definition seq_trim :: "engine \<Rightarrow> bool \<Rightarrow> SeqId \<Rightarrow> nat \<Rightarrow> pool \<Rightarrow> unit engine_res \<times> pool" where
  "seq_trim E needed seq keep p =
     (if needed then (let (r, session) = seq_rm E seq (int keep) (pl_session p) in (r, p\<lparr>pl_session := session\<rparr>))
      else (Inr (), p))"

definition process_spec_step :: "serve_env \<Rightarrow> nat \<Rightarrow> PendingTok \<Rightarrow> SpecStep \<Rightarrow> ActiveGen \<Rightarrow> pool \<Rightarrow> DraftCtx option
    \<Rightarrow> error_text option \<times> ActiveGen \<times> pool \<times> DraftCtx option" where
  "process_spec_step env now pending step g p draft =
     (let E = sx_engine env;
          old_confirmed = ag_kv_len g;
          w = accept_walk E (pl_session p) (zip (st_drafts step) (st_indexes step))
            \<lparr>wk_confirmed = [], wk_next = None, wk_error = None, wk_chain = ag_chain g\<rparr>;
          confirmed = wk_confirmed w;
          g = g\<lparr>ag_pending := None, ag_chain := wk_chain w,
                ag_drafted := add32 (ag_drafted g) (as_u32 (length (st_drafts step))),
                ag_accepted := add32 (ag_accepted g) (as_u32 (length confirmed))\<rparr> in
      case wk_error w of
        Some e \<Rightarrow> (let (g, p) = fail_seq E (EngineText e) g p in (None, g, p, reset_draft draft))
      | None \<Rightarrow>
          let (next, g) = (case wk_next w of
                Some t \<Rightarrow> (t, g)
              | None \<Rightarrow> (let (t, chain) = sample_ith_with E (pl_session p) (ag_chain g)
                            (st_indexes step ! length (st_drafts step)) in (t, g\<lparr>ag_chain := chain\<rparr>)));
              keep = old_confirmed + 1 + length confirmed in
          (case seq_trim E (length confirmed < length (st_drafts step)) (ag_seq g) keep p of
             (Inl e, p) \<Rightarrow> (Some (RollbackText e), g, p, reset_draft draft)
           | (Inr _, p) \<Rightarrow>
               let (finish, kept, g, cs) = emit_round now pending confirmed (g\<lparr>ag_kv_len := keep\<rparr>) (pl_chans p);
                   p = p\<lparr>pl_chans := cs\<rparr>;
                   trimmed = (kept < 1 + length confirmed) in
               (case seq_trim E trimmed (ag_seq g) (old_confirmed + kept) p of
                  (Inl e, p) \<Rightarrow> (Some (TrimText e), g, p, reset_draft draft)
                | (Inr _, p) \<Rightarrow>
                    let g = (if trimmed then g\<lparr>ag_kv_len := old_confirmed + kept\<rparr> else g);
                        draft = map_option (resync_draft (sx_draft_engine env) step g) draft;
                        (g, p) = (case finish of
                           Some kind \<Rightarrow> apply_finish env now kind g p
                         | None \<Rightarrow> stage_next env now next g p) in
                    (None, g, p, draft))))"

section \<open>One step\<close>

definition confirm_decode :: "serve_env \<Rightarrow> nat \<Rightarrow> usize \<Rightarrow> ActiveGen \<Rightarrow> pool \<Rightarrow> ActiveGen \<times> pool" where
  "confirm_decode env now index g p =
     (let E = sx_engine env;
          carry_on = (\<lambda>g p.
            if ag_remaining g = 0 then apply_finish env now Length g p
            else (let (next, chain) = sample_ith_with E (pl_session p) (ag_chain g) index in
                  stage_next env now next (g\<lparr>ag_chain := chain\<rparr>) p));
          stop = (\<lambda>g p. finish_seq E now Stop (hp_kv_reuse (sx_perf env)) g p) in
      case ag_pending g of
        None \<Rightarrow> (g, p\<lparr>pl_panicked := True\<rparr>)
      | Some pending \<Rightarrow>
          let g = g\<lparr>ag_kv_len := ag_kv_len g + 1, ag_pending := None,
                    ag_attempt_tokens := ag_attempt_tokens g @ [tok_of pending], ag_remaining := ag_remaining g - 1\<rparr> in
          (case pending of
             Sent _ admitted \<Rightarrow> if admitted then carry_on g p else stop g p
           | Unsent _ piece \<Rightarrow>
               let (ok, scan) = admit (ag_scan g) piece; g = g\<lparr>ag_scan := scan\<rparr> in
               if \<not> ok then stop g p
               else (case try_send (ag_tx g) (TokenEv piece) (pl_chans p) of
                   (SendOk, cs) \<Rightarrow> carry_on (note_sent now g) (p\<lparr>pl_chans := cs\<rparr>)
                 | (SendFull, cs) \<Rightarrow> carry_on (note_stall now (g\<lparr>ag_held := ag_held g @ [piece]\<rparr>)) (p\<lparr>pl_chans := cs\<rparr>)
                 | (SendClosed, cs) \<Rightarrow> cancel_seq E g (p\<lparr>pl_chans := cs\<rparr>))))"

fun confirm_all :: "serve_env \<Rightarrow> nat \<Rightarrow> (nat \<times> usize) list \<Rightarrow> ActiveGen list \<Rightarrow> pool \<Rightarrow> ActiveGen list \<times> pool" where
  "confirm_all env now [] active p = (active, p)"
| "confirm_all env now ((i, index) # ds) active p =
     (let (g, p) = confirm_decode env now index (active ! i) p in confirm_all env now ds (active[i := g]) p)"

definition confirm_prefill :: "serve_env \<Rightarrow> nat \<Rightarrow> nat \<Rightarrow> usize option \<Rightarrow> ActiveGen \<Rightarrow> pool \<Rightarrow> ActiveGen \<times> pool" where
  "confirm_prefill env now chunk tail_index g p =
     (if ag_done g then (g, p)
      else
        let E = sx_engine env;
            g = g\<lparr>ag_kv_len := ag_kv_len g + chunk, ag_prefill_done := ag_prefill_done g + chunk\<rparr> in
        if ag_prefill_done g \<noteq> length (ag_prefix g) then (g, p)
        else (case tail_index of
            None \<Rightarrow> (g, p\<lparr>pl_panicked := True\<rparr>)
          | Some index \<Rightarrow>
              let (next, chain) = sample_ith_with E (pl_session p) (ag_chain g) index;
                  g = g\<lparr>ag_prefill_finished := Some now, ag_chain := chain\<rparr> in
              if en_is_eog E next then finish_seq E now Stop (hp_kv_reuse (sx_perf env)) g p
              else (case en_piece E next of
                  Inl e \<Rightarrow> fail_seq E (EngineText e) g p
                | Inr piece \<Rightarrow>
                    let (g, cs) = stage_pending now (sx_distributed env) next piece g (pl_chans p) in
                    (g, p\<lparr>pl_chans := cs\<rparr>))))"

text \<open>The batch of a plain step: the pending tokens, then one chunk of the first prefill.\<close>

definition blocked_gen :: "ActiveGen \<Rightarrow> bool" where
  "blocked_gen g = (ag_held g \<noteq> [] \<or> ag_terminal_after_drain g \<noteq> None)"

fun build_decodes :: "ActiveGen list \<Rightarrow> nat \<Rightarrow> Batch \<Rightarrow> (nat \<times> usize) list
    \<Rightarrow> (nat \<times> EngineError) option \<times> Batch \<times> (nat \<times> usize) list" where
  "build_decodes [] i b decodes = (None, b, decodes)"
| "build_decodes (g # gs) i b decodes =
     (if blocked_gen g \<or> ag_prefill_done g < length (ag_prefix g) then build_decodes gs (i + 1) b decodes
      else (case ag_pending g of
          None \<Rightarrow> build_decodes gs (i + 1) b decodes
        | Some pending \<Rightarrow> (case ba_push (tok_of pending) (ag_kv_len g) (ag_seq g) True b of
            Inl e \<Rightarrow> (Some (i, e), b, decodes)
          | Inr (index, b) \<Rightarrow> build_decodes gs (i + 1) b (decodes @ [(i, index)]))))"

fun push_chunk :: "Token list \<Rightarrow> nat \<Rightarrow> nat \<Rightarrow> nat \<Rightarrow> SeqId \<Rightarrow> Batch \<Rightarrow> usize option
    \<Rightarrow> (Batch \<times> usize option) engine_res" where
  "push_chunk [] at_pos fed plen seq b tail = Inr (b, tail)"
| "push_chunk (t # ts) at_pos fed plen seq b tail =
     (let is_tail = (fed + 1 = plen) in
      case ba_push t at_pos seq is_tail b of
        Inl e \<Rightarrow> Inl e
      | Inr (index, b) \<Rightarrow> push_chunk ts (at_pos + 1) (fed + 1) plen seq b (if is_tail then Some index else tail))"

fun build_prefill :: "nat \<Rightarrow> ActiveGen list \<Rightarrow> nat \<Rightarrow> Batch
    \<Rightarrow> (nat \<times> EngineError) option \<times> Batch \<times> (nat \<times> nat \<times> usize option) option" where
  "build_prefill nb [] i b = (None, b, None)"
| "build_prefill nb (g # gs) i b =
     (if blocked_gen g \<or> length (ag_prefix g) \<le> ag_prefill_done g then build_prefill nb gs (i + 1) b
      else
        let space = sat_sub nb (length (ba_entries b)) in
        if space = 0 then (None, b, None)
        else
          let stop = min (ag_prefill_done g + space) (length (ag_prefix g));
              chunk = take (stop - ag_prefill_done g) (drop (ag_prefill_done g) (ag_prefix g)) in
          (case push_chunk chunk (ag_kv_len g) (ag_prefill_done g) (length (ag_prefix g)) (ag_seq g) b None of
             Inl e \<Rightarrow> (Some (i, e), b, None)
           | Inr (b, tail) \<Rightarrow> (None, b, Some (i, stop - ag_prefill_done g, tail))))"

text \<open>
  A failed decode. The memory of every sequence shared the batch: on a distributed model all
  active generations are interrupted, on a solo one they fail.
\<close>

definition interrupted_gen :: "serve_env \<Rightarrow> EngineError \<Rightarrow> ActiveGen \<Rightarrow> InterruptedGen" where
  "interrupted_gen env e g =
     \<lparr>ig_job = ag_tx g, ig_prompt_tokens = ag_prompt_tokens g,
      ig_generated_tokens = ag_prior_generated g @ ag_attempt_tokens g, ig_pieces_sent = ag_pieces_sent g,
      ig_scan = ag_scan g,
      ig_finish = (case ag_terminal_after_drain g of Some (DeferFinish k) \<Rightarrow> Some k | _ \<Rightarrow> None),
      ig_error = sx_shown env e\<rparr>"

fun clear_slots :: "engine \<Rightarrow> RetainedSlot list \<Rightarrow> pool \<Rightarrow> pool" where
  "clear_slots E [] p = p"
| "clear_slots E (r # rs) p = clear_slots E rs (seq_clear E (rt_seq r) p)"

fun interrupt_all :: "serve_env \<Rightarrow> EngineError \<Rightarrow> ActiveGen list \<Rightarrow> pool \<Rightarrow> pool" where
  "interrupt_all env e [] p = p"
| "interrupt_all env e (g # gs) p =
     interrupt_all env e gs (send_outcome (ag_outcome g) (Interrupted (interrupted_gen env e g)) p)"

definition decode_failed :: "serve_env \<Rightarrow> EngineError \<Rightarrow> serve \<Rightarrow> serve" where
  "decode_failed env e s =
     (let E = sx_engine env; p = sm_pool s;
          p = (if sx_distributed env then p else clear_slots E (pl_retained p) p);
          p = p\<lparr>pl_retained := []\<rparr>;
          (active, p) = (if sx_distributed env then ([], interrupt_all env e (sm_active s) p)
             else let (active, p) = over_active (\<lambda>g. fail_seq E (EngineText e) (g\<lparr>ag_kv_suspect := True\<rparr>)) (sm_active s) p
                  in (retain_live active, p)) in
      s\<lparr>sm_active := active, sm_draft := map_option (\<lambda>d. d\<lparr>dx_synced := None\<rparr>) (sm_draft s),
        sm_pool := p\<lparr>pl_free := filter (\<lambda>q. \<not> list_ex (\<lambda>g. ag_seq g = q) active) (rev [0..<n_seq_max env])\<rparr>\<rparr>)"

definition run_batch :: "serve_env \<Rightarrow> fault \<Rightarrow> Batch \<Rightarrow> (serve \<Rightarrow> serve) \<Rightarrow> serve \<Rightarrow> serve" where
  "run_batch env fault b post s = (case decode_batch fault b (pl_session (sm_pool s)) of
     (Inl e, session) \<Rightarrow> decode_failed env e (s\<lparr>sm_pool := (sm_pool s)\<lparr>pl_session := session\<rparr>\<rparr>)
   | (Inr _, session) \<Rightarrow> post (s\<lparr>sm_pool := (sm_pool s)\<lparr>pl_session := session\<rparr>\<rparr>))"

datatype stepped = Stepped serve | Blocked serve

definition push_failed :: "serve_env \<Rightarrow> nat \<Rightarrow> EngineError \<Rightarrow> serve \<Rightarrow> serve" where
  "push_failed env i e s =
     (let (g, p) = fail_seq (sx_engine env) (EngineText e) (sm_active s ! i) (sm_pool s) in
      s\<lparr>sm_active := retain_live ((sm_active s)[i := g]), sm_pool := p\<rparr>)"

definition post_plain :: "serve_env \<Rightarrow> nat \<Rightarrow> (nat \<times> usize) list \<Rightarrow> (nat \<times> nat \<times> usize option) option \<Rightarrow> serve \<Rightarrow> serve" where
  "post_plain env now decodes prefill s =
     (let (active, p) = confirm_all env now decodes (sm_active s) (sm_pool s);
          (active, p) = (case prefill of
             None \<Rightarrow> (active, p)
           | Some (i, chunk, tail) \<Rightarrow>
               (let (g, p) = confirm_prefill env now chunk tail (active ! i) p in (active[i := g], p))) in
      s\<lparr>sm_active := retain_live active, sm_pool := p\<rparr>)"

definition plain_step :: "serve_env \<Rightarrow> nat \<Rightarrow> fault \<Rightarrow> Batch \<Rightarrow> serve \<Rightarrow> stepped" where
  "plain_step env now fault b s = (case build_decodes (sm_active s) 0 (ba_clear b) [] of
     (Some (i, e), _, _) \<Rightarrow> Stepped (push_failed env i e s)
   | (None, b, decodes) \<Rightarrow> (case build_prefill (n_batch env) (sm_active s) 0 b of
       (Some (i, e), _, _) \<Rightarrow> Stepped (push_failed env i e s)
     | (None, b, prefill) \<Rightarrow>
         if decodes = [] \<and> prefill = None then Blocked s
         else Stepped (run_batch env fault b (post_plain env now decodes prefill) s)))"

definition spec_eligible :: "ActiveGen \<Rightarrow> bool" where
  "spec_eligible g =
     (ag_held g = [] \<and> ag_terminal_after_drain g = None \<and> length (ag_prefix g) \<le> ag_prefill_done g
      \<and> (case ag_pending g of None \<Rightarrow> False | Some (Sent _ admitted) \<Rightarrow> admitted | Some (Unsent _ _) \<Rightarrow> True)
      \<and> 1 < ag_remaining g \<and> greedy (ag_sampler g))"

definition post_spec :: "serve_env \<Rightarrow> nat \<Rightarrow> PendingTok \<Rightarrow> SpecStep \<Rightarrow> serve \<Rightarrow> serve" where
  "post_spec env now pending step s =
     (let g = hd (sm_active s) in
      case process_spec_step env now pending step g (sm_pool s) (sm_draft s) of
        (None, g, p, draft) \<Rightarrow> s\<lparr>sm_active := retain_live [g], sm_pool := p, sm_draft := draft\<rparr>
      | (Some e, g, p, draft) \<Rightarrow>
          (let (g, p) = (if ag_done g then (g, p) else fail_seq (sx_engine env) e g p) in
           s\<lparr>sm_active := retain_live [g], sm_pool := p, sm_draft := draft, sm_spec_disabled := True\<rparr>))"

definition phase_step :: "serve_env \<Rightarrow> nat \<Rightarrow> fault \<Rightarrow> draft_faults \<Rightarrow> serve \<Rightarrow> stepped" where
  "phase_step env now fault dfails s = (case phase_batch env of
     Inl _ \<Rightarrow> Stepped s
   | Inr b \<Rightarrow> (case (sm_spec_disabled s, sm_active s, sm_draft s) of
       (False, [g], Some d) \<Rightarrow>
         if \<not> spec_eligible g then plain_step env now fault b s
         else (case ag_pending g of
             None \<Rightarrow> plain_step env now fault b s
           | Some pending \<Rightarrow> (case build_spec_step (sx_draft_engine env) dfails (tok_of pending) g b d of
               (Inl _, d) \<Rightarrow> Stepped (s\<lparr>sm_spec_disabled := True, sm_draft := Some (d\<lparr>dx_synced := None\<rparr>)\<rparr>)
             | (Inr (step, b), d) \<Rightarrow>
                 Stepped (run_batch env fault b (post_spec env now pending step) (s\<lparr>sm_draft := Some d\<rparr>))))
     | _ \<Rightarrow> plain_step env now fault b s))"

section \<open>The loop\<close>

text \<open>
  Where the loop is: about to retry deliveries, pumping messages (with whether it took one this
  pass), sweeping, admitting, stepping, waiting because nothing can step, or returned.
\<close>

datatype pc = AtRetry | AtPump bool | AtSweep | AtAdmit | AtStep | AtBlocked | Returned "HostMsg option"

definition serve_idle :: "serve \<Rightarrow> bool" where
  "serve_idle s = (sm_active s = [] \<and> sm_queue s = [] \<and> pl_outbox (sm_pool s) = [])"

definition set_chan :: "nat \<Rightarrow> channel \<Rightarrow> serve \<Rightarrow> serve" where
  "set_chan tx c s = s\<lparr>sm_pool := (sm_pool s)\<lparr>pl_chans := (pl_chans (sm_pool s))(tx := c)\<rparr>\<rparr>"

fun pumped :: "Pumped \<Rightarrow> pc \<Rightarrow> serve \<Rightarrow> pc \<times> serve" where
  "pumped Handled k s = (k, s)"
| "pumped (Ctrl msg) k s = (k, s\<lparr>sm_ctrl := Some msg\<rparr>)"
| "pumped Exit k s = (Returned None, s)"

inductive serve_step :: "serve_env \<Rightarrow> pc \<times> serve \<Rightarrow> HostMsg option \<Rightarrow> pc \<times> serve \<Rightarrow> bool" for env where
  reads: "c = pl_chans (sm_pool s) tx \<Longrightarrow>
    serve_step env (k, s) None (k, set_chan tx (c\<lparr>ch_room := ch_room c + n\<rparr>) s)"
| closes: "c = pl_chans (sm_pool s) tx \<Longrightarrow> serve_step env (k, s) None (k, set_chan tx (c\<lparr>ch_closed := True\<rparr>) s)"
| retry: "serve_step env (AtRetry, s) None (AtPump False, phase_retry env now s)"
| pump: "sm_ctrl s = None \<Longrightarrow> pump_msg env now msg s = (r, s') \<Longrightarrow>
    serve_step env (AtPump got, s) (Some msg) (pumped r (AtPump True) s')"
| gone: "sm_ctrl s = None \<Longrightarrow> serve_step env (AtPump got, s) None (Returned None, s)"
| pumped_out: "sm_ctrl s \<noteq> None \<or> got \<or> \<not> serve_idle s \<Longrightarrow> serve_step env (AtPump got, s) None (AtSweep, s)"
| sweep: "serve_step env (AtSweep, s) None (AtAdmit, phase_sweep env now s)"
| admits: "s' = phase_admit env now s \<Longrightarrow> \<not> barrier_done s' \<Longrightarrow> serve_step env (AtAdmit, s) None (AtStep, s')"
| barrier: "s' = phase_admit env now s \<Longrightarrow> barrier_done s' \<Longrightarrow>
    serve_step env (AtAdmit, s) None (Returned (sm_ctrl s'), s')"
| steps: "phase_step env now fault dfails s = Stepped s' \<Longrightarrow> serve_step env (AtStep, s) None (AtRetry, s')"
| blocks: "phase_step env now fault dfails s = Blocked s' \<Longrightarrow> serve_step env (AtStep, s) None (AtBlocked, s')"
| waits: "serve_step env (AtBlocked, s) None (AtRetry, s)"
| wakes: "sm_ctrl s = None \<Longrightarrow> pump_msg env now msg s = (r, s') \<Longrightarrow>
    serve_step env (AtBlocked, s) (Some msg) (pumped r AtRetry s')"
| lost: "sm_ctrl s = None \<Longrightarrow> serve_step env (AtBlocked, s) None (Returned None, s)"

definition serve_init :: "serve_env \<Rightarrow> Session \<Rightarrow> chans \<Rightarrow> DraftCtx option \<Rightarrow> serve" where
  "serve_init env session cs draft =
     \<lparr>sm_pool = \<lparr>pl_session = session, pl_free = rev [0..<n_seq_max env], pl_outbox = [], pl_retained = [],
        pl_chans = cs, pl_outcomes = [], pl_panicked = False\<rparr>,
      sm_active = [], sm_queue = [], sm_next_uid = 0, sm_spec_disabled = False, sm_ctrl = None, sm_draft = draft\<rparr>"

end
