(* ===== verification/ServeInv.thy ===== *)
theory ServeInv
  imports Serve
begin

text \<open>
  The slots and the memory of the serve loop: every sequence id is either free or owned by one
  active generation, the memory of an owned slot holds the stream of its generation and that of
  a retained slot its recorded history, and the budgets of the active generations and the
  retained histories together fit the context. A consequence is that the batches of the loop
  never break the position rule of the engine.
\<close>

section \<open>Feeding a batch\<close>

definition toks_of :: "SeqId \<Rightarrow> batch_entry list \<Rightarrow> Token list" where
  "toks_of seq es = map be_token (filter (\<lambda>e. be_seq e = seq) es)"

lemma toks_of_simps [simp]:
  "toks_of seq [] = []"
  "toks_of seq (e # es) = (if be_seq e = seq then be_token e # toks_of seq es else toks_of seq es)"
  "toks_of seq (es @ fs) = toks_of seq es @ toks_of seq fs"
  by (simp_all add: toks_of_def)

lemma feed_Cons_Some:
  assumes "feed kv (e # es) = Some (kv', rows)"
  obtains rows' where "feed (kv(be_seq e := kv (be_seq e) @ [be_token e])) es = Some (kv', rows')"
    "rows = (kv (be_seq e) @ [be_token e]) # rows'" "be_pos e = length (kv (be_seq e))"
  using assms by (auto simp: Let_def split: if_splits)

lemma feed_kv: "feed kv es = Some (kv', rows) \<Longrightarrow> kv' seq = kv seq @ toks_of seq es"
proof (induction es arbitrary: kv rows)
  case (Cons e es)
  from Cons.prems show ?case by (rule feed_Cons_Some) (drule Cons.IH, auto)
qed simp

lemma feed_length: "feed kv es = Some (kv', rows) \<Longrightarrow> length rows = length es"
proof (induction es arbitrary: kv rows)
  case (Cons e es)
  from Cons.prems show ?case by (rule feed_Cons_Some) (drule Cons.IH, auto)
qed simp

lemma feed_row:
  "feed kv es = Some (kv', rows) \<Longrightarrow> i < length es \<Longrightarrow>
     rows ! i = kv (be_seq (es ! i)) @ toks_of (be_seq (es ! i)) (take (Suc i) es)"
proof (induction es arbitrary: kv rows i)
  case (Cons e es)
  from Cons.prems(1) show ?case
  proof (rule feed_Cons_Some)
    fix rows'
    assume f: "feed (kv(be_seq e := kv (be_seq e) @ [be_token e])) es = Some (kv', rows')"
      "rows = (kv (be_seq e) @ [be_token e]) # rows'"
    show ?thesis
    proof (cases i)
      case (Suc j)
      then have "j < length es" using Cons.prems(2) by simp
      from Cons.IH [OF f(1) this] Suc f(2) show ?thesis by auto
    qed (simp add: f(2))
  qed
qed simp

lemmas feed_Some = feed_kv feed_length feed_row

lemma feed_append:
  "feed kv (es @ fs) = (case feed kv es of None \<Rightarrow> None
     | Some (kv', rows) \<Rightarrow> map_option (\<lambda>(k, r). (k, rows @ r)) (feed kv' fs))"
proof (induction es arbitrary: kv)
  case Nil
  show ?case by (cases "feed kv fs") auto
next
  case (Cons e es)
  let ?kv = "kv(be_seq e := kv (be_seq e) @ [be_token e])"
  have "feed ?kv (es @ fs) = (case feed ?kv es of None \<Rightarrow> None
     | Some (kv', rows) \<Rightarrow> map_option (\<lambda>(k, r). (k, rows @ r)) (feed kv' fs))" by (rule Cons.IH)
  then show ?case by (cases "feed ?kv es") (auto simp: Let_def option.map_comp comp_def case_prod_unfold)
qed

text \<open>Tokens for one sequence, at consecutive positions.\<close>

definition run_entries :: "SeqId \<Rightarrow> nat \<Rightarrow> Token list \<Rightarrow> (nat \<Rightarrow> bool) \<Rightarrow> batch_entry list" where
  "run_entries seq pos ts logits =
     map (\<lambda>i. \<lparr>be_token = ts ! i, be_pos = pos + i, be_seq = seq, be_logits = logits i\<rparr>) [0..<length ts]"

lemma run_entries_Cons:
  "run_entries seq pos (t # ts) logits =
     \<lparr>be_token = t, be_pos = pos, be_seq = seq, be_logits = logits 0\<rparr> # run_entries seq (Suc pos) ts (\<lambda>i. logits (Suc i))"
  by (simp add: run_entries_def upt_conv_Cons del: upt_Suc) (simp add: map_Suc_upt [symmetric] comp_def del: upt_Suc)

lemma run_entries_Nil [simp]: "run_entries seq pos [] logits = []"
  by (simp add: run_entries_def)

lemma length_run_entries [simp]: "length (run_entries seq pos ts logits) = length ts"
  by (simp add: run_entries_def)

lemma toks_of_run_entries [simp]: "toks_of s (run_entries seq pos ts logits) = (if s = seq then ts else [])"
  by (induction ts arbitrary: pos logits) (auto simp: run_entries_Cons)

lemma feed_run_entries:
  "pos = length (kv seq) \<Longrightarrow> \<exists>rows. feed kv (run_entries seq pos ts logits) = Some (kv(seq := kv seq @ ts), rows)"
proof (induction ts arbitrary: kv pos logits)
  case Nil
  then show ?case by (simp add: fun_upd_idem)
next
  case (Cons t ts)
  let ?kv = "kv(seq := kv seq @ [t])"
  have "Suc pos = length (?kv seq)" using Cons.prems by simp
  from Cons.IH [where kv = ?kv, OF this] obtain rows where
    "feed ?kv (run_entries seq (Suc pos) ts (\<lambda>i. logits (Suc i))) = Some (?kv(seq := ?kv seq @ ts), rows)" by blast
  then show ?case using Cons.prems by (simp add: run_entries_Cons Let_def) (simp add: fun_upd_def)
qed

section \<open>Steps of one generation\<close>

abbreviation kv_of :: "pool \<Rightarrow> kv" where "kv_of p \<equiv> se_kv (pl_session p)"

text \<open>
  What an operation on one generation may change: its own memory and channel, and, when the
  generation ends, the free list and perhaps a retained slot.
\<close>

definition local_step :: "ActiveGen \<Rightarrow> pool \<Rightarrow> ActiveGen \<Rightarrow> pool \<Rightarrow> bool" where
  "local_step g p g' p' \<longleftrightarrow>
     ag_seq g' = ag_seq g \<and> ag_job g' = ag_job g \<and> ag_budget g' = ag_budget g
   \<and> se_rows (pl_session p') = se_rows (pl_session p)
   \<and> (\<forall>s. s \<noteq> ag_seq g \<longrightarrow> kv_of p' s = kv_of p s)
   \<and> (\<forall>c. c \<noteq> ag_tx g \<longrightarrow> pl_chans p' c = pl_chans p c)
   \<and> filter (\<lambda>t. pt_tx t \<noteq> ag_tx g) (pl_outbox p') = filter (\<lambda>t. pt_tx t \<noteq> ag_tx g) (pl_outbox p)
   \<and> pl_panicked p' = pl_panicked p
   \<and> (if ag_done g' then pl_free p' = pl_free p @ [ag_seq g]
        \<and> (pl_retained p' = pl_retained p
          \<or> length (kv_of p' (ag_seq g)) \<le> ag_budget g
            \<and> pl_retained p' = pl_retained p @ [\<lparr>rt_seq = ag_seq g, rt_history = kv_of p' (ag_seq g)\<rparr>])
      else pl_free p' = pl_free p \<and> pl_retained p' = pl_retained p)"

lemma local_stepD:
  assumes "local_step g p g' p'"
  shows "ag_seq g' = ag_seq g" "ag_job g' = ag_job g" "ag_budget g' = ag_budget g"
    "se_rows (pl_session p') = se_rows (pl_session p)"
    "s \<noteq> ag_seq g \<Longrightarrow> kv_of p' s = kv_of p s" "c \<noteq> ag_tx g \<Longrightarrow> pl_chans p' c = pl_chans p c"
    "filter (\<lambda>t. pt_tx t \<noteq> ag_tx g) (pl_outbox p') = filter (\<lambda>t. pt_tx t \<noteq> ag_tx g) (pl_outbox p)"
    "pl_panicked p' = pl_panicked p"
    "\<not> ag_done g' \<Longrightarrow> pl_free p' = pl_free p" "\<not> ag_done g' \<Longrightarrow> pl_retained p' = pl_retained p"
    "ag_done g' \<Longrightarrow> pl_free p' = pl_free p @ [ag_seq g]"
    "ag_done g' \<Longrightarrow> pl_retained p' = pl_retained p \<or> length (kv_of p' (ag_seq g)) \<le> ag_budget g
       \<and> pl_retained p' = pl_retained p @ [\<lparr>rt_seq = ag_seq g, rt_history = kv_of p' (ag_seq g)\<rparr>]"
  using assms unfolding local_step_def by simp_all

lemma local_step_trans:
  "local_step g p g1 p1 \<Longrightarrow> \<not> ag_done g1 \<Longrightarrow> local_step g1 p1 g2 p2 \<Longrightarrow> local_step g p g2 p2"
  unfolding local_step_def by (simp split: if_splits)

lemma local_step_refl: "\<not> ag_done g \<Longrightarrow> local_step g p g p"
  by (simp add: local_step_def)

lemma try_send_frame:
  "try_send tx ev cs = (r, cs') \<Longrightarrow> c \<noteq> tx \<Longrightarrow> cs' c = cs c"
  by (auto simp: try_send_def Let_def split: if_splits)

lemma deliver_terminal_frame [simp]:
  "pl_session (deliver_terminal tx ev p) = pl_session p"
  "pl_free (deliver_terminal tx ev p) = pl_free p"
  "pl_retained (deliver_terminal tx ev p) = pl_retained p"
  "pl_outcomes (deliver_terminal tx ev p) = pl_outcomes p"
  "pl_panicked (deliver_terminal tx ev p) = pl_panicked p"
  "filter (\<lambda>t. pt_tx t \<noteq> tx) (pl_outbox (deliver_terminal tx ev p)) = filter (\<lambda>t. pt_tx t \<noteq> tx) (pl_outbox p)"
  "c \<noteq> tx \<Longrightarrow> pl_chans (deliver_terminal tx ev p) c = pl_chans p c"
  by (auto simp: deliver_terminal_def try_send_frame split: prod.splits sent.splits)

lemma send_outcome_frame [simp]:
  "pl_session (send_outcome o' oc p) = pl_session p"
  "pl_free (send_outcome o' oc p) = pl_free p"
  "pl_retained (send_outcome o' oc p) = pl_retained p"
  "pl_outbox (send_outcome o' oc p) = pl_outbox p"
  "pl_chans (send_outcome o' oc p) = pl_chans p"
  "pl_panicked (send_outcome o' oc p) = pl_panicked p"
  by (simp_all add: send_outcome_def split: option.splits)

lemma seq_rm_whole [simp]: "seq_rm E seq (- 1) s = (Inr (), s\<lparr>se_kv := (se_kv s)(seq := [])\<rparr>)"
  by (simp add: seq_rm_def)

lemma seq_clear_frame [simp]:
  "kv_of (seq_clear E seq p) = (kv_of p)(seq := [])"
  "se_rows (pl_session (seq_clear E seq p)) = se_rows (pl_session p)"
  "pl_free (seq_clear E seq p) = pl_free p"
  "pl_retained (seq_clear E seq p) = pl_retained p"
  "pl_outbox (seq_clear E seq p) = pl_outbox p"
  "pl_chans (seq_clear E seq p) = pl_chans p"
  "pl_outcomes (seq_clear E seq p) = pl_outcomes p"
  "pl_panicked (seq_clear E seq p) = pl_panicked p"
  by (simp_all add: seq_clear_def)

lemma release_seq_local:
  assumes "release_seq E g p = (g', p')"
  shows "local_step g p g' p'" "ag_done g'"
  using assms by (auto simp: release_seq_def local_step_def Let_def)

lemma finish_seq_local:
  assumes "finish_seq E now finish retain g p = (g', p')"
    and "retain \<Longrightarrow> kv_of p (ag_seq g) = stream g \<and> length (stream g) \<le> ag_budget g"
  shows "local_step g p g' p'" "ag_done g'"
  using assms by (auto simp: finish_seq_def local_step_def Let_def release_seq_def stream_def split: if_splits)

lemma fail_seq_held:
  "ag_held g \<noteq> [] \<Longrightarrow> fail_seq E message g p = (if ag_terminal_after_drain g = None
     then g\<lparr>ag_terminal_after_drain := Some (DeferError message)\<rparr> else g, p)"
  by (simp add: fail_seq_def)

lemma fail_seq_now:
  "ag_held g = [] \<Longrightarrow> fail_seq E message g p = release_seq E (g\<lparr>ag_outcome := None\<rparr>)
     (send_outcome (ag_outcome g) Finished (deliver_terminal (ag_tx g) (ErrorEv message) p))"
  by (simp add: fail_seq_def)

lemma terminal_local:
  assumes "release_seq E (g\<lparr>ag_outcome := None\<rparr>) (send_outcome oc Finished (deliver_terminal (ag_tx g) ev p)) = (g', p')"
  shows "local_step g p g' p'" "ag_done g'"
  using assms by (auto simp: local_step_def Let_def release_seq_def)

lemma fail_seq_local:
  assumes "fail_seq E message g p = (g', p')" "\<not> ag_done g"
  shows "local_step g p g' p'"
    "\<not> ag_done g' \<Longrightarrow> ag_held g \<noteq> [] \<and> p' = p \<and> g' = (if ag_terminal_after_drain g = None
       then g\<lparr>ag_terminal_after_drain := Some (DeferError message)\<rparr> else g)"
proof -
  have "local_step g p g' p' \<and> (ag_done g' \<or> ag_held g \<noteq> [] \<and> p' = p \<and> g' = (if ag_terminal_after_drain g = None
       then g\<lparr>ag_terminal_after_drain := Some (DeferError message)\<rparr> else g))"
  proof (cases "ag_held g = []")
    case True
    from terminal_local [OF assms(1) [unfolded fail_seq_now [OF True]]] show ?thesis by simp
  next
    case False
    with assms show ?thesis by (simp add: fail_seq_held) (auto simp: local_step_def split: if_splits)
  qed
  then show "local_step g p g' p'"
    "\<not> ag_done g' \<Longrightarrow> ag_held g \<noteq> [] \<and> p' = p \<and> g' = (if ag_terminal_after_drain g = None
       then g\<lparr>ag_terminal_after_drain := Some (DeferError message)\<rparr> else g)" by blast+
qed

lemma cancel_seq_local:
  assumes "cancel_seq E g p = (g', p')"
  shows "local_step g p g' p'" "ag_done g'"
  using assms by (auto simp: cancel_seq_def local_step_def Let_def release_seq_def)

text \<open>A step that only touches the channel of a generation and its delivery fields.\<close>

definition delivers :: "ActiveGen \<Rightarrow> chans \<Rightarrow> ActiveGen \<Rightarrow> chans \<Rightarrow> bool" where
  "delivers g cs g' cs' \<longleftrightarrow> (\<forall>c. c \<noteq> ag_tx g \<longrightarrow> cs' c = cs c)
   \<and> g\<lparr>ag_held := [], ag_pieces_sent := 0, ag_stalled_since := None, ag_ttft_ms := None\<rparr> =
     g'\<lparr>ag_held := [], ag_pieces_sent := 0, ag_stalled_since := None, ag_ttft_ms := None\<rparr>"

lemma delivers_fields:
  assumes "delivers g cs g' cs'"
  shows "ag_seq g' = ag_seq g" "ag_uid g' = ag_uid g" "ag_job g' = ag_job g" "ag_outcome g' = ag_outcome g"
    "ag_prompt_tokens g' = ag_prompt_tokens g" "ag_prior_generated g' = ag_prior_generated g" "ag_scan g' = ag_scan g"
    "ag_prefix g' = ag_prefix g" "ag_prefill_done g' = ag_prefill_done g" "ag_kv_len g' = ag_kv_len g"
    "ag_attempt_tokens g' = ag_attempt_tokens g" "ag_pending g' = ag_pending g"
    "ag_terminal_after_drain g' = ag_terminal_after_drain g" "ag_remaining g' = ag_remaining g"
    "ag_budget g' = ag_budget g" "ag_sampler g' = ag_sampler g" "ag_chain g' = ag_chain g" "ag_kv_suspect g' = ag_kv_suspect g"
    "ag_done g' = ag_done g" "stream g' = stream g" "ag_tx g' = ag_tx g"
    "c \<noteq> ag_tx g \<Longrightarrow> cs' c = cs c"
  using assms unfolding delivers_def by (cases g; cases g'; simp add: stream_def)+

lemma delivers_refl: "delivers g cs g cs"
  by (simp add: delivers_def)

lemma delivers_trans:
  assumes "delivers g cs g1 cs1" "delivers g1 cs1 g2 cs2"
  shows "delivers g cs g2 cs2"
  using assms delivers_fields(3) [OF assms(1)] by (auto simp: delivers_def)

lemma note_sent_delivers: "(\<And>c. c \<noteq> ag_tx g \<Longrightarrow> cs' c = cs c) \<Longrightarrow> delivers g cs (note_sent now g) cs'"
  by (simp add: delivers_def note_sent_def)

lemma note_stall_delivers: "(\<And>c. c \<noteq> ag_tx g \<Longrightarrow> cs' c = cs c) \<Longrightarrow> delivers g cs (note_stall now (g\<lparr>ag_held := hs\<rparr>)) cs'"
  by (simp add: delivers_def note_stall_def)

lemma held_delivers: "(\<And>c. c \<noteq> ag_tx g \<Longrightarrow> cs' c = cs c) \<Longrightarrow> delivers g cs (g\<lparr>ag_held := hs\<rparr>) cs'"
  by (simp add: delivers_def)

lemma deliver_piece_delivers:
  assumes "deliver_piece now piece g cs = (g', cs')"
  shows "delivers g cs g' cs'"
proof (cases "ag_held g = []")
  case True
  obtain r cs1 where t: "try_send (ag_tx g) (TokenEv piece) cs = (r, cs1)" by (meson surj_pair)
  note fr = try_send_frame [OF t]
  show ?thesis
    using assms t True fr by (cases r) (auto simp: deliver_piece_def delivers_def note_sent_def note_stall_def)
next
  case False
  with assms show ?thesis by (auto simp: deliver_piece_def delivers_def)
qed

lemma drain_held_delivers:
  "drain_held now hs g cs = (g', cs') \<Longrightarrow> delivers g cs g' cs'"
proof (induction now hs g cs rule: drain_held.induct)
  case (1 now g cs)
  then show ?case by (auto simp: delivers_def)
next
  case (2 now piece ps g cs)
  obtain r cs1 where t: "try_send (ag_tx g) (TokenEv piece) cs = (r, cs1)" by (meson surj_pair)
  note fr = try_send_frame [OF t]
  show ?case
  proof (cases r)
    case SendOk
    with 2(2) t have "drain_held now ps (note_sent now g) cs1 = (g', cs')" by simp
    from 2(1) [OF t [symmetric] SendOk this] fr show ?thesis
      by (auto intro: delivers_trans [OF note_sent_delivers])
  qed (use 2(2) t fr in \<open>auto simp: delivers_def note_stall_def\<close>)
qed

lemma delivers_local:
  assumes "delivers g (pl_chans p) g' cs'" "\<not> ag_done g"
  shows "local_step g p g' (p\<lparr>pl_chans := cs'\<rparr>)" "\<not> ag_done g'"
  using assms delivers_fields [OF assms(1)] by (auto simp: local_step_def)

section \<open>The invariant\<close>

definition kv_sound :: "kv \<Rightarrow> ActiveGen \<Rightarrow> bool" where
  "kv_sound kv g \<longleftrightarrow>
     ag_kv_len g = (if ag_prefill_done g < length (ag_prefix g) then ag_prefill_done g else length (stream g))
   \<and> kv (ag_seq g) = take (ag_kv_len g) (stream g)"

definition gen_shape :: "ActiveGen \<Rightarrow> bool" where
  "gen_shape g \<longleftrightarrow> ag_prefix g \<noteq> [] \<and> ag_prefill_done g \<le> length (ag_prefix g)
   \<and> length (stream g) + ag_remaining g \<le> ag_budget g"

text \<open>
  A generation that can still step has its memory in order, tokens left to decode, and a pending
  token exactly when its prefix is decoded. One that only drains keeps its memory in order unless
  that lived through a failed decode, in which case it is marked, or it is about to fail.
\<close>

definition gen_ok :: "kv \<Rightarrow> ActiveGen \<Rightarrow> bool" where
  "gen_ok kv g \<longleftrightarrow> gen_shape g \<and> (case ag_terminal_after_drain g of
     Some (DeferError _) \<Rightarrow> True
   | Some (DeferFinish _) \<Rightarrow> ag_kv_suspect g \<or> kv_sound kv g
   | None \<Rightarrow> \<not> ag_kv_suspect g \<and> kv_sound kv g \<and> 0 < ag_remaining g
       \<and> (if ag_prefill_done g < length (ag_prefix g) then ag_pending g = None \<and> ag_attempt_tokens g = []
          else ag_pending g \<noteq> None))"

lemma gen_ok_kv_cong: "kv' (ag_seq g) = kv (ag_seq g) \<Longrightarrow> gen_ok kv' g = gen_ok kv g"
  by (simp add: gen_ok_def kv_sound_def split: option.splits DeferredTerminal.splits)

lemma gen_ok_delivers:
  assumes "delivers g cs g' cs'"
  shows "gen_ok kv g' = gen_ok kv g"
  using delivers_fields [OF assms]
  by (simp add: gen_ok_def kv_sound_def gen_shape_def split: option.splits DeferredTerminal.splits)

definition slots_of :: "ActiveGen list \<Rightarrow> pool \<Rightarrow> SeqId multiset" where
  "slots_of gs p = mset (map ag_seq (retain_live gs)) + mset (pl_free p)"

definition history_tokens :: "RetainedSlot list \<Rightarrow> nat" where
  "history_tokens rs = sum_list (map (\<lambda>r. length (rt_history r)) rs)"

definition pool_ok :: "serve_env \<Rightarrow> ActiveGen list \<Rightarrow> pool \<Rightarrow> bool" where
  "pool_ok env gs p \<longleftrightarrow>
     slots_of gs p = mset [0..<n_seq_max env]
   \<and> distinct (map rt_seq (pl_retained p)) \<and> rt_seq ` set (pl_retained p) \<subseteq> set (pl_free p)
   \<and> (\<forall>r \<in> set (pl_retained p). kv_of p (rt_seq r) = rt_history r)
   \<and> sum_list (map ag_budget (retain_live gs)) + history_tokens (pl_retained p) \<le> n_ctx env
   \<and> \<not> pl_panicked p"

definition gens_ok :: "serve_env \<Rightarrow> ActiveGen list \<Rightarrow> pool \<Rightarrow> bool" where
  "gens_ok env gs p \<longleftrightarrow> pool_ok env gs p \<and> (\<forall>g \<in> set (retain_live gs). gen_ok (kv_of p) g)"

lemma retain_live_simps [simp]:
  "retain_live [] = []"
  "retain_live (g # gs) = (if ag_done g then retain_live gs else g # retain_live gs)"
  "retain_live (gs @ hs) = retain_live gs @ retain_live hs"
  "retain_live (retain_live gs) = retain_live gs"
  "set (retain_live gs) = {g \<in> set gs. \<not> ag_done g}"
  by (simp_all add: retain_live_def)

lemma slots_distinct:
  assumes "slots_of gs p = mset [0..<n]"
  shows "distinct (map ag_seq (retain_live gs) @ pl_free p)"
    "set (map ag_seq (retain_live gs)) \<union> set (pl_free p) = {0..<n}"
proof -
  have m: "mset (map ag_seq (retain_live gs) @ pl_free p) = mset [0..<n]"
    using assms by (simp add: slots_of_def)
  from mset_eq_imp_distinct_iff [OF m] show "distinct (map ag_seq (retain_live gs) @ pl_free p)" by simp
  from mset_eq_setD [OF m] show "set (map ag_seq (retain_live gs)) \<union> set (pl_free p) = {0..<n}" by auto
qed

text \<open>The invariant along a step of one generation.\<close>

lemma gens_ok_step:
  assumes ok: "gens_ok env (pre @ g # post) p" and live: "\<not> ag_done g"
    and st: "local_step g p g' p'" and g': "ag_done g' \<or> gen_ok (kv_of p') g'"
  shows "gens_ok env (pre @ g' # post) p'"
proof -
  let ?n = "n_seq_max env"
  have sl: "slots_of (pre @ g # post) p = mset [0..<?n]" and pk: "pool_ok env (pre @ g # post) p"
    using ok by (simp_all add: gens_ok_def pool_ok_def)
  note d = slots_distinct [OF sl]
  have own: "ag_seq g \<notin> set (pl_free p)" "ag_seq g \<notin> ag_seq ` set (retain_live pre @ retain_live post)"
    using d(1) live by auto
  have others: "kv_of p' (ag_seq x) = kv_of p (ag_seq x)" if "x \<in> set (retain_live pre @ retain_live post)" for x
  proof -
    have "ag_seq x \<noteq> ag_seq g" using own(2) that by (metis imageI)
    then show ?thesis by (rule local_stepD(5) [OF st])
  qed
  have kept: "\<forall>r \<in> set (pl_retained p). kv_of p' (rt_seq r) = rt_history r"
  proof
    fix r assume r: "r \<in> set (pl_retained p)"
    then have "rt_seq r \<noteq> ag_seq g" "kv_of p (rt_seq r) = rt_history r" using pk own(1) by (auto simp: pool_ok_def)
    then show "kv_of p' (rt_seq r) = rt_history r" using local_stepD(5) [OF st] by simp
  qed
  have "gen_ok (kv_of p') x" if "x \<in> set (retain_live pre @ retain_live post)" for x
    using ok that gen_ok_kv_cong [where kv = "kv_of p" and kv' = "kv_of p'", OF others [OF that]] by (auto simp: gens_ok_def)
  moreover have "pool_ok env (pre @ g' # post) p'"
  proof (cases "ag_done g'")
    case True
    note L = local_stepD [OF st]
    from local_stepD(12) [OF st True] show ?thesis
    proof
      assume "pl_retained p' = pl_retained p"
      then show ?thesis using True pk live kept L(8) L(11) [OF True] by (auto simp: pool_ok_def slots_of_def)
    next
      assume r: "length (kv_of p' (ag_seq g)) \<le> ag_budget g
        \<and> pl_retained p' = pl_retained p @ [\<lparr>rt_seq = ag_seq g, rt_history = kv_of p' (ag_seq g)\<rparr>]"
      have "ag_seq g \<notin> rt_seq ` set (pl_retained p)" using pk own(1) by (auto simp: pool_ok_def)
      then show ?thesis using r True pk live kept L(8) L(11) [OF True]
        by (auto simp: pool_ok_def slots_of_def history_tokens_def)
    qed
  next
    case False
    note L = local_stepD [OF st]
    show ?thesis using False pk live kept L(1,3,8) L(9,10) [OF False] by (auto simp: pool_ok_def slots_of_def)
  qed
  ultimately show ?thesis using g' by (auto simp: gens_ok_def)
qed

lemma over_active_inv:
  assumes "\<And>pre g post p g' p'. \<not> ag_done g \<Longrightarrow> I (pre @ g # post) p \<Longrightarrow> f g p = (g', p') \<Longrightarrow> I (pre @ g' # post) p'"
  shows "\<forall>g \<in> set gs. \<not> ag_done g \<Longrightarrow> I (pre @ gs) p \<Longrightarrow> over_active f gs p = (gs', p') \<Longrightarrow> I (pre @ gs') p'"
proof (induction gs arbitrary: pre p gs' p')
  case (Cons g gs)
  obtain h q where f: "f g p = (h, q)" by (meson surj_pair)
  obtain hs q' where o: "over_active f gs q = (hs, q')" by (meson surj_pair)
  have "I ((pre @ [h]) @ gs) q" using assms [OF _ Cons.prems(2) f] Cons.prems(1) by simp
  from Cons.IH [OF _ this o] Cons.prems f o show ?case by auto
qed auto

section \<open>Retries and sweeps keep it\<close>

lemma gen_ok_finish_ready:
  assumes "gen_ok kv g" "ag_terminal_after_drain g = Some (DeferFinish k)" "\<not> ag_kv_suspect g"
    "length (ag_prefix g) \<le> ag_prefill_done g"
  shows "kv (ag_seq g) = stream g \<and> length (stream g) \<le> ag_budget g"
  using assms by (auto simp: gen_ok_def kv_sound_def gen_shape_def)

lemma retry_held_step:
  assumes r: "retry_held env now g p = (g', p')" and live: "\<not> ag_done g" and ok: "gen_ok (kv_of p) g"
  shows "local_step g p g' p' \<and> (ag_done g' \<or> gen_ok (kv_of p') g')"
proof -
  obtain g1 cs where d: "drain_held now (ag_held g) g (pl_chans p) = (g1, cs)" by (meson surj_pair)
  note D = drain_held_delivers [OF d] note F = delivers_fields [OF D]
  define p1 where "p1 = p\<lparr>pl_chans := cs\<rparr>"
  have l1: "local_step g p g1 p1" "\<not> ag_done g1" using delivers_local [OF D live] by (simp_all add: p1_def)
  have ok1: "gen_ok (kv_of p1) g1" using gen_ok_delivers [OF D] ok by (simp add: p1_def)
  show ?thesis
  proof (cases "ag_held g1 = [] \<and> ag_terminal_after_drain g1 \<noteq> None")
    case False
    with r d l1 have "g' = g1" "p' = p1" by (cases "ag_held g1 = []"; simp add: retry_held_def p1_def Let_def)+
    with l1 ok1 show ?thesis by simp
  next
    case True
    then obtain t where t: "ag_terminal_after_drain g1 = Some t" by blast
    let ?g = "g1\<lparr>ag_terminal_after_drain := None\<rparr>"
    have base: "local_step g p ?g p1" using l1 by (simp add: local_step_def)
    have live1: "\<not> ag_done ?g" using l1 by simp
    show ?thesis
    proof (cases t)
      case (DeferFinish k)
      let ?retain = "hp_kv_reuse (sx_perf env) \<and> length (ag_prefix g1) \<le> ag_prefill_done g1 \<and> \<not> ag_kv_suspect g1"
      have fin: "finish_seq (sx_engine env) now k ?retain ?g p1 = (g', p')"
        using r d l1 True t DeferFinish by (simp add: retry_held_def p1_def Let_def)
      have "kv_of p1 (ag_seq ?g) = stream ?g \<and> length (stream ?g) \<le> ag_budget ?g" if ?retain
        using gen_ok_finish_ready [OF ok1 t [unfolded DeferFinish]] that by (simp add: stream_def)
      from finish_seq_local [OF fin this] have "local_step ?g p1 g' p'" "ag_done g'" by auto
      with local_step_trans [OF base live1] show ?thesis by blast
    next
      case (DeferError message)
      have f: "fail_seq (sx_engine env) message ?g p1 = (g', p')"
        using r d l1 True t DeferError by (simp add: retry_held_def p1_def Let_def)
      have "ag_held ?g = []" using True by simp
      with fail_seq_local [OF f live1] have "local_step ?g p1 g' p'" "ag_done g'" by auto
      with local_step_trans [OF base live1] show ?thesis by blast
    qed
  qed
qed

lemma retry_outbox_frame:
  "retry_outbox ts cs = (ts', cs') \<Longrightarrow> set ts' \<subseteq> set ts"
proof (induction ts arbitrary: cs ts' cs')
  case (Cons t ts)
  obtain r c where t: "try_send (pt_tx t) (pt_event t) cs = (r, c)" by (meson surj_pair)
  obtain us d where u: "retry_outbox ts c = (us, d)" by (meson surj_pair)
  from Cons.IH [OF u] Cons.prems t u show ?case by (cases r) auto
qed simp

lemma gens_ok_frame:
  assumes "pl_session p' = pl_session p" "pl_free p' = pl_free p" "pl_retained p' = pl_retained p" "pl_panicked p' = pl_panicked p"
  shows "gens_ok env gs p' = gens_ok env gs p"
  using assms by (simp add: gens_ok_def pool_ok_def slots_of_def)

lemma gens_ok_retain_live [simp]: "gens_ok env (retain_live gs) p = gens_ok env gs p"
  by (simp add: gens_ok_def pool_ok_def slots_of_def)

lemma gens_ok_member: "gens_ok env (pre @ g # post) p \<Longrightarrow> \<not> ag_done g \<Longrightarrow> gen_ok (kv_of p) g"
  by (simp add: gens_ok_def)

text \<open>
  The operations the loop applies to every active generation share a contract: a live
  generation in order makes a step of its own, and ends or stays in order.
\<close>

locale gen_op =
  fixes op :: "ActiveGen \<Rightarrow> pool \<Rightarrow> ActiveGen \<times> pool"
  assumes op_step: "\<not> ag_done g \<Longrightarrow> gen_ok (kv_of p) g \<Longrightarrow> op g p = (g', p') \<Longrightarrow>
      local_step g p g' p' \<and> (ag_done g' \<or> gen_ok (kv_of p') g')"
begin

lemma over_active_ok:
  assumes ok: "gens_ok env gs p" "\<forall>g \<in> set gs. \<not> ag_done g" and o: "over_active op gs p = (gs', p')"
  shows "gens_ok env gs' p'"
proof -
  have "gens_ok env ([] @ gs') p'"
  proof (rule over_active_inv [where I = "gens_ok env" and f = op and gs = gs and p = p])
    fix pre g post p g' p'
    assume live: "\<not> ag_done g" and I: "gens_ok env (pre @ g # post) p" and e: "op g p = (g', p')"
    note F = op_step [OF live gens_ok_member [OF I live] e]
    show "gens_ok env (pre @ g' # post) p'" by (rule gens_ok_step [OF I live F [THEN conjunct1] F [THEN conjunct2]])
  qed (use ok o in simp_all)
  then show ?thesis by simp
qed

end

interpretation retry_op: gen_op "retry_held env now" for env now
  by unfold_locales (rule retry_held_step)

text \<open>Between the phases no active generation is done; the queue holds well-formed requests.\<close>

definition prepared_ok :: "serve_env \<Rightarrow> PreparedGen \<Rightarrow> bool" where
  "prepared_ok env q \<longleftrightarrow> pg_prompt_tokens q \<noteq> []
   \<and> length (pg_prompt_tokens q) + length (pg_prior_generated q) + pg_remaining q \<le> pg_budget q
   \<and> pg_budget q \<le> n_ctx env"

definition serve_inv :: "serve_env \<Rightarrow> serve \<Rightarrow> bool" where
  "serve_inv env s \<longleftrightarrow> gens_ok env (sm_active s) (sm_pool s) \<and> (\<forall>g \<in> set (sm_active s). \<not> ag_done g)
   \<and> (\<forall>q \<in> set (sm_queue s). prepared_ok env q)"

lemma phase_retry_inv:
  assumes "serve_inv env s"
  shows "serve_inv env (phase_retry env now s)"
proof -
  obtain outbox cs where o: "retry_outbox (pl_outbox (sm_pool s)) (pl_chans (sm_pool s)) = (outbox, cs)" by (meson surj_pair)
  let ?p = "(sm_pool s)\<lparr>pl_outbox := outbox, pl_chans := cs\<rparr>"
  obtain gs p where a: "over_active (retry_held env now) (sm_active s) ?p = (gs, p)" by (meson surj_pair)
  have live: "\<forall>g \<in> set (sm_active s). \<not> ag_done g" using assms by (simp add: serve_inv_def)
  have "gens_ok env (sm_active s) ?p = gens_ok env (sm_active s) (sm_pool s)" by (rule gens_ok_frame) simp_all
  then have ok: "gens_ok env (sm_active s) ?p" using assms by (simp add: serve_inv_def)
  have "gens_ok env gs p" by (rule retry_op.over_active_ok [OF ok live a])
  then show ?thesis using assms o a by (simp add: phase_retry_def serve_inv_def)
qed

lemma sweep_closed_step:
  assumes "sweep_closed env g p = (g', p')" "\<not> ag_done g" "gen_ok (kv_of p) g"
  shows "local_step g p g' p' \<and> (ag_done g' \<or> gen_ok (kv_of p') g')"
proof (cases "ch_closed (pl_chans p (ag_tx g))")
  case True
  then have "cancel_seq (sx_engine env) g p = (g', p')" using assms by (simp add: sweep_closed_def)
  from cancel_seq_local [OF this] show ?thesis by simp
qed (use assms in \<open>simp add: sweep_closed_def local_step_refl\<close>)

lemma sweep_stalled_step:
  assumes "sweep_stalled env now g p = (g', p')" "\<not> ag_done g" "gen_ok (kv_of p) g"
  shows "local_step g p g' p' \<and> (ag_done g' \<or> gen_ok (kv_of p') g')"
proof (cases "stalled_out now g")
  case True
  obtain h q where c: "cancel_seq (sx_engine env) g p = (h, q)" by (meson surj_pair)
  note L = cancel_seq_local [OF c]
  have "g' = h" "p' = q\<lparr>pl_outbox := filter (\<lambda>t. pt_tx t \<noteq> ag_tx h) (pl_outbox q)\<rparr>"
    using assms True c by (auto simp: sweep_stalled_def)
  moreover have "ag_tx h = ag_tx g" using L(1) by (simp add: local_step_def)
  ultimately have "local_step g p g' p'" using L(1) by (simp add: local_step_def)
  with L(2) \<open>g' = h\<close> show ?thesis by simp
qed (use assms in \<open>simp add: sweep_stalled_def local_step_refl\<close>)

interpretation closed_op: gen_op "sweep_closed env" for env
  by unfold_locales (rule sweep_closed_step)

interpretation stalled_op: gen_op "sweep_stalled env now" for env now
  by unfold_locales (rule sweep_stalled_step)

lemma sweep_queue_frame:
  "sweep_queue qs p = (qs', p') \<Longrightarrow> set qs' \<subseteq> set qs \<and> pl_session p' = pl_session p \<and> pl_free p' = pl_free p
     \<and> pl_retained p' = pl_retained p \<and> pl_panicked p' = pl_panicked p \<and> pl_chans p' = pl_chans p
     \<and> pl_outbox p' = pl_outbox p"
proof (induction qs arbitrary: qs' p p')
  case (Cons q qs)
  show ?case
  proof (cases "ch_closed (pl_chans p (pg_tx q))")
    case True
    with Cons.prems have "sweep_queue qs (send_outcome (pg_outcome q) Finished p) = (qs', p')" by simp
    from Cons.IH [OF this] show ?thesis by (simp add: subset_insertI2)
  next
    case False
    obtain us r where u: "sweep_queue qs p = (us, r)" by (meson surj_pair)
    with Cons.prems False have "qs' = q # us" "p' = r" by simp_all
    with Cons.IH [OF u] show ?thesis by (simp add: subset_insertI2)
  qed
qed simp

lemma phase_sweep_inv:
  assumes "serve_inv env s"
  shows "serve_inv env (phase_sweep env now s)"
proof -
  obtain gs p where a: "over_active (sweep_closed env) (sm_active s) (sm_pool s) = (gs, p)" by (meson surj_pair)
  obtain qs q where u: "sweep_queue (sm_queue s) p = (qs, q)" by (meson surj_pair)
  obtain hs r where b: "over_active (sweep_stalled env now) (retain_live gs) q = (hs, r)" by (meson surj_pair)
  note U = sweep_queue_frame [OF u]
  have "gens_ok env gs p"
    by (rule closed_op.over_active_ok [OF _ _ a]) (use assms in \<open>auto simp: serve_inv_def\<close>)
  moreover have "gens_ok env gs q = gens_ok env gs p" by (rule gens_ok_frame) (use U in simp_all)
  ultimately have q: "gens_ok env (retain_live gs) q" by simp
  then have r: "gens_ok env hs r"
    by (rule stalled_op.over_active_ok [OF _ _ b]) simp
  have qs: "\<forall>q \<in> set qs. prepared_ok env q" using assms U by (auto simp: serve_inv_def)
  show ?thesis
    using a u b q r qs by (cases "sm_ctrl s") (auto simp: phase_sweep_def serve_inv_def Let_def)
qed

section \<open>Preparation keeps it\<close>

text \<open>
  What the supervisor re-issues: the carried prompt is not empty, and the attempt it carries had
  passed the checks of a fresh one.
\<close>

definition resume_ok :: "serve_env \<Rightarrow> SupervisedGenerate \<Rightarrow> bool" where
  "resume_ok env sg = (case sg_resume sg of
     None \<Rightarrow> True
   | Some st \<Rightarrow> rs_prompt_tokens st \<noteq> []
       \<and> length (rs_generated_tokens st) \<le> gp_max_tokens (jb_params (sg_job sg))
       \<and> length (rs_prompt_tokens st) + gp_max_tokens (jb_params (sg_job sg)) \<le> n_ctx env)"

fun msg_ok :: "serve_env \<Rightarrow> HostMsg \<Rightarrow> bool" where
  "msg_ok env (Generate sg) = resume_ok env sg"
| "msg_ok env _ = True"

text \<open>The ways preparation can end.\<close>

datatype prep = PrepError error_text | PrepGone | PrepFinish "Token list" "Token list" FinishKind | PrepQueued PreparedGen

definition prep_of :: "serve_env \<Rightarrow> nat \<Rightarrow> SupervisedGenerate \<Rightarrow> pool \<Rightarrow> prep" where
  "prep_of env now sg p =
     (case phase_batch env of
        Inl e \<Rightarrow> PrepError (EngineText e)
      | Inr _ \<Rightarrow>
          if ch_closed (pl_chans p (jb_tx (sg_job sg))) then PrepGone
          else if jb_model (sg_job sg) \<noteq> lm_name (sx_info env) \<and> jb_model (sg_job sg) \<noteq> sx_reference env
          then PrepError (ModelNotLoaded (jb_model (sg_job sg)))
          else (case (case sg_resume sg of Some state \<Rightarrow> start_resumed (sx_engine env) state
                      | None \<Rightarrow> start_fresh env (sg_job sg)) of
              Inl message \<Rightarrow> PrepError message
            | Inr st \<Rightarrow>
                let remaining = sat_sub (gp_max_tokens (jb_params (sg_job sg))) (length (sr_prior_generated st)) in
                if sr_unsent st = [] \<and> (sr_finish st \<noteq> None \<or> remaining = 0)
                then PrepFinish (sr_prompt_tokens st) (sr_prior_generated st)
                  (case sr_finish st of Some kind \<Rightarrow> kind | None \<Rightarrow> Length)
                else PrepQueued \<lparr>pg_job = sg_job sg, pg_outcome = Some (sg_outcome sg),
                  pg_prompt_tokens = sr_prompt_tokens st, pg_prior_generated = sr_prior_generated st,
                  pg_prior_pieces = sr_prior_pieces st, pg_scan = sr_scan st, pg_remaining = remaining,
                  pg_budget = length (sr_prompt_tokens st) + gp_max_tokens (jb_params (sg_job sg)),
                  pg_resumed = (sg_resume sg \<noteq> None), pg_unsent = sr_unsent st, pg_finish = sr_finish st,
                  pg_arrived = now\<rparr>))"

lemma prepare_generation_prep:
  "prepare_generation env now sg p = (case prep_of env now sg p of
     PrepError message \<Rightarrow> finish_error sg message p
   | PrepGone \<Rightarrow> (None, send_outcome (Some (sg_outcome sg)) Finished p)
   | PrepFinish prompt prior kind \<Rightarrow> finish_now sg prompt prior kind p
   | PrepQueued q \<Rightarrow> (Some q, p))"
  unfolding prepare_generation_def prep_of_def Let_def by (simp split: sum.split option.split)

lemma prep_of_queued:
  assumes "prep_of env now sg p = PrepQueued q"
  obtains st where "(case sg_resume sg of Some state \<Rightarrow> start_resumed (sx_engine env) state
      | None \<Rightarrow> start_fresh env (sg_job sg)) = Inr st"
    "q = \<lparr>pg_job = sg_job sg, pg_outcome = Some (sg_outcome sg), pg_prompt_tokens = sr_prompt_tokens st,
      pg_prior_generated = sr_prior_generated st, pg_prior_pieces = sr_prior_pieces st, pg_scan = sr_scan st,
      pg_remaining = sat_sub (gp_max_tokens (jb_params (sg_job sg))) (length (sr_prior_generated st)),
      pg_budget = length (sr_prompt_tokens st) + gp_max_tokens (jb_params (sg_job sg)),
      pg_resumed = (sg_resume sg \<noteq> None), pg_unsent = sr_unsent st, pg_finish = sr_finish st, pg_arrived = now\<rparr>"
    "\<not> (sr_unsent st = [] \<and> (sr_finish st \<noteq> None \<or> gp_max_tokens (jb_params (sg_job sg)) \<le> length (sr_prior_generated st)))"
    "\<not> ch_closed (pl_chans p (jb_tx (sg_job sg)))"
  using assms unfolding prep_of_def
  by (auto simp: Let_def sat_sub_def split: sum.splits if_splits)

lemma prep_of_ok:
  assumes "prep_of env now sg p = PrepQueued q" "resume_ok env sg"
  shows "prepared_ok env q"
proof -
  from assms(1) obtain st where st: "(case sg_resume sg of Some state \<Rightarrow> start_resumed (sx_engine env) state
      | None \<Rightarrow> start_fresh env (sg_job sg)) = Inr st"
    and q: "pg_prompt_tokens q = sr_prompt_tokens st" "pg_prior_generated q = sr_prior_generated st"
      "pg_remaining q = gp_max_tokens (jb_params (sg_job sg)) - length (sr_prior_generated st)"
      "pg_budget q = length (sr_prompt_tokens st) + gp_max_tokens (jb_params (sg_job sg))"
    by (rule prep_of_queued) (simp add: sat_sub_def)
  show ?thesis
  proof (cases "sg_resume sg")
    case None
    with st have "sr_prompt_tokens st \<noteq> []" "sr_prior_generated st = []"
        "length (sr_prompt_tokens st) + gp_max_tokens (jb_params (sg_job sg)) \<le> n_ctx env"
      by (auto simp: start_fresh_def split: sum.splits if_splits)
    with q show ?thesis by (simp add: prepared_ok_def)
  next
    case (Some state)
    with st have "sr_prompt_tokens st = rs_prompt_tokens state" "sr_prior_generated st = rs_generated_tokens state"
      by (auto simp: start_resumed_def split: sum.splits)
    with q Some assms(2) show ?thesis by (simp add: prepared_ok_def resume_ok_def)
  qed
qed

lemma prepare_frame:
  assumes "prepare_generation env now sg p = (r, p')"
  shows "pl_session p' = pl_session p" "pl_free p' = pl_free p" "pl_retained p' = pl_retained p"
    "pl_panicked p' = pl_panicked p" "pl_outbox p' = pl_outbox p" "c \<noteq> jb_tx (sg_job sg) \<Longrightarrow> pl_chans p' c = pl_chans p c"
    "r = Some q \<Longrightarrow> prep_of env now sg p = PrepQueued q \<and> p' = p"
proof -
  have fr: "snd (try_send (jb_tx (sg_job sg)) ev cs) c = cs c" if "c \<noteq> jb_tx (sg_job sg)" for ev cs
    using that try_send_frame [OF surjective_pairing, of c "jb_tx (sg_job sg)" ev cs] by simp
  show "pl_session p' = pl_session p" "pl_free p' = pl_free p" "pl_retained p' = pl_retained p"
    "pl_panicked p' = pl_panicked p" "pl_outbox p' = pl_outbox p" "c \<noteq> jb_tx (sg_job sg) \<Longrightarrow> pl_chans p' c = pl_chans p c"
    "r = Some q \<Longrightarrow> prep_of env now sg p = PrepQueued q \<and> p' = p"
    using assms fr
    by (auto simp: prepare_generation_prep finish_error_def finish_now_def split: prep.splits)
qed

lemma pump_msg_inv:
  assumes ok: "serve_inv env s" and m: "msg_ok env msg" and r: "pump_msg env now msg s = (r, s')"
  shows "serve_inv env s'"
proof (cases msg)
  case (Generate sg)
  obtain q p where pr: "prepare_generation env now sg (sm_pool s) = (q, p)" by (meson surj_pair)
  have "gens_ok env (sm_active s) p = gens_ok env (sm_active s) (sm_pool s)"
    by (rule gens_ok_frame) (use prepare_frame [OF pr] in simp_all)
  then have g: "gens_ok env (sm_active s) p" using ok by (simp add: serve_inv_def)
  show ?thesis
  proof (cases q)
    case None
    with r Generate pr ok g show ?thesis by (auto simp: pump_msg_def serve_inv_def)
  next
    case (Some q')
    have "prepared_ok env q'" using prep_of_ok [of env now sg "sm_pool s" q'] prepare_frame(7) [OF pr Some] m Generate by simp
    with r Generate pr ok g Some show ?thesis by (auto simp: pump_msg_def serve_inv_def)
  qed
qed (use ok r in \<open>auto simp: pump_msg_def\<close>)

section \<open>Admission keeps it\<close>

lemma set_remove_at: "set (remove_at i xs) \<subseteq> set xs"
  by (auto simp: remove_at_def dest: in_set_takeD in_set_dropD)

lemma remove_at_split: "i < length xs \<Longrightarrow> xs = take i xs @ xs ! i # drop (Suc i) xs"
  by (rule id_take_nth_drop)

lemma map_remove_at: "map f (remove_at i xs) = remove_at i (map f xs)"
  by (simp add: remove_at_def take_map drop_map)

lemma mset_queue_remove: "i < length xs \<Longrightarrow> mset xs = add_mset (xs ! i) (mset (remove_at i xs))"
  by (subst remove_at_split [of i xs]) (simp_all add: remove_at_def)

lemma distinct_remove_at: "i < length xs \<Longrightarrow> distinct xs \<Longrightarrow> distinct (remove_at i xs) \<and> xs ! i \<notin> set (remove_at i xs)"
  by (subst (asm) remove_at_split [of i xs]) (simp_all add: remove_at_def)

lemma set_remove_at_distinct: "i < length xs \<Longrightarrow> distinct xs \<Longrightarrow> set (remove_at i xs) = set xs - {xs ! i}"
  using mset_queue_remove [of i xs] distinct_remove_at [of i xs] by (metis Diff_insert_absorb set_mset_add_mset_insert set_mset_mset)

lemma nth_remove_at: "j < length (remove_at i xs) \<Longrightarrow> remove_at i xs ! j = (if j < i then xs ! j else xs ! Suc j)"
  by (auto simp: remove_at_def nth_append min_def)

lemma length_queue_remove: "i < length xs \<Longrightarrow> length (remove_at i xs) = length xs - 1"
  by (simp add: remove_at_def)

lemma distinct_rt_seq: "distinct (map rt_seq rs) \<Longrightarrow> distinct rs"
  by (simp add: distinct_map)

lemma mset_swap_remove: "i < length xs \<Longrightarrow> mset xs = add_mset (xs ! i) (mset (swap_remove i xs))"
proof (cases xs rule: rev_cases)
  case (snoc ys y)
  assume "i < length xs"
  then show ?thesis
    using snoc by (cases "i = length ys") (auto simp: swap_remove_def nth_append mset_update)
qed simp

lemma rposition_Some: "rposition P xs = Some i \<Longrightarrow> i < length xs \<and> P (xs ! i)"
  using position_Some [of P "rev xs"] by (auto simp: rposition_def rev_nth)

lemma rposition_None: "rposition P xs = None \<longleftrightarrow> (\<forall>x \<in> set xs. \<not> P x)"
  by (simp add: rposition_def position_None)

text \<open>Which slot is reused does not change while others are evicted.\<close>

definition chosen :: "RetainedSlot list \<Rightarrow> (nat \<times> nat) option \<Rightarrow> (RetainedSlot \<times> nat) option" where
  "chosen retained reuse = map_option (\<lambda>(idx, lcp). (retained ! idx, lcp)) reuse"

definition reuse_fits :: "RetainedSlot list \<Rightarrow> (nat \<times> nat) option \<Rightarrow> bool" where
  "reuse_fits retained reuse = (case reuse of None \<Rightarrow> True | Some (idx, _) \<Rightarrow> idx < length retained)"

lemma evict_victim:
  assumes "position (\<lambda>r. Some (rt_seq r) \<noteq> reuse_seq retained reuse) retained = Some i" "reuse_fits retained reuse"
  shows "i < length retained"
    "reuse_fits (remove_at i retained)
       (case reuse of Some (idx, lcp) \<Rightarrow> if i < idx then Some (idx - 1, lcp) else reuse | None \<Rightarrow> None)"
    "chosen (remove_at i retained)
       (case reuse of Some (idx, lcp) \<Rightarrow> if i < idx then Some (idx - 1, lcp) else reuse | None \<Rightarrow> None) = chosen retained reuse"
proof -
  from position_Some [OF assms(1)] show i: "i < length retained" by blast
  have ne: "i \<noteq> idx" if "reuse = Some (idx, lcp)" for idx lcp
    using position_Some [OF assms(1)] that by (auto simp: reuse_seq_def)
  let ?reuse = "case reuse of Some (idx, lcp) \<Rightarrow> if i < idx then Some (idx - 1, lcp) else reuse | None \<Rightarrow> None"
  have "reuse_fits (remove_at i retained) ?reuse \<and> chosen (remove_at i retained) ?reuse = chosen retained reuse"
  proof (cases reuse)
    case (Some u)
    obtain idx lcp where u: "u = (idx, lcp)" by (meson surj_pair)
    with Some assms(2) have idx: "idx < length retained" by (simp add: reuse_fits_def)
    with ne Some u i show ?thesis
      by (auto simp: reuse_fits_def chosen_def length_queue_remove nth_remove_at)
  qed (simp add: reuse_fits_def chosen_def)
  then show "reuse_fits (remove_at i retained) ?reuse" "chosen (remove_at i retained) ?reuse = chosen retained reuse"
    by blast+
qed

lemma evict_spec:
  assumes "evict E room need retained reuse session = (retained', reuse', session')"
    "reuse_fits retained reuse" "distinct (map rt_seq retained)"
  shows "reuse_fits retained' reuse' \<and> chosen retained' reuse' = chosen retained reuse \<and> distinct (map rt_seq retained')
    \<and> set retained' \<subseteq> set retained \<and> se_rows session' = se_rows session
    \<and> (\<forall>s. s \<notin> rt_seq ` set retained \<longrightarrow> se_kv session' s = se_kv session s)
    \<and> (\<forall>r \<in> set retained'. se_kv session' (rt_seq r) = se_kv session (rt_seq r))
    \<and> (need + cached_tokens retained' reuse' \<le> room \<or> cached_tokens retained' reuse' = 0)"
  using assms
proof (induction E room need retained reuse session rule: evict.induct)
  case (1 E room need retained reuse session)
  show ?case
  proof (cases "need + cached_tokens retained reuse \<le> room")
    case True
    with "1.prems" show ?thesis by (subst (asm) evict.simps) auto
  next
    case False
    show ?thesis
    proof (cases "position (\<lambda>r. Some (rt_seq r) \<noteq> reuse_seq retained reuse) retained")
      case None
      then have "filter (\<lambda>r. Some (rt_seq r) \<noteq> reuse_seq retained reuse) retained = []"
        by (simp add: position_None filter_empty_conv)
      then have "cached_tokens retained reuse = 0" by (simp add: cached_tokens_def)
      with "1.prems" False None show ?thesis by (subst (asm) evict.simps) auto
    next
      case (Some i)
      note V = evict_victim [OF Some "1.prems"(2)]
      let ?r = "remove_at i retained" and ?seq = "rt_seq (retained ! i)"
      have d: "distinct (map rt_seq ?r)" "?seq \<notin> rt_seq ` set ?r"
        using distinct_remove_at [of i "map rt_seq retained"] "1.prems"(3) V(1) by (simp_all add: map_remove_at image_set)
      have sub: "set ?r \<subseteq> set retained" by (rule set_remove_at)
      have step: "evict E room need ?r (case reuse of Some (idx, lcp) \<Rightarrow> if i < idx then Some (idx - 1, lcp) else reuse | None \<Rightarrow> None)
          (snd (seq_rm E ?seq (- 1) session)) = (retained', reuse', session')"
        using "1.prems"(1) False Some by (subst (asm) evict.simps) simp
      from "1.IH" [OF False Some step V(2) d(1)] V(3) sub V(1) d(2) show ?thesis
        by (auto simp: image_iff) (metis nth_mem subsetD)+
    qed
  qed
qed

lemma common_prefix_take: "k \<le> common_prefix_len a b \<Longrightarrow> take k a = take k b"
proof (induction a b arbitrary: k rule: common_prefix_len.induct)
  case (1 a as b bs)
  then show ?case by (cases k) (auto split: if_splits)
qed auto

lemma best_reuse_Some:
  "best_reuse prompt idx slots reuse = Some (i, l) \<Longrightarrow> reuse = Some (i, l)
     \<or> idx \<le> i \<and> i < idx + length slots \<and> l = reuse_lcp prompt (slots ! (i - idx)) \<and> REUSE_FLOOR \<le> l"
proof (induction slots arbitrary: idx reuse)
  case (Cons slot slots)
  let ?u = "if REUSE_FLOOR \<le> reuse_lcp prompt slot \<and> (case reuse of None \<Rightarrow> True | Some (_, best) \<Rightarrow> best < reuse_lcp prompt slot)
    then Some (idx, reuse_lcp prompt slot) else reuse"
  have "best_reuse prompt (idx + 1) slots ?u = Some (i, l)" using Cons.prems by (simp add: Let_def)
  from Cons.IH [OF this] show ?case
  proof
    assume "?u = Some (i, l)"
    then show ?thesis by (auto split: if_splits)
  next
    assume later: "idx + 1 \<le> i \<and> i < idx + 1 + length slots \<and> l = reuse_lcp prompt (slots ! (i - (idx + 1))) \<and> REUSE_FLOOR \<le> l"
    then have "i - idx = Suc (i - (idx + 1))" by linarith
    then have "(slot # slots) ! (i - idx) = slots ! (i - (idx + 1))" by simp
    with later show ?thesis by simp
  qed
qed simp

text \<open>The slot a request is admitted to leaves the free list with the reused prefix in its memory.\<close>

definition slot_taken :: "Token list \<Rightarrow> nat \<Rightarrow> pool \<Rightarrow> SeqId \<Rightarrow> nat \<Rightarrow> pool \<Rightarrow> bool" where
  "slot_taken prompt cached p seq reused p' \<longleftrightarrow>
     mset (pl_free p) = add_mset seq (mset (pl_free p'))
   \<and> (\<forall>s. s \<noteq> seq \<longrightarrow> kv_of p' s = kv_of p s) \<and> kv_of p' seq = take reused prompt \<and> reused < length prompt
   \<and> set (pl_retained p') \<subseteq> set (pl_retained p) \<and> distinct (map rt_seq (pl_retained p'))
   \<and> seq \<notin> rt_seq ` set (pl_retained p') \<and> history_tokens (pl_retained p') \<le> cached
   \<and> pl_panicked p' = pl_panicked p \<and> pl_chans p' = pl_chans p \<and> pl_outbox p' = pl_outbox p
   \<and> pl_outcomes p' = pl_outcomes p"

lemma filter_remove_at:
  assumes "distinct (map rt_seq rs)" "i < length rs"
  shows "filter (\<lambda>r. rt_seq r \<noteq> rt_seq (rs ! i)) rs = remove_at i rs"
proof -
  have s: "rs = take i rs @ rs ! i # drop (Suc i) rs" by (rule remove_at_split [OF assms(2)])
  have "distinct (map rt_seq (take i rs @ rs ! i # drop (Suc i) rs))" using assms(1) s by simp
  then have "filter (\<lambda>r. rt_seq r \<noteq> rt_seq (rs ! i)) (take i rs @ rs ! i # drop (Suc i) rs) = remove_at i rs"
    unfolding remove_at_def by (simp, intro arg_cong2 [where f = append] filter_True) (auto simp: image_iff)
  with s show ?thesis by simp
qed

lemma mset_filter_neq: "distinct xs \<Longrightarrow> x \<in> set xs \<Longrightarrow> mset xs = add_mset x (mset (filter (\<lambda>y. y \<noteq> x) xs))"
proof (induction xs)
  case (Cons y ys)
  have "filter (\<lambda>y. y \<noteq> x) ys = ys" if "x \<notin> set ys" using that by (auto simp: filter_id_conv)
  with Cons show ?case by (cases "y = x") (auto simp flip: mset_filter)
qed simp

lemma reuse_slot_taken:
  assumes r: "reuse_slot E idx lcp p = (seq, reused, p')" and idx: "idx < length (pl_retained p)"
    and lcp: "lcp = reuse_lcp prompt (pl_retained p ! idx)" "0 < lcp"
    and d: "distinct (map rt_seq (pl_retained p))" "rt_seq ` set (pl_retained p) \<subseteq> set (pl_free p)" "distinct (pl_free p)"
    and kv: "\<forall>r \<in> set (pl_retained p). kv_of p (rt_seq r) = rt_history r"
  shows "slot_taken prompt (cached_tokens (pl_retained p) (Some (idx, lcp))) p seq reused p'"
proof -
  let ?slot = "pl_retained p ! idx"
  have slot: "?slot \<in> set (pl_retained p)" using idx by simp
  have h: "kv_of p (rt_seq ?slot) = rt_history ?slot" using kv slot by blast
  have tk: "take lcp (rt_history ?slot) = take lcp prompt"
    by (rule common_prefix_take) (simp add: lcp(1) reuse_lcp_def)
  have lt: "lcp < length prompt" using lcp by (auto simp: reuse_lcp_def sat_sub_def)
  have fr: "mset (pl_free p) = add_mset (rt_seq ?slot) (mset (filter (\<lambda>s. s \<noteq> rt_seq ?slot) (pl_free p)))"
    by (rule mset_filter_neq) (use d(2,3) slot in auto)
  have ret: "set (remove_at idx (pl_retained p)) \<subseteq> set (pl_retained p)" "distinct (map rt_seq (remove_at idx (pl_retained p)))"
      "rt_seq ?slot \<notin> rt_seq ` set (remove_at idx (pl_retained p))"
    using set_remove_at [of idx "pl_retained p"] distinct_remove_at [of idx "map rt_seq (pl_retained p)"] d(1) idx
    by (simp_all add: map_remove_at image_set)
  have cached: "cached_tokens (pl_retained p) (Some (idx, lcp)) = history_tokens (remove_at idx (pl_retained p))"
    using filter_remove_at [OF d(1) idx] by (simp add: cached_tokens_def reuse_seq_def history_tokens_def)
  show ?thesis
    using r lcp(2) h tk lt fr ret cached
    by (cases "en_partial_rm E") (auto simp: reuse_slot_def Let_def seq_rm_def slot_taken_def)
qed

lemma cold_slot_taken:
  assumes free: "pl_free p \<noteq> []" and prompt: "prompt \<noteq> []"
    and d: "distinct (map rt_seq (pl_retained p))" "rt_seq ` set (pl_retained p) \<subseteq> set (pl_free p)" "distinct (pl_free p)"
  shows "\<exists>seq p'. cold_slot E p = Some (seq, 0, p') \<and> slot_taken prompt (cached_tokens (pl_retained p) None) p seq 0 p'"
proof -
  have cached: "cached_tokens (pl_retained p) None = history_tokens (pl_retained p)"
    by (simp add: cached_tokens_def reuse_seq_def history_tokens_def)
  have "\<exists>pos rs. free_pos p = (Some pos, rs) \<and> pos < length (pl_free p) \<and> set rs \<subseteq> set (pl_retained p)
      \<and> distinct (map rt_seq rs) \<and> history_tokens rs \<le> history_tokens (pl_retained p)"
  proof (cases "rposition (\<lambda>s. \<not> list_ex (\<lambda>r. rt_seq r = s) (pl_retained p)) (pl_free p)")
    case (Some pos)
    with rposition_Some [OF Some] d(1) show ?thesis by (auto simp: free_pos_def)
  next
    case None
    then have "\<forall>s \<in> set (pl_free p). list_ex (\<lambda>r. rt_seq r = s) (pl_retained p)" by (simp add: rposition_None)
    with free obtain oldest rest where o: "pl_retained p = oldest # rest"
      by (cases "pl_retained p"; cases "pl_free p") auto
    then have "rt_seq oldest \<in> set (pl_free p)" using d(2) by simp
    then obtain pos where pos: "position (\<lambda>s. s = rt_seq oldest) (pl_free p) = Some pos"
      by (cases "position (\<lambda>s. s = rt_seq oldest) (pl_free p)") (auto simp: position_None)
    with None o d(1) position_Some [OF pos] show ?thesis by (auto simp: free_pos_def history_tokens_def)
  qed
  then obtain pos rs where f: "free_pos p = (Some pos, rs)" "pos < length (pl_free p)" "set rs \<subseteq> set (pl_retained p)"
      "distinct (map rt_seq rs)" "history_tokens rs \<le> history_tokens (pl_retained p)" by blast
  let ?seq = "pl_free p ! pos" and ?rs = "filter (\<lambda>r. rt_seq r \<noteq> pl_free p ! pos) rs"
  have "history_tokens (filter P xs) \<le> history_tokens xs" for P xs
    by (induction xs) (auto simp: history_tokens_def)
  from order_trans [OF this f(5)] have "history_tokens ?rs \<le> history_tokens (pl_retained p)" .
  then show ?thesis
    using f mset_swap_remove [OF f(2)] prompt cached
    by (auto simp: cold_slot_def slot_taken_def Let_def distinct_map_filter)
qed

lemma admit_gen_ok:
  assumes ok: "gens_ok env gs p" and live: "\<forall>g \<in> set gs. \<not> ag_done g"
    and t: "slot_taken (pg_prompt_tokens q) cached p seq reused p'" and q: "prepared_ok env q"
    and room: "sum_list (map ag_budget gs) + pg_budget q + cached \<le> n_ctx env"
  shows "gens_ok env (gs @ [admit_gen now q chain seq reused uid]) p'"
proof -
  let ?g = "admit_gen now q chain seq reused uid"
  have lv: "retain_live gs = gs" using live by (simp add: retain_live_def)
  have pk: "pool_ok env gs p" using ok by (simp add: gens_ok_def)
  have seq: "seq \<in> set (pl_free p)" using t by (metis slot_taken_def set_mset_mset union_single_eq_member)
  have ids: "ag_seq g \<noteq> seq" if "g \<in> set gs" for g
    using slots_distinct(1) [of gs p "n_seq_max env"] pk lv seq that by (auto simp: pool_ok_def)
  have free: "set (pl_free p) = insert seq (set (pl_free p'))"
    using t by (metis slot_taken_def set_mset_add_mset_insert set_mset_mset)
  have new: "gen_ok (kv_of p') ?g"
    using t q
    by (auto simp: gen_ok_def gen_shape_def kv_sound_def admit_gen_def slot_taken_def prepared_ok_def stream_def
        split: option.splits)
  have old: "gen_ok (kv_of p') g" if "g \<in> set gs" for g
    using gen_ok_kv_cong [of "kv_of p'" g "kv_of p"] ids [OF that] ok that live t by (auto simp: gens_ok_def slot_taken_def)
  have "pool_ok env (gs @ [?g]) p'"
    unfolding pool_ok_def
  proof (intro conjI)
    show "slots_of (gs @ [?g]) p' = mset [0..<n_seq_max env]"
      using pk t lv by (simp add: pool_ok_def slots_of_def slot_taken_def admit_gen_def)
    show "distinct (map rt_seq (pl_retained p'))" "\<not> pl_panicked p'" using t pk by (simp_all add: slot_taken_def pool_ok_def)
    show "rt_seq ` set (pl_retained p') \<subseteq> set (pl_free p')"
    proof
      fix x assume x: "x \<in> rt_seq ` set (pl_retained p')"
      then have "x \<in> rt_seq ` set (pl_retained p)" "x \<noteq> seq" using t by (auto simp: slot_taken_def)
      moreover from this(1) have "x \<in> set (pl_free p)" using pk unfolding pool_ok_def by blast
      ultimately have "x \<in> set (pl_free p)" "x \<noteq> seq" by blast+
      with free show "x \<in> set (pl_free p')" by simp
    qed
    show "\<forall>r \<in> set (pl_retained p'). kv_of p' (rt_seq r) = rt_history r"
    proof
      fix r assume r: "r \<in> set (pl_retained p')"
      then have "r \<in> set (pl_retained p)" "rt_seq r \<noteq> seq" using t by (auto simp: slot_taken_def)
      then show "kv_of p' (rt_seq r) = rt_history r" using t pk by (simp add: slot_taken_def pool_ok_def)
    qed
    show "sum_list (map ag_budget (retain_live (gs @ [?g]))) + history_tokens (pl_retained p') \<le> n_ctx env"
      using room t lv by (simp add: slot_taken_def admit_gen_def)
  qed
  then show ?thesis using new old by (auto simp: gens_ok_def)
qed

text \<open>Eviction and the terminal event of a request without a sampler leave the rest alone.\<close>

lemma evict_ok:
  assumes ok: "gens_ok env gs p"
    and e: "evict E room need (pl_retained p) reuse (pl_session p) = (retained, reuse', session)"
    and u: "reuse_fits (pl_retained p) reuse"
  shows "gens_ok env gs (p\<lparr>pl_retained := retained, pl_session := session\<rparr>)"
proof -
  have pk: "pool_ok env gs p" using ok by (simp add: gens_ok_def)
  have d: "distinct (map rt_seq (pl_retained p))" using pk by (simp add: pool_ok_def)
  note S = evict_spec [OF e u d]
  have ids: "ag_seq g \<notin> rt_seq ` set (pl_retained p)" if "g \<in> set (retain_live gs)" for g
    using slots_distinct(1) [of gs p "n_seq_max env"] pk that by (auto simp: pool_ok_def)
  have "history_tokens retained \<le> history_tokens (pl_retained p)"
  proof -
    have "mset retained \<subseteq># mset (pl_retained p)"
      using S d distinct_rt_seq by (metis mset_set_set subset_imp_msubset_mset_set finite_set)
    then show ?thesis unfolding history_tokens_def by (rule sum_list_submset_le)
  qed
  with pk S have "pool_ok env gs (p\<lparr>pl_retained := retained, pl_session := session\<rparr>)"
    by (auto simp: pool_ok_def slots_of_def)
  moreover have "gen_ok (se_kv session) g" if "g \<in> set (retain_live gs)" for g
    using gen_ok_kv_cong [of "se_kv session" g "kv_of p"] ids [OF that] S ok that by (auto simp: gens_ok_def)
  ultimately show ?thesis by (simp add: gens_ok_def)
qed

lemma admissions_inv:
  "gens_ok env (sm_active s) (sm_pool s) \<Longrightarrow> \<forall>g \<in> set (sm_active s). \<not> ag_done g \<Longrightarrow>
   \<forall>q \<in> set qs. prepared_ok env q \<Longrightarrow> serve_inv env (admissions env now qs s)"
proof (induction qs arbitrary: s)
  case Nil
  then show ?case by (simp add: serve_inv_def)
next
  case (Cons q qs)
  let ?E = "sx_engine env" and ?p = "sm_pool s" and ?used = "sum_list (map ag_budget (sm_active s))"
  define reuse where "reuse = (if hp_kv_reuse (sx_perf env) \<and> \<not> pg_resumed q
      then best_reuse (pg_prompt_tokens q) 0 (pl_retained ?p) None else None)"
  obtain retained reuse' session where e: "evict ?E (n_ctx env) (?used + pg_budget q) (pl_retained ?p) reuse (pl_session ?p)
      = (retained, reuse', session)" by (metis surj_pair)
  have best: "idx < length (pl_retained ?p) \<and> lcp = reuse_lcp (pg_prompt_tokens q) (pl_retained ?p ! idx) \<and> REUSE_FLOOR \<le> lcp"
    if "reuse = Some (idx, lcp)" for idx lcp
    using that best_reuse_Some [of "pg_prompt_tokens q" 0 "pl_retained ?p" None idx lcp]
    by (auto simp: reuse_def split: if_splits)
  then have u: "reuse_fits (pl_retained ?p) reuse" by (auto simp: reuse_fits_def split: option.splits)
  define p1 where "p1 = ?p\<lparr>pl_retained := retained, pl_session := session\<rparr>"
  have ok1: "gens_ok env (sm_active s) p1" unfolding p1_def by (rule evict_ok [OF Cons.prems(1) e u])
  then have pk: "pool_ok env (sm_active s) p1" by (simp add: gens_ok_def)
  have ret: "distinct (map rt_seq (pl_retained p1))" "rt_seq ` set (pl_retained p1) \<subseteq> set (pl_free p1)" "distinct (pl_free p1)"
      "\<forall>r \<in> set (pl_retained p1). kv_of p1 (rt_seq r) = rt_history r"
    using pk slots_distinct(1) [of "sm_active s" p1 "n_seq_max env"] by (auto simp: pool_ok_def)
  have lv: "retain_live (sm_active s) = sm_active s" using Cons.prems(2) by (simp add: retain_live_def)
  have q: "prepared_ok env q" using Cons.prems(3) by simp
  have A: "admissions env now (q # qs) s =
     (if n_seq_max env \<le> length (sm_active s) then s\<lparr>sm_queue := q # qs\<rparr>
      else if n_ctx env < ?used + pg_budget q + cached_tokens retained reuse'
      then s\<lparr>sm_pool := p1, sm_queue := q # qs\<rparr>
      else (case Sampler_new ?E (sampler_of (jb_params (pg_job q))) (pg_tx q, pg_resumed q) of
          Inl e \<Rightarrow> admissions env now qs (s\<lparr>sm_pool :=
            send_outcome (pg_outcome q) Finished (deliver_terminal (pg_tx q) (ErrorEv (EngineText e)) p1)\<rparr>)
        | Inr chain \<Rightarrow>
            (case (case reuse' of Some (idx, lcp) \<Rightarrow> Some (reuse_slot ?E idx lcp p1) | None \<Rightarrow> cold_slot ?E p1) of
               None \<Rightarrow> s\<lparr>sm_pool := p1\<lparr>pl_panicked := True\<rparr>, sm_queue := qs\<rparr>
             | Some (seq, reused, p) \<Rightarrow>
                 admissions env now qs (s\<lparr>sm_pool := p, sm_next_uid := add64 (sm_next_uid s) 1,
                   sm_active := sm_active s @ [admit_gen now q chain seq reused (sm_next_uid s)]\<rparr>))))"
    unfolding admissions.simps Let_def reuse_def [symmetric] e prod.case p1_def ..
  show ?case
  proof (cases "n_seq_max env \<le> length (sm_active s)")
    case True
    with Cons.prems show ?thesis unfolding A by (simp add: serve_inv_def)
  next
    case few: False
    show ?thesis
    proof (cases "n_ctx env < ?used + pg_budget q + cached_tokens retained reuse'")
      case True
      with few Cons.prems ok1 show ?thesis unfolding A by (simp add: serve_inv_def)
    next
      case room: False
      show ?thesis
      proof (cases "Sampler_new ?E (sampler_of (jb_params (pg_job q))) (pg_tx q, pg_resumed q)")
        case (Inl er)
        let ?p' = "send_outcome (pg_outcome q) Finished (deliver_terminal (pg_tx q) (ErrorEv (EngineText er)) p1)"
        have "gens_ok env (sm_active s) ?p' = gens_ok env (sm_active s) p1" by (rule gens_ok_frame) simp_all
        then have "serve_inv env (admissions env now qs (s\<lparr>sm_pool := ?p'\<rparr>))"
          by (intro Cons.IH) (use Cons.prems ok1 in simp_all)
        then show ?thesis using few room Inl unfolding A by simp
      next
        case (Inr chain)
        have "length (pl_free p1) + length (sm_active s) = n_seq_max env"
        proof -
          have "slots_of (sm_active s) p1 = mset [0..<n_seq_max env]" using pk by (simp add: pool_ok_def)
          from arg_cong [OF this, of size] show ?thesis by (simp add: slots_of_def lv)
        qed
        then have free: "pl_free p1 \<noteq> []" using few by auto
        have "\<exists>seq reused p2. (case reuse' of Some (idx, lcp) \<Rightarrow> Some (reuse_slot ?E idx lcp p1) | None \<Rightarrow> cold_slot ?E p1) =
            Some (seq, reused, p2) \<and> slot_taken (pg_prompt_tokens q) (cached_tokens retained reuse') p1 seq reused p2"
        proof (cases reuse')
          case None
          then show ?thesis
            using cold_slot_taken [OF free _ ret(1,2,3), of "pg_prompt_tokens q" ?E] q by (auto simp: prepared_ok_def p1_def)
        next
          case (Some v)
          obtain idx lcp where v: "v = (idx, lcp)" by (meson surj_pair)
          have d: "distinct (map rt_seq (pl_retained ?p))" using Cons.prems(1) by (simp add: gens_ok_def pool_ok_def)
          note S = evict_spec [OF e u d]
          from S Some v have "chosen (pl_retained ?p) reuse = Some (retained ! idx, lcp)" "idx < length retained"
            by (auto simp: chosen_def reuse_fits_def)
          then obtain idx0 where r0: "reuse = Some (idx0, lcp)" "pl_retained ?p ! idx0 = retained ! idx" "idx < length (pl_retained p1)"
            by (auto simp: chosen_def p1_def)
          obtain seq reused p2 where r: "reuse_slot ?E idx lcp p1 = (seq, reused, p2)" by (metis surj_pair)
          have "lcp = reuse_lcp (pg_prompt_tokens q) (pl_retained p1 ! idx)" "0 < lcp"
            using best [OF r0(1)] r0(2) by (simp_all add: p1_def REUSE_FLOOR_def)
          from reuse_slot_taken [OF r r0(3) this ret(1,2,3,4)] r Some v show ?thesis by (simp add: p1_def)
        qed
        then obtain seq reused p2 where sl: "(case reuse' of Some (idx, lcp) \<Rightarrow> Some (reuse_slot ?E idx lcp p1) | None \<Rightarrow> cold_slot ?E p1) =
            Some (seq, reused, p2)" "slot_taken (pg_prompt_tokens q) (cached_tokens retained reuse') p1 seq reused p2" by blast
        let ?s = "s\<lparr>sm_pool := p2, sm_next_uid := add64 (sm_next_uid s) 1,
          sm_active := sm_active s @ [admit_gen now q chain seq reused (sm_next_uid s)]\<rparr>"
        have "gens_ok env (sm_active ?s) (sm_pool ?s)"
          using admit_gen_ok [OF ok1 Cons.prems(2) sl(2) q] room by simp
        then have "serve_inv env (admissions env now qs ?s)"
          by (rule Cons.IH) (use Cons.prems in \<open>auto simp: admit_gen_def\<close>)
        then show ?thesis using few room Inr sl(1) unfolding A by simp
      qed
    qed
  qed
qed

lemma phase_admit_inv: "serve_inv env s \<Longrightarrow> serve_inv env (phase_admit env now s)"
  unfolding phase_admit_def by (rule admissions_inv) (simp_all add: serve_inv_def)

section \<open>A step keeps it\<close>

text \<open>
  A generation whose prefix and confirmed tokens are in memory and that has no pending token: it
  is about to finish, fail or stage its next token.
\<close>

definition ready :: "kv \<Rightarrow> ActiveGen \<Rightarrow> bool" where
  "ready kv g \<longleftrightarrow> \<not> ag_done g \<and> gen_shape g \<and> ag_terminal_after_drain g = None \<and> \<not> ag_kv_suspect g
   \<and> length (ag_prefix g) \<le> ag_prefill_done g \<and> ag_kv_len g = length (stream g) \<and> kv (ag_seq g) = stream g"

lemma ready_delivers: "delivers g cs g' cs' \<Longrightarrow> ready kv g' = ready kv g"
  using delivers_fields [of g cs g' cs'] by (simp add: ready_def gen_shape_def)

lemma stage_pending_delivers:
  assumes "stage_pending now distributed t piece g cs = (g', cs')"
  obtains scan pd h where "delivers (g\<lparr>ag_scan := scan\<rparr>) cs h cs'" "g' = h\<lparr>ag_pending := Some pd\<rparr>" "tok_of pd = t"
proof (cases distributed)
  case True
  with assms have "g' = g\<lparr>ag_scan := ag_scan g, ag_pending := Some (Unsent t piece)\<rparr>" "cs' = cs"
    by (auto simp: stage_pending_def)
  then show ?thesis by (intro that [of "ag_scan g" g "Unsent t piece"]) (simp_all add: delivers_refl)
next
  case False
  obtain ok scan where a: "admit (ag_scan g) piece = (ok, scan)" by (meson surj_pair)
  obtain h cs1 where h: "(if ok then deliver_piece now piece (g\<lparr>ag_scan := scan\<rparr>) cs else (g\<lparr>ag_scan := scan\<rparr>, cs)) = (h, cs1)"
    by (meson surj_pair)
  have "delivers (g\<lparr>ag_scan := scan\<rparr>) cs h cs1"
    using h by (auto simp: delivers_refl deliver_piece_delivers split: if_splits)
  moreover have "g' = h\<lparr>ag_pending := Some (Sent t ok)\<rparr>" "cs' = cs1"
    using assms False a h by (simp_all add: stage_pending_def Let_def)
  ultimately show ?thesis by (intro that [of scan h "Sent t ok"]) simp_all
qed

lemma stage_pending_step:
  assumes st: "stage_pending now distributed t piece g (pl_chans p) = (g', cs')" and r: "ready (kv_of p) g" "0 < ag_remaining g"
  shows "local_step g p g' (p\<lparr>pl_chans := cs'\<rparr>) \<and> \<not> ag_done g' \<and> gen_ok (kv_of p) g'"
proof -
  from st obtain scan pd h where h: "delivers (g\<lparr>ag_scan := scan\<rparr>) (pl_chans p) h cs'" "g' = h\<lparr>ag_pending := Some pd\<rparr>"
    by (rule stage_pending_delivers)
  note F = delivers_fields [OF h(1)]
  have "local_step (g\<lparr>ag_scan := scan\<rparr>) p h (p\<lparr>pl_chans := cs'\<rparr>)" "\<not> ag_done h"
    using delivers_local [OF h(1)] r(1) by (auto simp: ready_def)
  then have "local_step g p g' (p\<lparr>pl_chans := cs'\<rparr>)" "\<not> ag_done g'" using h(2) by (simp_all add: local_step_def)
  moreover have "gen_ok (kv_of p) g'"
    using F r h(2) by (auto simp: gen_ok_def ready_def gen_shape_def kv_sound_def stream_def)
  ultimately show ?thesis by blast
qed

lemma apply_finish_step:
  assumes a: "apply_finish env now kind g p = (g', p')" and r: "ready (kv_of p) g"
  shows "local_step g p g' p' \<and> (ag_done g' \<or> gen_ok (kv_of p') g')"
proof (cases "ag_held g = []")
  case True
  then have f: "finish_seq (sx_engine env) now kind (hp_kv_reuse (sx_perf env)) g p = (g', p')"
    using a by (simp add: apply_finish_def)
  have "kv_of p (ag_seq g) = stream g \<and> length (stream g) \<le> ag_budget g"
    using r by (simp add: ready_def gen_shape_def)
  from finish_seq_local [OF f this] show ?thesis by blast
next
  case False
  then have "g' = g\<lparr>ag_terminal_after_drain := Some (DeferFinish kind)\<rparr>" "p' = p"
    using a by (simp_all add: apply_finish_def)
  then show ?thesis
    using r by (auto simp: local_step_def gen_ok_def ready_def gen_shape_def kv_sound_def stream_def)
qed

lemma fail_seq_step:
  assumes f: "fail_seq E message g p = (g', p')" and live: "\<not> ag_done g" and sh: "gen_shape g"
    and fin: "\<And>k. ag_terminal_after_drain g = Some (DeferFinish k) \<Longrightarrow> ag_kv_suspect g \<or> kv_sound (kv_of p) g"
  shows "local_step g p g' p' \<and> (ag_done g' \<or> gen_ok (kv_of p') g')"
proof -
  note L = fail_seq_local [OF f live]
  have "gen_ok (kv_of p') g'" if "\<not> ag_done g'"
    using L(2) [OF that] sh fin
    by (cases "ag_terminal_after_drain g"; cases "the (ag_terminal_after_drain g)")
      (auto simp: gen_ok_def gen_shape_def kv_sound_def stream_def)
  with L(1) show ?thesis by blast
qed

lemma stage_next_step:
  assumes s: "stage_next env now next g p = (g', p')" and r: "ready (kv_of p) g" "0 < ag_remaining g"
  shows "local_step g p g' p' \<and> (ag_done g' \<or> gen_ok (kv_of p') g')"
proof (cases "en_is_eog (sx_engine env) next")
  case True
  with s have "apply_finish env now Stop g p = (g', p')" by (simp add: stage_next_def)
  from apply_finish_step [OF this r(1)] show ?thesis .
next
  case neog: False
  show ?thesis
  proof (cases "en_piece (sx_engine env) next")
    case (Inl e)
    with s neog have f: "fail_seq (sx_engine env) (EngineText e) g p = (g', p')" by (simp add: stage_next_def)
    show ?thesis by (rule fail_seq_step [OF f]) (use r in \<open>auto simp: ready_def\<close>)
  next
    case (Inr piece)
    obtain h cs where h: "stage_pending now (sx_distributed env) next piece g (pl_chans p) = (h, cs)" by (meson surj_pair)
    with s neog Inr have "g' = h" "p' = p\<lparr>pl_chans := cs\<rparr>" by (simp_all add: stage_next_def)
    with stage_pending_step [OF h r] show ?thesis by simp
  qed
qed

lemma local_step_cong:
  "ag_seq h = ag_seq g \<Longrightarrow> ag_job h = ag_job g \<Longrightarrow> ag_budget h = ag_budget g \<Longrightarrow>
   local_step h p g' p' = local_step g p g' p'"
  unfolding local_step_def by (simp only:)

lemma local_step_from:
  "local_step h p g' p' \<Longrightarrow> ag_seq h = ag_seq g \<Longrightarrow> ag_job h = ag_job g \<Longrightarrow> ag_budget h = ag_budget g \<Longrightarrow>
   local_step g p g' p'"
  using local_step_cong by blast

text \<open>The decoded token of a plain step is confirmed.\<close>

definition fed :: "Token list \<Rightarrow> ActiveGen \<Rightarrow> bool" where
  "fed toks g \<longleftrightarrow> \<not> ag_done g \<and> gen_shape g \<and> ag_terminal_after_drain g = None \<and> \<not> ag_kv_suspect g
   \<and> length (ag_prefix g) \<le> ag_prefill_done g \<and> ag_kv_len g = length (stream g) \<and> 0 < ag_remaining g
   \<and> ag_held g = [] \<and> (\<exists>pd. ag_pending g = Some pd \<and> toks = stream g @ [tok_of pd])"

definition confirmed_tok :: "PendingTok \<Rightarrow> ActiveGen \<Rightarrow> ActiveGen" where
  "confirmed_tok pd g = g\<lparr>ag_kv_len := ag_kv_len g + 1, ag_pending := None,
     ag_attempt_tokens := ag_attempt_tokens g @ [tok_of pd], ag_remaining := ag_remaining g - 1\<rparr>"

definition carry_on :: "serve_env \<Rightarrow> nat \<Rightarrow> usize \<Rightarrow> ActiveGen \<Rightarrow> pool \<Rightarrow> ActiveGen \<times> pool" where
  "carry_on env now index g p =
     (if ag_remaining g = 0 then apply_finish env now Length g p
      else (let (next, chain) = sample_ith_with (sx_engine env) (pl_session p) (ag_chain g) index in
            stage_next env now next (g\<lparr>ag_chain := chain\<rparr>) p))"

lemma confirm_decode_eq:
  assumes "ag_pending g = Some pd"
  shows "confirm_decode env now index g p = (case pd of
      Sent _ admitted \<Rightarrow> if admitted then carry_on env now index (confirmed_tok pd g) p
        else finish_seq (sx_engine env) now Stop (hp_kv_reuse (sx_perf env)) (confirmed_tok pd g) p
    | Unsent _ piece \<Rightarrow>
        let (ok, scan) = admit (ag_scan g) piece; g1 = (confirmed_tok pd g)\<lparr>ag_scan := scan\<rparr> in
        if \<not> ok then finish_seq (sx_engine env) now Stop (hp_kv_reuse (sx_perf env)) g1 p
        else (case try_send (ag_tx g) (TokenEv piece) (pl_chans p) of
            (SendOk, cs) \<Rightarrow> carry_on env now index (note_sent now g1) (p\<lparr>pl_chans := cs\<rparr>)
          | (SendFull, cs) \<Rightarrow> carry_on env now index (note_stall now (g1\<lparr>ag_held := ag_held g1 @ [piece]\<rparr>)) (p\<lparr>pl_chans := cs\<rparr>)
          | (SendClosed, cs) \<Rightarrow> cancel_seq (sx_engine env) g1 (p\<lparr>pl_chans := cs\<rparr>)))"
  using assms
  by (cases pd) (simp_all add: confirm_decode_def carry_on_def confirmed_tok_def Let_def split_beta
      cong: if_cong split: sent.split)

lemma carry_on_step:
  assumes c: "carry_on env now index g p = (g', p')" and r: "ready (kv_of p) g"
  shows "local_step g p g' p' \<and> (ag_done g' \<or> gen_ok (kv_of p') g')"
proof (cases "ag_remaining g = 0")
  case True
  with c have "apply_finish env now Length g p = (g', p')" by (simp add: carry_on_def)
  from apply_finish_step [OF this r] show ?thesis .
next
  case False
  obtain nx chain where n: "sample_ith_with (sx_engine env) (pl_session p) (ag_chain g) index = (nx, chain)"
    by (meson surj_pair)
  with c False have s: "stage_next env now nx (g\<lparr>ag_chain := chain\<rparr>) p = (g', p')" by (simp add: carry_on_def)
  have "ready (kv_of p) (g\<lparr>ag_chain := chain\<rparr>)" using r by (simp add: ready_def gen_shape_def stream_def)
  from stage_next_step [OF s this] False have "local_step (g\<lparr>ag_chain := chain\<rparr>) p g' p' \<and> (ag_done g' \<or> gen_ok (kv_of p') g')"
    by simp
  then show ?thesis using local_step_from [of "g\<lparr>ag_chain := chain\<rparr>" p g' p' g] by simp
qed

end
