(* ===== verification/Spec2Isabelle.thy ===== *)
theory Spec2Isabelle
  imports PlanM3 PlanV1 PlanV2 Split Version Update Cache Gc Ranges Fetch Cluster Load Generation
    Supervisor Mesh ServeInv
begin

text \<open>
  \<^bold>\<open>OneBrain\<close> runs one language model across the computers of a household. Each computer runs a
  daemon. Daemons pair with a six-digit code and keep sessions with each other; the daemon a user
  talks to (the head) reads the header of a model file, plans which device holds which layers,
  asks the others to accept the plan, loads the model and serves generations; when a device
  disappears a supervisor replans and reissues the interrupted generations. This development
  models those parts from the sources under \<open>src/crates\<close> and proves what makes each correct.

  \<^bold>\<open>Conventions.\<close> Fixed-width unsigned integers are \<open>nat\<close> with the wrap-around of each operation
  written out (\<open>add32\<close>, \<open>sub64\<close>, \<open>as_u32\<close>, saturating and checked forms; Prelude). Fallible code
  returns \<open>Ok\<close>, \<open>Err\<close> or \<open>Panic\<close> (\<open>res\<close>), so an overflow check, a division by zero or an
  index out of range is a value and a theorem that excludes it says so. \<open>f64\<close> and \<open>f32\<close> are
  IEEE 754 values rounded to nearest even (Float64). A Rust \<open>String\<close> is its UTF-8 bytes (Text). Every
  definition of the model is executable and total; loops that the code bounds by a counter or a
  file size recurse on it, and the two header loops whose end depends on what a parser asks for are
  \<open>partial_function (option)\<close> with a proof that they return. There is no fuel.

  \<^bold>\<open>Models\<close> (\<open>onebrain-models\<close>).
  \<^item> Gguf: \<open>gguf.rs\<close>, the header parser as a reader over a byte list. The locale \<open>reader\<close> states what
    a parser that may ask for more bytes owes its caller and is interpreted on \<open>parse_reader\<close>:
    a longer input never changes a decision, and a request asks for more than it has seen.
    \<open>tensor_ranges\<close> tile the data section.
  \<^item> Split: \<open>split.rs\<close>, names of the parts of a split model. Cache, Gc: \<open>cache.rs\<close> and
    \<open>run_cache_gc\<close> of \<open>onebraind/src/logistics.rs\<close>, on a tree of directories: what is listed,
    what is evicted in which order, what a pin protects.
  \<^item> Ranges, Fetch: \<open>ranges.rs\<close>, the byte ranges a node needs for its layers, the record of
    verified ranges, resumable HTTP fetches. A finished fetch delivers the planned bytes, and the
    store stays true to its record.

  \<^bold>\<open>Planning\<close> (\<open>onebrain-scheduler\<close>).
  \<^item> Proto, Placement: the plan vocabulary (\<open>onebrain-proto\<close>) and what the planners share. The locale
    \<open>planner\<close> is the contract of a planner: every layer on exactly one stage, distinct devices, the
    head among them. It is interpreted on all three.
  \<^item> Dims: \<open>dims.rs\<close>, the memory shape of a model from its header. PlanM3: the first planner.
  \<^item> Apportion, Cands, Stages, Select, Assemble, PlanV1: \<open>v1.rs\<close> and \<open>profile.rs\<close> step by step (budgets,
    largest remainders, stage orders, inclusion of workers, assembly). The locale \<open>evaluator\<close> is what
    selection needs from a cost function, \<open>distributor\<close> what a planner built on it promises, and a
    sublocale shows that every distributor is a planner.
  \<^item> PlanV2: \<open>v2.rs\<close>, the search over tilted splits and stage orders; budgets are respected, the
    search is optimal over its family and never worse than v1.

  \<^bold>\<open>Pairing and sessions\<close> (\<open>onebrain-mesh\<close>, \<open>onebrain-proto\<close>).
  \<^item> PeerStore: \<open>store.rs\<close>. Pairing: \<open>pair.rs\<close>, \<open>pairing.rs\<close>, both roles of the exchange as programs.
    Link: one session of \<open>service.rs\<close> with its heartbeat. Mesh: the event loop of
    \<open>service.rs\<close> as a step relation in which spawned work completes in any order.
  \<^item> Shown: only a peer that proved the code is stored and only stored or proven peers get a session;
    two honest sides agree exactly when their codes do; simultaneous connections resolve alike on
    both sides; redials back off to a cap and reach every due peer; a silent peer is given up.

  \<^bold>\<open>The daemon\<close> (\<open>onebraind\<close>).
  \<^item> Cluster: \<open>cluster.rs\<close>, the session state and the task that follows the control messages; a worker
    serves a data stream only under the plan it last accepted.
  \<^item> Load: \<open>plan_load\<close>, the two activations and \<open>drive_load\<close> of \<open>server.rs\<close>; plans use connected peers
    with known budgets, and an activation leaves either the whole plan or nothing in place.
  \<^item> Supervisor: \<open>supervisor.rs\<close>, as a function per interruption and a step relation for the life of
    the jobs; one teardown per epoch, one retry per job, one outcome per epoch.
  \<^item> Generation: the stop scan, the state carried by an interrupted generation and the admission
    counter of \<open>engine_host.rs\<close>. Engine: sessions, batches and sampling of
    \<open>onebrain-engine/src/lib.rs\<close>. Serve: the whole of \<open>serve_model\<close> (preparing, admitting, batched
    and speculative decoding, delivery to slow clients, interruption, the swap barrier) as the step
    relation \<open>serve_step\<close>, in which clients act between the phases of a pass.
  \<^item> ServeInv: the slots of the serve loop. The locale \<open>gen_op\<close> is what an operation on one generation
    owes the loop (it touches only its own sequence, channel and slot) and is interpreted on the
    operations the loop maps over its generations.

  \<^bold>\<open>The command line\<close>: Version, Update (\<open>onebrain-cli/src/update\<close>), the release order and the
  self-update, which installs only what the checksum file and the signature cover and never leaves the
  user without a binary.

  \<^bold>\<open>How the parts meet.\<close> Gguf feeds Dims, Ranges and Load; Dims, the device profiles and Cluster's
  view of the peers (kept by Link and Mesh) make the request that Load gives to PlanV2; the plan goes
  out through Cluster's proposals, is fetched by Fetch and served by Serve; Serve hands interrupted
  generations to Supervisor, which calls Load again and reissues them.

  \<^bold>\<open>Parameters.\<close> What the sources take from other crates is an argument of the definitions that use
  it: HTTP servers, SHA-256, BLAKE3, cosign, archives, JSON and TOML codecs, SPAKE2, postcard, the
  QUIC endpoint, the clock, the disk's failures, and llama.cpp behind the record \<open>engine\<close>.
  Hypotheses about them are premises of the theorems that need them, each with a witness.

  \<^bold>\<open>Not modelled.\<close> The HTTP dialects, the command line and the dashboard (documents and routes),
  registry lookups, full-file downloads, blob transfer and identity files (calls into
  libraries), power probes, configuration, locks and metrics, the advisor's texts, the llama.cpp
  bindings, embedding requests, the host loop that loads and unloads models around \<open>serve_model\<close>,
  log output, and the simulators of \<open>xtask\<close>.
\<close>

end
